(* ===== verification/Paihuo_Prelude.thy ===== *)
theory Paihuo_Prelude
  imports Main "HOL-Library.Word" "HOL-Library.Char_ord" "HOL-Library.List_Lexorder"
    "HOL-Library.Product_Lexorder" "HOL-Library.Multiset"
begin

text \<open>
  What the components of the development share: results of fallible Go functions as sums,
  the SQL statements the store issues as list operations on the rows of a table, the few
  functions of Go's \<^verbatim>\<open>strings\<close> package the code calls, and the lemma collections that
  carry the component proofs.
\<close>

named_theorems result_simps \<open>sequencing of fallible steps\<close>
named_theorems table_simps \<open>lookup after a table statement\<close>

section \<open>Results\<close>

text \<open>
  A Go function that returns \<open>(T, error)\<close> is a sum: \<open>Inl\<close> the error, \<open>Inr\<close> the value.
  A transaction whose result is an error leaves the caller with the state it had, which is
  what the deferred \<^verbatim>\<open>tx.Rollback()\<close> does.
\<close>

definition rbind :: "'e + 'a \<Rightarrow> ('a \<Rightarrow> 'e + 'b) \<Rightarrow> 'e + 'b" where
  "rbind r f = (case r of Inl e \<Rightarrow> Inl e | Inr x \<Rightarrow> f x)"

definition rguard :: "bool \<Rightarrow> 'e \<Rightarrow> 'e + unit" where
  "rguard b e = (if b then Inr () else Inl e)"

lemma rbind_Inl [simp]: "rbind (Inl e) f = Inl e"
  by (simp add: rbind_def)

lemma rbind_Inr [simp]: "rbind (Inr x) f = f x"
  by (simp add: rbind_def)

lemma rbind_eq_Inr [result_simps]: "rbind r f = Inr y \<longleftrightarrow> (\<exists>x. r = Inr x \<and> f x = Inr y)"
  by (cases r) (auto simp: rbind_def)

lemma rbind_eq_Inl [result_simps]:
  "rbind r f = Inl e \<longleftrightarrow> r = Inl e \<or> (\<exists>x. r = Inr x \<and> f x = Inl e)"
  by (cases r) (auto simp: rbind_def)

lemma rguard_eq_Inr [result_simps]: "rguard b e = Inr u \<longleftrightarrow> b"
  by (auto simp: rguard_def)

lemma rguard_eq_Inl [result_simps]: "rguard b e = Inl e' \<longleftrightarrow> \<not> b \<and> e' = e"
  by (auto simp: rguard_def)

lemma rguard_True [simp]: "rguard True e = Inr ()"
  by (simp add: rguard_def)

lemma rguard_False [simp]: "rguard False e = Inl e"
  by (simp add: rguard_def)

section \<open>Statements on the rows of a table\<close>

text \<open>
  A table is the list of its rows in rowid order. \<open>sel\<close> is \<^verbatim>\<open>SELECT ... WHERE id=?\<close>,
  \<open>upd_where\<close> is \<^verbatim>\<open>UPDATE ... WHERE p\<close>, \<open>affected\<close> the driver's
  \<^verbatim>\<open>RowsAffected\<close>, \<open>del_where\<close> is \<^verbatim>\<open>DELETE ... WHERE p\<close>.
\<close>

definition sel :: "('r \<Rightarrow> int) \<Rightarrow> int \<Rightarrow> 'r list \<Rightarrow> 'r option" where
  "sel key i rows = find (\<lambda>r. key r = i) rows"

definition upd_where :: "('r \<Rightarrow> bool) \<Rightarrow> ('r \<Rightarrow> 'r) \<Rightarrow> 'r list \<Rightarrow> 'r list" where
  "upd_where p f rows = map (\<lambda>r. if p r then f r else r) rows"

definition affected :: "('r \<Rightarrow> bool) \<Rightarrow> 'r list \<Rightarrow> nat" where
  "affected p rows = length (filter p rows)"

definition del_where :: "('r \<Rightarrow> bool) \<Rightarrow> 'r list \<Rightarrow> 'r list" where
  "del_where p rows = filter (\<lambda>r. \<not> p r) rows"

lemma sel_Nil [simp]: "sel key i [] = None"
  by (simp add: sel_def)

lemma sel_Cons [simp]: "sel key i (r # rs) = (if key r = i then Some r else sel key i rs)"
  by (simp add: sel_def)

lemma sel_Some_mem [dest]: "sel key i rows = Some r \<Longrightarrow> r \<in> set rows \<and> key r = i"
  by (auto simp: sel_def find_Some_iff)

lemma sel_None_iff: "sel key i rows = None \<longleftrightarrow> i \<notin> key ` set rows"
  by (auto simp: sel_def find_None_iff)

lemma sel_not_mem: "i \<notin> key ` set rows \<Longrightarrow> sel key i rows = None"
  by (simp add: sel_None_iff)

lemma sel_distinct:
  "distinct (map key rows) \<Longrightarrow> r \<in> set rows \<Longrightarrow> sel key (key r) rows = Some r"
  by (induction rows) (auto simp: rev_image_eqI)

lemma sel_append:
  "sel key i (xs @ ys) = (case sel key i xs of None \<Rightarrow> sel key i ys | Some r \<Rightarrow> Some r)"
  by (induction xs) auto

lemma upd_where_Nil [simp]: "upd_where p f [] = []"
  by (simp add: upd_where_def)

lemma upd_where_Cons [simp]:
  "upd_where p f (r # rs) = (if p r then f r else r) # upd_where p f rs"
  by (simp add: upd_where_def)

lemma upd_where_append [simp]: "upd_where p f (xs @ ys) = upd_where p f xs @ upd_where p f ys"
  by (simp add: upd_where_def)

lemma set_upd_where: "set (upd_where p f rows) = (\<lambda>r. if p r then f r else r) ` set rows"
  by (simp add: upd_where_def)

lemma length_upd_where [simp]: "length (upd_where p f rows) = length rows"
  by (simp add: upd_where_def)

lemma map_upd_where:
  "(\<And>r. r \<in> set rows \<Longrightarrow> p r \<Longrightarrow> g (f r) = g r) \<Longrightarrow> map g (upd_where p f rows) = map g rows"
  by (auto simp: upd_where_def)

lemma sel_upd_where [table_simps]:
  "(\<And>r. key (f r) = key r) \<Longrightarrow>
   sel key i (upd_where p f rows) = map_option (\<lambda>r. if p r then f r else r) (sel key i rows)"
  by (induction rows) auto

lemma upd_where_id: "(\<And>r. r \<in> set rows \<Longrightarrow> \<not> p r) \<Longrightarrow> upd_where p f rows = rows"
  by (simp add: upd_where_def map_idI)

lemma affected_0_iff: "affected p rows = 0 \<longleftrightarrow> (\<forall>r\<in>set rows. \<not> p r)"
  by (auto simp: affected_def filter_empty_conv)

lemma affected_key:
  "distinct (map key rows) \<Longrightarrow>
   affected (\<lambda>r. key r = i \<and> q r) rows =
     (case sel key i rows of None \<Rightarrow> 0 | Some r \<Rightarrow> if q r then 1 else 0)"
proof (induction rows)
  case Nil
  then show ?case by (simp add: affected_def)
next
  case (Cons r rows)
  have "affected (\<lambda>r. key r = i \<and> q r) (r # rows) =
      (if key r = i \<and> q r then 1 else 0) + affected (\<lambda>r. key r = i \<and> q r) rows"
    by (simp add: affected_def)
  then show ?case
    using Cons by (auto simp: sel_not_mem split: option.splits)
qed

lemma sel_del_where [table_simps]:
  "distinct (map key rows) \<Longrightarrow>
   sel key i (del_where p rows) =
     (case sel key i rows of None \<Rightarrow> None | Some r \<Rightarrow> if p r then None else Some r)"
proof (induction rows)
  case Nil
  then show ?case by (simp add: del_where_def)
next
  case (Cons r rows)
  have "del_where p (r # rows) = (if p r then del_where p rows else r # del_where p rows)"
    by (simp add: del_where_def)
  then show ?case
    using Cons by (auto simp: sel_not_mem split: option.splits)
qed

lemma set_del_where [simp]: "set (del_where p rows) = {r \<in> set rows. \<not> p r}"
  by (auto simp: del_where_def)

lemma distinct_map_del_where: "distinct (map key rows) \<Longrightarrow> distinct (map key (del_where p rows))"
  by (simp add: del_where_def distinct_map_filter)

section \<open>Aggregates\<close>

text \<open>\<^verbatim>\<open>COALESCE(MAX(c), 0)\<close> over the values of a column.\<close>

definition max_or_zero :: "int list \<Rightarrow> int" where
  "max_or_zero xs = (if xs = [] then 0 else Max (set xs))"

lemma max_or_zero_ge: "x \<in> set xs \<Longrightarrow> x \<le> max_or_zero xs"
  by (auto simp: max_or_zero_def)

section \<open>Strings of the Go standard library\<close>

text \<open>
  Go strings are byte strings in UTF-8; so are the lists of characters here.
  \<^verbatim>\<open>strings.TrimSpace\<close> removes the runes of \<^verbatim>\<open>unicode.IsSpace\<close> at both ends;
  \<open>space_runes\<close> lists their UTF-8 encodings.
\<close>

definition has_prefix :: "string \<Rightarrow> string \<Rightarrow> bool" where
  "has_prefix s p \<longleftrightarrow> take (length p) s = p"

definition space_runes :: "string list" where
  "space_runes =
     [[CHR '' ''], [CHR 0x09], [CHR 0x0A], [CHR 0x0B], [CHR 0x0C], [CHR 0x0D],
      [CHR 0xC2, CHR 0x85], [CHR 0xC2, CHR 0xA0], [CHR 0xE1, CHR 0x9A, CHR 0x80],
      [CHR 0xE2, CHR 0x80, CHR 0x80], [CHR 0xE2, CHR 0x80, CHR 0x81], [CHR 0xE2, CHR 0x80, CHR 0x82],
      [CHR 0xE2, CHR 0x80, CHR 0x83], [CHR 0xE2, CHR 0x80, CHR 0x84], [CHR 0xE2, CHR 0x80, CHR 0x85],
      [CHR 0xE2, CHR 0x80, CHR 0x86], [CHR 0xE2, CHR 0x80, CHR 0x87], [CHR 0xE2, CHR 0x80, CHR 0x88],
      [CHR 0xE2, CHR 0x80, CHR 0x89], [CHR 0xE2, CHR 0x80, CHR 0x8A], [CHR 0xE2, CHR 0x80, CHR 0xA8],
      [CHR 0xE2, CHR 0x80, CHR 0xA9], [CHR 0xE2, CHR 0x80, CHR 0xAF], [CHR 0xE2, CHR 0x81, CHR 0x9F],
      [CHR 0xE3, CHR 0x80, CHR 0x80]]"

definition cut_first :: "string list \<Rightarrow> string \<Rightarrow> string option" where
  "cut_first runes s =
     (case find (\<lambda>p. p \<noteq> [] \<and> has_prefix s p) runes of
        None \<Rightarrow> None | Some p \<Rightarrow> Some (drop (length p) s))"

lemma cut_first_split: "cut_first runes s = Some r \<Longrightarrow> \<exists>p. p \<noteq> [] \<and> s = p @ r"
  unfolding cut_first_def has_prefix_def find_Some_iff
  by (auto split: option.splits simp: find_Some_iff) (metis append_take_drop_id)

lemma cut_first_shorter: "cut_first runes s = Some r \<Longrightarrow> length r < length s"
  by (auto dest!: cut_first_split)

function cut_all :: "string list \<Rightarrow> string \<Rightarrow> string" where
  "cut_all runes s = (case cut_first runes s of None \<Rightarrow> s | Some r \<Rightarrow> cut_all runes r)"
  by pat_completeness auto
termination
  by (relation "measure (\<lambda>(runes, s). length s)") (auto dest: cut_first_shorter)

declare cut_all.simps [simp del]

definition trim_space :: "string \<Rightarrow> string" where
  "trim_space s = rev (cut_all (map rev space_runes) (rev (cut_all space_runes s)))"

fun contains_sub :: "string \<Rightarrow> string \<Rightarrow> bool" where
  "contains_sub [] p = (p = [])"
| "contains_sub (c # s) p = (has_prefix (c # s) p \<or> contains_sub s p)"

lemma has_prefix_append [simp]: "has_prefix (p @ s) p"
  by (simp add: has_prefix_def)

lemma has_prefix_iff: "has_prefix s p \<longleftrightarrow> (\<exists>r. s = p @ r)"
  by (metis append_take_drop_id has_prefix_append has_prefix_def)

lemma contains_sub_iff: "contains_sub s p \<longleftrightarrow> (\<exists>a b. s = a @ p @ b)"
proof (induction s)
  case Nil
  then show ?case by simp
next
  case (Cons c s)
  have "(\<exists>a b. c # s = a @ p @ b) \<longleftrightarrow> (\<exists>b. c # s = p @ b) \<or> (\<exists>a b. s = a @ p @ b)"
    by (auto simp: Cons_eq_append_conv)
  with Cons show ?case
    by (simp add: has_prefix_iff)
qed

lemma cut_all_stop: "cut_first runes (cut_all runes s) = None"
proof (induction runes s rule: cut_all.induct)
  case (1 runes s)
  then show ?case
    by (cases "cut_first runes s") (auto simp: cut_all.simps [of runes s])
qed

lemma cut_all_None: "cut_first runes s = None \<Longrightarrow> cut_all runes s = s"
  by (simp add: cut_all.simps)

lemma cut_all_suffix: "\<exists>w. s = w @ cut_all runes s"
proof (induction runes s rule: cut_all.induct)
  case (1 runes s)
  show ?case
  proof (cases "cut_first runes s")
    case None
    then show ?thesis by (simp add: cut_all_None)
  next
    case (Some r)
    with 1 obtain w where "r = w @ cut_all runes r" by blast
    moreover from Some obtain p where "s = p @ r" by (blast dest: cut_first_split)
    moreover from Some have "cut_all runes s = cut_all runes r" by (simp add: cut_all.simps [of runes s])
    ultimately have "s = (p @ w) @ cut_all runes s" by simp
    then show ?thesis by blast
  qed
qed

lemma cut_first_None_prefix: "cut_first runes (u @ v) = None \<Longrightarrow> cut_first runes u = None"
  by (auto simp: cut_first_def find_None_iff has_prefix_iff split: option.splits)

lemma trim_space_Nil [simp]: "trim_space [] = []"
  using cut_all_suffix [of "[]"] by (simp add: trim_space_def)

lemma trim_space_idem [simp]: "trim_space (trim_space s) = trim_space s"
proof -
  let ?a = "cut_all space_runes s"
  let ?b = "cut_all (map rev space_runes) (rev ?a)"
  obtain w where "rev ?a = w @ ?b" using cut_all_suffix by blast
  then have "?a = rev ?b @ rev w" by (metis rev_append rev_rev_ident)
  then have "cut_first space_runes (rev ?b) = None"
    using cut_all_stop [of space_runes s] cut_first_None_prefix by metis
  then have "cut_all space_runes (rev ?b) = rev ?b" by (rule cut_all_None)
  moreover have "cut_all (map rev space_runes) ?b = ?b"
    by (rule cut_all_None) (rule cut_all_stop)
  ultimately show ?thesis by (simp add: trim_space_def)
qed

end
