(* ===== verification/Graph_Search.thy ===== *)
theory Graph_Search
  imports Paihuo_Prelude
begin

text \<open>
  Two places of the program search a dependency graph depth first with three colours (a node
  is unvisited, on the current path, or finished): \<^verbatim>\<open>graphDepth\<close> of
  \<^verbatim>\<open>internal/workflow/policy.go\<close> and \<^verbatim>\<open>validateProjectDependencyGraph\<close> of
  \<^verbatim>\<open>internal/store/task_update.go\<close>. This theory holds the search over an arbitrary
  successor function and its correctness: it reports a cycle exactly when one can be reached,
  and otherwise the number of nodes of a longest path. The two components state their own
  functions and refine them to this one.
\<close>

section \<open>The search\<close>

record 'a marks =
  colour :: "'a \<Rightarrow> nat"
  memo :: "'a \<Rightarrow> nat"

definition no_marks :: "'a marks" where
  "no_marks = \<lparr>colour = (\<lambda>_. 0), memo = (\<lambda>_. 0)\<rparr>"

fun gvisit :: "nat \<Rightarrow> ('a \<Rightarrow> 'a list) \<Rightarrow> 'a marks \<Rightarrow> 'a \<Rightarrow> ('a marks \<times> nat \<times> bool) option"
  and gvisits :: "nat \<Rightarrow> ('a \<Rightarrow> 'a list) \<Rightarrow> 'a marks \<Rightarrow> 'a list \<Rightarrow> nat \<Rightarrow> ('a marks \<times> nat \<times> bool) option"
where
  "gvisit 0 succs s x = None"
| "gvisit (Suc n) succs s x =
    (if colour s x = 1 then Some (s, 0, True)
     else if colour s x = 2 then Some (s, memo s x, False)
     else case gvisits n succs (s\<lparr>colour := (colour s)(x := 1)\<rparr>) (succs x) 1 of
         None \<Rightarrow> None
       | Some (s', depth, cyc) \<Rightarrow>
           if cyc then Some (s', 0, True)
           else Some (s'\<lparr>colour := (colour s')(x := 2), memo := (memo s')(x := depth)\<rparr>, depth, False))"
| "gvisits n succs s [] depth = Some (s, depth, False)"
| "gvisits n succs s (d # ds) depth =
    (case gvisit n succs s d of
       None \<Rightarrow> None
     | Some (s', v, cyc) \<Rightarrow>
         if cyc then Some (s', 0, True)
         else gvisits n succs s' ds (max depth (v + 1)))"

fun gscan :: "nat \<Rightarrow> ('a \<Rightarrow> 'a list) \<Rightarrow> 'a marks \<Rightarrow> 'a list \<Rightarrow> nat \<Rightarrow> (nat \<times> bool) option" where
  "gscan n succs s [] m = Some (m, False)"
| "gscan n succs s (x # xs) m =
    (case gvisit n succs s x of
       None \<Rightarrow> None
     | Some (s', v, cyc) \<Rightarrow> if cyc then Some (0, True) else gscan n succs s' xs (max m v))"

section \<open>Paths\<close>

definition edges :: "('a \<Rightarrow> 'a list) \<Rightarrow> ('a \<times> 'a) set" where
  "edges succs = {(x, y). y \<in> set (succs x)}"

fun gpath :: "('a \<Rightarrow> 'a list) \<Rightarrow> 'a list \<Rightarrow> bool" where
  "gpath succs [] = True"
| "gpath succs [x] = True"
| "gpath succs (x # y # ys) = (y \<in> set (succs x) \<and> gpath succs (y # ys))"

definition cyclic_from :: "('a \<Rightarrow> 'a list) \<Rightarrow> 'a set \<Rightarrow> bool" where
  "cyclic_from succs A \<longleftrightarrow> (\<exists>x\<in>A. \<exists>y. (x, y) \<in> (edges succs)\<^sup>* \<and> (y, y) \<in> (edges succs)\<^sup>+)"

lemma edges_iff [simp]: "(x, y) \<in> edges succs \<longleftrightarrow> y \<in> set (succs x)"
  by (simp add: edges_def)

lemma not_False: "\<not> False"
  by simp

section \<open>The invariant of the marks\<close>

text \<open>
  Finished nodes are closed under successors and their memo is one more than the greatest
  memo of a successor, or one when they have none.
\<close>

definition finished :: "('a \<Rightarrow> 'a list) \<Rightarrow> 'a marks \<Rightarrow> 'a \<Rightarrow> bool" where
  "finished succs s x \<longleftrightarrow>
     (\<forall>y\<in>set (succs x). colour s y = 2 \<and> memo s y + 1 \<le> memo s x) \<and>
     (memo s x = 1 \<or> (\<exists>y\<in>set (succs x). memo s x = memo s y + 1))"

definition marks_ok :: "('a \<Rightarrow> 'a list) \<Rightarrow> 'a marks \<Rightarrow> bool" where
  "marks_ok succs s \<longleftrightarrow> (\<forall>x. colour s x = 2 \<longrightarrow> finished succs s x)"

definition extends :: "'a marks \<Rightarrow> 'a marks \<Rightarrow> bool" where
  "extends s s' \<longleftrightarrow>
     (\<forall>x. colour s x = 2 \<longrightarrow> colour s' x = 2 \<and> memo s' x = memo s x) \<and>
     (\<forall>x. colour s' x = 1 \<longleftrightarrow> colour s x = 1)"

lemma extends_refl [simp]: "extends s s"
  by (simp add: extends_def)

lemma extends_trans: "extends s t \<Longrightarrow> extends t u \<Longrightarrow> extends s u"
  by (simp add: extends_def)

lemma marks_ok_no_marks [simp]: "marks_ok succs no_marks"
  by (simp add: marks_ok_def no_marks_def)

lemma marks_ok_grey:
  "marks_ok succs s \<Longrightarrow> colour s x \<noteq> 2 \<Longrightarrow> marks_ok succs (s\<lparr>colour := (colour s)(x := 1)\<rparr>)"
  unfolding marks_ok_def finished_def by (simp split: if_splits) metis

lemma gvisit_sound:
  "gvisit n succs s x = Some (s', v, False) \<Longrightarrow> marks_ok succs s \<Longrightarrow>
     marks_ok succs s' \<and> extends s s' \<and> colour s' x = 2 \<and> memo s' x = v"
  "gvisits n succs s ds m = Some (s', v, False) \<Longrightarrow> marks_ok succs s \<Longrightarrow>
     marks_ok succs s' \<and> extends s s' \<and> m \<le> v \<and>
     (\<forall>d\<in>set ds. colour s' d = 2 \<and> memo s' d + 1 \<le> v) \<and>
     (v = m \<or> (\<exists>d\<in>set ds. v = memo s' d + 1))"
proof (induction n succs s x and n succs s ds m arbitrary: s' v and s' v
    rule: gvisit_gvisits.induct)
  case (1 succs s x)
  then show ?case by simp
next
  case (2 n succs s x)
  show ?case
  proof (cases "colour s x = 1 \<or> colour s x = 2")
    case True
    with 2 show ?thesis by auto
  next
    case False
    let ?g = "s\<lparr>colour := (colour s)(x := 1)\<rparr>"
    from "2.prems"(1) False obtain t where t: "gvisits n succs ?g (succs x) 1 = Some (t, v, False)"
      and s': "s' = t\<lparr>colour := (colour t)(x := 2), memo := (memo t)(x := v)\<rparr>"
      by (auto split: option.splits if_splits)
    from False "2.prems"(2) have "marks_ok succs ?g"
      by (intro marks_ok_grey) auto
    from False have "colour s x \<noteq> 1" "colour s x \<noteq> 2" by auto
    from "2.IH" [OF this t \<open>marks_ok succs ?g\<close>] have IH: "marks_ok succs t" "extends ?g t"
      "\<forall>d\<in>set (succs x). colour t d = 2 \<and> memo t d + 1 \<le> v"
      "v = 1 \<or> (\<exists>d\<in>set (succs x). v = memo t d + 1)"
      by blast+
    from IH(2) have grey: "colour t x = 1"
      by (simp add: extends_def)
    have ext: "extends s s'"
      using IH(2) False s' by (auto simp: extends_def)
    have x_not: "x \<notin> set (succs x)"
      using IH(3) grey by force
    have fin_x: "finished succs s' x"
      using IH(3,4) s' x_not by (auto simp: finished_def)
    have "finished succs s' z" if z: "colour s' z = 2" for z
    proof (cases "z = x")
      case True
      with fin_x show ?thesis by simp
    next
      case False
      with z s' have "colour t z = 2" by simp
      with IH(1) have "finished succs t z" by (simp add: marks_ok_def)
      moreover from this have "x \<notin> set (succs z)"
        using grey by (auto simp: finished_def)
      ultimately show ?thesis
        using False s' by (auto simp: finished_def)
    qed
    then have "marks_ok succs s'" by (simp add: marks_ok_def)
    with ext s' show ?thesis by simp
  qed
next
  case (3 n succs s depth)
  then show ?case by auto
next
  case (4 n succs s d ds depth)
  from "4.prems"(1) obtain t w where t: "gvisit n succs s d = Some (t, w, False)"
    and rest: "gvisits n succs t ds (max depth (w + 1)) = Some (s', v, False)"
    by (auto split: option.splits if_splits)
  from "4.IH"(1) [OF t "4.prems"(2)] have A: "marks_ok succs t" "extends s t" "colour t d = 2" "memo t d = w"
    by auto
  from "4.IH"(2) [OF t refl refl not_False rest A(1)]
  have B: "marks_ok succs s'" "extends t s'" "max depth (w + 1) \<le> v"
    "\<forall>d\<in>set ds. colour s' d = 2 \<and> memo s' d + 1 \<le> v"
    "v = max depth (w + 1) \<or> (\<exists>d\<in>set ds. v = memo s' d + 1)"
    by blast+
  from A(3,4) B(2) have d: "colour s' d = 2" "memo s' d = w"
    by (auto simp: extends_def)
  show ?case
  proof (intro conjI)
    show "marks_ok succs s'" by (rule B(1))
    show "extends s s'" using A(2) B(2) by (rule extends_trans)
    show "depth \<le> v" using B(3) by simp
    show "\<forall>e\<in>set (d # ds). colour s' e = 2 \<and> memo s' e + 1 \<le> v" using B(3,4) d by simp
    have "max depth (w + 1) = depth \<or> max depth (w + 1) = memo s' d + 1"
      using d(2) by (simp add: max_def)
    with B(5) show "v = depth \<or> (\<exists>e\<in>set (d # ds). v = memo s' e + 1)" by auto
  qed
qed

text \<open>A reported cycle is a cycle: every node on the current path leads to the visited one.\<close>

lemma gvisit_cycle:
  "gvisit n succs s x = Some (s', v, True) \<Longrightarrow> marks_ok succs s \<Longrightarrow>
     (\<forall>g. colour s g = 1 \<longrightarrow> (g, x) \<in> (edges succs)\<^sup>+) \<Longrightarrow>
     \<exists>y. (x, y) \<in> (edges succs)\<^sup>* \<and> (y, y) \<in> (edges succs)\<^sup>+"
  "gvisits n succs s ds m = Some (s', v, True) \<Longrightarrow> marks_ok succs s \<Longrightarrow>
     (\<forall>g. \<forall>d\<in>set ds. colour s g = 1 \<longrightarrow> (g, d) \<in> (edges succs)\<^sup>+) \<Longrightarrow>
     \<exists>d\<in>set ds. \<exists>y. (d, y) \<in> (edges succs)\<^sup>* \<and> (y, y) \<in> (edges succs)\<^sup>+"
proof (induction n succs s x and n succs s ds m arbitrary: s' v and s' v
    rule: gvisit_gvisits.induct)
  case (1 succs s x)
  then show ?case by simp
next
  case (2 n succs s x)
  show ?case
  proof (cases "colour s x = 1 \<or> colour s x = 2")
    case True
    with 2 show ?thesis by (auto split: if_splits)
  next
    case False
    let ?g = "s\<lparr>colour := (colour s)(x := 1)\<rparr>"
    from "2.prems"(1) False obtain t w where t: "gvisits n succs ?g (succs x) 1 = Some (t, w, True)"
      by (auto split: option.splits if_splits)
    have "\<forall>g. \<forall>d\<in>set (succs x). colour ?g g = 1 \<longrightarrow> (g, d) \<in> (edges succs)\<^sup>+"
      using "2.prems"(3) by (auto intro: trancl_into_trancl)
    with "2.IH" False t "2.prems"(2) obtain d y where "d \<in> set (succs x)"
      "(d, y) \<in> (edges succs)\<^sup>*" "(y, y) \<in> (edges succs)\<^sup>+"
      by (metis marks_ok_grey)
    then show ?thesis by (meson converse_rtrancl_into_rtrancl edges_iff)
  qed
next
  case (3 n succs s depth)
  then show ?case by simp
next
  case (4 n succs s d ds depth)
  show ?case
  proof (cases "\<exists>t w. gvisit n succs s d = Some (t, w, True)")
    case True
    with 4 show ?thesis by fastforce
  next
    case False
    with "4.prems"(1) obtain t w where t: "gvisit n succs s d = Some (t, w, False)"
      and rest: "gvisits n succs t ds (max depth (w + 1)) = Some (s', v, True)"
      by (auto split: option.splits if_splits)
    from gvisit_sound(1) [OF t "4.prems"(2)] have "marks_ok succs t" "extends s t" by auto
    with "4.IH"(2) [OF t refl refl] rest "4.prems"(3) show ?thesis
      by (fastforce simp: extends_def)
  qed
qed

section \<open>Enough fuel\<close>

definition white :: "'a set \<Rightarrow> 'a marks \<Rightarrow> 'a set" where
  "white V s = {x \<in> V. colour s x \<noteq> 1 \<and> colour s x \<noteq> 2}"

lemma white_mono: "extends s t \<Longrightarrow> white V t \<subseteq> white V s"
  by (auto simp: white_def extends_def)

lemma gvisit_fuel:
  "finite V \<Longrightarrow> \<forall>z\<in>V. set (succs z) \<subseteq> V \<Longrightarrow> marks_ok succs s \<Longrightarrow> x \<in> V \<Longrightarrow>
     card (white V s) < n \<Longrightarrow> gvisit n succs s x \<noteq> None"
  "finite V \<Longrightarrow> \<forall>z\<in>V. set (succs z) \<subseteq> V \<Longrightarrow> marks_ok succs s \<Longrightarrow> set ds \<subseteq> V \<Longrightarrow>
     card (white V s) < n \<Longrightarrow> gvisits n succs s ds m \<noteq> None"
proof (induction n succs s x and n succs s ds m rule: gvisit_gvisits.induct)
  case (1 succs s x)
  then show ?case by simp
next
  case (2 n succs s x)
  show ?case
  proof (cases "colour s x = 1 \<or> colour s x = 2")
    case True
    then show ?thesis by auto
  next
    case False
    let ?g = "s\<lparr>colour := (colour s)(x := 1)\<rparr>"
    have "white V ?g = white V s - {x}" by (auto simp: white_def)
    moreover have "x \<in> white V s" using False "2.prems"(4) by (auto simp: white_def)
    moreover have "finite (white V s)" using "2.prems"(1) by (simp add: white_def)
    ultimately have "card (white V ?g) < n"
      using "2.prems"(5) by (metis card_Diff1_less less_Suc_eq_le order_less_le_trans)
    with 2 False have "gvisits n succs ?g (succs x) 1 \<noteq> None"
      by (metis marks_ok_grey)
    with False show ?thesis by (auto split: option.splits)
  qed
next
  case (3 n succs s depth)
  then show ?case by simp
next
  case (4 n succs s d ds depth)
  then have "gvisit n succs s d \<noteq> None" by simp
  then obtain t w cyc where t: "gvisit n succs s d = Some (t, w, cyc)" by auto
  show ?case
  proof (cases cyc)
    case True
    with t show ?thesis by simp
  next
    case False
    with t have t': "gvisit n succs s d = Some (t, w, False)" by simp
    from gvisit_sound(1) [OF t' "4.prems"(3)] have u: "marks_ok succs t" "extends s t" by blast+
    have "finite (white V s)" using "4.prems"(1) by (simp add: white_def)
    with u(2) "4.prems"(5) have "card (white V t) < n"
      by (meson card_mono order_le_less_trans white_mono)
    with "4.IH"(2) [OF t refl refl False] "4.prems" u(1)
    have "gvisits n succs t ds (max depth (w + 1)) \<noteq> None" by simp
    with False t show ?thesis by simp
  qed
qed

section \<open>What a scan of the graph reports\<close>

lemma marks_no_cycle:
  assumes "marks_ok succs s" and "colour s x = 2" and "(x, y) \<in> (edges succs)\<^sup>+"
  shows "colour s y = 2 \<and> memo s y < memo s x"
  using assms(3)
proof (induction rule: trancl_induct)
  case (base y)
  from assms(1,2) have "finished succs s x" by (simp add: marks_ok_def)
  with base show ?case by (auto simp: finished_def)
next
  case (step y z)
  then have "finished succs s y" using assms(1) by (simp add: marks_ok_def)
  with step show ?case by (auto simp: finished_def)
qed

lemma marks_path_le:
  assumes "marks_ok succs s"
  shows "gpath succs (x # xs) \<Longrightarrow> colour s x = 2 \<Longrightarrow> length (x # xs) \<le> memo s x"
proof (induction xs arbitrary: x)
  case Nil
  with assms show ?case by (auto simp: marks_ok_def finished_def)
next
  case (Cons y ys)
  from Cons.prems assms have "colour s y = 2 \<and> memo s y + 1 \<le> memo s x"
    by (auto simp: marks_ok_def finished_def)
  with Cons.IH [of y] Cons.prems show ?case by simp
qed

lemma marks_path_ex:
  assumes "marks_ok succs s"
  shows "colour s x = 2 \<Longrightarrow> \<exists>xs. gpath succs (x # xs) \<and> length (x # xs) = memo s x"
proof (induction "memo s x" arbitrary: x rule: less_induct)
  case less
  with assms have fin: "finished succs s x" by (simp add: marks_ok_def)
  then consider "memo s x = 1" | y where "y \<in> set (succs x)" "memo s x = memo s y + 1" "colour s y = 2"
    by (auto simp: finished_def)
  then show ?case
  proof cases
    case 1
    then show ?thesis by (intro exI [of _ "[]"]) simp
  next
    case 2
    with less(1) [of y] obtain ys where "gpath succs (y # ys)" "length (y # ys) = memo s y"
      by auto
    with 2 show ?thesis by (intro exI [of _ "y # ys"]) simp
  qed
qed

lemma gscan_acyclic:
  "gscan n succs s xs m = Some (v, False) \<Longrightarrow> marks_ok succs s \<Longrightarrow>
   \<exists>s'. marks_ok succs s' \<and> extends s s' \<and> (\<forall>x\<in>set xs. colour s' x = 2 \<and> memo s' x \<le> v) \<and>
     m \<le> v \<and> (v = m \<or> (\<exists>x\<in>set xs. memo s' x = v))"
proof (induction xs arbitrary: s m)
  case Nil
  then show ?case by (auto intro!: exI [of _ s])
next
  case (Cons x xs)
  from Cons.prems(1) obtain t w where t: "gvisit n succs s x = Some (t, w, False)"
    and rest: "gscan n succs t xs (max m w) = Some (v, False)"
    by (auto split: option.splits if_splits)
  from gvisit_sound(1) [OF t Cons.prems(2)]
  have A: "marks_ok succs t" "extends s t" "colour t x = 2" "memo t x = w" by auto
  from Cons.IH [OF rest A(1)] obtain s' where B: "marks_ok succs s'" "extends t s'"
    "\<forall>x\<in>set xs. colour s' x = 2 \<and> memo s' x \<le> v" "max m w \<le> v"
    "v = max m w \<or> (\<exists>x\<in>set xs. memo s' x = v)"
    by auto
  from A B(2) have "colour s' x = 2" "memo s' x = w" by (auto simp: extends_def)
  with A B extends_trans [OF A(2) B(2)] show ?case
    by (intro exI [of _ s']) (auto simp: max_def split: if_splits)
qed

lemma gscan_cyclic:
  "gscan n succs s xs m = Some (v, True) \<Longrightarrow> marks_ok succs s \<Longrightarrow> \<forall>g. colour s g \<noteq> 1 \<Longrightarrow>
   cyclic_from succs (set xs)"
proof (induction xs arbitrary: s m)
  case Nil
  then show ?case by simp
next
  case (Cons x xs)
  show ?case
  proof (cases "\<exists>t w. gvisit n succs s x = Some (t, w, True)")
    case True
    then obtain t w where "gvisit n succs s x = Some (t, w, True)" by blast
    from gvisit_cycle(1) [OF this Cons.prems(2)] Cons.prems(3) show ?thesis
      by (auto simp: cyclic_from_def)
  next
    case False
    with Cons.prems(1) obtain t w where t: "gvisit n succs s x = Some (t, w, False)"
      and rest: "gscan n succs t xs (max m w) = Some (v, True)"
      by (auto split: option.splits if_splits)
    from gvisit_sound(1) [OF t Cons.prems(2)] Cons.prems(3)
    have "marks_ok succs t" "\<forall>g. colour t g \<noteq> 1" by (auto simp: extends_def)
    with Cons.IH [OF rest] show ?thesis by (auto simp: cyclic_from_def)
  qed
qed

lemma gscan_fuel:
  assumes "finite V" and "\<forall>z\<in>V. set (succs z) \<subseteq> V"
  shows "marks_ok succs s \<Longrightarrow> set xs \<subseteq> V \<Longrightarrow> card (white V s) < n \<Longrightarrow> gscan n succs s xs m \<noteq> None"
proof (induction xs arbitrary: s m)
  case Nil
  then show ?case by simp
next
  case (Cons x xs)
  with assms have "gvisit n succs s x \<noteq> None" by (simp add: gvisit_fuel(1))
  then obtain t w cyc where t: "gvisit n succs s x = Some (t, w, cyc)" by auto
  show ?case
  proof (cases cyc)
    case True
    with t show ?thesis by simp
  next
    case False
    with t have t': "gvisit n succs s x = Some (t, w, False)" by simp
    from gvisit_sound(1) [OF t' Cons.prems(1)] have u: "marks_ok succs t" "extends s t" by blast+
    have "finite (white V s)" using assms(1) by (simp add: white_def)
    with u(2) Cons.prems(3) have "card (white V t) < n"
      by (meson card_mono order_le_less_trans white_mono)
    with Cons u(1) False t show ?thesis by simp
  qed
qed

text \<open>
  The summary the components use: with more fuel than nodes the scan ends, a cycle is
  reported exactly when one is reachable, and otherwise the result is the length of a
  longest path from the scanned nodes.
\<close>

lemma gscan_result:
  assumes "finite V" and "\<forall>z\<in>V. set (succs z) \<subseteq> V" and "set xs \<subseteq> V" and "card V < n"
  shows "\<exists>v cyc. gscan n succs no_marks xs 0 = Some (v, cyc) \<and>
    (cyc \<longleftrightarrow> cyclic_from succs (set xs)) \<and>
    (\<not> cyc \<longrightarrow> (\<forall>x\<in>set xs. \<forall>ys. gpath succs (x # ys) \<longrightarrow> length (x # ys) \<le> v)) \<and>
    (\<not> cyc \<longrightarrow> xs \<noteq> [] \<longrightarrow> (\<exists>x\<in>set xs. \<exists>ys. gpath succs (x # ys) \<and> length (x # ys) = v))"
proof -
  have "card (white V no_marks) \<le> card V"
    using assms(1) by (intro card_mono) (auto simp: white_def)
  with assms(4) have "card (white V no_marks) < n" by simp
  with gscan_fuel [OF assms(1,2) marks_ok_no_marks assms(3)]
  have "gscan n succs no_marks xs 0 \<noteq> None" by blast
  then obtain v cyc where res: "gscan n succs no_marks xs 0 = Some (v, cyc)" by auto
  have "\<forall>g. colour no_marks g \<noteq> 1" by (simp add: no_marks_def)
  then have cyc: "cyc \<Longrightarrow> cyclic_from succs (set xs)"
    using gscan_cyclic [of n succs no_marks xs 0 v] res by simp
  have acyc: "\<not> cyclic_from succs (set xs) \<and>
      (\<forall>x\<in>set xs. \<forall>ys. gpath succs (x # ys) \<longrightarrow> length (x # ys) \<le> v) \<and>
      (xs \<noteq> [] \<longrightarrow> (\<exists>x\<in>set xs. \<exists>ys. gpath succs (x # ys) \<and> length (x # ys) = v))"
    if "\<not> cyc"
  proof -
    from that res gscan_acyclic [of n succs no_marks xs 0 v] obtain s' where
      s': "marks_ok succs s'" "\<forall>x\<in>set xs. colour s' x = 2 \<and> memo s' x \<le> v"
        "v = 0 \<or> (\<exists>x\<in>set xs. memo s' x = v)"
      by auto
    have "\<not> cyclic_from succs (set xs)"
    proof
      assume "cyclic_from succs (set xs)"
      then obtain x y where xy: "x \<in> set xs" "(x, y) \<in> (edges succs)\<^sup>*" "(y, y) \<in> (edges succs)\<^sup>+"
        by (auto simp: cyclic_from_def)
      from xy(1) s'(2) have x2: "colour s' x = 2" by simp
      from xy(2) have "colour s' y = 2"
        using marks_no_cycle [OF s'(1) x2] x2 by (auto dest: rtranclD)
      from marks_no_cycle [OF s'(1) this xy(3)] show False by simp
    qed
    moreover have "length (x # ys) \<le> v" if "x \<in> set xs" "gpath succs (x # ys)" for x ys
      using marks_path_le [OF s'(1) that(2)] s'(2) that(1) by fastforce
    moreover have "\<exists>x\<in>set xs. \<exists>ys. gpath succs (x # ys) \<and> length (x # ys) = v" if ne: "xs \<noteq> []"
    proof -
      from ne obtain z where z: "z \<in> set xs" by (meson list.set_sel(1))
      with s'(2) have z2: "colour s' z = 2" "memo s' z \<le> v" by auto
      from marks_path_ex [OF s'(1) z2(1)] have "0 < memo s' z" by auto
      with z2(2) have "0 < v" by simp
      with s'(3) obtain x where "x \<in> set xs" "memo s' x = v" by auto
      with s'(2) marks_path_ex [OF s'(1)] show ?thesis by force
    qed
    ultimately show ?thesis by blast
  qed
  show ?thesis
    using res cyc acyc by blast
qed

end
