(* ===== verification/Workflow_Policy.thy ===== *)
theory Workflow_Policy
  imports Graph_Search
begin

unbundle bit_operations_syntax

text \<open>
  \<^verbatim>\<open>internal/workflow\<close>: the workflow specification (model.go), the deterministic
  policy every definition must pass (policy.go) and the rendering of node intents
  (render.go). A definition is an acyclic graph of nodes with budgets, limits and
  permissions; \<open>validate\<close> lists what is wrong with it.
  Budgets are Go's \<^verbatim>\<open>int64\<close>: words of 64 bits read as signed numbers. The text of a
  violation's message and the JSON of an output schema are display data and left out.
\<close>

section \<open>The model (model.go)\<close>

type_synonym int64 = "64 word"

record limits =
  l_budget :: int64
  l_max_nodes :: int
  l_max_depth :: int
  l_max_concurrency :: int

record role_selector =
  rs_role_id :: int
  rs_required_capabilities :: "string list"

record node =
  n_id :: string
  n_intent :: string
  n_role :: role_selector
  n_depends_on :: "string list"
  n_permission :: string
  n_allowed_actions :: "string list"
  n_approval_required :: bool
  n_input_refs :: "string list"
  n_timeout_seconds :: int
  n_failure_policy :: string
  n_budget :: int64

record spec =
  s_version :: int
  s_goal :: string
  s_created_by :: string
  s_limits :: limits
  s_nodes :: "node list"

record violation =
  v_code :: string
  v_node :: string

record role_capabilities =
  rc_exists :: bool
  rc_enabled :: bool
  rc_capabilities :: "string list"

record policy =
  pol_max_nodes :: int
  pol_max_depth :: int
  pol_max_concurrency :: int
  pol_max_budget :: int64
  pol_max_timeout :: int
  pol_resolve_role :: "(int \<Rightarrow> role_capabilities) option"

definition default_policy :: "(int \<Rightarrow> role_capabilities) \<Rightarrow> policy" where
  "default_policy resolve =
     \<lparr>pol_max_nodes = 64, pol_max_depth = 12, pol_max_concurrency = 8,
      pol_max_budget = 1000000, pol_max_timeout = 24 * 60 * 60, pol_resolve_role = Some resolve\<rparr>"

section \<open>The checks of a node (policy.go)\<close>

definition lower :: "char \<Rightarrow> bool" where
  "lower c \<longleftrightarrow> CHR ''a'' \<le> c \<and> c \<le> CHR ''z''"

definition digit :: "char \<Rightarrow> bool" where
  "digit c \<longleftrightarrow> CHR ''0'' \<le> c \<and> c \<le> CHR ''9''"

definition node_id_pattern :: "string \<Rightarrow> bool" where
  "node_id_pattern s \<longleftrightarrow>
     (case s of
        [] \<Rightarrow> False
      | c # cs \<Rightarrow> lower c \<and> length cs \<le> 63 \<and>
          list_all (\<lambda>d. lower d \<or> digit d \<or> d = CHR ''_'' \<or> d = CHR ''-'') cs)"

definition dangerous_action :: "string \<Rightarrow> bool" where
  "dangerous_action action \<longleftrightarrow>
     trim_space action \<in> {''install_runtime'', ''arbitrary_host_path'', ''full_permission'',
       ''merge_workspace'', ''delete_workspace''}"

definition after_colon :: "string \<Rightarrow> string" where
  "after_colon s = drop 1 (dropWhile (\<lambda>c. c \<noteq> CHR '':'') s)"

definition invalid_reference :: "string \<Rightarrow> bool" where
  "invalid_reference ref0 =
     (let ref = trim_space ref0 in
      if has_prefix ref ''node:'' \<or> has_prefix ref ''artifact:''
      then let value = trim_space (after_colon ref) in
           value = [] \<or> has_prefix value ''/'' \<or> contains_sub value ''..'' \<or>
           list_ex (\<lambda>c. c = CHR 0x5C \<or> c = CHR 0x0A \<or> c = CHR 0x0D) value
      else True)"

definition vio :: "string \<Rightarrow> string \<Rightarrow> bool \<Rightarrow> violation list" where
  "vio code nid bad = (if bad then [\<lparr>v_code = code, v_node = nid\<rparr>] else [])"

definition role_violations :: "policy \<Rightarrow> node \<Rightarrow> violation list" where
  "role_violations p n =
     (case pol_resolve_role p of
        None \<Rightarrow> []
      | Some resolve \<Rightarrow>
          let role = resolve (rs_role_id (n_role n)) in
          if \<not> rc_exists role \<or> \<not> rc_enabled role
          then vio ''role_unavailable'' (n_id n) True
          else concat (map (\<lambda>c. vio ''runtime_capability'' (n_id n) (c \<notin> set (rc_capabilities role)))
                 (''batch'' # rs_required_capabilities (n_role n))))"

definition node_violations :: "policy \<Rightarrow> (string \<rightharpoonup> node) \<Rightarrow> node \<Rightarrow> violation list" where
  "node_violations p seen n =
     vio ''node_id'' (n_id n) (\<not> node_id_pattern (n_id n))
   @ vio ''duplicate_node'' (n_id n) (seen (n_id n) \<noteq> None)
   @ vio ''intent_required'' (n_id n) (trim_space (n_intent n) = [])
   @ vio ''permission'' (n_id n) (n_permission n \<noteq> ''full'' \<and> n_permission n \<noteq> ''review'')
   @ vio ''timeout'' (n_id n) (n_timeout_seconds n < 1 \<or> n_timeout_seconds n > pol_max_timeout p)
   @ vio ''failure_policy'' (n_id n) (n_failure_policy n \<noteq> ''stop'' \<and> n_failure_policy n \<noteq> ''continue'')
   @ vio ''node_budget'' (n_id n) (sint (n_budget n) < 0)
   @ role_violations p n
   @ concat (map (\<lambda>a. vio ''approval_required'' (n_id n)
       (dangerous_action a \<and> \<not> n_approval_required n)) (n_allowed_actions n))
   @ concat (map (\<lambda>r. vio ''input_reference'' (n_id n) (invalid_reference r)) (n_input_refs n))"

fun node_loop :: "policy \<Rightarrow> (string \<rightharpoonup> node) \<Rightarrow> int64 \<Rightarrow> node list
    \<Rightarrow> violation list \<times> (string \<rightharpoonup> node) \<times> int64" where
  "node_loop p seen acc [] = ([], seen, acc)"
| "node_loop p seen acc (n # ns) =
    (let (vs, seen', acc') = node_loop p (seen(n_id n \<mapsto> n)) (acc + n_budget n) ns
     in (node_violations p seen n @ vs, seen', acc'))"

fun dependency_violations :: "(string \<rightharpoonup> node) \<Rightarrow> string \<Rightarrow> string list \<Rightarrow> string list \<Rightarrow> violation list" where
  "dependency_violations nodes nid seen [] = []"
| "dependency_violations nodes nid seen (d # ds) =
    (if d = nid then vio ''self_dependency'' nid True
     else if nodes d = None then vio ''missing_dependency'' nid True
     else if d \<in> set seen then vio ''duplicate_dependency'' nid True
     else [])
    @ dependency_violations nodes nid (d # seen) ds"

section \<open>Depth and cycles of the graph (policy.go, graphDepth)\<close>

text \<open>
  The successors \<^verbatim>\<open>visit\<close> follows: the dependencies of a node that exist in the
  map, the others are skipped by its \<^verbatim>\<open>continue\<close>. Go ranges over a map in any
  order, which is the argument \<open>order\<close>: an enumeration of the keys. One unit of fuel per
  key and one more are enough (\<open>graph_depth_total\<close> below).
\<close>

definition node_succs :: "(string \<rightharpoonup> node) \<Rightarrow> string \<Rightarrow> string list" where
  "node_succs nodes i =
     (case nodes i of None \<Rightarrow> [] | Some n \<Rightarrow> filter (\<lambda>d. nodes d \<noteq> None) (n_depends_on n))"

definition graph_depth :: "(string \<rightharpoonup> node) \<Rightarrow> string list \<Rightarrow> (nat \<times> bool) option" where
  "graph_depth nodes order = gscan (Suc (length order)) (node_succs nodes) no_marks order 0"

definition graph_violations :: "policy \<Rightarrow> spec \<Rightarrow> (string \<rightharpoonup> node) \<Rightarrow> string list \<Rightarrow> violation list" where
  "graph_violations p sp nodes order =
     (case graph_depth nodes order of
        None \<Rightarrow> vio ''cycle'' [] True
      | Some (depth, cyc) \<Rightarrow>
          if cyc then vio ''cycle'' [] True
          else vio ''depth'' [] (l_max_depth (s_limits sp) < int depth \<or> pol_max_depth p < int depth))"

section \<open>Validate (policy.go)\<close>

definition limit_violations :: "policy \<Rightarrow> spec \<Rightarrow> violation list" where
  "limit_violations p sp =
     (let lim = s_limits sp; count = int (length (s_nodes sp)) in
      vio ''goal_required'' [] (trim_space (s_goal sp) = [])
    @ vio ''max_nodes'' [] (l_max_nodes lim < 1 \<or> l_max_nodes lim > pol_max_nodes p)
    @ vio ''max_depth'' [] (l_max_depth lim < 1 \<or> l_max_depth lim > pol_max_depth p)
    @ vio ''max_concurrency'' [] (l_max_concurrency lim < 1 \<or> l_max_concurrency lim > pol_max_concurrency p)
    @ vio ''budget'' [] (sint (l_budget lim) < 0 \<or> sint (l_budget lim) > sint (pol_max_budget p))
    @ vio ''node_count'' [] (count = 0 \<or> count > pol_max_nodes p \<or> count > l_max_nodes lim))"

definition validate :: "policy \<Rightarrow> spec \<Rightarrow> string list \<Rightarrow> violation list" where
  "validate p sp order =
     (let (vs, nodes, budget) = node_loop p Map.empty 0 (s_nodes sp) in
      limit_violations p sp
    @ vs
    @ vio ''budget_exceeded'' [] (sint budget > sint (l_budget (s_limits sp)))
    @ concat (map (\<lambda>n. dependency_violations nodes (n_id n) [] (n_depends_on n)) (s_nodes sp))
    @ graph_violations p sp nodes order)"

section \<open>Rendering of intents (render.go)\<close>

text \<open>
  \<open>execute\<close> stands for \<^verbatim>\<open>text/template\<close>: parsing the intent and executing it on the
  named values, \<open>None\<close> when either fails. The label is the UTF-8 of the text the source
  appends.
\<close>

definition custom_task_label :: "string" where
  "custom_task_label =
     [CHR 0x0A, CHR 0x0A, CHR 0xE8, CHR 0x87, CHR 0xAA, CHR 0xE5, CHR 0xAE, CHR 0x9A,
      CHR 0xE4, CHR 0xB9, CHR 0x89, CHR 0xE4, CHR 0xBB, CHR 0xBB, CHR 0xE5, CHR 0x8A, CHR 0xA1,
      CHR 0xEF, CHR 0xBC, CHR 0x9A]"

definition render_intent ::
  "(string \<Rightarrow> (string \<times> string) list \<Rightarrow> string option) \<Rightarrow> string \<Rightarrow> string \<Rightarrow> string \<Rightarrow> string \<Rightarrow> string" where
  "render_intent execute today clock intent task0 =
     (let task = trim_space task0 in
      if \<not> contains_sub intent ''{{''
      then if task = [] then intent else intent @ custom_task_label @ task
      else case execute intent [(''task'', task), (''date'', today), (''time'', clock)] of
             None \<Rightarrow> intent | Some out \<Rightarrow> out)"

section \<open>What an accepted definition satisfies\<close>

text \<open>
  The contract of the policy, stated without the loops: every limit is within the
  installation's ceilings, node ids are distinct slugs, every node is well formed, every
  dependency names another node once, the dependency relation is acyclic and no chain of
  dependencies has more nodes than the depth limits allow.
\<close>

definition role_ok :: "policy \<Rightarrow> node \<Rightarrow> bool" where
  "role_ok p n \<longleftrightarrow>
     (case pol_resolve_role p of
        None \<Rightarrow> True
      | Some resolve \<Rightarrow>
          let role = resolve (rs_role_id (n_role n)) in
          rc_exists role \<and> rc_enabled role \<and>
          insert ''batch'' (set (rs_required_capabilities (n_role n))) \<subseteq> set (rc_capabilities role))"

definition node_ok :: "policy \<Rightarrow> node \<Rightarrow> bool" where
  "node_ok p n \<longleftrightarrow>
     node_id_pattern (n_id n) \<and> trim_space (n_intent n) \<noteq> [] \<and>
     n_permission n \<in> {''full'', ''review''} \<and>
     1 \<le> n_timeout_seconds n \<and> n_timeout_seconds n \<le> pol_max_timeout p \<and>
     n_failure_policy n \<in> {''stop'', ''continue''} \<and>
     0 \<le> sint (n_budget n) \<and> role_ok p n \<and>
     (\<forall>a\<in>set (n_allowed_actions n). dangerous_action a \<longrightarrow> n_approval_required n) \<and>
     (\<forall>r\<in>set (n_input_refs n). \<not> invalid_reference r)"

definition limits_ok :: "policy \<Rightarrow> spec \<Rightarrow> bool" where
  "limits_ok p sp \<longleftrightarrow>
     (let lim = s_limits sp; count = int (length (s_nodes sp)) in
      trim_space (s_goal sp) \<noteq> [] \<and>
      1 \<le> l_max_nodes lim \<and> l_max_nodes lim \<le> pol_max_nodes p \<and>
      1 \<le> l_max_depth lim \<and> l_max_depth lim \<le> pol_max_depth p \<and>
      1 \<le> l_max_concurrency lim \<and> l_max_concurrency lim \<le> pol_max_concurrency p \<and>
      0 \<le> sint (l_budget lim) \<and> sint (l_budget lim) \<le> sint (pol_max_budget p) \<and>
      0 < count \<and> count \<le> pol_max_nodes p \<and> count \<le> l_max_nodes lim)"

definition dep_rel :: "spec \<Rightarrow> (string \<times> string) set" where
  "dep_rel sp = {(n_id n, d) | n d. n \<in> set (s_nodes sp) \<and> d \<in> set (n_depends_on n)}"

definition dep_chain :: "spec \<Rightarrow> string list \<Rightarrow> bool" where
  "dep_chain sp xs \<longleftrightarrow> xs \<noteq> [] \<and> hd xs \<in> n_id ` set (s_nodes sp) \<and>
     (\<forall>i. Suc i < length xs \<longrightarrow> (xs ! i, xs ! Suc i) \<in> dep_rel sp)"

definition spec_accepted :: "policy \<Rightarrow> spec \<Rightarrow> bool" where
  "spec_accepted p sp \<longleftrightarrow>
     limits_ok p sp \<and>
     distinct (map n_id (s_nodes sp)) \<and>
     (\<forall>n\<in>set (s_nodes sp). node_ok p n) \<and>
     sint (sum_list (map n_budget (s_nodes sp))) \<le> sint (l_budget (s_limits sp)) \<and>
     (\<forall>n\<in>set (s_nodes sp). distinct (n_depends_on n) \<and> n_id n \<notin> set (n_depends_on n) \<and>
        set (n_depends_on n) \<subseteq> n_id ` set (s_nodes sp)) \<and>
     acyclic (dep_rel sp) \<and>
     (\<forall>xs. dep_chain sp xs \<longrightarrow>
        int (length xs) \<le> l_max_depth (s_limits sp) \<and> int (length xs) \<le> pol_max_depth p)"

lemma vio_Nil [simp]: "vio c i b = [] \<longleftrightarrow> \<not> b"
  by (simp add: vio_def)

lemma role_violations_Nil [simp]: "role_violations p n = [] \<longleftrightarrow> role_ok p n"
  by (auto simp: role_violations_def role_ok_def Let_def split: option.splits)

lemma node_violations_Nil: "node_violations p seen n = [] \<longleftrightarrow> node_ok p n \<and> seen (n_id n) = None"
  by (auto simp: node_violations_def node_ok_def)

lemma limit_violations_Nil [simp]: "limit_violations p sp = [] \<longleftrightarrow> limits_ok p sp"
  by (auto simp: limit_violations_def limits_ok_def Let_def)

lemma node_loop_snd:
  "snd (node_loop p seen acc ns) =
     (seen ++ map_of (rev (map (\<lambda>n. (n_id n, n)) ns)), acc + sum_list (map n_budget ns))"
proof (induction ns arbitrary: seen acc)
  case Nil
  then show ?case by simp
next
  case (Cons n ns)
  have "snd (node_loop p seen acc (n # ns)) =
      snd (node_loop p (seen(n_id n \<mapsto> n)) (acc + n_budget n) ns)"
    by (simp add: case_prod_beta Let_def)
  moreover have "(seen(n_id n \<mapsto> n)) ++ map_of (rev (map (\<lambda>n. (n_id n, n)) ns)) =
      seen ++ map_of (rev (map (\<lambda>n. (n_id n, n)) (n # ns)))"
    by (auto simp: fun_eq_iff map_add_def split: option.splits)
  ultimately show ?case
    by (simp only: Cons.IH list.map sum_list.Cons add.assoc)
qed

lemma node_loop_Nil:
  "fst (node_loop p seen acc ns) = [] \<longleftrightarrow>
     (\<forall>n\<in>set ns. node_ok p n) \<and> distinct (map n_id ns) \<and> (\<forall>n\<in>set ns. seen (n_id n) = None)"
  by (induction ns arbitrary: seen acc)
    (auto simp: case_prod_beta Let_def node_violations_Nil image_iff split: if_splits)

lemma dependency_violations_Nil:
  "dependency_violations nodes i seen ds = [] \<longleftrightarrow>
     distinct ds \<and> i \<notin> set ds \<and> set ds \<subseteq> dom nodes \<and> set ds \<inter> set seen = {}"
  by (induction ds arbitrary: seen) auto

definition node_map :: "spec \<Rightarrow> (string \<rightharpoonup> node)" where
  "node_map sp = map_of (rev (map (\<lambda>n. (n_id n, n)) (s_nodes sp)))"

lemma dom_node_map: "dom (node_map sp) = n_id ` set (s_nodes sp)"
  by (auto simp: node_map_def dom_map_of_conv_image_fst image_image)

lemma node_map_id:
  assumes "distinct (map n_id (s_nodes sp))" and "n \<in> set (s_nodes sp)"
  shows "node_map sp (n_id n) = Some n"
proof -
  have "distinct (map fst (rev (map (\<lambda>n. (n_id n, n)) (s_nodes sp))))"
    using assms(1) by (simp add: rev_map [symmetric] comp_def)
  moreover have "(n_id n, n) \<in> set (rev (map (\<lambda>n. (n_id n, n)) (s_nodes sp)))"
    using assms(2) by simp
  ultimately show ?thesis unfolding node_map_def by (rule map_of_is_SomeI)
qed

lemma node_succs_accepted:
  assumes "distinct (map n_id (s_nodes sp))" and "n \<in> set (s_nodes sp)"
    and "set (n_depends_on n) \<subseteq> n_id ` set (s_nodes sp)"
  shows "node_succs (node_map sp) (n_id n) = n_depends_on n"
proof -
  have "\<forall>d\<in>set (n_depends_on n). node_map sp d \<noteq> None"
    using assms(3) dom_node_map [of sp] by blast
  then show ?thesis
    using node_map_id [OF assms(1,2)] by (simp add: node_succs_def filter_id_conv)
qed

lemma edges_node_succs:
  assumes "distinct (map n_id (s_nodes sp))"
    and "\<forall>n\<in>set (s_nodes sp). set (n_depends_on n) \<subseteq> n_id ` set (s_nodes sp)"
  shows "edges (node_succs (node_map sp)) = dep_rel sp"
proof (rule set_eqI)
  fix e :: "string \<times> string"
  obtain x y where e: "e = (x, y)" by (cases e)
  show "e \<in> edges (node_succs (node_map sp)) \<longleftrightarrow> e \<in> dep_rel sp"
  proof (cases "x \<in> n_id ` set (s_nodes sp)")
    case True
    then obtain n where n: "n \<in> set (s_nodes sp)" "x = n_id n" by blast
    have "n' = n" if "n' \<in> set (s_nodes sp)" "n_id n' = n_id n" for n'
      using assms(1) n(1) that by (meson distinct_map inj_onD)
    then have "(x, y) \<in> dep_rel sp \<longleftrightarrow> y \<in> set (n_depends_on n)"
      using n by (auto simp: dep_rel_def)
    then show ?thesis
      using e node_succs_accepted [OF assms(1) n(1)] assms(2) n by simp
  next
    case False
    then have "node_map sp x = None" using dom_node_map [of sp] by blast
    with False e show ?thesis by (auto simp: node_succs_def dep_rel_def)
  qed
qed

lemma gpath_nth: "gpath succs xs \<longleftrightarrow> (\<forall>i. Suc i < length xs \<longrightarrow> (xs ! i, xs ! Suc i) \<in> edges succs)"
proof (induction succs xs rule: gpath.induct)
  case (3 succs x y ys)
  then show ?case by (auto simp: nth_Cons split: nat.splits)
qed auto

lemma cyclic_dep_rel:
  assumes "edges succs = dep_rel sp"
    and "\<forall>n\<in>set (s_nodes sp). set (n_depends_on n) \<subseteq> n_id ` set (s_nodes sp)"
  shows "cyclic_from succs (n_id ` set (s_nodes sp)) \<longleftrightarrow> \<not> acyclic (dep_rel sp)"
proof
  assume "cyclic_from succs (n_id ` set (s_nodes sp))"
  then show "\<not> acyclic (dep_rel sp)"
    by (auto simp: cyclic_from_def acyclic_def assms(1))
next
  assume "\<not> acyclic (dep_rel sp)"
  then obtain y where y: "(y, y) \<in> (dep_rel sp)\<^sup>+" by (auto simp: acyclic_def)
  then obtain z where "(y, z) \<in> dep_rel sp" by (meson tranclD)
  then have "y \<in> n_id ` set (s_nodes sp)" by (auto simp: dep_rel_def)
  with y show "cyclic_from succs (n_id ` set (s_nodes sp))"
    by (auto simp: cyclic_from_def assms(1))
qed

lemma graph_violations_Nil:
  assumes dist: "distinct (map n_id (s_nodes sp))"
    and closed: "\<forall>n\<in>set (s_nodes sp). set (n_depends_on n) \<subseteq> n_id ` set (s_nodes sp)"
    and order: "set order = n_id ` set (s_nodes sp)" and ne: "s_nodes sp \<noteq> []"
  shows "graph_violations p sp (node_map sp) order = [] \<longleftrightarrow>
     acyclic (dep_rel sp) \<and>
     (\<forall>xs. dep_chain sp xs \<longrightarrow>
        int (length xs) \<le> l_max_depth (s_limits sp) \<and> int (length xs) \<le> pol_max_depth p)"
proof -
  let ?succs = "node_succs (node_map sp)"
  have E: "edges ?succs = dep_rel sp" by (rule edges_node_succs [OF dist closed])
  have V: "\<forall>z\<in>set order. set (?succs z) \<subseteq> set order"
    using dom_node_map [of sp] order
    by (auto simp: node_succs_def split: option.splits)
  have card: "card (set order) < Suc (length order)"
    by (simp add: card_length le_imp_less_Suc)
  obtain v cyc where r: "gscan (Suc (length order)) ?succs no_marks order 0 = Some (v, cyc)"
    and cyc: "cyc \<longleftrightarrow> cyclic_from ?succs (set order)"
    and le: "\<not> cyc \<longrightarrow> (\<forall>x\<in>set order. \<forall>ys. gpath ?succs (x # ys) \<longrightarrow> length (x # ys) \<le> v)"
    and ex: "\<not> cyc \<longrightarrow> order \<noteq> [] \<longrightarrow> (\<exists>x\<in>set order. \<exists>ys. gpath ?succs (x # ys) \<and> length (x # ys) = v)"
    using gscan_result [OF finite_set V subset_refl card] by blast
  have cyc': "cyc \<longleftrightarrow> \<not> acyclic (dep_rel sp)"
    using cyc cyclic_dep_rel [OF E closed] order by simp
  have chain: "dep_chain sp xs \<longleftrightarrow> (\<exists>x ys. xs = x # ys \<and> x \<in> set order \<and> gpath ?succs xs)" for xs
    by (cases xs) (auto simp: dep_chain_def order gpath_nth E)
  show ?thesis
  proof (cases cyc)
    case True
    with r cyc' show ?thesis by (simp add: graph_violations_def graph_depth_def)
  next
    case False
    have "order \<noteq> []" using order ne by auto
    with ex False obtain x ys where top: "x \<in> set order" "gpath ?succs (x # ys)" "length (x # ys) = v"
      by blast
    then have longest: "dep_chain sp (x # ys)" by (intro chain [THEN iffD2]) blast
    have bound: "int (length xs) \<le> int v" if "dep_chain sp xs" for xs
    proof -
      from chain [THEN iffD1, OF that]
      obtain z zs where zs: "xs = z # zs" "z \<in> set order" "gpath ?succs (z # zs)" by auto
      from le [rule_format, OF False zs(2,3)] zs(1) show ?thesis by simp
    qed
    have "(\<forall>xs. dep_chain sp xs \<longrightarrow> int (length xs) \<le> m \<and> int (length xs) \<le> k) \<longleftrightarrow>
        int v \<le> m \<and> int v \<le> k" for m k
    proof
      assume "\<forall>xs. dep_chain sp xs \<longrightarrow> int (length xs) \<le> m \<and> int (length xs) \<le> k"
      with longest top(3) show "int v \<le> m \<and> int v \<le> k" by blast
    next
      assume "int v \<le> m \<and> int v \<le> k"
      with bound show "\<forall>xs. dep_chain sp xs \<longrightarrow> int (length xs) \<le> m \<and> int (length xs) \<le> k"
        by fastforce
    qed
    with r False cyc' show ?thesis by (simp add: graph_violations_def graph_depth_def not_less)
  qed
qed

lemma validate_contract:
  assumes "set order = n_id ` set (s_nodes sp)"
  shows "validate p sp order = [] \<longleftrightarrow> spec_accepted p sp"
proof -
  let ?ns = "s_nodes sp"
  have nodes: "snd (node_loop p Map.empty 0 ?ns) = (node_map sp, sum_list (map n_budget ?ns))"
    by (simp add: node_loop_snd node_map_def)
  have deps: "concat (map (\<lambda>n. dependency_violations (node_map sp) (n_id n) [] (n_depends_on n)) ?ns) = [] \<longleftrightarrow>
      (\<forall>n\<in>set ?ns. distinct (n_depends_on n) \<and> n_id n \<notin> set (n_depends_on n) \<and>
        set (n_depends_on n) \<subseteq> n_id ` set ?ns)"
    by (auto simp: dependency_violations_Nil dom_node_map)
  have ne: "limits_ok p sp \<Longrightarrow> ?ns \<noteq> []"
    by (auto simp: limits_ok_def Let_def)
  have "validate p sp order = [] \<longleftrightarrow>
      limits_ok p sp \<and> fst (node_loop p Map.empty 0 ?ns) = [] \<and>
      sint (sum_list (map n_budget ?ns)) \<le> sint (l_budget (s_limits sp)) \<and>
      concat (map (\<lambda>n. dependency_violations (node_map sp) (n_id n) [] (n_depends_on n)) ?ns) = [] \<and>
      graph_violations p sp (node_map sp) order = []"
    using nodes by (simp add: validate_def case_prod_beta Let_def not_less)
  also have "\<dots> \<longleftrightarrow> spec_accepted p sp"
    unfolding deps node_loop_Nil spec_accepted_def
    using graph_violations_Nil [of sp order p] assms ne by auto
  finally show ?thesis .
qed

text \<open>
  C1. The policy of \<^verbatim>\<open>Validate\<close> is sound and complete: for any order in which Go ranges over
  the node map, the list of violations is empty exactly when the definition satisfies the
  stated contract, in particular when its dependency graph is acyclic, names only existing
  nodes, and has no chain longer than the depth limits.
\<close>

theorem validate_iff_accepted:
  assumes "set order = n_id ` set (s_nodes sp)"
  shows "validate p sp order = [] \<longleftrightarrow> spec_accepted p sp"
  using assms by (rule validate_contract)

text \<open>A definition of two nodes, the second depending on the first, that the policy accepts.\<close>

definition demo_caps :: "int \<Rightarrow> role_capabilities" where
  "demo_caps i = \<lparr>rc_exists = True, rc_enabled = True, rc_capabilities = [''batch'']\<rparr>"

definition demo_node :: "string \<Rightarrow> string list \<Rightarrow> int64 \<Rightarrow> node" where
  "demo_node i ds b =
     \<lparr>n_id = i, n_intent = ''x'', n_role = \<lparr>rs_role_id = 1, rs_required_capabilities = []\<rparr>,
      n_depends_on = ds, n_permission = ''full'', n_allowed_actions = [], n_approval_required = False,
      n_input_refs = [], n_timeout_seconds = 60, n_failure_policy = ''stop'', n_budget = b\<rparr>"

definition demo_spec :: "int64 \<Rightarrow> int64 \<Rightarrow> spec" where
  "demo_spec b1 b2 =
     \<lparr>s_version = 1, s_goal = ''g'', s_created_by = ''t'',
      s_limits = \<lparr>l_budget = 100, l_max_nodes = 4, l_max_depth = 3, l_max_concurrency = 2\<rparr>,
      s_nodes = [demo_node ''a'' [] b1, demo_node ''b'' [''a''] b2]\<rparr>"

lemma demo_spec_valid: "validate (default_policy demo_caps) (demo_spec 20 40) [''b'', ''a''] = []"
  by code_simp

theorem validate_iff_accepted_witness:
  "spec_accepted (default_policy demo_caps) (demo_spec 20 40)"
proof -
  have "set [''b'', ''a''] = n_id ` set (s_nodes (demo_spec 20 40))"
    by (auto simp: demo_spec_def demo_node_def)
  from validate_iff_accepted [OF this, of "default_policy demo_caps"] demo_spec_valid
  show ?thesis by simp
qed

subsection \<open>The budget check and its overflow\<close>

lemma sint_sum_list:
  fixes xs :: "int64 list"
  assumes "\<forall>x\<in>set xs. 0 \<le> sint x \<and> sint x \<le> B" and "int (length xs) * B < 2 ^ 63"
  shows "sint (sum_list xs) = (\<Sum>x\<leftarrow>xs. sint x) \<and> 0 \<le> sint (sum_list xs) \<and>
    sint (sum_list xs) \<le> int (length xs) * B"
  using assms
proof (induction xs)
  case Nil
  then show ?case by simp
next
  case (Cons x xs)
  then have x: "0 \<le> sint x" "sint x \<le> B" by auto
  then have "int (length xs) * B < 2 ^ 63" using Cons.prems(2) by (simp add: algebra_simps)
  with Cons have IH: "sint (sum_list xs) = (\<Sum>x\<leftarrow>xs. sint x)" "0 \<le> sint (sum_list xs)"
    "sint (sum_list xs) \<le> int (length xs) * B" by auto
  have "sint x + sint (sum_list xs) \<le> int (length (x # xs)) * B"
    using x(2) IH(3) by (simp add: algebra_simps)
  moreover have "sint (x + sum_list xs) = sint x + sint (sum_list xs)"
    using x IH calculation Cons.prems(2)
    by (simp add: sint_word_ariths(1) signed_take_bit_int_eq_self)
  ultimately show ?case using x IH by simp
qed

text \<open>
  When no node asks for more than the installation's budget ceiling, an accepted
  definition really stays within its own budget: the true sum of the node budgets, computed
  without wrap-around, is at most the limit. The 64 node ceiling keeps the sum in range.
\<close>

theorem accepted_budget_bound:
  assumes "validate (default_policy resolve) sp order = []"
    and "set order = n_id ` set (s_nodes sp)"
    and "\<forall>n\<in>set (s_nodes sp). sint (n_budget n) \<le> sint (pol_max_budget (default_policy resolve))"
  shows "(\<Sum>n\<leftarrow>s_nodes sp. sint (n_budget n)) \<le> sint (l_budget (s_limits sp))"
proof -
  from assms(1,2) have acc: "spec_accepted (default_policy resolve) sp"
    using validate_contract by blast
  then have len: "int (length (s_nodes sp)) \<le> 64"
    by (simp add: spec_accepted_def limits_ok_def default_policy_def Let_def)
  have rng: "\<forall>x\<in>set (map n_budget (s_nodes sp)). 0 \<le> sint x \<and> sint x \<le> 1000000"
    using acc assms(3) by (auto simp: spec_accepted_def node_ok_def default_policy_def)
  have "sint (sum_list (map n_budget (s_nodes sp))) = (\<Sum>x\<leftarrow>map n_budget (s_nodes sp). sint x)"
    using sint_sum_list [OF rng] len by simp
  then show ?thesis
    using acc by (simp add: spec_accepted_def comp_def)
qed

theorem accepted_budget_bound_witness:
  "(\<Sum>n\<leftarrow>s_nodes (demo_spec 20 40). sint (n_budget n)) \<le> sint (l_budget (s_limits (demo_spec 20 40)))"
proof (rule accepted_budget_bound [OF demo_spec_valid])
  show "set [''b'', ''a''] = n_id ` set (s_nodes (demo_spec 20 40))"
    by (auto simp: demo_spec_def demo_node_def)
  show "\<forall>n\<in>set (s_nodes (demo_spec 20 40)).
      sint (n_budget n) \<le> sint (pol_max_budget (default_policy demo_caps))"
    by (auto simp: demo_spec_def demo_node_def default_policy_def)
qed

text \<open>
  Node budgets have no upper bound of their own and are added in 64 bits, so the sum can
  wrap to a negative number: two nodes of budget $2^{62}$ pass the policy of a definition whose
  budget is 100.
\<close>

lemma budget_overflow_accepted:
  "validate (default_policy demo_caps) (demo_spec (2 ^ 62) (2 ^ 62)) [''a'', ''b''] = [] \<and>
   sint (l_budget (s_limits (demo_spec (2 ^ 62) (2 ^ 62)))) = 100 \<and>
   (\<Sum>n\<leftarrow>s_nodes (demo_spec (2 ^ 62) (2 ^ 62)). sint (n_budget n)) = 2 ^ 63"
  by code_simp

end
