(* ===== verification/Store_Model.thy ===== *)
theory Store_Model
  imports Workflow_Policy
begin

text \<open>
  The state of \<^verbatim>\<open>internal/store\<close>: the row types of models.go, the tables of schema.go and
  the statements the store issues on them. A statement ends in the check of the schema's
  constraints (primary keys, the unique indexes of \<^verbatim>\<open>merge_of\<close> and \<^verbatim>\<open>external_key\<close>,
  the shape checks, the foreign keys), as SQLite does at the end of each statement; an
  operation that fails returns no new state, the rollback of its transaction.
  Text columns that hold one of Go's named constants are datatypes with one constructor
  for any other text. Identifiers and counters are \<open>int\<close>; timestamps are texts and the
  clock is an argument. Columns the source only computes by a join (\<^verbatim>\<open>role_name\<close>,
  \<^verbatim>\<open>project_name\<close>) are left out.
\<close>

section \<open>Named constants (models.go)\<close>

datatype status =
    StatusQueued | StatusClaimed | StatusRunning | StatusAwaitingReview
  | StatusSucceeded | StatusFailed | StatusCancelled
  | SessionStatusCreated | SessionStatusActive | SessionStatusSuspended
  | SessionStatusDelivered | SessionStatusDeleted
  | WorkflowStatusAdopted
  | StatusOther string

definition status_names :: "(string \<times> status) list" where
  "status_names =
     [(''queued'', StatusQueued), (''claimed'', StatusClaimed), (''running'', StatusRunning),
      (''awaiting_review'', StatusAwaitingReview), (''succeeded'', StatusSucceeded),
      (''failed'', StatusFailed), (''cancelled'', StatusCancelled),
      (''created'', SessionStatusCreated), (''active'', SessionStatusActive),
      (''suspended'', SessionStatusSuspended), (''delivered'', SessionStatusDelivered),
      (''deleted'', SessionStatusDeleted), (''adopted'', WorkflowStatusAdopted)]"

definition status_of :: "string \<Rightarrow> status" where
  "status_of s = (case map_of status_names s of None \<Rightarrow> StatusOther s | Some st \<Rightarrow> st)"

datatype perm = PermFull | PermReview | PermOther string

definition perm_of :: "string \<Rightarrow> perm" where
  "perm_of s = (if s = ''full'' then PermFull else if s = ''review'' then PermReview else PermOther s)"

datatype dependency_mode =
  DependencyNone | DependencyWeak | DependencyStrong | DependencyOther string

definition dependency_mode_of :: "string \<Rightarrow> dependency_mode" where
  "dependency_mode_of s =
     (if s = ''none'' then DependencyNone else if s = ''weak'' then DependencyWeak
      else if s = ''strong'' then DependencyStrong else DependencyOther s)"

datatype run_mode = RunModeBatch | RunModeInteractive | RunModeOther string

definition run_mode_of :: "string \<Rightarrow> run_mode" where
  "run_mode_of s =
     (if s = ''batch'' then RunModeBatch else if s = ''interactive'' then RunModeInteractive
      else RunModeOther s)"

datatype task_type = TaskTypeTask | TaskTypeSession | TaskTypeWorkflow | TaskTypeOther string

text \<open>The column \<^verbatim>\<open>spec\<close>: empty, the JSON of a definition, or text that does not parse.\<close>

datatype spec_text = SpecEmpty | SpecJson spec | SpecBad string

section \<open>Rows\<close>

record task =
  t_id :: int
  t_type :: task_type
  t_title :: string
  t_body :: string
  t_status :: status
  t_perm :: perm
  t_run_mode :: run_mode
  t_concurrent :: bool
  t_role_id :: "int option"
  t_project_id :: "int option"
  t_project_dir :: string
  t_parent_id :: "int option"
  t_depends_on :: "int option"
  t_dependency_mode :: dependency_mode
  t_block_on_failure :: bool
  t_schedule_id :: "int option"
  t_error :: string
  t_exit_code :: "int option"
  t_review_note :: string
  t_review_rounds :: int
  t_tmux_log_offset :: int
  t_worktree_branch :: string
  t_base_commit :: string
  t_resume_of :: "int option"
  t_merge_of :: "int option"
  t_merge_skipped :: bool
  t_sort_order :: int
  t_terminal_cols :: int
  t_terminal_rows :: int
  t_session_id :: "int option"
  t_workflow_run_id :: "int option"
  t_parent_session_id :: "int option"
  t_parent_task_id :: "int option"
  t_cron :: string
  t_enabled :: bool
  t_last_run_at :: "string option"
  t_next_run_at :: "string option"
  t_worktree_path :: string
  t_session_dir :: string
  t_last_message_at :: string
  t_message_count :: int
  t_suspended_at :: "string option"
  t_delivered_at :: "string option"
  t_spec :: spec_text
  t_violations :: string
  t_spec_hash :: string
  t_external_key :: string
  t_revision :: int
  t_created_at :: string
  t_started_at :: "string option"
  t_finished_at :: "string option"
  t_updated_at :: string

record role_config =
  rcf_model :: string
  rcf_system_prompt :: string
  rcf_instructions :: string
  rcf_skills :: "string list"
  rcf_thinking :: string
  rcf_plugins :: "string list"
  rcf_extra_args :: "string list"
  rcf_env :: "(string \<times> string) list"
  rcf_custom :: "(string \<times> string) list"

record role =
  a_id :: int
  a_name :: string
  a_description :: string
  a_runtime_id :: string
  a_role_config :: role_config
  a_max_concurrency :: int
  a_delegation_enabled :: bool
  a_delegation_max_perm :: perm
  a_enabled :: bool
  a_revision :: int
  a_created_at :: string
  a_updated_at :: string

record project =
  p_id :: int
  p_name :: string
  p_description :: string
  p_status :: string
  p_project_dir :: string
  p_github_repo :: string
  p_github_role_id :: "int option"
  p_github_auto_issues :: bool
  p_github_auto_prs :: bool
  p_github_auto_security :: bool
  p_revision :: int
  p_created_at :: string
  p_updated_at :: string

datatype run_status = RunStatusCreated | RunStatusRunning | RunStatusSucceeded
  | RunStatusFailed | RunStatusCancelled | RunStatusOther string

record run =
  r_id :: int
  r_workflow_id :: int
  r_project_id :: int
  r_task :: string
  r_status :: run_status
  r_task_ids :: "(string \<times> int) list"
  r_revision :: int
  r_created_at :: string
  r_started_at :: "string option"
  r_finished_at :: "string option"
  r_updated_at :: string

record dep =
  d_task_id :: int
  d_depends_on :: int
  d_on_failure :: string

record task_log =
  g_id :: int
  g_task_id :: int
  g_seq :: int
  g_stream :: string
  g_content :: string
  g_created_at :: string

section \<open>The database\<close>

record db =
  tasks :: "task list"
  task_seq :: int
  roles :: "role list"
  role_seq :: int
  projects :: "project list"
  project_seq :: int
  runs :: "run list"
  run_seq :: int
  deps :: "dep list"
  logs :: "task_log list"
  log_seq :: int

definition empty_db :: db where
  "empty_db = \<lparr>tasks = [], task_seq = 0, roles = [], role_seq = 0, projects = [], project_seq = 0,
     runs = [], run_seq = 0, deps = [], logs = [], log_seq = 0\<rparr>"

text \<open>The errors the store returns; \<open>reason\<close> names the fixed message texts.\<close>

datatype reason =
    MsgBadMode | MsgOnlyProjectTasks | MsgTargetRequired | MsgBadTargetId | MsgTargetMissing
  | MsgTargetNotTask | MsgTargetScheduled | MsgTargetMerge | MsgTargetOtherProject
  | MsgMergeFixed | MsgOnlyOrdinary | MsgScheduledNoDependency | MsgBadProjectId
  | MsgWeakNeedsProject | MsgWeakHasTarget | MsgStrongNeedsProject | MsgSelf | MsgCycle
  | MsgReorderCycle | MsgProjectMissing | MsgReorderIncomplete | MsgReorderInvalid
  | MsgNotCompletable | MsgNotDeliverable | MsgNotApprovable | MsgBadSource | MsgNoMergeNeeded
  | MsgRoleBusy | MsgBadRunStatus | MsgProjectUnavailable | MsgSpecUnreadable
  | MsgDependencyNodeMissing

datatype store_error =
    ErrNoRows
  | ErrConstraint
  | ErrRevisionConflict
  | ErrWorkflowRunsActive
  | ErrTaskDependency int int
  | ErrDependencyUpdate reason
  | Err reason

section \<open>The constraints of the schema (schema.go)\<close>

definition fk :: "int set \<Rightarrow> int option \<Rightarrow> bool" where
  "fk ids r = (case r of None \<Rightarrow> True | Some i \<Rightarrow> i \<in> ids)"

definition task_ids :: "db \<Rightarrow> int set" where "task_ids db = t_id ` set (tasks db)"
definition role_ids :: "db \<Rightarrow> int set" where "role_ids db = a_id ` set (roles db)"
definition project_ids :: "db \<Rightarrow> int set" where "project_ids db = p_id ` set (projects db)"
definition run_ids :: "db \<Rightarrow> int set" where "run_ids db = r_id ` set (runs db)"

definition shape_ok :: "task \<Rightarrow> bool" where
  "shape_ok t \<longleftrightarrow>
     t_type t \<in> {TaskTypeTask, TaskTypeSession, TaskTypeWorkflow} \<and>
     (t_type t = TaskTypeWorkflow \<or>
        t_spec t = SpecEmpty \<and> t_spec_hash t = [] \<and> t_violations t \<in> {[], ''[]''}) \<and>
     (t_type t = TaskTypeSession \<or>
        t_worktree_path t = [] \<and> t_session_dir t = [] \<and> t_last_message_at t = [] \<and>
        t_message_count t = 0 \<and> t_suspended_at t = None \<and> t_delivered_at t = None)"

definition task_refs_ok :: "db \<Rightarrow> task \<Rightarrow> bool" where
  "task_refs_ok db t \<longleftrightarrow>
     fk (role_ids db) (t_role_id t) \<and> fk (project_ids db) (t_project_id t) \<and>
     fk (task_ids db) (t_parent_id t) \<and> fk (task_ids db) (t_depends_on t) \<and>
     fk (task_ids db) (t_resume_of t) \<and> fk (task_ids db) (t_session_id t) \<and>
     fk (run_ids db) (t_workflow_run_id t) \<and>
     fk (task_ids db) (t_parent_session_id t) \<and> fk (task_ids db) (t_parent_task_id t)"

text \<open>The values a unique index holds: the present ones.\<close>

definition merge_keys :: "task list \<Rightarrow> int list" where
  "merge_keys ts = List.map_filter t_merge_of ts"

definition external_keys :: "task list \<Rightarrow> string list" where
  "external_keys ts = filter (\<lambda>k. k \<noteq> []) (map t_external_key ts)"

definition tasks_ok :: "db \<Rightarrow> bool" where
  "tasks_ok db \<longleftrightarrow>
     distinct (map t_id (tasks db)) \<and> distinct (merge_keys (tasks db)) \<and>
     distinct (external_keys (tasks db)) \<and>
     list_all shape_ok (tasks db) \<and> list_all (task_refs_ok db) (tasks db)"

definition others_ok :: "db \<Rightarrow> bool" where
  "others_ok db \<longleftrightarrow>
     distinct (map a_id (roles db)) \<and> distinct (map a_name (roles db)) \<and>
     list_all (\<lambda>a. 1 \<le> a_max_concurrency a) (roles db) \<and>
     distinct (map p_id (projects db)) \<and> distinct (map p_name (projects db)) \<and>
     list_all (\<lambda>p. fk (role_ids db) (p_github_role_id p)) (projects db) \<and>
     distinct (map r_id (runs db)) \<and>
     list_all (\<lambda>r. r_workflow_id r \<in> task_ids db \<and> r_project_id r \<in> project_ids db) (runs db) \<and>
     distinct (map (\<lambda>d. (d_task_id d, d_depends_on d)) (deps db)) \<and>
     list_all (\<lambda>d. d_task_id d \<in> task_ids db \<and> d_depends_on d \<in> task_ids db \<and>
       d_task_id d \<noteq> d_depends_on d) (deps db) \<and>
     list_all (\<lambda>g. g_task_id g \<in> task_ids db) (logs db)"

definition schema_ok :: "db \<Rightarrow> bool" where
  "schema_ok db \<longleftrightarrow> tasks_ok db \<and> others_ok db"

section \<open>Statements\<close>

definition exec_stmt :: "db \<Rightarrow> store_error + db" where
  "exec_stmt db = (if schema_ok db then Inr db else Inl ErrConstraint)"

text \<open>\<^verbatim>\<open>UPDATE tasks SET ... WHERE p\<close>: the new state and \<^verbatim>\<open>RowsAffected\<close>.\<close>

definition update_tasks :: "(task \<Rightarrow> bool) \<Rightarrow> (task \<Rightarrow> task) \<Rightarrow> db \<Rightarrow> store_error + (db \<times> nat)" where
  "update_tasks p f db =
     rbind (exec_stmt (db\<lparr>tasks := upd_where p f (tasks db)\<rparr>))
       (\<lambda>db'. Inr (db', affected p (tasks db)))"

text \<open>\<^verbatim>\<open>AUTOINCREMENT\<close>: one more than the greatest id ever used.\<close>

definition next_id :: "int \<Rightarrow> int list \<Rightarrow> int" where
  "next_id seq ids = max seq (max_or_zero ids) + 1"

definition insert_task_row :: "task \<Rightarrow> db \<Rightarrow> store_error + (db \<times> int)" where
  "insert_task_row t db =
     (let i = next_id (task_seq db) (map t_id (tasks db)) in
      rbind (exec_stmt (db\<lparr>tasks := tasks db @ [t\<lparr>t_id := i\<rparr>], task_seq := i\<rparr>))
        (\<lambda>db'. Inr (db', i)))"

text \<open>
  \<^verbatim>\<open>DELETE FROM tasks WHERE id=?\<close>: the edges and log lines of the row go with it
  (\<^verbatim>\<open>ON DELETE CASCADE\<close>), any other reference to it fails the statement.
\<close>

definition delete_task_row :: "int \<Rightarrow> db \<Rightarrow> store_error + (db \<times> nat)" where
  "delete_task_row i db =
     rbind (exec_stmt (db\<lparr>tasks := del_where (\<lambda>t. t_id t = i) (tasks db),
         deps := del_where (\<lambda>d. d_task_id d = i) (deps db),
         logs := del_where (\<lambda>g. g_task_id g = i) (logs db)\<rparr>))
       (\<lambda>db'. Inr (db', affected (\<lambda>t. t_id t = i) (tasks db)))"

text \<open>\<^verbatim>\<open>GetTask\<close>, \<^verbatim>\<open>GetRole\<close>, \<^verbatim>\<open>GetProject\<close>: \<open>None\<close> is \<^verbatim>\<open>sql.ErrNoRows\<close>.\<close>

definition get_task :: "int \<Rightarrow> db \<Rightarrow> task option" where
  "get_task i db = sel t_id i (tasks db)"

definition get_role_row :: "int \<Rightarrow> db \<Rightarrow> role option" where
  "get_role_row i db = sel a_id i (roles db)"

definition get_project :: "int \<Rightarrow> db \<Rightarrow> project option" where
  "get_project i db = sel p_id i (projects db)"

definition get_run :: "int \<Rightarrow> db \<Rightarrow> run option" where
  "get_run i db = sel r_id i (runs db)"

end
