(* ===== verification/Store_Statements.thy ===== *)
theory Store_Statements
  imports Store_Model
begin

text \<open>
  What the statements of \<^verbatim>\<open>Store_Model\<close> do: when the schema accepts them, what a lookup
  returns afterwards, and that new ids are fresh. Two interfaces are stated here and
  interpreted by the operations that provide them: \<open>optimistic\<close> for writes that name the
  revision they read, and \<open>guarded_edge\<close> for the conditional status updates.
\<close>

named_theorems same_keys \<open>updates that keep the columns the schema constrains\<close>

section \<open>Keys and references\<close>

definition keeps_keys :: "(task \<Rightarrow> task) \<Rightarrow> bool" where
  "keeps_keys f \<longleftrightarrow> (\<forall>t. t_id (f t) = t_id t \<and> t_merge_of (f t) = t_merge_of t \<and>
     t_external_key (f t) = t_external_key t)"

lemma keeps_keysI:
  assumes "\<And>t. t_id (f t) = t_id t" and "\<And>t. t_merge_of (f t) = t_merge_of t"
    and "\<And>t. t_external_key (f t) = t_external_key t"
  shows "keeps_keys f"
  using assms by (simp add: keeps_keys_def)

lemma merge_keys_upd: "keeps_keys f \<Longrightarrow> merge_keys (upd_where p f ts) = merge_keys ts"
  by (induction ts) (auto simp: merge_keys_def keeps_keys_def List.map_filter_simps split: option.splits)

lemma external_keys_upd: "keeps_keys f \<Longrightarrow> external_keys (upd_where p f ts) = external_keys ts"
  by (induction ts) (auto simp: external_keys_def keeps_keys_def)

lemma ids_upd: "keeps_keys f \<Longrightarrow> map t_id (upd_where p f ts) = map t_id ts"
  by (rule map_upd_where) (simp add: keeps_keys_def)

lemma task_ids_upd [simp]:
  "keeps_keys f \<Longrightarrow> task_ids (db\<lparr>tasks := upd_where p f (tasks db)\<rparr>) = task_ids db"
  using arg_cong [OF ids_upd [of f p "tasks db"], of set] by (simp add: task_ids_def)

lemma refs_upd:
  "keeps_keys f \<Longrightarrow> task_refs_ok (db\<lparr>tasks := upd_where p f (tasks db)\<rparr>) t \<longleftrightarrow> task_refs_ok db t"
  by (simp add: task_refs_ok_def role_ids_def project_ids_def run_ids_def)

lemma list_all_upd_where:
  "list_all P xs \<Longrightarrow> (\<And>x. x \<in> set xs \<Longrightarrow> p x \<Longrightarrow> P (f x)) \<Longrightarrow> list_all P (upd_where p f xs)"
  by (auto simp: list_all_iff set_upd_where)

lemma schema_ok_upd:
  assumes ok: "schema_ok db" and keys: "keeps_keys f"
    and row: "\<And>t. t \<in> set (tasks db) \<Longrightarrow> p t \<Longrightarrow> shape_ok (f t) \<and> task_refs_ok db (f t)"
  shows "schema_ok (db\<lparr>tasks := upd_where p f (tasks db)\<rparr>)"
proof -
  let ?db = "db\<lparr>tasks := upd_where p f (tasks db)\<rparr>"
  have "list_all shape_ok (tasks db)" "list_all (task_refs_ok db) (tasks db)"
    using ok by (auto simp: schema_ok_def tasks_ok_def)
  then have "list_all shape_ok (upd_where p f (tasks db))"
    "list_all (task_refs_ok db) (upd_where p f (tasks db))"
    using row by (auto intro!: list_all_upd_where)
  moreover have "task_refs_ok ?db = task_refs_ok db"
    using refs_upd [OF keys] by blast
  ultimately have "tasks_ok ?db"
    using ok keys by (simp add: schema_ok_def tasks_ok_def ids_upd merge_keys_upd external_keys_upd)
  moreover have "others_ok ?db"
    using ok keys by (simp add: schema_ok_def others_ok_def role_ids_def project_ids_def)
  ultimately show ?thesis by (simp add: schema_ok_def)
qed

text \<open>Updates of columns no constraint mentions.\<close>

definition plain_update :: "(task \<Rightarrow> task) \<Rightarrow> bool" where
  "plain_update f \<longleftrightarrow> keeps_keys f \<and> (\<forall>t. shape_ok (f t) = shape_ok t) \<and>
     (\<forall>db t. task_refs_ok db (f t) = task_refs_ok db t)"

lemma schema_ok_plain:
  "schema_ok db \<Longrightarrow> plain_update f \<Longrightarrow> schema_ok (db\<lparr>tasks := upd_where p f (tasks db)\<rparr>)"
  by (rule schema_ok_upd) (auto simp: plain_update_def schema_ok_def tasks_ok_def list_all_iff)

lemma schema_ok_row:
  "schema_ok db \<Longrightarrow> t \<in> set (tasks db) \<Longrightarrow> shape_ok t \<and> task_refs_ok db t"
  by (auto simp: schema_ok_def tasks_ok_def list_all_iff)

lemma schema_ok_distinct [dest]: "schema_ok db \<Longrightarrow> distinct (map t_id (tasks db))"
  by (simp add: schema_ok_def tasks_ok_def)

section \<open>Results of the statements\<close>

lemma exec_stmt_Inr [result_simps]: "exec_stmt db = Inr db' \<longleftrightarrow> schema_ok db \<and> db' = db"
  by (auto simp: exec_stmt_def)

lemma exec_stmt_ok [simp]: "schema_ok db \<Longrightarrow> exec_stmt db = Inr db"
  by (simp add: exec_stmt_def)

lemma update_tasks_Inr [result_simps]:
  "update_tasks p f db = Inr (db', n) \<longleftrightarrow>
     schema_ok (db\<lparr>tasks := upd_where p f (tasks db)\<rparr>) \<and>
     db' = db\<lparr>tasks := upd_where p f (tasks db)\<rparr> \<and> n = affected p (tasks db)"
  by (auto simp: update_tasks_def result_simps)

lemma update_tasks_plain:
  "schema_ok db \<Longrightarrow> plain_update f \<Longrightarrow>
     update_tasks p f db = Inr (db\<lparr>tasks := upd_where p f (tasks db)\<rparr>, affected p (tasks db))"
  by (simp add: update_tasks_def schema_ok_plain)

lemma get_task_upd [table_simps]:
  "(\<And>t. t_id (f t) = t_id t) \<Longrightarrow>
   get_task i (db\<lparr>tasks := upd_where p f (tasks db)\<rparr>) =
     map_option (\<lambda>t. if p t then f t else t) (get_task i db)"
  by (simp add: get_task_def sel_upd_where)

lemma get_task_id [dest]: "get_task i db = Some t \<Longrightarrow> t_id t = i"
  by (auto simp: get_task_def)

lemma get_task_mem: "get_task i db = Some t \<Longrightarrow> t \<in> set (tasks db)"
  by (auto simp: get_task_def)

lemma get_task_distinct:
  "schema_ok db \<Longrightarrow> t \<in> set (tasks db) \<Longrightarrow> get_task (t_id t) db = Some t"
  by (auto simp: get_task_def intro: sel_distinct)

lemma get_task_None: "get_task i db = None \<longleftrightarrow> i \<notin> task_ids db"
  by (simp add: get_task_def sel_None_iff task_ids_def)

lemma affected_task:
  "schema_ok db \<Longrightarrow>
   affected (\<lambda>t. t_id t = i \<and> q t) (tasks db) =
     (case get_task i db of None \<Rightarrow> 0 | Some t \<Rightarrow> if q t then 1 else 0)"
  by (simp add: get_task_def affected_key schema_ok_distinct)

section \<open>Fresh ids\<close>

lemma next_id_fresh: "next_id seq ids \<notin> set ids"
  using max_or_zero_ge [of "next_id seq ids" ids] by (auto simp: next_id_def)

lemma next_id_gt: "x \<in> set ids \<Longrightarrow> x < next_id seq ids"
  using max_or_zero_ge [of x ids] by (auto simp: next_id_def)

lemma next_id_seq: "seq < next_id seq ids"
  by (simp add: next_id_def)

lemma insert_task_row_Inr [result_simps]:
  "insert_task_row t db = Inr (db', i) \<longleftrightarrow>
     i = next_id (task_seq db) (map t_id (tasks db)) \<and>
     db' = db\<lparr>tasks := tasks db @ [t\<lparr>t_id := i\<rparr>], task_seq := i\<rparr> \<and> schema_ok db'"
  by (auto simp: insert_task_row_def Let_def result_simps)

lemma get_task_insert:
  assumes "insert_task_row t db = Inr (db', i)"
  shows "get_task j db' = (if j = i then Some (t\<lparr>t_id := i\<rparr>) else get_task j db)"
proof -
  have i: "i = next_id (task_seq db) (map t_id (tasks db))"
    and db': "tasks db' = tasks db @ [t\<lparr>t_id := i\<rparr>]"
    using assms by (auto simp: result_simps)
  have "i \<notin> t_id ` set (tasks db)"
    unfolding i using next_id_fresh by (metis list.set_map)
  then show ?thesis
    by (auto simp: get_task_def db' sel_append sel_not_mem split: option.splits)
qed

lemma fk_mono: "fk A r \<Longrightarrow> A \<subseteq> B \<Longrightarrow> fk B r"
  by (auto simp: fk_def split: option.splits)

lemma fk_simps [simp]: "fk ids None" "fk ids (Some i) \<longleftrightarrow> i \<in> ids"
  by (simp_all add: fk_def)

lemma task_refs_mono:
  "task_refs_ok db t \<Longrightarrow> task_ids db \<subseteq> task_ids db' \<Longrightarrow> role_ids db' = role_ids db \<Longrightarrow>
   project_ids db' = project_ids db \<Longrightarrow> run_ids db' = run_ids db \<Longrightarrow> task_refs_ok db' t"
  by (auto simp: task_refs_ok_def intro: fk_mono)

text \<open>When an insert is accepted.\<close>

lemma schema_ok_insert:
  assumes ok: "schema_ok db" and i: "i \<notin> task_ids db" and shape: "shape_ok t" and refs: "task_refs_ok db t"
    and merge: "case t_merge_of t of None \<Rightarrow> True | Some m \<Rightarrow> m \<notin> set (merge_keys (tasks db))"
    and ext: "t_external_key t = [] \<or> t_external_key t \<notin> set (external_keys (tasks db))"
  shows "schema_ok (db\<lparr>tasks := tasks db @ [t\<lparr>t_id := i\<rparr>], task_seq := k\<rparr>)"
proof -
  let ?t = "t\<lparr>t_id := i\<rparr>"
  let ?db = "db\<lparr>tasks := tasks db @ [?t], task_seq := k\<rparr>"
  have sub: "task_ids db \<subseteq> task_ids ?db" by (auto simp: task_ids_def)
  have other: "role_ids ?db = role_ids db" "project_ids ?db = project_ids db" "run_ids ?db = run_ids db"
    by (simp_all add: role_ids_def project_ids_def run_ids_def)
  have refs': "task_refs_ok ?db u" if "task_refs_ok db u" for u
    using that sub other by (rule task_refs_mono)
  have "task_refs_ok db ?t" using refs by (simp add: task_refs_ok_def)
  then have "list_all (task_refs_ok ?db) (tasks ?db)"
    using ok refs' by (auto simp: schema_ok_def tasks_ok_def list_all_iff)
  moreover have "distinct (merge_keys (tasks ?db))"
    using ok merge by (cases "t_merge_of t")
      (auto simp: schema_ok_def tasks_ok_def merge_keys_def List.map_filter_def)
  moreover have "distinct (external_keys (tasks ?db))"
    using ok ext by (auto simp: schema_ok_def tasks_ok_def external_keys_def)
  ultimately have "tasks_ok ?db"
    using ok i shape by (auto simp: schema_ok_def tasks_ok_def task_ids_def shape_ok_def)
  moreover have "others_ok ?db"
    using ok sub by (auto simp: schema_ok_def others_ok_def list_all_iff role_ids_def project_ids_def)
  ultimately show ?thesis by (simp add: schema_ok_def)
qed

section \<open>Writes that name the revision they read\<close>

text \<open>
  The contract of the optimistic writes: a write succeeds only on the revision it names,
  moves it up by one and leaves the other existing resources alone. Its consequence is that no update
  is lost: of the writers that read one revision, at most one succeeds, in every order.
\<close>

text \<open>A sequence of attempts, each naming the revision its author had read; a failed attempt
  leaves the state as it was. The result lists which of them succeeded.\<close>

fun attempts :: "(int \<Rightarrow> int \<Rightarrow> 'u \<Rightarrow> 's \<Rightarrow> 'e + 's) \<Rightarrow> (int \<times> int \<times> 'u) list \<Rightarrow> 's \<Rightarrow> bool list \<times> 's" where
  "attempts put [] s = ([], s)"
| "attempts put ((i, e, u) # ws) s =
    (case put i e u s of
       Inl _ \<Rightarrow> (let (bs, s') = attempts put ws s in (False # bs, s'))
     | Inr s1 \<Rightarrow> (let (bs, s') = attempts put ws s1 in (True # bs, s')))"

text \<open>The successful attempts on resource \<open>i\<close>.\<close>

definition winners :: "int \<Rightarrow> (int \<times> int \<times> 'u) list \<Rightarrow> bool list \<Rightarrow> nat" where
  "winners i ws bs = length (filter (\<lambda>(w, b). fst w = i \<and> b) (zip ws bs))"

lemma winners_Nil [simp]: "winners i [] bs = 0"
  by (simp add: winners_def)

lemma winners_Cons [simp]:
  "winners i (w # ws) (b # bs) = (if fst w = i \<and> b then 1 else 0) + winners i ws bs"
  by (simp add: winners_def)

locale optimistic =
  fixes revision_of :: "int \<Rightarrow> 's \<Rightarrow> int option"
    and put :: "int \<Rightarrow> int \<Rightarrow> 'u \<Rightarrow> 's \<Rightarrow> 'e + 's"
    and good :: "'s \<Rightarrow> bool"
  assumes put_current: "good s \<Longrightarrow> put i e u s = Inr s' \<Longrightarrow> revision_of i s = Some e"
    and put_bumps: "good s \<Longrightarrow> put i e u s = Inr s' \<Longrightarrow> revision_of i s' = Some (e + 1)"
    and put_frame: "good s \<Longrightarrow> put i e u s = Inr s' \<Longrightarrow> j \<noteq> i \<Longrightarrow>
      revision_of j s = Some r \<Longrightarrow> revision_of j s' = Some r"
    and put_good: "good s \<Longrightarrow> put i e u s = Inr s' \<Longrightarrow> good s'"
begin

lemma stale_fails: "good s \<Longrightarrow> revision_of i s \<noteq> Some e \<Longrightarrow> \<exists>x. put i e u s = Inl x"
  using put_current by (cases "put i e u s") auto

lemma attempts_length: "length (fst (attempts put ws s)) = length ws"
  by (induction ws arbitrary: s) (auto simp: case_prod_beta Let_def split: sum.splits)

lemma attempts_good: "good s \<Longrightarrow> good (snd (attempts put ws s))"
proof (induction ws arbitrary: s)
  case (Cons w ws)
  obtain i e u where w: "w = (i, e, u)" by (cases w)
  with Cons show ?case
    by (cases "put i e u s") (auto simp: case_prod_beta Let_def dest: put_good)
qed simp

lemma put_revision:
  "good s \<Longrightarrow> put j e u s = Inr s1 \<Longrightarrow> revision_of i s = Some r \<Longrightarrow>
   revision_of i s1 = Some (if i = j then r + 1 else r) \<and> (i = j \<longrightarrow> e = r)"
  using put_current [of s j e u s1] put_bumps [of s j e u s1] put_frame [of s j e u s1 i r] by auto

lemma revision_counts:
  "good s \<Longrightarrow> revision_of i s = Some r \<Longrightarrow>
   revision_of i (snd (attempts put ws s)) = Some (r + int (winners i ws (fst (attempts put ws s))))"
proof (induction ws arbitrary: s r)
  case Nil
  then show ?case by simp
next
  case (Cons w ws)
  obtain j e u where w: "w = (j, e, u)" by (cases w)
  show ?case
  proof (cases "put j e u s")
    case (Inl x)
    with Cons w show ?thesis by (auto simp: case_prod_beta Let_def)
  next
    case (Inr s1)
    have "good s1" "revision_of i s1 = Some (if i = j then r + 1 else r)"
      using put_good [OF Cons.prems(1) Inr] put_revision [OF Cons.prems(1) Inr Cons.prems(2)] by auto
    from Cons.IH [OF this] Inr w show ?thesis by (auto simp: case_prod_beta Let_def)
  qed
qed

lemma same_revision_one_winner:
  "good s \<Longrightarrow> revision_of i s = Some r \<Longrightarrow> e \<le> r \<Longrightarrow>
   (\<forall>w\<in>set ws. fst w = i \<longrightarrow> fst (snd w) = e) \<Longrightarrow>
   winners i ws (fst (attempts put ws s)) \<le> (if e = r then 1 else 0)"
proof (induction ws arbitrary: s r)
  case Nil
  then show ?case by simp
next
  case (Cons w ws)
  obtain j e' u where w: "w = (j, e', u)" by (cases w)
  show ?case
  proof (cases "put j e' u s")
    case (Inl x)
    with Cons.IH [OF Cons.prems(1,2,3)] Cons.prems(4) w show ?thesis
      by (auto simp: case_prod_beta Let_def)
  next
    case (Inr s1)
    let ?r = "if i = j then r + 1 else r"
    have s1: "good s1" "revision_of i s1 = Some ?r" "i = j \<longrightarrow> e = r"
      using put_good [OF Cons.prems(1) Inr] put_revision [OF Cons.prems(1) Inr Cons.prems(2)]
        Cons.prems(4) w by auto
    have "e \<le> ?r" using Cons.prems(3) by simp
    from Cons.IH [OF s1(1,2) this] s1(3) Cons.prems(4) Inr w show ?thesis
      by (auto simp: case_prod_beta Let_def)
  qed
qed

end

section \<open>Conditional status updates\<close>

text \<open>
  The contract of a conditional status update: it reports true exactly when the row is in one
  of the source states, and then the row is in the target state; otherwise nothing changes.
\<close>

text \<open>A sequence of calls of such an operation; the result lists what each reported.\<close>

fun calls :: "(int \<Rightarrow> string \<Rightarrow> 's \<Rightarrow> 'e + ('s \<times> bool)) \<Rightarrow> (int \<times> string) list \<Rightarrow> 's \<Rightarrow> bool list" where
  "calls fire [] s = []"
| "calls fire ((i, now) # cs) s =
    (case fire i now s of Inl _ \<Rightarrow> False # calls fire cs s | Inr (s', b) \<Rightarrow> b # calls fire cs s')"

definition successes :: "int \<Rightarrow> (int \<times> string) list \<Rightarrow> bool list \<Rightarrow> nat" where
  "successes i cs bs = length (filter (\<lambda>(c, b). fst c = i \<and> b) (zip cs bs))"

lemma successes_Cons [simp]:
  "successes i [] bs = 0"
  "successes i (c # cs) (b # bs) = (if fst c = i \<and> b then 1 else 0) + successes i cs bs"
  by (simp_all add: successes_def)

locale guarded_edge =
  fixes status_in :: "int \<Rightarrow> 's \<Rightarrow> 'st option"
    and fire :: "int \<Rightarrow> string \<Rightarrow> 's \<Rightarrow> 'e + ('s \<times> bool)"
    and from_states :: "'st set" and target :: 'st and good :: "'s \<Rightarrow> bool"
  assumes fires: "good s \<Longrightarrow> \<exists>s'. fire i now s = Inr (s', status_in i s \<in> Some ` from_states) \<and> good s' \<and>
      (\<forall>j. status_in j s' = (if j = i \<and> status_in i s \<in> Some ` from_states then Some target else status_in j s))"
    and target_outside: "target \<notin> from_states"
begin

lemma exclusive:
  "good s \<Longrightarrow> successes i cs (calls fire cs s) =
     (if i \<in> fst ` set cs \<and> status_in i s \<in> Some ` from_states then 1 else 0)"
proof (induction cs arbitrary: s)
  case Nil
  then show ?case by simp
next
  case (Cons c cs)
  obtain j now where c: "c = (j, now)" by (cases c)
  obtain s' where s': "fire j now s = Inr (s', status_in j s \<in> Some ` from_states)" "good s'"
    "\<And>k. status_in k s' = (if k = j \<and> status_in j s \<in> Some ` from_states then Some target else status_in k s)"
    using fires [OF Cons.prems] by metis
  have "Some target \<notin> Some ` from_states" using target_outside by blast
  then show ?case using s' Cons.IH [OF s'(2)] c by auto
qed

end

end
