(* ===== verification/Store_Revision.thy ===== *)
theory Store_Revision
  imports Store_Statements
begin

text \<open>
  revision.go: the generic updates from a map of columns, unconditional (\<^verbatim>\<open>updateOne\<close>) and
  conditional on the revision the caller read (\<^verbatim>\<open>UpdateAtRevision\<close>). task_state.go and
  \<^verbatim>\<open>ResumeTask\<close>: the status updates that carry their condition in the statement.
  A Go \<^verbatim>\<open>map[string]any\<close> is an association list with distinct keys. A value of another
  kind than its column's fails the statement, as NULL in a NOT NULL column does; the callers
  produce no other ill-typed values.
\<close>

section \<open>Columns and values\<close>

datatype column =
    ColTitle | ColBody | ColStatus | ColPerm | ColRunMode | ColConcurrent | ColRoleId
  | ColProjectId | ColProjectDir | ColParentId | ColDependsOn | ColDependencyMode
  | ColBlockOnFailure | ColScheduleId | ColError | ColExitCode | ColReviewNote | ColReviewRounds
  | ColWorktreeBranch | ColBaseCommit | ColMergeSkipped | ColSortOrder | ColSessionId
  | ColCron | ColEnabled | ColLastRunAt | ColNextRunAt | ColWorktreePath | ColSessionDir
  | ColLastMessageAt | ColMessageCount | ColSuspendedAt | ColDeliveredAt
  | ColStartedAt | ColFinishedAt | ColUpdatedAt
  | ColName | ColDescription | ColRuntimeId | ColRoleConfig | ColMaxConcurrency
  | ColDelegationEnabled | ColDelegationMaxPerm
  | ColGithubRepo | ColGithubRoleId | ColGithubAutoIssues | ColGithubAutoPrs | ColGithubAutoSecurity

datatype any = ANil | AInt int | AStr string | ABool bool | AConfig role_config

type_synonym fields = "(column \<times> any) list"

definition str_col :: "any \<Rightarrow> (string \<Rightarrow> 'r) \<Rightarrow> 'r option" where
  "str_col v f = (case v of AStr s \<Rightarrow> Some (f s) | _ \<Rightarrow> None)"

definition int_col :: "any \<Rightarrow> (int \<Rightarrow> 'r) \<Rightarrow> 'r option" where
  "int_col v f = (case v of AInt i \<Rightarrow> Some (f i) | _ \<Rightarrow> None)"

definition bool_col :: "any \<Rightarrow> (bool \<Rightarrow> 'r) \<Rightarrow> 'r option" where
  "bool_col v f = (case v of ABool b \<Rightarrow> Some (f b) | AInt i \<Rightarrow> Some (f (i \<noteq> 0)) | _ \<Rightarrow> None)"

definition null_int_col :: "any \<Rightarrow> (int option \<Rightarrow> 'r) \<Rightarrow> 'r option" where
  "null_int_col v f = (case v of ANil \<Rightarrow> Some (f None) | AInt i \<Rightarrow> Some (f (Some i)) | _ \<Rightarrow> None)"

definition null_str_col :: "any \<Rightarrow> (string option \<Rightarrow> 'r) \<Rightarrow> 'r option" where
  "null_str_col v f = (case v of ANil \<Rightarrow> Some (f None) | AStr s \<Rightarrow> Some (f (Some s)) | _ \<Rightarrow> None)"

definition set_task_col :: "column \<Rightarrow> any \<Rightarrow> task \<Rightarrow> task option" where
  "set_task_col c v t = (case c of
     ColTitle \<Rightarrow> str_col v (\<lambda>s. t\<lparr>t_title := s\<rparr>)
   | ColBody \<Rightarrow> str_col v (\<lambda>s. t\<lparr>t_body := s\<rparr>)
   | ColStatus \<Rightarrow> str_col v (\<lambda>s. t\<lparr>t_status := status_of s\<rparr>)
   | ColPerm \<Rightarrow> str_col v (\<lambda>s. t\<lparr>t_perm := perm_of s\<rparr>)
   | ColRunMode \<Rightarrow> str_col v (\<lambda>s. t\<lparr>t_run_mode := run_mode_of s\<rparr>)
   | ColConcurrent \<Rightarrow> bool_col v (\<lambda>b. t\<lparr>t_concurrent := b\<rparr>)
   | ColRoleId \<Rightarrow> null_int_col v (\<lambda>i. t\<lparr>t_role_id := i\<rparr>)
   | ColProjectId \<Rightarrow> null_int_col v (\<lambda>i. t\<lparr>t_project_id := i\<rparr>)
   | ColProjectDir \<Rightarrow> str_col v (\<lambda>s. t\<lparr>t_project_dir := s\<rparr>)
   | ColParentId \<Rightarrow> null_int_col v (\<lambda>i. t\<lparr>t_parent_id := i\<rparr>)
   | ColDependsOn \<Rightarrow> null_int_col v (\<lambda>i. t\<lparr>t_depends_on := i\<rparr>)
   | ColDependencyMode \<Rightarrow> str_col v (\<lambda>s. t\<lparr>t_dependency_mode := dependency_mode_of s\<rparr>)
   | ColBlockOnFailure \<Rightarrow> bool_col v (\<lambda>b. t\<lparr>t_block_on_failure := b\<rparr>)
   | ColScheduleId \<Rightarrow> null_int_col v (\<lambda>i. t\<lparr>t_schedule_id := i\<rparr>)
   | ColError \<Rightarrow> str_col v (\<lambda>s. t\<lparr>t_error := s\<rparr>)
   | ColExitCode \<Rightarrow> null_int_col v (\<lambda>i. t\<lparr>t_exit_code := i\<rparr>)
   | ColReviewNote \<Rightarrow> str_col v (\<lambda>s. t\<lparr>t_review_note := s\<rparr>)
   | ColReviewRounds \<Rightarrow> int_col v (\<lambda>i. t\<lparr>t_review_rounds := i\<rparr>)
   | ColWorktreeBranch \<Rightarrow> str_col v (\<lambda>s. t\<lparr>t_worktree_branch := s\<rparr>)
   | ColBaseCommit \<Rightarrow> str_col v (\<lambda>s. t\<lparr>t_base_commit := s\<rparr>)
   | ColMergeSkipped \<Rightarrow> bool_col v (\<lambda>b. t\<lparr>t_merge_skipped := b\<rparr>)
   | ColSortOrder \<Rightarrow> int_col v (\<lambda>i. t\<lparr>t_sort_order := i\<rparr>)
   | ColSessionId \<Rightarrow> null_int_col v (\<lambda>i. t\<lparr>t_session_id := i\<rparr>)
   | ColCron \<Rightarrow> str_col v (\<lambda>s. t\<lparr>t_cron := s\<rparr>)
   | ColEnabled \<Rightarrow> bool_col v (\<lambda>b. t\<lparr>t_enabled := b\<rparr>)
   | ColLastRunAt \<Rightarrow> null_str_col v (\<lambda>s. t\<lparr>t_last_run_at := s\<rparr>)
   | ColNextRunAt \<Rightarrow> null_str_col v (\<lambda>s. t\<lparr>t_next_run_at := s\<rparr>)
   | ColWorktreePath \<Rightarrow> str_col v (\<lambda>s. t\<lparr>t_worktree_path := s\<rparr>)
   | ColSessionDir \<Rightarrow> str_col v (\<lambda>s. t\<lparr>t_session_dir := s\<rparr>)
   | ColLastMessageAt \<Rightarrow> str_col v (\<lambda>s. t\<lparr>t_last_message_at := s\<rparr>)
   | ColMessageCount \<Rightarrow> int_col v (\<lambda>i. t\<lparr>t_message_count := i\<rparr>)
   | ColSuspendedAt \<Rightarrow> null_str_col v (\<lambda>s. t\<lparr>t_suspended_at := s\<rparr>)
   | ColDeliveredAt \<Rightarrow> null_str_col v (\<lambda>s. t\<lparr>t_delivered_at := s\<rparr>)
   | ColStartedAt \<Rightarrow> null_str_col v (\<lambda>s. t\<lparr>t_started_at := s\<rparr>)
   | ColFinishedAt \<Rightarrow> null_str_col v (\<lambda>s. t\<lparr>t_finished_at := s\<rparr>)
   | ColUpdatedAt \<Rightarrow> str_col v (\<lambda>s. t\<lparr>t_updated_at := s\<rparr>)
   | _ \<Rightarrow> None)"

definition set_role_col :: "column \<Rightarrow> any \<Rightarrow> role \<Rightarrow> role option" where
  "set_role_col c v a = (case c of
     ColName \<Rightarrow> str_col v (\<lambda>s. a\<lparr>a_name := s\<rparr>)
   | ColDescription \<Rightarrow> str_col v (\<lambda>s. a\<lparr>a_description := s\<rparr>)
   | ColRuntimeId \<Rightarrow> str_col v (\<lambda>s. a\<lparr>a_runtime_id := s\<rparr>)
   | ColRoleConfig \<Rightarrow> (case v of AConfig rc \<Rightarrow> Some (a\<lparr>a_role_config := rc\<rparr>) | _ \<Rightarrow> None)
   | ColMaxConcurrency \<Rightarrow> int_col v (\<lambda>i. a\<lparr>a_max_concurrency := i\<rparr>)
   | ColDelegationEnabled \<Rightarrow> bool_col v (\<lambda>b. a\<lparr>a_delegation_enabled := b\<rparr>)
   | ColDelegationMaxPerm \<Rightarrow> str_col v (\<lambda>s. a\<lparr>a_delegation_max_perm := perm_of s\<rparr>)
   | ColEnabled \<Rightarrow> bool_col v (\<lambda>b. a\<lparr>a_enabled := b\<rparr>)
   | ColUpdatedAt \<Rightarrow> str_col v (\<lambda>s. a\<lparr>a_updated_at := s\<rparr>)
   | _ \<Rightarrow> None)"

definition set_project_col :: "column \<Rightarrow> any \<Rightarrow> project \<Rightarrow> project option" where
  "set_project_col c v p = (case c of
     ColName \<Rightarrow> str_col v (\<lambda>s. p\<lparr>p_name := s\<rparr>)
   | ColDescription \<Rightarrow> str_col v (\<lambda>s. p\<lparr>p_description := s\<rparr>)
   | ColStatus \<Rightarrow> str_col v (\<lambda>s. p\<lparr>p_status := s\<rparr>)
   | ColProjectDir \<Rightarrow> str_col v (\<lambda>s. p\<lparr>p_project_dir := s\<rparr>)
   | ColGithubRepo \<Rightarrow> str_col v (\<lambda>s. p\<lparr>p_github_repo := s\<rparr>)
   | ColGithubRoleId \<Rightarrow> null_int_col v (\<lambda>i. p\<lparr>p_github_role_id := i\<rparr>)
   | ColGithubAutoIssues \<Rightarrow> bool_col v (\<lambda>b. p\<lparr>p_github_auto_issues := b\<rparr>)
   | ColGithubAutoPrs \<Rightarrow> bool_col v (\<lambda>b. p\<lparr>p_github_auto_prs := b\<rparr>)
   | ColGithubAutoSecurity \<Rightarrow> bool_col v (\<lambda>b. p\<lparr>p_github_auto_security := b\<rparr>)
   | ColUpdatedAt \<Rightarrow> str_col v (\<lambda>s. p\<lparr>p_updated_at := s\<rparr>)
   | _ \<Rightarrow> None)"

fun set_cols :: "(column \<Rightarrow> any \<Rightarrow> 'r \<Rightarrow> 'r option) \<Rightarrow> fields \<Rightarrow> 'r \<Rightarrow> 'r option" where
  "set_cols setc [] r = Some r"
| "set_cols setc ((c, v) # xs) r =
    (case setc c v r of None \<Rightarrow> None | Some r' \<Rightarrow> set_cols setc xs r')"

text \<open>\<^verbatim>\<open>SET <columns>, updated_at=?, revision=revision+1\<close> on one row.\<close>

definition edit_task :: "fields \<Rightarrow> string \<Rightarrow> task \<Rightarrow> task option" where
  "edit_task fs now t =
     map_option (\<lambda>t'. t'\<lparr>t_updated_at := now, t_revision := t_revision t + 1\<rparr>) (set_cols set_task_col fs t)"

definition edit_role :: "fields \<Rightarrow> string \<Rightarrow> role \<Rightarrow> role option" where
  "edit_role fs now a =
     map_option (\<lambda>a'. a'\<lparr>a_updated_at := now, a_revision := a_revision a + 1\<rparr>) (set_cols set_role_col fs a)"

definition edit_project :: "fields \<Rightarrow> string \<Rightarrow> project \<Rightarrow> project option" where
  "edit_project fs now p =
     map_option (\<lambda>p'. p'\<lparr>p_updated_at := now, p_revision := p_revision p + 1\<rparr>) (set_cols set_project_col fs p)"

definition edit_rows :: "('r \<Rightarrow> bool) \<Rightarrow> ('r \<Rightarrow> 'r option) \<Rightarrow> 'r list \<Rightarrow> 'r list option" where
  "edit_rows p f rows =
     (if list_all (\<lambda>r. p r \<longrightarrow> f r \<noteq> None) rows then Some (upd_where p (\<lambda>r. the (f r)) rows) else None)"

section \<open>updateOne, UpdateAtRevision, AssertRevision\<close>

definition updateOne :: "int \<Rightarrow> fields \<Rightarrow> string \<Rightarrow> db \<Rightarrow> store_error + db" where
  "updateOne i fs now db =
     (if fs = [] then Inr db
      else case edit_rows (\<lambda>t. t_id t = i) (edit_task fs now) (tasks db) of
          None \<Rightarrow> Inl ErrConstraint
        | Some ts \<Rightarrow> exec_stmt (db\<lparr>tasks := ts\<rparr>))"

datatype revision_resource = ResRole | ResTask | ResProject | ResOther string

text \<open>The rows of the resource's table that match \<^verbatim>\<open>id=? AND revision=?\<close>.\<close>

definition UpdateAtRevision :: "revision_resource \<Rightarrow> int \<Rightarrow> int \<Rightarrow> fields \<Rightarrow> string \<Rightarrow> db \<Rightarrow> store_error + db" where
  "UpdateAtRevision res i expected fs now db =
     (if expected < 1 \<or> fs = [] then Inl ErrRevisionConflict
      else case res of
          ResOther _ \<Rightarrow> Inl ErrRevisionConflict
        | ResTask \<Rightarrow>
            (let p = (\<lambda>t. t_id t = i \<and> t_revision t = expected) in
             case edit_rows p (edit_task fs now) (tasks db) of
               None \<Rightarrow> Inl ErrConstraint
             | Some ts \<Rightarrow> rbind (exec_stmt (db\<lparr>tasks := ts\<rparr>)) (\<lambda>db'.
                 if affected p (tasks db) = 1 then Inr db' else Inl ErrRevisionConflict))
        | ResRole \<Rightarrow>
            (let p = (\<lambda>a. a_id a = i \<and> a_revision a = expected) in
             case edit_rows p (edit_role fs now) (roles db) of
               None \<Rightarrow> Inl ErrConstraint
             | Some as \<Rightarrow> rbind (exec_stmt (db\<lparr>roles := as\<rparr>)) (\<lambda>db'.
                 if affected p (roles db) = 1 then Inr db' else Inl ErrRevisionConflict))
        | ResProject \<Rightarrow>
            (let p = (\<lambda>q. p_id q = i \<and> p_revision q = expected) in
             case edit_rows p (edit_project fs now) (projects db) of
               None \<Rightarrow> Inl ErrConstraint
             | Some ps \<Rightarrow> rbind (exec_stmt (db\<lparr>projects := ps\<rparr>)) (\<lambda>db'.
                 if affected p (projects db) = 1 then Inr db' else Inl ErrRevisionConflict)))"

definition revision_of :: "revision_resource \<Rightarrow> int \<Rightarrow> db \<Rightarrow> int option" where
  "revision_of res i db = (case res of
     ResTask \<Rightarrow> map_option t_revision (sel t_id i (tasks db))
   | ResRole \<Rightarrow> map_option a_revision (sel a_id i (roles db))
   | ResProject \<Rightarrow> map_option p_revision (sel p_id i (projects db))
   | ResOther _ \<Rightarrow> None)"

definition AssertRevision :: "revision_resource \<Rightarrow> int \<Rightarrow> int \<Rightarrow> db \<Rightarrow> store_error + unit" where
  "AssertRevision res i expected db =
     (if (case res of ResOther _ \<Rightarrow> True | _ \<Rightarrow> False) \<or> expected < 1 then Inl ErrRevisionConflict
      else case revision_of res i db of
          None \<Rightarrow> Inl ErrNoRows
        | Some actual \<Rightarrow> if actual \<noteq> expected then Inl ErrRevisionConflict else Inr ())"

section \<open>task_state.go and ResumeTask\<close>

definition UpdateTmuxLogOffset :: "int \<Rightarrow> int \<Rightarrow> db \<Rightarrow> store_error + db" where
  "UpdateTmuxLogOffset i off db =
     rbind (update_tasks (\<lambda>t. t_id t = i) (\<lambda>t. t\<lparr>t_tmux_log_offset := off\<rparr>) db) (\<lambda>(db', n). Inr db')"

definition UpdateTerminalSize :: "int \<Rightarrow> int \<Rightarrow> int \<Rightarrow> db \<Rightarrow> store_error + db" where
  "UpdateTerminalSize i cols rws db =
     rbind (update_tasks (\<lambda>t. t_id t = i)
       (\<lambda>t. t\<lparr>t_terminal_cols := cols, t_terminal_rows := rws\<rparr>) db) (\<lambda>(db', n). Inr db')"

definition ClaimTask :: "int \<Rightarrow> string \<Rightarrow> db \<Rightarrow> store_error + (db \<times> bool)" where
  "ClaimTask i now db =
     rbind (update_tasks (\<lambda>t. t_id t = i \<and> t_status t = StatusQueued)
       (\<lambda>t. t\<lparr>t_status := StatusClaimed, t_started_at := Some now, t_updated_at := now,
              t_revision := t_revision t + 1\<rparr>) db)
     (\<lambda>(db', n). Inr (db', n = 1))"

definition StartTask :: "int \<Rightarrow> string \<Rightarrow> db \<Rightarrow> store_error + (db \<times> bool)" where
  "StartTask i now db =
     rbind (update_tasks (\<lambda>t. t_id t = i \<and> t_status t = StatusClaimed)
       (\<lambda>t. t\<lparr>t_status := StatusRunning, t_started_at := Some now, t_updated_at := now,
              t_revision := t_revision t + 1\<rparr>) db)
     (\<lambda>(db', n). Inr (db', n = 1))"

definition resume_row :: "string \<Rightarrow> task \<Rightarrow> task" where
  "resume_row now t = t\<lparr>t_status := StatusQueued, t_started_at := None, t_finished_at := None,
     t_error := [], t_exit_code := None, t_tmux_log_offset := 0, t_updated_at := now,
     t_revision := t_revision t + 1\<rparr>"

definition ResumeTask :: "int \<Rightarrow> int \<Rightarrow> string \<Rightarrow> db \<Rightarrow> store_error + (db \<times> bool)" where
  "ResumeTask i expectedRevision now db =
     rbind (update_tasks (\<lambda>t. t_id t = i \<and> t_revision t = expectedRevision \<and>
         t_status t \<in> {StatusSucceeded, StatusFailed, StatusCancelled}) (resume_row now) db)
     (\<lambda>(db', n). Inr (db', n = 1))"

end
