(* ===== verification/Revision_Laws.thy ===== *)
theory Revision_Laws
  imports Store_Revision
begin

text \<open>
  The laws of the revision-conditional writes and of the conditional status updates: both
  interfaces of \<^verbatim>\<open>Store_Statements\<close> interpreted on the operations of revision.go,
  task_state.go and \<^verbatim>\<open>ResumeTask\<close>.
\<close>

section \<open>Row edits\<close>

lemmas col_defs = str_col_def int_col_def bool_col_def null_int_col_def null_str_col_def

lemma set_task_col_frame:
  "set_task_col c v t = Some t' \<Longrightarrow>
     t_id t' = t_id t \<and> t_merge_of t' = t_merge_of t \<and> t_external_key t' = t_external_key t \<and>
     t_type t' = t_type t \<and> t_spec t' = t_spec t \<and> t_revision t' = t_revision t"
  unfolding set_task_col_def col_defs by (cases c) (auto split: any.splits)

lemma set_task_cols_frame:
  "set_cols set_task_col fs t = Some t' \<Longrightarrow>
     t_id t' = t_id t \<and> t_merge_of t' = t_merge_of t \<and> t_external_key t' = t_external_key t \<and>
     t_type t' = t_type t \<and> t_spec t' = t_spec t \<and> t_revision t' = t_revision t"
proof (induction fs arbitrary: t)
  case (Cons x fs)
  obtain c v where x: "x = (c, v)" by (cases x)
  with Cons.prems obtain u where u: "set_task_col c v t = Some u" "set_cols set_task_col fs u = Some t'"
    by (auto split: option.splits)
  show ?case using Cons.IH [OF u(2)] set_task_col_frame [OF u(1)] by simp
qed simp

lemma edit_task_frame:
  "edit_task fs now t = Some t' \<Longrightarrow>
     t_id t' = t_id t \<and> t_merge_of t' = t_merge_of t \<and> t_external_key t' = t_external_key t \<and>
     t_type t' = t_type t \<and> t_spec t' = t_spec t \<and> t_revision t' = t_revision t + 1"
  by (auto simp: edit_task_def dest: set_task_cols_frame)

lemma set_role_col_frame: "set_role_col c v a = Some a' \<Longrightarrow> a_id a' = a_id a \<and> a_revision a' = a_revision a"
  unfolding set_role_col_def col_defs by (cases c) (auto split: any.splits)

lemma edit_role_frame:
  "edit_role fs now a = Some a' \<Longrightarrow> a_id a' = a_id a \<and> a_revision a' = a_revision a + 1"
proof -
  have "set_cols set_role_col fs a = Some a' \<Longrightarrow> a_id a' = a_id a" for fs a a'
    by (induction fs arbitrary: a) (auto split: option.splits dest: set_role_col_frame)
  then show "edit_role fs now a = Some a' \<Longrightarrow> ?thesis" by (auto simp: edit_role_def)
qed

lemma set_project_col_frame:
  "set_project_col c v p = Some p' \<Longrightarrow> p_id p' = p_id p \<and> p_revision p' = p_revision p"
  unfolding set_project_col_def col_defs by (cases c) (auto split: any.splits)

lemma edit_project_frame:
  "edit_project fs now p = Some p' \<Longrightarrow> p_id p' = p_id p \<and> p_revision p' = p_revision p + 1"
proof -
  have "set_cols set_project_col fs p = Some p' \<Longrightarrow> p_id p' = p_id p" for fs p p'
    by (induction fs arbitrary: p) (auto split: option.splits dest: set_project_col_frame)
  then show "edit_project fs now p = Some p' \<Longrightarrow> ?thesis" by (auto simp: edit_project_def)
qed

lemma edit_rows_sel:
  assumes "edit_rows p f rows = Some rows'" and "\<And>r r'. f r = Some r' \<Longrightarrow> key r' = key r"
  shows "sel key i rows' = map_option (\<lambda>r. if p r then the (f r) else r) (sel key i rows)"
    and "\<And>r. r \<in> set rows \<Longrightarrow> p r \<Longrightarrow> \<exists>r'. f r = Some r'"
proof -
  have all: "list_all (\<lambda>r. p r \<longrightarrow> f r \<noteq> None) rows" and rows': "rows' = upd_where p (\<lambda>r. the (f r)) rows"
    using assms(1) by (auto simp: edit_rows_def split: if_splits)
  then show "\<And>r. r \<in> set rows \<Longrightarrow> p r \<Longrightarrow> \<exists>r'. f r = Some r'" by (auto simp: list_all_iff)
  show "sel key i rows' = map_option (\<lambda>r. if p r then the (f r) else r) (sel key i rows)"
    unfolding rows' using all by (induction rows) (auto simp: assms(2))
qed

text \<open>One table: what an accepted conditional edit did to the row and to the others.\<close>

lemma edit_rows_revision:
  assumes edit: "edit_rows (\<lambda>r. key r = i \<and> rvn r = e) f rows = Some rows'"
    and f: "\<And>r r'. f r = Some r' \<Longrightarrow> key r' = key r \<and> rvn r' = rvn r + (1::int)"
    and dist: "distinct (map key rows)"
    and one: "affected (\<lambda>r. key r = i \<and> rvn r = e) rows = 1"
  shows "map_option rvn (sel key i rows) = Some e \<and> map_option rvn (sel key i rows') = Some (e + 1) \<and>
    (\<forall>j. j \<noteq> i \<longrightarrow> sel key j rows' = sel key j rows)"
proof -
  let ?p = "\<lambda>r. key r = i \<and> rvn r = e"
  have sel': "sel key j rows' = map_option (\<lambda>r. if ?p r then the (f r) else r) (sel key j rows)" for j
    by (rule edit_rows_sel(1) [OF edit]) (simp add: f)
  obtain r where r: "sel key i rows = Some r" "rvn r = e"
    using one unfolding affected_key [OF dist] by (auto split: option.splits if_splits)
  then have "r \<in> set rows" "key r = i" by auto
  moreover then obtain r' where r': "f r = Some r'" using edit_rows_sel(2) [OF edit] f r(2) by blast
  ultimately have "sel key i rows' = Some r'" "rvn r' = e + 1" using sel' r f [OF r'] by auto
  moreover have "sel key j rows' = sel key j rows" if "j \<noteq> i" for j
  proof (cases "sel key j rows")
    case (Some q)
    then have "key q = j" by auto
    with Some that sel' show ?thesis by simp
  qed (simp add: sel')
  ultimately show ?thesis using r by auto
qed

lemma UpdateAtRevision_effect:
  assumes good: "schema_ok db" and upd: "UpdateAtRevision res i e fs now db = Inr db'"
  shows "schema_ok db' \<and> revision_of res i db = Some e \<and> revision_of res i db' = Some (e + 1) \<and>
    (\<forall>j. j \<noteq> i \<longrightarrow> revision_of res j db' = revision_of res j db)"
proof (cases res)
  case ResTask
  with upd obtain ts where ts: "edit_rows (\<lambda>t. t_id t = i \<and> t_revision t = e) (edit_task fs now) (tasks db) = Some ts"
    "schema_ok (db\<lparr>tasks := ts\<rparr>)" "db' = db\<lparr>tasks := ts\<rparr>"
    "affected (\<lambda>t. t_id t = i \<and> t_revision t = e) (tasks db) = 1"
    by (auto simp: UpdateAtRevision_def Let_def result_simps split: if_splits option.splits)
  have "distinct (map t_id (tasks db))" using good by blast
  from edit_rows_revision [OF ts(1) _ this ts(4)] edit_task_frame ResTask ts(2,3)
  show ?thesis by (simp add: revision_of_def)
next
  case ResRole
  with upd obtain rs where rs: "edit_rows (\<lambda>t. a_id t = i \<and> a_revision t = e) (edit_role fs now) (roles db) = Some rs"
    "schema_ok (db\<lparr>roles := rs\<rparr>)" "db' = db\<lparr>roles := rs\<rparr>"
    "affected (\<lambda>t. a_id t = i \<and> a_revision t = e) (roles db) = 1"
    by (auto simp: UpdateAtRevision_def Let_def result_simps split: if_splits option.splits)
  have "distinct (map a_id (roles db))" using good by (simp add: schema_ok_def others_ok_def)
  from edit_rows_revision [OF rs(1) _ this rs(4)] edit_role_frame ResRole rs(2,3)
  show ?thesis by (simp add: revision_of_def)
next
  case ResProject
  with upd obtain ps where ps: "edit_rows (\<lambda>t. p_id t = i \<and> p_revision t = e) (edit_project fs now) (projects db) = Some ps"
    "schema_ok (db\<lparr>projects := ps\<rparr>)" "db' = db\<lparr>projects := ps\<rparr>"
    "affected (\<lambda>t. p_id t = i \<and> p_revision t = e) (projects db) = 1"
    by (auto simp: UpdateAtRevision_def Let_def result_simps split: if_splits option.splits)
  have "distinct (map p_id (projects db))" using good by (simp add: schema_ok_def others_ok_def)
  from edit_rows_revision [OF ps(1) _ this ps(4)] edit_project_frame ResProject ps(2,3)
  show ?thesis by (simp add: revision_of_def)
next
  case (ResOther x)
  with upd show ?thesis by (auto simp: UpdateAtRevision_def split: if_splits)
qed

definition put_fields :: "revision_resource \<Rightarrow> int \<Rightarrow> int \<Rightarrow> fields \<times> string \<Rightarrow> db \<Rightarrow> store_error + db" where
  "put_fields res i e u db = UpdateAtRevision res i e (fst u) (snd u) db"

interpretation upd_at: optimistic "revision_of res" "put_fields res" schema_ok for res
  by unfold_locales (auto simp: put_fields_def dest: UpdateAtRevision_effect)

text \<open>
  C3. No edit is lost: among any sequence of edits of one resource whose authors had all read
  the same revision, in any order and interleaved with edits of other resources, at most one
  succeeds, and the resource's revision grows by exactly the number that did.
\<close>

theorem UpdateAtRevision_no_lost_update:
  assumes "schema_ok db" and "revision_of res i db = Some r"
    and "\<forall>w\<in>set ws. fst w = i \<longrightarrow> fst (snd w) = r"
  shows "winners i ws (fst (attempts (put_fields res) ws db)) \<le> 1 \<and>
    revision_of res i (snd (attempts (put_fields res) ws db)) =
      Some (r + int (winners i ws (fst (attempts (put_fields res) ws db))))"
  using upd_at.same_revision_one_winner [OF assms(1,2) order_refl assms(3)]
    upd_at.revision_counts [OF assms(1,2)] by simp

text \<open>Two authors that read revision 1 of a role: the first edit wins, the second is refused.\<close>

definition demo_config :: role_config where
  "demo_config = \<lparr>rcf_model = [], rcf_system_prompt = [], rcf_instructions = [], rcf_skills = [],
     rcf_thinking = [], rcf_plugins = [], rcf_extra_args = [], rcf_env = [], rcf_custom = []\<rparr>"

definition demo_role :: role where
  "demo_role = \<lparr>a_id = 1, a_name = ''r'', a_description = [], a_runtime_id = ''pi'',
     a_role_config = demo_config, a_max_concurrency = 2, a_delegation_enabled = True,
     a_delegation_max_perm = PermReview, a_enabled = True, a_revision = 1,
     a_created_at = ''t0'', a_updated_at = ''t0''\<rparr>"

definition demo_db :: db where
  "demo_db = empty_db\<lparr>roles := [demo_role], role_seq := 1\<rparr>"

theorem UpdateAtRevision_no_lost_update_witness:
  "winners 1 [(1, 1, [(ColName, AStr ''a'')], ''t1''), (1, 1, [(ColName, AStr ''b'')], ''t2'')]
     (fst (attempts (put_fields ResRole)
       [(1, 1, [(ColName, AStr ''a'')], ''t1''), (1, 1, [(ColName, AStr ''b'')], ''t2'')] demo_db)) \<le> 1"
proof -
  have "schema_ok demo_db" and "revision_of ResRole 1 demo_db = Some 1" by code_simp+
  from UpdateAtRevision_no_lost_update [OF this, of "[(1, 1, [(ColName, AStr ''a'')], ''t1''),
    (1, 1, [(ColName, AStr ''b'')], ''t2'')]"] show ?thesis by simp
qed

section \<open>Conditional status updates\<close>

definition status_in :: "int \<Rightarrow> db \<Rightarrow> status option" where
  "status_in i db = map_option t_status (get_task i db)"

lemma plain_updateI:
  assumes "\<And>t. t_id (f t) = t_id t" and "\<And>t. t_merge_of (f t) = t_merge_of t"
    and "\<And>t. t_external_key (f t) = t_external_key t"
    and "\<And>t. shape_ok (f t) = shape_ok t" and "\<And>db t. task_refs_ok db (f t) = task_refs_ok db t"
  shows "plain_update f"
  using assms by (simp add: plain_update_def keeps_keys_def)

lemma plain_claim: "plain_update (\<lambda>t. t\<lparr>t_status := st, t_started_at := Some now, t_updated_at := now,
    t_revision := t_revision t + 1\<rparr>)"
  by (rule plain_updateI) (simp_all add: shape_ok_def task_refs_ok_def)

lemma plain_resume: "plain_update (resume_row now)"
  by (rule plain_updateI) (simp_all add: shape_ok_def task_refs_ok_def resume_row_def)

lemma plain_update_id [simp]: "plain_update f \<Longrightarrow> t_id (f t) = t_id t"
  by (simp add: plain_update_def keeps_keys_def)

lemma edge_effect:
  assumes "schema_ok db" and "plain_update f" and "\<And>t. t_status (f t) = tgt"
  shows "update_tasks (\<lambda>t. t_id t = i \<and> t_status t = src) f db =
      Inr (db\<lparr>tasks := upd_where (\<lambda>t. t_id t = i \<and> t_status t = src) f (tasks db)\<rparr>,
        if status_in i db = Some src then 1 else 0)"
    and "schema_ok (db\<lparr>tasks := upd_where (\<lambda>t. t_id t = i \<and> t_status t = src) f (tasks db)\<rparr>)"
    and "status_in j (db\<lparr>tasks := upd_where (\<lambda>t. t_id t = i \<and> t_status t = src) f (tasks db)\<rparr>) =
      (if j = i \<and> status_in i db = Some src then Some tgt else status_in j db)"
proof -
  have "affected (\<lambda>t. t_id t = i \<and> t_status t = src) (tasks db) =
      (if status_in i db = Some src then 1 else 0)"
    by (simp add: affected_task [OF assms(1)] status_in_def split: option.splits)
  then show "update_tasks (\<lambda>t. t_id t = i \<and> t_status t = src) f db =
      Inr (db\<lparr>tasks := upd_where (\<lambda>t. t_id t = i \<and> t_status t = src) f (tasks db)\<rparr>,
        if status_in i db = Some src then 1 else 0)"
    using update_tasks_plain [OF assms(1,2)] by simp
  show "schema_ok (db\<lparr>tasks := upd_where (\<lambda>t. t_id t = i \<and> t_status t = src) f (tasks db)\<rparr>)"
    by (rule schema_ok_plain [OF assms(1,2)])
  show "status_in j (db\<lparr>tasks := upd_where (\<lambda>t. t_id t = i \<and> t_status t = src) f (tasks db)\<rparr>) =
      (if j = i \<and> status_in i db = Some src then Some tgt else status_in j db)"
    using assms(2) by (cases "get_task j db")
      (auto simp: status_in_def get_task_upd assms(3) dest: get_task_id split: option.splits)
qed

interpretation claim: guarded_edge status_in ClaimTask "{StatusQueued}" StatusClaimed schema_ok
  by unfold_locales (auto simp: ClaimTask_def edge_effect plain_claim)

interpretation start: guarded_edge status_in StartTask "{StatusClaimed}" StatusRunning schema_ok
  by unfold_locales (auto simp: StartTask_def edge_effect plain_claim)

text \<open>
  A queued task is claimed by exactly one of the executors that try, however many calls
  of \<^verbatim>\<open>ClaimTask\<close> for it and for other tasks there are; a task that is not queued by none.
\<close>

theorem ClaimTask_exclusive:
  assumes "schema_ok db"
  shows "successes i cs (calls ClaimTask cs db) =
    (if i \<in> fst ` set cs \<and> status_in i db = Some StatusQueued then 1 else 0)"
  using claim.exclusive [OF assms] by auto

definition demo_task :: "int \<Rightarrow> status \<Rightarrow> task" where
  "demo_task i st = \<lparr>t_id = i, t_type = TaskTypeTask, t_title = ''t'', t_body = [], t_status = st,
     t_perm = PermFull, t_run_mode = RunModeBatch, t_concurrent = False, t_role_id = Some 1,
     t_project_id = None, t_project_dir = [], t_parent_id = None, t_depends_on = None,
     t_dependency_mode = DependencyNone, t_block_on_failure = False, t_schedule_id = None,
     t_error = [], t_exit_code = None, t_review_note = [], t_review_rounds = 0,
     t_tmux_log_offset = 0, t_worktree_branch = [], t_base_commit = [], t_resume_of = None,
     t_merge_of = None, t_merge_skipped = False, t_sort_order = 0, t_terminal_cols = 0,
     t_terminal_rows = 0, t_session_id = None, t_workflow_run_id = None, t_parent_session_id = None,
     t_parent_task_id = None, t_cron = [], t_enabled = True, t_last_run_at = None,
     t_next_run_at = None, t_worktree_path = [], t_session_dir = [], t_last_message_at = [],
     t_message_count = 0, t_suspended_at = None, t_delivered_at = None, t_spec = SpecEmpty,
     t_violations = [], t_spec_hash = [], t_external_key = [], t_revision = 1,
     t_created_at = ''t0'', t_started_at = None, t_finished_at = None, t_updated_at = ''t0''\<rparr>"

definition demo_tasks :: "task list \<Rightarrow> db" where
  "demo_tasks ts = demo_db\<lparr>tasks := ts, task_seq := int (length ts)\<rparr>"

theorem ClaimTask_exclusive_witness:
  "successes 1 [(1, ''a''), (1, ''b''), (1, ''c'')]
     (calls ClaimTask [(1, ''a''), (1, ''b''), (1, ''c'')] (demo_tasks [demo_task 1 StatusQueued])) = 1"
proof -
  have "schema_ok (demo_tasks [demo_task 1 StatusQueued])"
    and "status_in 1 (demo_tasks [demo_task 1 StatusQueued]) = Some StatusQueued" by code_simp+
  then show ?thesis by (simp add: ClaimTask_exclusive del: calls.simps)
qed

text \<open>
  A claimed task starts to run at most once: of the calls of \<^verbatim>\<open>StartTask\<close> exactly one
  succeeds on a claimed task, and none on a task that was cancelled or deleted in between.
\<close>

theorem StartTask_exclusive:
  assumes "schema_ok db"
  shows "successes i cs (calls StartTask cs db) =
    (if i \<in> fst ` set cs \<and> status_in i db = Some StatusClaimed then 1 else 0)"
  using start.exclusive [OF assms] by auto

theorem StartTask_exclusive_witness:
  "successes 1 [(1, ''a''), (1, ''b'')]
     (calls StartTask [(1, ''a''), (1, ''b'')] (demo_tasks [demo_task 1 StatusCancelled])) = 0"
proof -
  have "schema_ok (demo_tasks [demo_task 1 StatusCancelled])"
    and "status_in 1 (demo_tasks [demo_task 1 StatusCancelled]) = Some StatusCancelled" by code_simp+
  then show ?thesis by (simp add: StartTask_exclusive del: calls.simps)
qed

section \<open>Updates conditional on a revision\<close>

lemma update_at_revision:
  assumes good: "schema_ok db" and plain: "plain_update f"
    and bump: "\<And>t. t_revision (f t) = t_revision t + 1"
    and upd: "update_tasks (\<lambda>t. t_id t = i \<and> t_revision t = e \<and> q t) f db = Inr (db', 1)"
  shows "schema_ok db'" and "revision_of ResTask i db = Some e"
    and "revision_of ResTask i db' = Some (e + 1)"
    and "j \<noteq> i \<Longrightarrow> revision_of ResTask j db' = revision_of ResTask j db"
    and "\<exists>t. get_task i db = Some t \<and> t_revision t = e \<and> q t \<and> get_task i db' = Some (f t)"
proof -
  have db': "schema_ok db'" "db' = db\<lparr>tasks := upd_where (\<lambda>t. t_id t = i \<and> t_revision t = e \<and> q t) f (tasks db)\<rparr>"
    and n: "affected (\<lambda>t. t_id t = i \<and> t_revision t = e \<and> q t) (tasks db) = 1"
    using upd by (auto simp: update_tasks_Inr)
  show "schema_ok db'" by (rule db'(1))
  obtain t where t: "get_task i db = Some t" "t_revision t = e" "q t"
    using n unfolding affected_task [OF good] by (auto split: option.splits if_splits)
  have get': "get_task j db' = map_option (\<lambda>t. if t_id t = i \<and> t_revision t = e \<and> q t then f t else t) (get_task j db)" for j
    unfolding db'(2) by (rule get_task_upd) (simp add: plain)
  have "t_id t = i" using t(1) by auto
  with t get' have t': "get_task i db' = Some (f t)" by simp
  with t show "\<exists>t. get_task i db = Some t \<and> t_revision t = e \<and> q t \<and> get_task i db' = Some (f t)" by blast
  have rv: "revision_of ResTask k d = map_option t_revision (get_task k d)" for k d
    by (simp add: revision_of_def get_task_def)
  show "revision_of ResTask i db = Some e" "revision_of ResTask i db' = Some (e + 1)"
    using t t' bump by (simp_all add: rv)
  show "j \<noteq> i \<Longrightarrow> revision_of ResTask j db' = revision_of ResTask j db"
    by (cases "get_task j db") (auto simp: rv get' dest: get_task_id)
qed

end
