(* ===== verification/Store_Create.thy ===== *)
theory Store_Create
  imports Revision_Laws
begin

text \<open>
  task_create.go: how a task row comes to be. A new task is prepared (defaults, scheduled
  definitions out of the execution chain), appended to its project's order and, when it comes
  through the scheduling entry point, linked to its predecessor: the last implementation task
  of the project for the weak mode, the task the user names for the strong one.
\<close>

section \<open>Preparing a row\<close>

definition validDependencyMode :: "dependency_mode \<Rightarrow> bool" where
  "validDependencyMode m \<longleftrightarrow> m \<in> {DependencyNone, DependencyWeak, DependencyStrong}"

definition normalizeDependencyMode :: "task \<Rightarrow> task" where
  "normalizeDependencyMode t =
     (if t_dependency_mode t = DependencyOther []
      then t\<lparr>t_dependency_mode := (if t_depends_on t \<noteq> None then DependencyStrong else DependencyNone)\<rparr>
      else t)"

definition prepareTaskForInsert :: "string \<Rightarrow> task \<Rightarrow> task" where
  "prepareTaskForInsert now t =
     (let t = (if t_created_at t = [] then t\<lparr>t_created_at := now\<rparr> else t);
          t = (if t_updated_at t = [] then t\<lparr>t_updated_at := t_created_at t\<rparr> else t);
          t = (if t_type t = TaskTypeOther [] then t\<lparr>t_type := TaskTypeTask\<rparr> else t);
          t = (if t_run_mode t = RunModeOther [] then t\<lparr>t_run_mode := RunModeBatch\<rparr> else t);
          t = (if t_cron t \<noteq> [] then t\<lparr>t_dependency_mode := DependencyNone, t_depends_on := None,
                 t_run_mode := RunModeBatch\<rparr> else t)
      in normalizeDependencyMode t)"

text \<open>The columns the statement does not name take the defaults of the schema.\<close>

definition with_defaults :: "task \<Rightarrow> task" where
  "with_defaults t = t\<lparr>t_error := [], t_review_note := [], t_tmux_log_offset := 0,
     t_terminal_cols := 0, t_terminal_rows := 0, t_revision := 1, t_started_at := None\<rparr>"

definition insertTask :: "task \<Rightarrow> db \<Rightarrow> store_error + (db \<times> int)" where
  "insertTask t db = insert_task_row (with_defaults t) db"

definition next_sort_order :: "int \<Rightarrow> db \<Rightarrow> int" where
  "next_sort_order pid db =
     (let next = max_or_zero (map t_sort_order
            (filter (\<lambda>u. t_project_id u = Some pid \<and> t_merge_of u = None) (tasks db))) + 1
      in if next < 1 then 1 else next)"

definition assignNextTaskSortOrder :: "db \<Rightarrow> task \<Rightarrow> task" where
  "assignNextTaskSortOrder db t =
     (case t_project_id t of
        None \<Rightarrow> t
      | Some pid \<Rightarrow>
          if t_merge_of t \<noteq> None \<or> t_sort_order t > 0 then t
          else t\<lparr>t_sort_order := next_sort_order pid db\<rparr>)"

definition CreateTask :: "string \<Rightarrow> task \<Rightarrow> db \<Rightarrow> store_error + (db \<times> int)" where
  "CreateTask now t db =
     (let t = prepareTaskForInsert now t in
      if t_project_id t = None \<or> t_merge_of t \<noteq> None \<or> t_sort_order t > 0 then insertTask t db
      else insertTask (assignNextTaskSortOrder db t) db)"

section \<open>The dependency of a new task\<close>

text \<open>
  \<^verbatim>\<open>ORDER BY sort_order DESC, created_at DESC, id DESC LIMIT 1\<close>: ids are unique, so this
  is the last row of the ascending order.
\<close>

definition chain_tasks :: "int \<Rightarrow> db \<Rightarrow> task list" where
  "chain_tasks pid db =
     filter (\<lambda>u. t_project_id u = Some pid \<and> t_merge_of u = None \<and> t_cron u = []) (tasks db)"

definition last_project_task :: "int \<Rightarrow> db \<Rightarrow> int option" where
  "last_project_task pid db =
     (let rows = sort_key (\<lambda>u. (t_sort_order u, t_created_at u, t_id u)) (chain_tasks pid db) in
      if rows = [] then None else Some (t_id (last rows)))"

definition validateDependencyTarget :: "db \<Rightarrow> int \<Rightarrow> int \<Rightarrow> store_error + unit" where
  "validateDependencyTarget db pid dep =
     (if dep \<le> 0 then Inl (Err MsgBadTargetId)
      else case get_task dep db of
          None \<Rightarrow> Inl (Err MsgTargetMissing)
        | Some d \<Rightarrow>
            if t_type d \<noteq> TaskTypeTask then Inl (Err MsgTargetNotTask)
            else if t_cron d \<noteq> [] then Inl (Err MsgTargetScheduled)
            else if t_merge_of d \<noteq> None then Inl (Err MsgTargetMerge)
            else if t_project_id d \<noteq> Some pid then Inl (Err MsgTargetOtherProject)
            else Inr ())"

definition resolveNewTaskDependency :: "db \<Rightarrow> task \<Rightarrow> store_error + task" where
  "resolveNewTaskDependency db t0 =
     (if t_merge_of t0 \<noteq> None
      then Inr (t0\<lparr>t_depends_on := None, t_dependency_mode := DependencyNone\<rparr>)
      else let t = normalizeDependencyMode t0 in
        if \<not> validDependencyMode (t_dependency_mode t) then Inl (Err MsgBadMode)
        else case t_project_id t of
            None \<Rightarrow>
              if t_depends_on t \<noteq> None \<or> t_dependency_mode t \<noteq> DependencyNone
              then Inl (Err MsgOnlyProjectTasks) else Inr t
          | Some pid \<Rightarrow>
              (case t_dependency_mode t of
                 DependencyNone \<Rightarrow> Inr (t\<lparr>t_depends_on := None\<rparr>)
               | DependencyStrong \<Rightarrow>
                   (case t_depends_on t of
                      None \<Rightarrow> Inl (Err MsgTargetRequired)
                    | Some dep \<Rightarrow> rbind (validateDependencyTarget db pid dep) (\<lambda>_. Inr t))
               | DependencyWeak \<Rightarrow> Inr (t\<lparr>t_depends_on := last_project_task pid db\<rparr>)
               | DependencyOther _ \<Rightarrow> Inl (Err MsgBadMode)))"

definition CreateTaskWithProjectDependency :: "string \<Rightarrow> task \<Rightarrow> db \<Rightarrow> store_error + (db \<times> int)" where
  "CreateTaskWithProjectDependency now t db =
     (let t = (if t_merge_of t = None \<and> t_project_id t \<noteq> None \<and>
                  t_dependency_mode t = DependencyOther [] \<and> t_depends_on t = None
               then t\<lparr>t_dependency_mode := DependencyWeak\<rparr> else t);
          t = assignNextTaskSortOrder db (prepareTaskForInsert now t)
      in rbind (resolveNewTaskDependency db t) (\<lambda>t'. insertTask t' db))"

section \<open>What creation guarantees\<close>

lemma with_defaults_sel [simp]:
  "t_project_id (with_defaults t) = t_project_id t" "t_merge_of (with_defaults t) = t_merge_of t"
  "t_depends_on (with_defaults t) = t_depends_on t" "t_dependency_mode (with_defaults t) = t_dependency_mode t"
  "t_sort_order (with_defaults t) = t_sort_order t" "t_cron (with_defaults t) = t_cron t"
  "t_status (with_defaults t) = t_status t" "t_revision (with_defaults t) = 1"
  "t_workflow_run_id (with_defaults t) = t_workflow_run_id t" "t_external_key (with_defaults t) = t_external_key t"
  "shape_ok (with_defaults t) = shape_ok t" "task_refs_ok db (with_defaults t) = task_refs_ok db t"
  by (simp_all add: with_defaults_def shape_ok_def task_refs_ok_def)

lemma insertTask_row:
  assumes "insertTask t db = Inr (db', i)"
  shows "get_task i db' = Some ((with_defaults t)\<lparr>t_id := i\<rparr>)"
    and "j \<noteq> i \<Longrightarrow> get_task j db' = get_task j db"
    and "i \<notin> task_ids db" and "schema_ok db'" and "task_ids db' = insert i (task_ids db)"
    and "tasks db' = tasks db @ [(with_defaults t)\<lparr>t_id := i\<rparr>]"
proof -
  note ins = assms [unfolded insertTask_def]
  show "get_task i db' = Some ((with_defaults t)\<lparr>t_id := i\<rparr>)"
    by (simp add: get_task_insert [OF ins])
  show "j \<noteq> i \<Longrightarrow> get_task j db' = get_task j db"
    by (simp add: get_task_insert [OF ins])
  have i: "i = next_id (task_seq db) (map t_id (tasks db))" and "schema_ok db'"
    and rows: "tasks db' = tasks db @ [(with_defaults t)\<lparr>t_id := i\<rparr>]"
    using ins by (auto simp: insert_task_row_Inr)
  then show "schema_ok db'" by simp
  show "i \<notin> task_ids db"
    unfolding i task_ids_def using next_id_fresh by (metis list.set_map)
  show "task_ids db' = insert i (task_ids db)" by (simp add: task_ids_def rows)
  show "tasks db' = tasks db @ [(with_defaults t)\<lparr>t_id := i\<rparr>]"
    by (rule rows)
qed

lemma next_sort_order_gt:
  assumes "u \<in> set (tasks db)" and "t_project_id u = Some pid" and "t_merge_of u = None"
  shows "t_sort_order u < next_sort_order pid db" and "0 < next_sort_order pid db"
proof -
  have "t_sort_order u \<le> max_or_zero (map t_sort_order
      (filter (\<lambda>u. t_project_id u = Some pid \<and> t_merge_of u = None) (tasks db)))"
    using assms by (intro max_or_zero_ge) auto
  then show "t_sort_order u < next_sort_order pid db" by (simp add: next_sort_order_def Let_def)
  show "0 < next_sort_order pid db" by (simp add: next_sort_order_def Let_def)
qed

lemma sorted_le_last: "sorted ys \<Longrightarrow> y \<in> set ys \<Longrightarrow> y \<le> last ys"
  by (induction ys) auto

lemma last_sort_key:
  assumes "x \<in> set xs"
  shows "f x \<le> f (last (sort_key f xs))"
proof -
  have ne: "sort_key f xs \<noteq> []" using assms by (metis empty_iff list.set(1) set_sort)
  have "f x \<in> set (map f (sort_key f xs))" using assms by simp
  then have "f x \<le> last (map f (sort_key f xs))" by (intro sorted_le_last) simp_all
  then show ?thesis by (simp add: last_map [OF ne])
qed

lemma last_project_task_None: "last_project_task pid db = None \<longleftrightarrow> chain_tasks pid db = []"
  by (auto simp: last_project_task_def Let_def simp flip: set_empty)

lemma last_project_task_Some:
  assumes "last_project_task pid db = Some d"
  shows "\<exists>u\<in>set (chain_tasks pid db). t_id u = d \<and>
    (\<forall>v\<in>set (chain_tasks pid db).
       (t_sort_order v, t_created_at v, t_id v) \<le> (t_sort_order u, t_created_at u, t_id u))"
proof -
  let ?k = "\<lambda>u. (t_sort_order u, t_created_at u, t_id u)"
  let ?rows = "sort_key ?k (chain_tasks pid db)"
  from assms have ne: "?rows \<noteq> []" and d: "d = t_id (last ?rows)"
    by (auto simp: last_project_task_def Let_def split: if_splits)
  then have "last ?rows \<in> set (chain_tasks pid db)"
    using last_in_set [OF ne] by simp
  moreover have "?k v \<le> ?k (last ?rows)" if "v \<in> set (chain_tasks pid db)" for v
    using last_sort_key [OF that, of ?k] .
  ultimately show ?thesis using d by blast
qed

lemma prepare_keeps [simp]:
  "t_merge_of (prepareTaskForInsert now t) = t_merge_of t"
  "t_project_id (prepareTaskForInsert now t) = t_project_id t"
  "t_sort_order (prepareTaskForInsert now t) = t_sort_order t"
  "t_cron (prepareTaskForInsert now t) = t_cron t"
  "t_status (prepareTaskForInsert now t) = t_status t"
  by (simp_all add: prepareTaskForInsert_def normalizeDependencyMode_def Let_def)

lemma prepare_mode:
  "t_cron t = [] \<Longrightarrow> t_dependency_mode t \<noteq> DependencyOther [] \<Longrightarrow>
   t_dependency_mode (prepareTaskForInsert now t) = t_dependency_mode t \<and>
   t_depends_on (prepareTaskForInsert now t) = t_depends_on t"
  by (simp add: prepareTaskForInsert_def normalizeDependencyMode_def Let_def)

lemma assign_keeps [simp]:
  "t_merge_of (assignNextTaskSortOrder db t) = t_merge_of t"
  "t_project_id (assignNextTaskSortOrder db t) = t_project_id t"
  "t_cron (assignNextTaskSortOrder db t) = t_cron t"
  "t_dependency_mode (assignNextTaskSortOrder db t) = t_dependency_mode t"
  "t_depends_on (assignNextTaskSortOrder db t) = t_depends_on t"
  by (simp_all add: assignNextTaskSortOrder_def split: option.split)

definition depends_rel :: "db \<Rightarrow> (int \<times> int) set" where
  "depends_rel db = {(t_id t, d) | t d. t \<in> set (tasks db) \<and> t_depends_on t = Some d}"

text \<open>The target of a resolved dependency: an implementation task of the same project.\<close>

definition target_ok :: "db \<Rightarrow> task \<Rightarrow> bool" where
  "target_ok db r = (case t_depends_on r of
     None \<Rightarrow> True
   | Some d \<Rightarrow> (\<exists>u. get_task d db = Some u \<and> t_project_id u = t_project_id r \<and>
       t_merge_of u = None \<and> t_cron u = []))"

lemma target_ok_inserted [simp]:
  "target_ok db ((with_defaults t)\<lparr>t_id := i\<rparr>) = target_ok db t"
  by (simp add: target_ok_def split: option.split)

lemma validateDependencyTarget_ok:
  "validateDependencyTarget db pid d = Inr u \<longleftrightarrow>
     0 < d \<and> (\<exists>t. get_task d db = Some t \<and> t_type t = TaskTypeTask \<and> t_cron t = [] \<and>
       t_merge_of t = None \<and> t_project_id t = Some pid)"
  by (auto simp: validateDependencyTarget_def split: option.splits if_splits)

lemma last_project_task_target:
  assumes "schema_ok db" and "last_project_task pid db = Some d"
  shows "\<exists>u. get_task d db = Some u \<and> t_project_id u = Some pid \<and> t_merge_of u = None \<and> t_cron u = []"
proof -
  from last_project_task_Some [OF assms(2)]
  obtain u where "u \<in> set (chain_tasks pid db)" "t_id u = d" by blast
  then show ?thesis
    using get_task_distinct [OF assms(1)] by (fastforce simp: chain_tasks_def)
qed

lemma resolve_target_ok:
  assumes "schema_ok db" and "resolveNewTaskDependency db t = Inr t'"
  shows "target_ok db t' \<and> t_project_id t' = t_project_id t \<and> t_sort_order t' = t_sort_order t"
proof (cases "t_merge_of t")
  case None
  let ?t = "normalizeDependencyMode t"
  have n: "t_project_id ?t = t_project_id t" "t_sort_order ?t = t_sort_order t" "t_merge_of ?t = t_merge_of t"
    by (simp_all add: normalizeDependencyMode_def)
  show ?thesis
  proof (cases "t_project_id t")
    case None
    with assms(2) \<open>t_merge_of t = None\<close> n show ?thesis
      by (auto simp: resolveNewTaskDependency_def Let_def target_ok_def split: if_splits)
  next
    case (Some pid)
    with assms(2) \<open>t_merge_of t = None\<close> n show ?thesis
      by (auto simp: resolveNewTaskDependency_def Let_def target_ok_def result_simps
            validateDependencyTarget_ok dest: last_project_task_target [OF assms(1)]
          split: if_splits dependency_mode.splits option.splits)
  qed
next
  case (Some m)
  with assms(2) show ?thesis by (auto simp: resolveNewTaskDependency_def target_ok_def)
qed

lemma depends_rel_closed: "schema_ok db \<Longrightarrow> (x, y) \<in> depends_rel db \<Longrightarrow> x \<in> task_ids db \<and> y \<in> task_ids db"
  by (auto simp: depends_rel_def task_ids_def dest!: schema_ok_row simp: task_refs_ok_def)

lemma depends_rel_trancl_closed:
  assumes "schema_ok db" and "(x, y) \<in> (depends_rel db)\<^sup>*" and "x \<in> task_ids db"
  shows "y \<in> task_ids db"
  using assms(2,3) by induction (auto dest: depends_rel_closed [OF assms(1)])

lemma acyclic_insert_fresh:
  assumes ok: "schema_ok db" and acyc: "acyclic (depends_rel db)" and ins: "insertTask t db = Inr (db', i)"
    and target: "target_ok db t"
  shows "acyclic (depends_rel db')"
proof (cases "t_depends_on t")
  case None
  then have "depends_rel db' = depends_rel db"
    by (auto simp: depends_rel_def insertTask_row(6) [OF ins])
  with acyc show ?thesis by simp
next
  case (Some d)
  then have d: "d \<in> task_ids db"
    using target get_task_None [of d db] by (auto simp: target_ok_def)
  have "depends_rel db' = insert (i, d) (depends_rel db)"
    using Some by (auto simp: depends_rel_def insertTask_row(6) [OF ins] intro: exI [of _ "(with_defaults t)\<lparr>t_id := i\<rparr>"])
  moreover have "(d, i) \<notin> (depends_rel db)\<^sup>*"
    using depends_rel_trancl_closed [OF ok _ d] insertTask_row(3) [OF ins] by blast
  ultimately show ?thesis using acyc by (simp add: acyclic_insert)
qed

text \<open>A project with one queued task, to which a task without a stated mode is added.\<close>

definition demo_project :: "int \<Rightarrow> string \<Rightarrow> project" where
  "demo_project i name = \<lparr>p_id = i, p_name = name, p_description = [], p_status = ''active'',
     p_project_dir = [], p_github_repo = [], p_github_role_id = None, p_github_auto_issues = False,
     p_github_auto_prs = False, p_github_auto_security = False, p_revision = 1,
     p_created_at = ''t0'', p_updated_at = ''t0''\<rparr>"

definition demo_project_db :: "task list \<Rightarrow> db" where
  "demo_project_db ts = (demo_tasks ts)\<lparr>projects := [demo_project 1 ''p'', demo_project 2 ''q''], project_seq := 2\<rparr>"

definition demo_in :: "int \<Rightarrow> int \<Rightarrow> int \<Rightarrow> status \<Rightarrow> task" where
  "demo_in pid so i st = (demo_task i st)\<lparr>t_project_id := Some pid, t_sort_order := so\<rparr>"

definition demo_new :: task where
  "demo_new = (demo_in 1 0 0 StatusQueued)\<lparr>t_dependency_mode := DependencyOther []\<rparr>"

lemma demo_create:
  "\<exists>d. CreateTaskWithProjectDependency ''t1'' demo_new (demo_project_db [demo_in 1 1 1 StatusQueued]) = Inr (d, 2)"
proof -
  have "case CreateTaskWithProjectDependency ''t1'' demo_new (demo_project_db [demo_in 1 1 1 StatusQueued]) of
      Inl _ \<Rightarrow> False | Inr (d, i) \<Rightarrow> i = 2" by code_simp
  then show ?thesis by (auto split: sum.splits prod.splits)
qed

text \<open>
  C4. Creating a task through the scheduling entry point keeps the dependency graph acyclic,
  and the dependency it stores, if any, names an existing implementation task of the same
  project that is neither a merge task nor a scheduled definition; no other row changes.
\<close>

theorem create_keeps_acyclic:
  assumes "schema_ok db" and "acyclic (depends_rel db)"
    and "CreateTaskWithProjectDependency now t db = Inr (db', i)"
  shows "schema_ok db' \<and> acyclic (depends_rel db') \<and> (\<forall>j. j \<noteq> i \<longrightarrow> get_task j db' = get_task j db) \<and>
    (\<exists>r. get_task i db' = Some r \<and> t_revision r = 1 \<and> t_project_id r = t_project_id t \<and> target_ok db r)"
proof -
  from assms(3) obtain t0 t' where res: "resolveNewTaskDependency db t0 = Inr t'"
    and t0: "t_project_id t0 = t_project_id t" and ins: "insertTask t' db = Inr (db', i)"
    by (auto simp: CreateTaskWithProjectDependency_def Let_def result_simps split: if_splits)
  from resolve_target_ok [OF assms(1) res] have t': "target_ok db t'" "t_project_id t' = t_project_id t"
    using t0 by auto
  from acyclic_insert_fresh [OF assms(1,2) ins t'(1)] insertTask_row [OF ins] t'
  show ?thesis by auto
qed

theorem create_keeps_acyclic_witness:
  "\<exists>d. CreateTaskWithProjectDependency ''t1'' demo_new (demo_project_db [demo_in 1 1 1 StatusQueued]) = Inr (d, 2) \<and>
     acyclic (depends_rel d)"
proof -
  obtain d where d: "CreateTaskWithProjectDependency ''t1'' demo_new
      (demo_project_db [demo_in 1 1 1 StatusQueued]) = Inr (d, 2)" using demo_create by blast
  have ok: "schema_ok (demo_project_db [demo_in 1 1 1 StatusQueued])" by code_simp
  have "depends_rel (demo_project_db [demo_in 1 1 1 StatusQueued]) = {}"
    by (simp add: depends_rel_def demo_project_db_def demo_tasks_def demo_in_def demo_task_def)
  then have "acyclic (depends_rel (demo_project_db [demo_in 1 1 1 StatusQueued]))" by (simp add: acyclic_def)
  from create_keeps_acyclic [OF ok this d] d show ?thesis by blast
qed

text \<open>
  The weak mode appends: the new task stands after every implementation task of its project
  in the project order and waits for the one that was last before it.
\<close>

theorem create_weak_appends:
  assumes create: "CreateTaskWithProjectDependency now t db = Inr (db', i)"
    and "t_project_id t = Some pid" and "t_merge_of t = None" and "t_cron t = []"
    and "t_sort_order t \<le> 0" and "t_depends_on t = None"
    and "t_dependency_mode t \<in> {DependencyWeak, DependencyOther []}"
  shows "\<exists>r. get_task i db' = Some r \<and> t_dependency_mode r = DependencyWeak \<and>
    t_depends_on r = last_project_task pid db \<and>
    (\<forall>u\<in>set (tasks db). t_project_id u = Some pid \<and> t_merge_of u = None \<longrightarrow>
       t_sort_order u < t_sort_order r) \<and>
    last_project_task pid db' = Some i"
proof -
  let ?w = "t\<lparr>t_dependency_mode := DependencyWeak\<rparr>"
  let ?p = "prepareTaskForInsert now ?w"
  let ?a = "assignNextTaskSortOrder db ?p"
  have w: "(if t_merge_of t = None \<and> t_project_id t \<noteq> None \<and>
      t_dependency_mode t = DependencyOther [] \<and> t_depends_on t = None
      then t\<lparr>t_dependency_mode := DependencyWeak\<rparr> else t) = ?w"
    using assms(2,3,6,7) by auto
  have p: "t_dependency_mode ?p = DependencyWeak" "t_depends_on ?p = None"
    using prepare_mode [of ?w now] assms(4,6) by simp_all
  have so: "t_sort_order ?a = next_sort_order pid db"
    using assms(2,3,5) by (simp add: assignNextTaskSortOrder_def)
  have "resolveNewTaskDependency db ?a = Inr (?a\<lparr>t_depends_on := last_project_task pid db\<rparr>)"
    using p assms(2,3) by (simp add: resolveNewTaskDependency_def normalizeDependencyMode_def
        validDependencyMode_def)
  then have ins: "insertTask (?a\<lparr>t_depends_on := last_project_task pid db\<rparr>) db = Inr (db', i)"
    using create unfolding CreateTaskWithProjectDependency_def Let_def w by simp
  obtain r where r: "get_task i db' = Some r" "tasks db' = tasks db @ [r]" "t_id r = i"
    "t_dependency_mode r = DependencyWeak" "t_depends_on r = last_project_task pid db"
    "t_sort_order r = next_sort_order pid db" "t_project_id r = Some pid" "t_merge_of r = None" "t_cron r = []"
    using insertTask_row(1,6) [OF ins] p so assms(2,3,4) by simp
  have lt: "t_sort_order u < t_sort_order r"
    if "u \<in> set (tasks db)" "t_project_id u = Some pid" "t_merge_of u = None" for u
    using next_sort_order_gt(1) [OF that] r(6) by simp
  have "last_project_task pid db' = Some i"
  proof -
    have mem: "r \<in> set (chain_tasks pid db')" using r by (simp add: chain_tasks_def)
    then have "last_project_task pid db' \<noteq> None" by (auto simp: last_project_task_None)
    then obtain d where d: "last_project_task pid db' = Some d" by blast
    from last_project_task_Some [OF d] obtain u where u: "u \<in> set (chain_tasks pid db')" "t_id u = d"
      "(t_sort_order r, t_created_at r, t_id r) \<le> (t_sort_order u, t_created_at u, t_id u)"
      using mem by blast
    have "u = r \<or> t_sort_order u < t_sort_order r" using u(1) lt r(2) by (auto simp: chain_tasks_def split: if_splits)
    with u d r(3) show ?thesis by auto
  qed
  with r lt show ?thesis by blast
qed

theorem create_weak_appends_witness:
  "\<exists>d r. CreateTaskWithProjectDependency ''t1'' demo_new (demo_project_db [demo_in 1 1 1 StatusQueued]) = Inr (d, 2) \<and>
     get_task 2 d = Some r \<and> t_depends_on r = Some 1 \<and> last_project_task 1 d = Some 2"
proof -
  obtain d where d: "CreateTaskWithProjectDependency ''t1'' demo_new
      (demo_project_db [demo_in 1 1 1 StatusQueued]) = Inr (d, 2)" using demo_create by blast
  have "last_project_task 1 (demo_project_db [demo_in 1 1 1 StatusQueued]) = Some 1" by code_simp
  with create_weak_appends [OF d, of 1] d show ?thesis
    by (auto simp: demo_new_def demo_in_def demo_task_def)
qed

end
