(* ===== verification/Store_Dependency.thy ===== *)
theory Store_Dependency
  imports Store_Create
begin

text \<open>
  task_dependency.go: when a task's predecessor counts as delivered and when a queued task may
  run. A Git task is delivered only when its merge task has succeeded. \<open>ready_spec\<close> states
  the contract; \<^verbatim>\<open>CheckTaskDependency\<close> implements it on every database the schema admits.
\<close>

section \<open>Merge tasks and dependents\<close>

definition GetMergeTaskForSource :: "int \<Rightarrow> db \<Rightarrow> task option" where
  "GetMergeTaskForSource sourceID db = find (\<lambda>t. t_merge_of t = Some sourceID) (tasks db)"

definition HasMergeTaskForSource :: "int \<Rightarrow> db \<Rightarrow> bool" where
  "HasMergeTaskForSource sourceID db \<longleftrightarrow> list_ex (\<lambda>t. t_merge_of t = Some sourceID) (tasks db)"

definition ListTaskDependents :: "int \<Rightarrow> db \<Rightarrow> task list" where
  "ListTaskDependents sourceID db =
     sort_key (\<lambda>t. (t_created_at t, t_id t)) (filter (\<lambda>t. t_depends_on t = Some sourceID) (tasks db))"

definition FirstTaskDependent :: "int \<Rightarrow> db \<Rightarrow> task option" where
  "FirstTaskDependent sourceID db =
     (case sort_key (\<lambda>t. (t_created_at t, t_id t))
         (filter (\<lambda>t. t_depends_on t = Some sourceID) (tasks db)) of
        [] \<Rightarrow> None | t # _ \<Rightarrow> Some t)"

definition ListCompletedGitTasksWithoutMerge :: "db \<Rightarrow> task list" where
  "ListCompletedGitTasksWithoutMerge db =
     sort_key (\<lambda>t. (t_created_at t, t_id t))
       (filter (\<lambda>t. t_status t = StatusSucceeded \<and> t_merge_of t = None \<and> t_worktree_branch t \<noteq> [] \<and>
          \<not> t_merge_skipped t \<and> \<not> list_ex (\<lambda>m. t_merge_of m = Some (t_id t)) (tasks db)) (tasks db))"

definition workflowDependencies :: "int \<Rightarrow> db \<Rightarrow> dep list" where
  "workflowDependencies taskID db =
     sort_key d_depends_on (filter (\<lambda>d. d_task_id d = taskID) (deps db))"

section \<open>Delivery\<close>

datatype deliveryState = deliveryPending | deliverySucceeded | deliveryFailed

datatype delivery_reason =
    DNotImplementation int | DExecuting int | DAwaitingReview int | DTaskFailed int
  | DTaskCancelled int | DDoneNoMerge int | DCreatingMerge int | DDone int | DMergeDone int
  | DMergeFailed int | DMergeCancelled int | DMergeRunning int | DUnknown int

definition deliveryStateOf :: "db \<Rightarrow> task \<Rightarrow> deliveryState \<times> delivery_reason" where
  "deliveryStateOf db source =
     (if t_merge_of source \<noteq> None then (deliveryFailed, DNotImplementation (t_id source))
      else case t_status source of
          StatusQueued \<Rightarrow> (deliveryPending, DExecuting (t_id source))
        | StatusClaimed \<Rightarrow> (deliveryPending, DExecuting (t_id source))
        | StatusRunning \<Rightarrow> (deliveryPending, DExecuting (t_id source))
        | StatusAwaitingReview \<Rightarrow> (deliveryPending, DAwaitingReview (t_id source))
        | StatusFailed \<Rightarrow> (deliveryFailed, DTaskFailed (t_id source))
        | StatusCancelled \<Rightarrow> (deliveryFailed, DTaskCancelled (t_id source))
        | StatusSucceeded \<Rightarrow>
            if t_merge_skipped source then (deliverySucceeded, DDoneNoMerge (t_id source))
            else (case GetMergeTaskForSource (t_id source) db of
                None \<Rightarrow> if t_worktree_branch source \<noteq> [] then (deliveryPending, DCreatingMerge (t_id source))
                  else (deliverySucceeded, DDone (t_id source))
              | Some merge \<Rightarrow>
                  (case t_status merge of
                     StatusSucceeded \<Rightarrow> (deliverySucceeded, DMergeDone (t_id merge))
                   | StatusFailed \<Rightarrow> (deliveryFailed, DMergeFailed (t_id merge))
                   | StatusCancelled \<Rightarrow> (deliveryFailed, DMergeCancelled (t_id merge))
                   | _ \<Rightarrow> (deliveryPending, DMergeRunning (t_id merge))))
        | _ \<Rightarrow> (deliveryPending, DUnknown (t_id source)))"

definition TaskDeliveryResult :: "int \<Rightarrow> db \<Rightarrow> store_error + (bool \<times> bool)" where
  "TaskDeliveryResult taskID db =
     (case get_task taskID db of
        None \<Rightarrow> Inl ErrNoRows
      | Some task \<Rightarrow>
          Inr (case fst (deliveryStateOf db task) of
                 deliverySucceeded \<Rightarrow> (True, True)
               | deliveryFailed \<Rightarrow> (True, False)
               | deliveryPending \<Rightarrow> (False, False)))"

section \<open>CheckTaskDependency\<close>

datatype check_reason =
    NoReason | WorkflowFailed delivery_reason | WorkflowWaiting delivery_reason | ModeInvalid
  | WeakDeleted int | StrongDeleted int | StrongIncomplete delivery_reason
  | WeakBlocked delivery_reason | WeakSkipped delivery_reason | WeakWaiting delivery_reason

record DependencyCheck =
  dc_ready :: bool
  dc_skipped :: bool
  dc_blocked :: bool
  dc_reason :: check_reason

definition check :: "bool \<Rightarrow> bool \<Rightarrow> bool \<Rightarrow> check_reason \<Rightarrow> store_error + DependencyCheck" where
  "check ready skipped blocked reason =
     Inr \<lparr>dc_ready = ready, dc_skipped = skipped, dc_blocked = blocked, dc_reason = reason\<rparr>"

fun check_edges :: "db \<Rightarrow> bool \<Rightarrow> dep list \<Rightarrow> store_error + DependencyCheck" where
  "check_edges db skipped [] = check True skipped False NoReason"
| "check_edges db skipped (edge # es) =
    (case get_task (d_depends_on edge) db of
       None \<Rightarrow> Inl ErrNoRows
     | Some dependency \<Rightarrow>
         (case deliveryStateOf db dependency of
            (deliverySucceeded, reason) \<Rightarrow> check_edges db skipped es
          | (deliveryFailed, reason) \<Rightarrow>
              if d_on_failure edge = ''continue'' then check_edges db True es
              else check False False True (WorkflowFailed reason)
          | (deliveryPending, reason) \<Rightarrow> check False False False (WorkflowWaiting reason)))"

definition CheckTaskDependency :: "db \<Rightarrow> task \<Rightarrow> store_error + DependencyCheck" where
  "CheckTaskDependency db t =
     (if t_merge_of t \<noteq> None then check True False False NoReason
      else let workflowDeps = workflowDependencies (t_id t) db in
        if workflowDeps \<noteq> [] then check_edges db False workflowDeps
        else case t_depends_on t of
            None \<Rightarrow> check True False False NoReason
          | Some d \<Rightarrow>
              if t_dependency_mode t = DependencyNone \<or> t_dependency_mode t = DependencyOther []
              then check True False False NoReason
              else if t_dependency_mode t \<noteq> DependencyWeak \<and> t_dependency_mode t \<noteq> DependencyStrong
              then check False False False ModeInvalid
              else case get_task d db of
                  None \<Rightarrow>
                    if t_dependency_mode t = DependencyWeak then check True True False (WeakDeleted d)
                    else check False False False (StrongDeleted d)
                | Some dependency \<Rightarrow>
                    (case deliveryStateOf db dependency of
                       (state, reason) \<Rightarrow>
                         if t_dependency_mode t = DependencyStrong
                         then if state = deliverySucceeded then check True False False NoReason
                              else check False False (state = deliveryFailed) (StrongIncomplete reason)
                         else (case state of
                             deliverySucceeded \<Rightarrow> check True False False NoReason
                           | deliveryFailed \<Rightarrow>
                               if t_block_on_failure dependency then check False False True (WeakBlocked reason)
                               else check True True False (WeakSkipped reason)
                           | deliveryPending \<Rightarrow> check False False False (WeakWaiting reason))))"

section \<open>The contract\<close>

definition delivered :: "db \<Rightarrow> task \<Rightarrow> bool" where
  "delivered db s \<longleftrightarrow> t_merge_of s = None \<and> t_status s = StatusSucceeded \<and>
     (t_merge_skipped s \<or>
      (\<forall>m\<in>set (tasks db). t_merge_of m \<noteq> Some (t_id s)) \<and> t_worktree_branch s = [] \<or>
      (\<exists>m\<in>set (tasks db). t_merge_of m = Some (t_id s) \<and> t_status m = StatusSucceeded))"

definition delivery_failed :: "db \<Rightarrow> task \<Rightarrow> bool" where
  "delivery_failed db s \<longleftrightarrow> t_merge_of s \<noteq> None \<or> t_status s \<in> {StatusFailed, StatusCancelled} \<or>
     t_status s = StatusSucceeded \<and> \<not> t_merge_skipped s \<and>
       (\<exists>m\<in>set (tasks db). t_merge_of m = Some (t_id s) \<and> t_status m \<in> {StatusFailed, StatusCancelled})"

definition edge_open :: "db \<Rightarrow> dep \<Rightarrow> bool" where
  "edge_open db e \<longleftrightarrow> (\<exists>s. get_task (d_depends_on e) db = Some s \<and>
     (delivered db s \<or> delivery_failed db s \<and> d_on_failure e = ''continue''))"

definition ready_spec :: "db \<Rightarrow> task \<Rightarrow> bool" where
  "ready_spec db t \<longleftrightarrow>
     t_merge_of t \<noteq> None \<or>
     (let es = {e \<in> set (deps db). d_task_id e = t_id t} in
      if es \<noteq> {} then (\<forall>e\<in>es. edge_open db e)
      else t_depends_on t = None \<or> t_dependency_mode t \<in> {DependencyNone, DependencyOther []} \<or>
        (\<exists>d s. t_depends_on t = Some d \<and> get_task d db = Some s \<and>
           (t_dependency_mode t \<in> {DependencyStrong, DependencyWeak} \<and> delivered db s \<or>
            t_dependency_mode t = DependencyWeak \<and> delivery_failed db s \<and> \<not> t_block_on_failure s)) \<or>
        (\<exists>d. t_depends_on t = Some d \<and> get_task d db = None \<and> t_dependency_mode t = DependencyWeak))"

section \<open>CheckTaskDependency implements the contract\<close>

lemma merge_unique:
  assumes "schema_ok db" and "m \<in> set (tasks db)" and "m' \<in> set (tasks db)"
    and "t_merge_of m = Some s" and "t_merge_of m' = Some s"
  shows "m = m'"
proof -
  have "distinct (List.map_filter t_merge_of ts) \<Longrightarrow> m \<in> set ts \<Longrightarrow> m' \<in> set ts \<Longrightarrow> m = m'" for ts
  proof (induction ts)
    case (Cons a ts)
    have mem: "s \<in> set (List.map_filter t_merge_of ts)" if "x \<in> set ts" "t_merge_of x = Some s" for x
      using that by (force simp: List.map_filter_def)
    show ?case using Cons mem assms(4,5)
      by (auto simp: List.map_filter_simps split: option.splits)
  qed simp
  from this [of "tasks db"] show ?thesis
    using assms(1-3) by (simp add: schema_ok_def tasks_ok_def merge_keys_def)
qed

lemma GetMergeTask_Some:
  assumes "schema_ok db"
  shows "GetMergeTaskForSource s db = Some m \<longleftrightarrow> m \<in> set (tasks db) \<and> t_merge_of m = Some s"
proof
  assume "GetMergeTaskForSource s db = Some m"
  then show "m \<in> set (tasks db) \<and> t_merge_of m = Some s"
    by (auto simp: GetMergeTaskForSource_def find_Some_iff)
next
  assume m: "m \<in> set (tasks db) \<and> t_merge_of m = Some s"
  then have "GetMergeTaskForSource s db \<noteq> None"
    by (auto simp: GetMergeTaskForSource_def find_None_iff)
  then obtain m' where m': "GetMergeTaskForSource s db = Some m'" by blast
  then have "m' \<in> set (tasks db) \<and> t_merge_of m' = Some s"
    by (auto simp: GetMergeTaskForSource_def find_Some_iff)
  with m m' merge_unique [OF assms, of m m' s] show "GetMergeTaskForSource s db = Some m" by simp
qed

lemma GetMergeTask_None:
  "GetMergeTaskForSource s db = None \<longleftrightarrow> (\<forall>m\<in>set (tasks db). t_merge_of m \<noteq> Some s)"
  by (auto simp: GetMergeTaskForSource_def find_None_iff)

lemma deliveryState_spec:
  assumes "schema_ok db"
  shows "fst (deliveryStateOf db s) =
    (if delivered db s then deliverySucceeded else if delivery_failed db s then deliveryFailed
     else deliveryPending)"
proof (cases "GetMergeTaskForSource (t_id s) db")
  case None
  then show ?thesis
    using GetMergeTask_None [of "t_id s" db]
    by (auto simp: deliveryStateOf_def delivered_def delivery_failed_def split: status.splits)
next
  case (Some m)
  then have m: "m \<in> set (tasks db)" "t_merge_of m = Some (t_id s)"
    using GetMergeTask_Some [OF assms] by auto
  have u: "m' = m" if "m' \<in> set (tasks db)" "t_merge_of m' = Some (t_id s)" for m'
    using merge_unique [OF assms that(1) m(1) that(2) m(2)] .
  have ex: "(\<exists>m'\<in>set (tasks db). t_merge_of m' = Some (t_id s) \<and> P m') \<longleftrightarrow> P m" for P
    using m u by blast
  have no: "\<not> (\<forall>m'\<in>set (tasks db). t_merge_of m' \<noteq> Some (t_id s))" using m by blast
  have d: "delivered db s \<longleftrightarrow> t_merge_of s = None \<and> t_status s = StatusSucceeded \<and>
      (t_merge_skipped s \<or> t_status m = StatusSucceeded)"
    unfolding delivered_def ex using no by blast
  have f: "delivery_failed db s \<longleftrightarrow> t_merge_of s \<noteq> None \<or> t_status s \<in> {StatusFailed, StatusCancelled} \<or>
      t_status s = StatusSucceeded \<and> \<not> t_merge_skipped s \<and> t_status m \<in> {StatusFailed, StatusCancelled}"
    unfolding delivery_failed_def ex by blast
  show ?thesis unfolding d f
    using Some by (auto simp: deliveryStateOf_def split: status.splits)
qed

lemma deliveryState_iff:
  assumes "schema_ok db"
  shows "fst (deliveryStateOf db s) = deliverySucceeded \<longleftrightarrow> delivered db s"
    and "fst (deliveryStateOf db s) = deliveryFailed \<longleftrightarrow> delivery_failed db s \<and> \<not> delivered db s"
    and "fst (deliveryStateOf db s) = deliveryPending \<longleftrightarrow> \<not> delivery_failed db s \<and> \<not> delivered db s"
  by (auto simp: deliveryState_spec [OF assms])

lemma delivered_not_failed:
  assumes "schema_ok db" and "delivered db s"
  shows "\<not> delivery_failed db s"
proof
  assume f: "delivery_failed db s"
  from assms(2) f obtain m where m: "m \<in> set (tasks db)" "t_merge_of m = Some (t_id s)"
    "t_status m \<in> {StatusFailed, StatusCancelled}" "\<not> t_merge_skipped s"
    by (auto simp: delivered_def delivery_failed_def)
  with assms(2) obtain m' where m': "m' \<in> set (tasks db)" "t_merge_of m' = Some (t_id s)"
    "t_status m' = StatusSucceeded" by (auto simp: delivered_def)
  from merge_unique [OF assms(1) m(1) m'(1) m(2) m'(2)] m(3) m'(3) show False by simp
qed

lemma check_edges_spec:
  assumes ok: "schema_ok db"
    and "\<forall>e\<in>set es. \<exists>s. get_task (d_depends_on e) db = Some s"
  shows "\<exists>c. check_edges db sk es = Inr c \<and> (dc_ready c \<longleftrightarrow> (\<forall>e\<in>set es. edge_open db e)) \<and>
    \<not> (dc_ready c \<and> dc_blocked c)"
  using assms(2)
proof (induction es arbitrary: sk)
  case Nil
  then show ?case by (simp add: check_def)
next
  case (Cons e es)
  then obtain s where s: "get_task (d_depends_on e) db = Some s" by auto
  obtain st rs where st: "deliveryStateOf db s = (st, rs)" by fastforce
  have "edge_open db e \<longleftrightarrow> delivered db s \<or> delivery_failed db s \<and> d_on_failure e = ''continue''"
    using s by (simp add: edge_open_def)
  then show ?case
    using Cons s st deliveryState_iff [OF ok, of s] by (cases st) (auto simp: check_def)
qed

lemma check_contract:
  assumes "schema_ok db"
  shows "\<exists>c. CheckTaskDependency db t = Inr c \<and> (dc_ready c \<longleftrightarrow> ready_spec db t) \<and>
    \<not> (dc_ready c \<and> dc_blocked c)"
proof (cases "t_merge_of t")
  case None
  let ?es = "workflowDependencies (t_id t) db"
  have es: "set ?es = {e \<in> set (deps db). d_task_id e = t_id t}"
    by (auto simp: workflowDependencies_def)
  show ?thesis
  proof (cases "?es = []")
    case True
    then have no: "{e \<in> set (deps db). d_task_id e = t_id t} = {}" using es by simp
    show ?thesis
    proof (cases "t_depends_on t")
      case None
      with True no \<open>t_merge_of t = None\<close> show ?thesis
        by (simp add: CheckTaskDependency_def ready_spec_def check_def)
    next
      case (Some d)
      show ?thesis
      proof (cases "get_task d db")
        case None
        with True no Some \<open>t_merge_of t = None\<close> show ?thesis
          by (auto simp: CheckTaskDependency_def ready_spec_def check_def)
      next
        case (Some s)
        obtain st rs where st: "deliveryStateOf db s = (st, rs)" by fastforce
        show ?thesis
          using True no Some \<open>t_depends_on t = Some d\<close> \<open>t_merge_of t = None\<close> st
            deliveryState_iff [OF assms, of s] delivered_not_failed [OF assms, of s]
          by (cases st) (auto simp: CheckTaskDependency_def ready_spec_def check_def)
      qed
    qed
  next
    case False
    have "\<forall>e\<in>set ?es. d_depends_on e \<in> task_ids db"
      using assms unfolding es by (simp add: schema_ok_def others_ok_def list_all_iff)
    then have "\<forall>e\<in>set ?es. \<exists>s. get_task (d_depends_on e) db = Some s"
      using get_task_None by (metis option.exhaust)
    from check_edges_spec [OF assms this] False None es show ?thesis
      by (auto simp: CheckTaskDependency_def ready_spec_def simp flip: set_empty)
  qed
next
  case (Some m)
  then show ?thesis by (simp add: CheckTaskDependency_def ready_spec_def check_def)
qed

text \<open>
  C2. The scheduler's only dependency test is exact: on every database the schema admits it
  returns an answer, the answer is ready precisely when the contract says so, and it is never
  both ready and blocked.
\<close>

theorem CheckTaskDependency_correct:
  assumes "schema_ok db"
  shows "\<exists>c. CheckTaskDependency db t = Inr c \<and> (dc_ready c \<longleftrightarrow> ready_spec db t) \<and>
    \<not> (dc_ready c \<and> dc_blocked c)"
  by (rule check_contract [OF assms])

text \<open>A task that waits for a Git task which succeeded but has no merge task yet is not ready.\<close>

definition demo_chain :: db where
  "demo_chain = demo_project_db
     [(demo_in 1 1 1 StatusSucceeded)\<lparr>t_worktree_branch := ''b''\<rparr>,
      (demo_in 1 2 2 StatusQueued)\<lparr>t_dependency_mode := DependencyStrong, t_depends_on := Some 1\<rparr>]"

theorem CheckTaskDependency_correct_witness:
  "\<exists>c. CheckTaskDependency demo_chain (last (tasks demo_chain)) = Inr c \<and>
     (dc_ready c \<longleftrightarrow> ready_spec demo_chain (last (tasks demo_chain))) \<and> \<not> dc_ready c"
proof -
  have ok: "schema_ok demo_chain" by code_simp
  have "case CheckTaskDependency demo_chain (last (tasks demo_chain)) of Inl _ \<Rightarrow> False | Inr c \<Rightarrow> \<not> dc_ready c"
    by code_simp
  with CheckTaskDependency_correct [OF ok, of "last (tasks demo_chain)"] show ?thesis by auto
qed

end
