(* ===== verification/Store_Merge.thy ===== *)
theory Store_Merge
  imports Store_Dependency
begin

text \<open>
  task_merge.go, \<^verbatim>\<open>NewMergeTask\<close> and \<^verbatim>\<open>EnsureMergeTask\<close>: how a finished task gets
  its one merge task. The three completing operations (execution finished, session delivered,
  review approved) differ in the condition on the source row only; all insert the merge task in
  the same transaction. \<open>text\<close> stands for the two display texts \<^verbatim>\<open>NewMergeTask\<close> formats
  from the source.
\<close>

section \<open>The merge task\<close>

definition NewMergeTask :: "(task \<Rightarrow> string \<times> string) \<Rightarrow> task \<Rightarrow> task" where
  "NewMergeTask text source =
     \<lparr>t_id = 0, t_type = TaskTypeOther [], t_title = fst (text source), t_body = snd (text source),
      t_status = StatusQueued, t_perm = PermFull, t_run_mode = RunModeBatch, t_concurrent = False,
      t_role_id = t_role_id source, t_project_id = t_project_id source,
      t_project_dir = t_project_dir source, t_parent_id = Some (t_id source), t_depends_on = None,
      t_dependency_mode = DependencyNone, t_block_on_failure = t_block_on_failure source,
      t_schedule_id = None, t_error = [], t_exit_code = None, t_review_note = [], t_review_rounds = 0,
      t_tmux_log_offset = 0, t_worktree_branch = [], t_base_commit = [], t_resume_of = None,
      t_merge_of = Some (t_id source), t_merge_skipped = False, t_sort_order = 0, t_terminal_cols = 0,
      t_terminal_rows = 0, t_session_id = None, t_workflow_run_id = t_workflow_run_id source,
      t_parent_session_id = t_parent_session_id source, t_parent_task_id = t_parent_task_id source,
      t_cron = [], t_enabled = False, t_last_run_at = None, t_next_run_at = None, t_worktree_path = [],
      t_session_dir = [], t_last_message_at = [], t_message_count = 0, t_suspended_at = None,
      t_delivered_at = None, t_spec = SpecEmpty, t_violations = [], t_spec_hash = [],
      t_external_key = [], t_revision = 0, t_created_at = [], t_started_at = None,
      t_finished_at = None, t_updated_at = []\<rparr>"

definition prepareMergeTask :: "string \<Rightarrow> int \<Rightarrow> task \<Rightarrow> task" where
  "prepareMergeTask now sourceID merge =
     (let m = merge\<lparr>t_parent_id := Some sourceID, t_merge_of := Some sourceID, t_status := StatusQueued,
            t_perm := PermFull, t_run_mode := RunModeBatch, t_concurrent := False, t_depends_on := None,
            t_dependency_mode := DependencyNone, t_schedule_id := None, t_resume_of := None\<rparr>;
          m = (if t_created_at m = [] then m\<lparr>t_created_at := now\<rparr> else m)
      in if t_updated_at m = [] then m\<lparr>t_updated_at := t_created_at m\<rparr> else m)"

definition inheritMergeFailurePolicy :: "db \<Rightarrow> int \<Rightarrow> task \<Rightarrow> store_error + task" where
  "inheritMergeFailurePolicy db sourceID merge =
     (case get_task sourceID db of
        None \<Rightarrow> Inl ErrNoRows
      | Some s \<Rightarrow> Inr (merge\<lparr>t_block_on_failure := t_block_on_failure s\<rparr>))"

text \<open>The row the statement inserts: the columns it names, defaults of the schema elsewhere.\<close>

definition merge_row :: "task \<Rightarrow> task" where
  "merge_row merge =
     \<lparr>t_id = 0, t_type = TaskTypeTask, t_title = t_title merge, t_body = t_body merge,
      t_status = t_status merge, t_perm = t_perm merge, t_run_mode = t_run_mode merge,
      t_concurrent = t_concurrent merge, t_role_id = t_role_id merge, t_project_id = t_project_id merge,
      t_project_dir = t_project_dir merge, t_parent_id = t_parent_id merge,
      t_depends_on = t_depends_on merge, t_dependency_mode = t_dependency_mode merge,
      t_block_on_failure = t_block_on_failure merge, t_schedule_id = t_schedule_id merge, t_error = [],
      t_exit_code = None, t_review_note = [], t_review_rounds = 0, t_tmux_log_offset = 0,
      t_worktree_branch = [], t_base_commit = [], t_resume_of = t_resume_of merge,
      t_merge_of = t_merge_of merge, t_merge_skipped = False, t_sort_order = t_sort_order merge,
      t_terminal_cols = 0, t_terminal_rows = 0, t_session_id = t_session_id merge,
      t_workflow_run_id = t_workflow_run_id merge, t_parent_session_id = None, t_parent_task_id = None,
      t_cron = [], t_enabled = True, t_last_run_at = None, t_next_run_at = None, t_worktree_path = [],
      t_session_dir = [], t_last_message_at = [], t_message_count = 0, t_suspended_at = None,
      t_delivered_at = None, t_spec = SpecEmpty, t_violations = ''[]'', t_spec_hash = [],
      t_external_key = [], t_revision = 1, t_created_at = t_created_at merge, t_started_at = None,
      t_finished_at = None, t_updated_at = t_updated_at merge\<rparr>"

definition insertMergeTask :: "db \<Rightarrow> task \<Rightarrow> store_error + (db \<times> int)" where
  "insertMergeTask db merge = insert_task_row (merge_row merge) db"

section \<open>The completing operations\<close>

definition coalesce :: "'a option \<Rightarrow> 'a \<Rightarrow> 'a option" where
  "coalesce x y = (case x of None \<Rightarrow> Some y | Some z \<Rightarrow> Some z)"

definition finish_with_merge :: "(task \<Rightarrow> bool) \<Rightarrow> (task \<Rightarrow> task) \<Rightarrow> reason \<Rightarrow> int \<Rightarrow> task \<Rightarrow> db
    \<Rightarrow> store_error + (db \<times> int)" where
  "finish_with_merge p f msg sourceID merge db =
     rbind (update_tasks p f db) (\<lambda>(db1, n).
       if n \<noteq> 1 then Inl (Err msg)
       else rbind (inheritMergeFailurePolicy db1 sourceID merge) (\<lambda>m. insertMergeTask db1 m))"

definition succeed_row :: "string \<Rightarrow> task \<Rightarrow> task" where
  "succeed_row now t = t\<lparr>t_status := StatusSucceeded, t_finished_at := Some now, t_exit_code := Some 0,
     t_error := [], t_updated_at := now, t_revision := t_revision t + 1\<rparr>"

definition approve_row :: "string \<Rightarrow> task \<Rightarrow> task" where
  "approve_row now t = t\<lparr>t_status := StatusSucceeded, t_finished_at := coalesce (t_finished_at t) now,
     t_exit_code := coalesce (t_exit_code t) 0, t_updated_at := now, t_revision := t_revision t + 1\<rparr>"

definition CompleteTaskAndCreateMerge :: "string \<Rightarrow> int \<Rightarrow> task \<Rightarrow> db \<Rightarrow> store_error + (db \<times> int)" where
  "CompleteTaskAndCreateMerge now sourceID merge db =
     finish_with_merge
       (\<lambda>t. t_id t = sourceID \<and> t_status t \<in> {StatusClaimed, StatusRunning} \<and> t_perm t = PermFull \<and>
          t_merge_of t = None)
       (succeed_row now) MsgNotCompletable sourceID (prepareMergeTask now sourceID merge) db"

definition DeliverTaskAndCreateMerge :: "string \<Rightarrow> int \<Rightarrow> task \<Rightarrow> db \<Rightarrow> store_error + (db \<times> int)" where
  "DeliverTaskAndCreateMerge now sourceID merge db =
     finish_with_merge
       (\<lambda>t. t_id t = sourceID \<and> t_status t = StatusQueued \<and> t_perm t = PermFull \<and>
          t_merge_of t = None \<and> t_session_id t \<noteq> None)
       (succeed_row now) MsgNotDeliverable sourceID (prepareMergeTask now sourceID merge) db"

definition ApproveTaskAndCreateMerge :: "string \<Rightarrow> int \<Rightarrow> int \<Rightarrow> task \<Rightarrow> db \<Rightarrow> store_error + (db \<times> int)" where
  "ApproveTaskAndCreateMerge now sourceID expectedRevision merge db =
     finish_with_merge
       (\<lambda>t. t_id t = sourceID \<and> t_revision t = expectedRevision \<and> t_status t = StatusAwaitingReview \<and>
          t_perm t = PermReview)
       (approve_row now) MsgNotApprovable sourceID (prepareMergeTask now sourceID merge) db"

definition ApproveTaskDeliver :: "string \<Rightarrow> int \<Rightarrow> int \<Rightarrow> db \<Rightarrow> store_error + db" where
  "ApproveTaskDeliver now sourceID expectedRevision db =
     rbind (update_tasks (\<lambda>t. t_id t = sourceID \<and> t_revision t = expectedRevision \<and>
         t_status t = StatusAwaitingReview) (\<lambda>t. (approve_row now t)\<lparr>t_merge_skipped := True\<rparr>) db)
       (\<lambda>(db1, n). if n \<noteq> 1 then Inl (Err MsgNotApprovable) else Inr db1)"

definition MarkTaskSucceededAwaitingMerge :: "string \<Rightarrow> int \<Rightarrow> db \<Rightarrow> store_error + (db \<times> bool)" where
  "MarkTaskSucceededAwaitingMerge now sourceID db =
     rbind (update_tasks (\<lambda>t. t_id t = sourceID \<and> t_status t \<in> {StatusClaimed, StatusRunning} \<and>
         t_perm t = PermFull \<and> t_merge_of t = None \<and> t_worktree_branch t \<noteq> [])
       (\<lambda>t. (succeed_row now t)\<lparr>t_finished_at := coalesce (t_finished_at t) now\<rparr>) db)
       (\<lambda>(db1, n). Inr (db1, n = 1))"

definition EnsureMergeTask :: "(task \<Rightarrow> string \<times> string) \<Rightarrow> string \<Rightarrow> task \<Rightarrow> db
    \<Rightarrow> store_error + (db \<times> int \<times> bool)" where
  "EnsureMergeTask text now source db =
     (if t_id source \<le> 0 then Inl (Err MsgBadSource)
      else let merge = prepareMergeTask now (t_id source) (NewMergeTask text source) in
        case GetMergeTaskForSource (t_id source) db of
          Some existing \<Rightarrow> Inr (db, t_id existing, False)
        | None \<Rightarrow>
            if \<not> list_ex (\<lambda>t. t_id t = t_id source \<and> t_status t = StatusSucceeded \<and> t_merge_of t = None \<and>
                 t_worktree_branch t \<noteq> []) (tasks db)
            then Inl (Err MsgNoMergeNeeded)
            else rbind (inheritMergeFailurePolicy db (t_id source) merge) (\<lambda>m.
              rbind (insertMergeTask db m) (\<lambda>(db', i). Inr (db', i, True))))"

section \<open>One source, one merge task\<close>

lemma plain_succeed: "plain_update (succeed_row now)"
  by (rule plain_updateI) (simp_all add: shape_ok_def task_refs_ok_def succeed_row_def)

lemma plain_approve: "plain_update (approve_row now)"
  by (rule plain_updateI) (simp_all add: shape_ok_def task_refs_ok_def approve_row_def)

lemma plain_skip: "plain_update (\<lambda>t. (approve_row now t)\<lparr>t_merge_skipped := True\<rparr>)"
  by (rule plain_updateI) (simp_all add: shape_ok_def task_refs_ok_def approve_row_def)

lemma merge_row_sel [simp]:
  "t_merge_of (merge_row m) = t_merge_of m" "t_status (merge_row m) = t_status m"
  "t_perm (merge_row m) = t_perm m" "t_block_on_failure (merge_row m) = t_block_on_failure m"
  "t_parent_id (merge_row m) = t_parent_id m" "t_revision (merge_row m) = 1"
  "t_external_key (merge_row m) = []" "t_depends_on (merge_row m) = t_depends_on m"
  "t_run_mode (merge_row m) = t_run_mode m" "t_worktree_branch (merge_row m) = []" "shape_ok (merge_row m)"
  by (simp_all add: merge_row_def shape_ok_def)

lemma prepareMerge_sel [simp]:
  "t_merge_of (prepareMergeTask now i m) = Some i" "t_status (prepareMergeTask now i m) = StatusQueued"
  "t_perm (prepareMergeTask now i m) = PermFull" "t_parent_id (prepareMergeTask now i m) = Some i"
  "t_depends_on (prepareMergeTask now i m) = None" "t_run_mode (prepareMergeTask now i m) = RunModeBatch"
  by (simp_all add: prepareMergeTask_def Let_def)

lemma merge_key_fresh:
  assumes "insert_task_row t db = Inr (db', i)" and "t_merge_of t = Some s"
  shows "\<forall>m\<in>set (tasks db). t_merge_of m \<noteq> Some s"
proof -
  have "distinct (merge_keys (tasks db @ [t\<lparr>t_id := i\<rparr>]))"
    using assms(1) by (auto simp: insert_task_row_Inr schema_ok_def tasks_ok_def)
  then show ?thesis using assms(2) by (force simp: merge_keys_def List.map_filter_def)
qed

lemma get_task_fresh: "insert_task_row t db = Inr (db', i) \<Longrightarrow> get_task i db = None"
  unfolding get_task_None task_ids_def insert_task_row_Inr
  using next_id_fresh [of "task_seq db" "map t_id (tasks db)"] by simp

text \<open>What every accepted completing operation did.\<close>

definition merged_from :: "int \<Rightarrow> task \<Rightarrow> task \<Rightarrow> int \<Rightarrow> db \<Rightarrow> db \<Rightarrow> bool" where
  "merged_from sid s s' mid db db' \<longleftrightarrow>
     schema_ok db' \<and> get_task sid db = Some s \<and> get_task sid db' = Some s' \<and>
     t_status s' = StatusSucceeded \<and> t_revision s' = t_revision s + 1 \<and>
     get_task mid db = None \<and> (\<forall>x\<in>set (tasks db). t_merge_of x \<noteq> Some sid) \<and>
     (\<exists>m. get_task mid db' = Some m \<and> t_merge_of m = Some sid \<and> t_parent_id m = Some sid \<and>
        t_status m = StatusQueued \<and> t_perm m = PermFull \<and> t_revision m = 1 \<and>
        t_block_on_failure m = t_block_on_failure s) \<and>
     (\<forall>j. j \<notin> {sid, mid} \<longrightarrow> get_task j db' = get_task j db)"

lemma finish_with_merge_effect:
  assumes good: "schema_ok db" and plain: "plain_update f"
    and f: "\<And>t. t_status (f t) = StatusSucceeded \<and> t_revision (f t) = t_revision t + 1 \<and>
      t_block_on_failure (f t) = t_block_on_failure t"
    and run: "finish_with_merge (\<lambda>t. t_id t = sid \<and> q t) f msg sid (prepareMergeTask now sid merge) db = Inr (db', mid)"
  shows "\<exists>s. q s \<and> merged_from sid s (f s) mid db db'"
proof -
  let ?p = "\<lambda>t. t_id t = sid \<and> q t"
  let ?db1 = "db\<lparr>tasks := upd_where ?p f (tasks db)\<rparr>"
  have f_id: "t_id (f t) = t_id t" for t using plain by simp
  have f_merge: "t_merge_of (f t) = t_merge_of t" for t using plain by (simp add: plain_update_def keeps_keys_def)
  from run obtain m where n: "affected ?p (tasks db) = 1"
    and m: "inheritMergeFailurePolicy ?db1 sid (prepareMergeTask now sid merge) = Inr m"
    and ins: "insertMergeTask ?db1 m = Inr (db', mid)"
    by (auto simp: finish_with_merge_def result_simps split: if_splits)
  obtain s where s: "get_task sid db = Some s" "q s"
    using n unfolding affected_task [OF good] by (auto split: option.splits if_splits)
  have get1: "get_task j ?db1 = map_option (\<lambda>t. if ?p t then f t else t) (get_task j db)" for j
    by (rule get_task_upd) (simp add: f_id)
  have s1: "get_task sid ?db1 = Some (f s)" using s get1 by (auto dest: get_task_id)
  have m': "m = (prepareMergeTask now sid merge)\<lparr>t_block_on_failure := t_block_on_failure s\<rparr>"
    using m s1 f by (simp add: inheritMergeFailurePolicy_def)
  note row = get_task_insert [OF ins [unfolded insertMergeTask_def]]
  have fresh1: "get_task mid ?db1 = None"
    by (rule get_task_fresh [OF ins [unfolded insertMergeTask_def]])
  then have fresh: "get_task mid db = None" using get1 by simp
  have ne: "mid \<noteq> sid" using fresh s(1) by auto
  have "\<forall>x\<in>set (tasks ?db1). t_merge_of x \<noteq> Some sid"
    by (rule merge_key_fresh [OF ins [unfolded insertMergeTask_def]]) (simp add: m')
  then have "Some sid \<notin> set (map t_merge_of (tasks ?db1))" by auto
  then have no: "\<forall>x\<in>set (tasks db). t_merge_of x \<noteq> Some sid"
    using map_upd_where [of "tasks db" ?p t_merge_of f] f_merge by (auto simp: image_iff)
  have "get_task j db' = get_task j db" if "j \<notin> {sid, mid}" for j
    using that row [of j] get1 [of j] by (cases "get_task j db") (auto dest: get_task_id)
  moreover have "schema_ok db'"
    using ins unfolding insertMergeTask_def insert_task_row_Inr by blast
  ultimately have "merged_from sid s (f s) mid db db'"
    using s s1 ne row [of sid] row [of mid] fresh no f m' by (auto simp: merged_from_def)
  with s(2) show ?thesis by blast
qed

lemma succeed_row_sel [simp]:
  "t_status (succeed_row now t) = StatusSucceeded" "t_revision (succeed_row now t) = t_revision t + 1"
  "t_block_on_failure (succeed_row now t) = t_block_on_failure t" "t_exit_code (succeed_row now t) = Some 0"
  by (simp_all add: succeed_row_def)

lemma approve_row_sel [simp]:
  "t_status (approve_row now t) = StatusSucceeded" "t_revision (approve_row now t) = t_revision t + 1"
  "t_block_on_failure (approve_row now t) = t_block_on_failure t"
  by (simp_all add: approve_row_def)

lemma finish_with_merge_blocked:
  assumes "schema_ok db" and "get_task sid db = Some s" and "\<not> q s"
  shows "\<exists>e. finish_with_merge (\<lambda>t. t_id t = sid \<and> q t) f msg sid m db = Inl e"
proof -
  have "affected (\<lambda>t. t_id t = sid \<and> q t) (tasks db) = 0"
    using assms(2,3) by (simp add: affected_task [OF assms(1)])
  then show ?thesis
    by (auto simp: finish_with_merge_def update_tasks_def exec_stmt_def)
qed

text \<open>
  C7. Completing a task creates its merge task exactly once: an accepted
  \<^verbatim>\<open>CompleteTaskAndCreateMerge\<close> found the task claimed or running with full permission and
  without a merge task, marks it succeeded and adds one queued merge task that inherits the
  failure policy the source has at that moment; every other row is unchanged, and every later
  attempt to complete the same task fails.
\<close>

theorem CompleteTaskAndCreateMerge_once:
  assumes "schema_ok db" and "CompleteTaskAndCreateMerge now sid merge db = Inr (db', mid)"
  shows "(\<exists>s. t_status s \<in> {StatusClaimed, StatusRunning} \<and> t_perm s = PermFull \<and> t_merge_of s = None \<and>
      merged_from sid s (succeed_row now s) mid db db') \<and>
    (\<forall>now' merge'. \<exists>e. CompleteTaskAndCreateMerge now' sid merge' db' = Inl e)"
proof -
  let ?q = "\<lambda>t. t_status t \<in> {StatusClaimed, StatusRunning} \<and> t_perm t = PermFull \<and> t_merge_of t = None"
  from finish_with_merge_effect [OF assms(1) plain_succeed _ assms(2) [unfolded CompleteTaskAndCreateMerge_def]]
  obtain s where s: "?q s" "merged_from sid s (succeed_row now s) mid db db'" by auto
  then have "schema_ok db'" "get_task sid db' = Some (succeed_row now s)" "\<not> ?q (succeed_row now s)"
    by (auto simp: merged_from_def)
  then have "\<exists>e. CompleteTaskAndCreateMerge now' sid merge' db' = Inl e" for now' merge'
    unfolding CompleteTaskAndCreateMerge_def by (rule finish_with_merge_blocked)
  with s show ?thesis by blast
qed

definition demo_text :: "task \<Rightarrow> string \<times> string" where
  "demo_text t = (''merge'', [])"

definition demo_running :: db where
  "demo_running = demo_project_db [(demo_in 1 1 1 StatusRunning)\<lparr>t_worktree_branch := ''b''\<rparr>]"

theorem CompleteTaskAndCreateMerge_once_witness:
  "\<exists>d. CompleteTaskAndCreateMerge ''t1'' 1 (NewMergeTask demo_text (hd (tasks demo_running))) demo_running = Inr (d, 2) \<and>
     (\<forall>now' merge'. \<exists>e. CompleteTaskAndCreateMerge now' 1 merge' d = Inl e)"
proof -
  have ok: "schema_ok demo_running" by code_simp
  have "case CompleteTaskAndCreateMerge ''t1'' 1 (NewMergeTask demo_text (hd (tasks demo_running))) demo_running of
      Inl _ \<Rightarrow> False | Inr (d, i) \<Rightarrow> i = 2" by code_simp
  then obtain d where d: "CompleteTaskAndCreateMerge ''t1'' 1
      (NewMergeTask demo_text (hd (tasks demo_running))) demo_running = Inr (d, 2)"
    by (auto split: sum.splits prod.splits)
  from CompleteTaskAndCreateMerge_once [OF ok d] d show ?thesis by blast
qed

section \<open>Review decisions\<close>

text \<open>
  The decisions on a task awaiting review, each naming the revision the reviewer saw, and the
  resumption of a finished task: approve with a merge task, approve without one, run again.
\<close>

datatype decision = ApproveMerge string task | ApproveSkip string | RunAgain string

definition decide :: "int \<Rightarrow> int \<Rightarrow> decision \<Rightarrow> db \<Rightarrow> store_error + db" where
  "decide i e d db = (case d of
     ApproveMerge now m \<Rightarrow> rbind (ApproveTaskAndCreateMerge now i e m db) (\<lambda>(db', mid). Inr db')
   | ApproveSkip now \<Rightarrow> ApproveTaskDeliver now i e db
   | RunAgain now \<Rightarrow> rbind (ResumeTask i e now db) (\<lambda>(db', ok). if ok then Inr db' else Inl ErrRevisionConflict))"

lemma revision_task: "revision_of ResTask i db = map_option t_revision (get_task i db)"
  by (simp add: revision_of_def get_task_def)

lemma merged_from_revision:
  "merged_from i s s' mid db db' \<Longrightarrow> schema_ok db' \<and>
     revision_of ResTask i db = Some (t_revision s) \<and> revision_of ResTask i db' = Some (t_revision s + 1) \<and>
     (\<forall>j r. j \<noteq> i \<longrightarrow> revision_of ResTask j db = Some r \<longrightarrow> revision_of ResTask j db' = Some r)"
  by (auto simp: merged_from_def revision_task)

lemma Approve_effect:
  assumes "schema_ok db" and "ApproveTaskAndCreateMerge now i e m db = Inr (db', mid)"
  shows "\<exists>s. t_revision s = e \<and> t_status s = StatusAwaitingReview \<and> t_perm s = PermReview \<and>
    merged_from i s (approve_row now s) mid db db'"
  using finish_with_merge_effect [OF assms(1) plain_approve _ assms(2) [unfolded ApproveTaskAndCreateMerge_def]]
  by auto

lemma resume_row_revision [simp]: "t_revision (resume_row now t) = t_revision t + 1"
  by (simp add: resume_row_def)

lemma decide_effect:
  assumes good: "schema_ok db" and run: "decide i e d db = Inr db'"
  shows "schema_ok db' \<and> revision_of ResTask i db = Some e \<and> revision_of ResTask i db' = Some (e + 1) \<and>
    (\<forall>j r. j \<noteq> i \<longrightarrow> revision_of ResTask j db = Some r \<longrightarrow> revision_of ResTask j db' = Some r)"
proof (cases d)
  case (ApproveMerge now m)
  with run obtain mid where "ApproveTaskAndCreateMerge now i e m db = Inr (db', mid)"
    by (auto simp: decide_def result_simps)
  from Approve_effect [OF good this] show ?thesis by (auto dest: merged_from_revision)
next
  case (ApproveSkip now)
  with run have "update_tasks (\<lambda>t. t_id t = i \<and> t_revision t = e \<and> t_status t = StatusAwaitingReview)
      (\<lambda>t. (approve_row now t)\<lparr>t_merge_skipped := True\<rparr>) db = Inr (db', 1)"
    by (auto simp: decide_def ApproveTaskDeliver_def rbind_eq_Inr split: if_splits)
  from update_at_revision [OF good plain_skip _ this] show ?thesis by auto
next
  case (RunAgain now)
  with run have "update_tasks (\<lambda>t. t_id t = i \<and> t_revision t = e \<and>
      t_status t \<in> {StatusSucceeded, StatusFailed, StatusCancelled}) (resume_row now) db = Inr (db', 1)"
    by (auto simp: decide_def ResumeTask_def rbind_eq_Inr split: if_splits)
  from update_at_revision [OF good plain_resume _ this] show ?thesis by auto
qed

interpretation review: optimistic "revision_of ResTask" decide schema_ok
  by unfold_locales (use decide_effect in blast)+

text \<open>
  Reviewers that looked at the same revision of a task cannot decide twice: of any mix of
  approvals with merge, approvals without merge and resumptions they submit, in any order and
  interleaved with decisions on other tasks, at most one takes effect.
\<close>

theorem review_decided_once:
  assumes "schema_ok db" and "revision_of ResTask i db = Some r"
    and "\<forall>w\<in>set ws. fst w = i \<longrightarrow> fst (snd w) = r"
  shows "winners i ws (fst (attempts decide ws db)) \<le> 1"
  using review.same_revision_one_winner [OF assms(1,2) order_refl assms(3)] by simp

definition demo_review :: db where
  "demo_review = demo_project_db [(demo_in 1 1 1 StatusAwaitingReview)\<lparr>t_perm := PermReview\<rparr>]"

definition demo_decisions :: "(int \<times> int \<times> decision) list" where
  "demo_decisions = [(1, 1, ApproveMerge ''t1'' (NewMergeTask demo_text (demo_task 1 StatusQueued))),
     (1, 1, ApproveSkip ''t2''), (1, 1, RunAgain ''t3'')]"

theorem review_decided_once_witness:
  "winners 1 demo_decisions (fst (attempts decide demo_decisions demo_review)) \<le> 1 \<and>
   fst (attempts decide demo_decisions demo_review) = [True, False, False]"
proof -
  have "schema_ok demo_review" and "revision_of ResTask 1 demo_review = Some 1" by code_simp+
  from review_decided_once [OF this, of demo_decisions]
  have "winners 1 demo_decisions (fst (attempts decide demo_decisions demo_review)) \<le> 1"
    by (simp add: demo_decisions_def)
  moreover have "fst (attempts decide demo_decisions demo_review) = [True, False, False]" by code_simp
  ultimately show ?thesis by blast
qed

section \<open>Reconciliation\<close>

lemma EnsureMergeTask_existing:
  "0 < t_id source \<Longrightarrow> GetMergeTaskForSource (t_id source) db = Some m \<Longrightarrow>
   EnsureMergeTask text now source db = Inr (db, t_id m, False)"
  by (simp add: EnsureMergeTask_def)

lemma EnsureMergeTask_new:
  assumes good: "schema_ok db" and run: "EnsureMergeTask text now source db = Inr (db', mid, True)"
  shows "schema_ok db' \<and> (\<exists>m. GetMergeTaskForSource (t_id source) db' = Some m \<and> t_id m = mid \<and>
    t_status m = StatusQueued) \<and> 0 < t_id source \<and> get_task mid db = None \<and>
    (\<forall>j. j \<noteq> mid \<longrightarrow> get_task j db' = get_task j db)"
proof -
  from run obtain s m where pos: "0 < t_id source" and s: "get_task (t_id source) db = Some s"
    and m: "m = (prepareMergeTask now (t_id source) (NewMergeTask text source))\<lparr>t_block_on_failure := t_block_on_failure s\<rparr>"
    and ins: "insert_task_row (merge_row m) db = Inr (db', mid)"
    by (auto simp: EnsureMergeTask_def Let_def rbind_eq_Inr inheritMergeFailurePolicy_def insertMergeTask_def
        split: if_splits option.splits)
  note row = get_task_insert [OF ins]
  have ok: "schema_ok db'" using ins by (auto simp: insert_task_row_Inr)
  have "get_task mid db' = Some ((merge_row m)\<lparr>t_id := mid\<rparr>)" using row by simp
  then have "(merge_row m)\<lparr>t_id := mid\<rparr> \<in> set (tasks db')" by (rule get_task_mem)
  then have "GetMergeTaskForSource (t_id source) db' = Some ((merge_row m)\<lparr>t_id := mid\<rparr>)"
    by (simp add: GetMergeTask_Some [OF ok] m)
  with ok pos row get_task_fresh [OF ins] show ?thesis by (simp add: m)
qed

text \<open>
  The reconciliation of completed Git tasks is idempotent: whatever
  \<^verbatim>\<open>EnsureMergeTask\<close> returned, the source has exactly one merge task afterwards, the
  one whose id was returned, and calling it again returns that id and changes nothing.
\<close>

theorem EnsureMergeTask_idempotent:
  assumes "schema_ok db" and "EnsureMergeTask text now source db = Inr (db', mid, created)"
  shows "(\<exists>m\<in>set (tasks db'). t_id m = mid \<and> t_merge_of m = Some (t_id source) \<and>
      (\<forall>m'\<in>set (tasks db'). t_merge_of m' = Some (t_id source) \<longrightarrow> m' = m)) \<and>
    EnsureMergeTask text now' source db' = Inr (db', mid, False) \<and>
    (\<not> created \<longrightarrow> db' = db)"
proof -
  have pos: "0 < t_id source" using assms(2) by (simp add: EnsureMergeTask_def split: if_splits)
  obtain m where ok: "schema_ok db'" and m: "GetMergeTaskForSource (t_id source) db' = Some m" "t_id m = mid"
    and same: "\<not> created \<longrightarrow> db' = db"
  proof (cases created)
    case True
    with assms(2) have "EnsureMergeTask text now source db = Inr (db', mid, True)" by simp
    from EnsureMergeTask_new [OF assms(1) this] True that show ?thesis by blast
  next
    case False
    with assms(2) obtain m where "GetMergeTaskForSource (t_id source) db = Some m" "t_id m = mid" "db' = db"
      by (auto simp: EnsureMergeTask_def Let_def rbind_eq_Inr split: if_splits option.splits prod.splits)
    with assms(1) that show ?thesis by blast
  qed
  have "m \<in> set (tasks db')" "t_merge_of m = Some (t_id source)" using m GetMergeTask_Some [OF ok] by auto
  moreover from this have "\<forall>m'\<in>set (tasks db'). t_merge_of m' = Some (t_id source) \<longrightarrow> m' = m"
    using merge_unique [OF ok] by blast
  ultimately show ?thesis
    using m same EnsureMergeTask_existing [OF pos m(1)] by blast
qed

definition demo_done :: db where
  "demo_done = demo_project_db [(demo_in 1 1 1 StatusSucceeded)\<lparr>t_worktree_branch := ''b''\<rparr>]"

theorem EnsureMergeTask_idempotent_witness:
  "\<exists>d. EnsureMergeTask demo_text ''t1'' (hd (tasks demo_done)) demo_done = Inr (d, 2, True) \<and>
     EnsureMergeTask demo_text ''t2'' (hd (tasks demo_done)) d = Inr (d, 2, False)"
proof -
  have ok: "schema_ok demo_done" by code_simp
  have "case EnsureMergeTask demo_text ''t1'' (hd (tasks demo_done)) demo_done of
      Inl _ \<Rightarrow> False | Inr (d, i, c) \<Rightarrow> i = 2 \<and> c" by code_simp
  then obtain d where d: "EnsureMergeTask demo_text ''t1'' (hd (tasks demo_done)) demo_done = Inr (d, 2, True)"
    by (auto split: sum.splits prod.splits)
  from EnsureMergeTask_idempotent [OF ok d] d show ?thesis by blast
qed

end
