(* ===== verification/Store_Delete.thy ===== *)
theory Store_Delete
  imports Store_Update
begin

text \<open>
  The deletion of a task tree (task_delete.go, second half). The tree is read recursively, so the
  recursions carry fuel and return \<open>None\<close> when it runs out, which stands for not returning.
  \<open>rng\<close> is the order in which Go ranges over the set of ids to delete.
\<close>

section \<open>The tree\<close>

definition tree_children :: "db \<Rightarrow> int \<Rightarrow> int list" where
  "tree_children db i =
     sort (map t_id (filter (\<lambda>t. t_parent_id t = Some i \<or> t_merge_of t = Some i) (tasks db)))"

fun collectTaskTreeIDs :: "nat \<Rightarrow> db \<Rightarrow> int list \<Rightarrow> int \<Rightarrow> int list option"
  and collect_children :: "nat \<Rightarrow> db \<Rightarrow> int list \<Rightarrow> int list \<Rightarrow> int list option" where
  "collectTaskTreeIDs 0 db seen i = None"
| "collectTaskTreeIDs (Suc n) db seen i =
    (if i \<in> set seen then Some seen
     else if get_task i db = None then Some seen
     else collect_children n db (i # seen) (tree_children db i))"
| "collect_children n db seen [] = Some seen"
| "collect_children n db seen (c # cs) =
    (case collectTaskTreeIDs n db seen c of
       None \<Rightarrow> None | Some seen' \<Rightarrow> collect_children n db seen' cs)"

section \<open>Unlinking\<close>

function replacement_loop :: "db \<Rightarrow> int list \<Rightarrow> int list \<Rightarrow> int \<Rightarrow> int option" where
  "replacement_loop db deleting seen current =
     (if current \<in> set seen then None
      else case get_task current db of
          None \<Rightarrow> None
        | Some t \<Rightarrow>
            if t_depends_on t = None \<or> t_dependency_mode t = DependencyNone \<or>
               t_dependency_mode t = DependencyOther [] then None
            else let candidate = the (t_depends_on t) in
              if candidate \<notin> set deleting then Some candidate
              else replacement_loop db deleting (current # seen) candidate)"
  by pat_completeness auto
termination
proof (relation "measure (\<lambda>(db, deleting, seen, current). card (task_ids db - set seen))", goal_cases)
  case (2 db deleting seen current t candidate)
  then show ?case
    unfolding in_measure prod.case by (intro unseen_decreases)
qed simp

declare replacement_loop.simps [simp del]

definition dependencyReplacement :: "db \<Rightarrow> int \<Rightarrow> int list \<Rightarrow> int option" where
  "dependencyReplacement db sourceID deleting = replacement_loop db deleting [] sourceID"

fun unlink_dependents :: "int list \<Rightarrow> string \<Rightarrow> int \<Rightarrow> task list \<Rightarrow> db \<Rightarrow> store_error + db" where
  "unlink_dependents deleting now sourceID [] db = Inr db"
| "unlink_dependents deleting now sourceID (d # ds) db =
    (if t_id d \<in> set deleting then unlink_dependents deleting now sourceID ds db
     else if t_dependency_mode d = DependencyStrong then Inl (ErrTaskDependency (t_id d) sourceID)
     else let replacement = dependencyReplacement db sourceID deleting in
       rbind (update_tasks (\<lambda>t. t_id t = t_id d)
           (\<lambda>t. t\<lparr>t_depends_on := replacement, t_updated_at := now, t_revision := t_revision t + 1\<rparr>) db)
         (\<lambda>(db', n). unlink_dependents deleting now sourceID ds db'))"

fun unlink_sources :: "int list \<Rightarrow> string \<Rightarrow> int list \<Rightarrow> db \<Rightarrow> store_error + db" where
  "unlink_sources deleting now [] db = Inr db"
| "unlink_sources deleting now (s # ss) db =
    rbind (unlink_dependents deleting now s (filter (\<lambda>t. t_depends_on t = Some s) (tasks db)) db)
      (unlink_sources deleting now ss)"

definition unlinkTaskDependencies :: "(int list \<Rightarrow> int list) \<Rightarrow> int list \<Rightarrow> string \<Rightarrow> db \<Rightarrow> store_error + db" where
  "unlinkTaskDependencies rng deleting now db = unlink_sources deleting now (rng deleting) db"

fun unlink_sessions :: "string \<Rightarrow> int list \<Rightarrow> db \<Rightarrow> store_error + db" where
  "unlink_sessions now [] db = Inr db"
| "unlink_sessions now (s # ss) db =
    rbind (update_tasks (\<lambda>t. t_session_id t = Some s)
        (\<lambda>t. t\<lparr>t_session_id := None, t_updated_at := now, t_revision := t_revision t + 1\<rparr>) db)
      (\<lambda>(db', n). unlink_sessions now ss db')"

definition unlinkTaskSessionReferences :: "(int list \<Rightarrow> int list) \<Rightarrow> int list \<Rightarrow> string \<Rightarrow> db \<Rightarrow> store_error + db" where
  "unlinkTaskSessionReferences rng deleting now db = unlink_sessions now (rng deleting) db"

section \<open>DeleteTask\<close>

definition delete_children :: "db \<Rightarrow> int \<Rightarrow> int list" where
  "delete_children db i =
     sort (map t_id (filter (\<lambda>t. t_parent_id t = Some i \<or> t_merge_of t = Some i \<or>
       t_parent_session_id t = Some i \<or> t_parent_task_id t = Some i) (tasks db)))"

fun deleteTaskTree :: "nat \<Rightarrow> int \<Rightarrow> db \<Rightarrow> (store_error + db) option"
  and delete_trees :: "nat \<Rightarrow> int list \<Rightarrow> db \<Rightarrow> (store_error + db) option" where
  "deleteTaskTree 0 i db = None"
| "deleteTaskTree (Suc n) i db =
    (case delete_trees n (delete_children db i) db of
       None \<Rightarrow> None
     | Some (Inl e) \<Rightarrow> Some (Inl e)
     | Some (Inr db1) \<Rightarrow>
         Some (rbind (delete_task_row i db1) (\<lambda>(db2, k). if k \<noteq> 1 then Inl ErrNoRows else Inr db2)))"
| "delete_trees n [] db = Some (Inr db)"
| "delete_trees n (c # cs) db =
    (case deleteTaskTree n c db of
       None \<Rightarrow> None
     | Some (Inl e) \<Rightarrow> Some (Inl e)
     | Some (Inr db1) \<Rightarrow> delete_trees n cs db1)"

definition DeleteTask :: "nat \<Rightarrow> (int list \<Rightarrow> int list) \<Rightarrow> int \<Rightarrow> string \<Rightarrow> db \<Rightarrow> (store_error + db) option" where
  "DeleteTask n rng i now db =
     (case collectTaskTreeIDs n db [] i of
        None \<Rightarrow> None
      | Some deleting \<Rightarrow>
          if deleting = [] then Some (Inl ErrNoRows)
          else (case rbind (unlinkTaskDependencies rng deleting now db)
                   (unlinkTaskSessionReferences rng deleting now) of
              Inl e \<Rightarrow> Some (Inl e)
            | Inr db1 \<Rightarrow> deleteTaskTree n i db1))"

definition listTaskDeletionChildren :: "db \<Rightarrow> int \<Rightarrow> task list" where
  "listTaskDeletionChildren db i =
     sort_key (\<lambda>t. (t_created_at t, t_id t))
       (filter (\<lambda>t. t_parent_id t = Some i \<or> t_merge_of t = Some i \<or>
         t_parent_session_id t = Some i \<or> t_parent_task_id t = Some i) (tasks db))"

fun deletion_visit :: "nat \<Rightarrow> db \<Rightarrow> int list \<Rightarrow> task list \<Rightarrow> task \<Rightarrow> (int list \<times> task list) option"
  and deletion_visits :: "nat \<Rightarrow> db \<Rightarrow> int list \<Rightarrow> task list \<Rightarrow> task list \<Rightarrow> (int list \<times> task list) option" where
  "deletion_visit 0 db seen out tk = None"
| "deletion_visit (Suc n) db seen out tk =
    (if t_id tk \<in> set seen then Some (seen, out)
     else case deletion_visits n db (t_id tk # seen) out (listTaskDeletionChildren db (t_id tk)) of
         None \<Rightarrow> None
       | Some (seen', out') \<Rightarrow> Some (seen', out' @ [tk]))"
| "deletion_visits n db seen out [] = Some (seen, out)"
| "deletion_visits n db seen out (c # cs) =
    (case deletion_visit n db seen out c of
       None \<Rightarrow> None | Some (seen', out') \<Rightarrow> deletion_visits n db seen' out' cs)"

definition ListTaskDeletionOrder :: "nat \<Rightarrow> int \<Rightarrow> db \<Rightarrow> task list option" where
  "ListTaskDeletionOrder n rootID db =
     (case get_task rootID db of
        None \<Rightarrow> Some []
      | Some root \<Rightarrow> map_option snd (deletion_visit n db [] [] root))"

end
