(* ===== verification/Update_Laws.thy ===== *)
theory Update_Laws
  imports Store_Update
begin

text \<open>
  The laws of task_update.go: the reachability test and the cycle test decide what they are
  meant to, dependency edits keep the graph acyclic as long as the edges stay inside a project,
  and what the project move does to that.
\<close>

section \<open>dependencyReaches\<close>

lemma depends_rel_iff:
  assumes "schema_ok db"
  shows "(x, y) \<in> depends_rel db \<longleftrightarrow> (\<exists>t. get_task x db = Some t \<and> t_depends_on t = Some y)"
proof
  assume "(x, y) \<in> depends_rel db"
  then obtain t where "t \<in> set (tasks db)" "t_id t = x" "t_depends_on t = Some y"
    by (auto simp: depends_rel_def)
  with get_task_distinct [OF assms] show "\<exists>t. get_task x db = Some t \<and> t_depends_on t = Some y" by blast
next
  assume "\<exists>t. get_task x db = Some t \<and> t_depends_on t = Some y"
  then obtain t where "get_task x db = Some t" "t_depends_on t = Some y" by blast
  with get_task_mem get_task_id show "(x, y) \<in> depends_rel db"
    unfolding depends_rel_def by blast
qed

lemma rtrancl_no_step: "(\<And>y. (x, y) \<notin> R) \<Longrightarrow> (x, z) \<in> R\<^sup>* \<longleftrightarrow> z = x"
  by (auto elim: converse_rtranclE)

lemma rtrancl_one_step: "(\<And>y'. (x, y') \<in> R \<longleftrightarrow> y' = y) \<Longrightarrow> x \<noteq> z \<Longrightarrow> (x, z) \<in> R\<^sup>* \<longleftrightarrow> (y, z) \<in> R\<^sup>*"
  by (auto elim: converse_rtranclE intro: converse_rtrancl_into_rtrancl)

lemma rtrancl_closed: "(x, z) \<in> R\<^sup>* \<Longrightarrow> x \<in> S \<Longrightarrow> (\<And>a b. a \<in> S \<Longrightarrow> (a, b) \<in> R \<Longrightarrow> b \<in> S) \<Longrightarrow> z \<in> S"
  by (induction rule: rtrancl_induct) auto

lemma reaches_loop_correct:
  "schema_ok db \<Longrightarrow> \<forall>i\<in>task_ids db. 0 < i \<Longrightarrow> 0 < wanted \<Longrightarrow>
   \<forall>s\<in>set seen. s \<noteq> wanted \<and> (\<forall>y. (s, y) \<in> depends_rel db \<longrightarrow> y \<in> insert current (set seen)) \<Longrightarrow>
   reaches_loop db seen current wanted \<longleftrightarrow> (current, wanted) \<in> (depends_rel db)\<^sup>*"
proof (induction db seen current wanted rule: reaches_loop.induct)
  case (1 db seen current wanted)
  note ok = 1(2) and pos = 1(3) and wanted = 1(4) and inv = 1(5)
  note simps = reaches_loop.simps [of db seen current wanted]
  note rel = depends_rel_iff [OF ok]
  have stuck: "(current, wanted) \<in> (depends_rel db)\<^sup>* \<longleftrightarrow> wanted = current"
    if "\<And>t. get_task current db = Some t \<Longrightarrow> t_depends_on t = None"
    by (rule rtrancl_no_step) (use that in \<open>auto simp: rel\<close>)
  consider "current \<le> 0" | "0 < current" "current = wanted"
    | "0 < current" "current \<noteq> wanted" "current \<in> set seen"
    | "0 < current" "current \<noteq> wanted" "current \<notin> set seen" by linarith
  then show ?case
  proof cases
    case 1
    then have "current \<notin> task_ids db" using pos by force
    then have "get_task current db = None" by (simp add: get_task_None)
    with 1 wanted stuck simps show ?thesis by simp
  next
    case 2
    with simps show ?thesis by simp
  next
    case 3
    have "wanted \<in> set seen" if "(current, wanted) \<in> (depends_rel db)\<^sup>*"
      using that 3(3) by (rule rtrancl_closed) (use inv 3(3) in auto)
    with 3 inv simps show ?thesis by auto
  next
    case 4
    show ?thesis
    proof (cases "\<exists>t nxt. get_task current db = Some t \<and> t_depends_on t = Some nxt")
      case True
      then obtain t nxt where t: "get_task current db = Some t" "t_depends_on t = Some nxt" by blast
      have "\<forall>s\<in>set (current # seen). s \<noteq> wanted \<and>
          (\<forall>y. (s, y) \<in> depends_rel db \<longrightarrow> y \<in> insert nxt (set (current # seen)))"
        using inv 4 t by (auto simp: rel)
      with 1(1) [OF _ _ _ t ok pos wanted] 4
      have "reaches_loop db (current # seen) nxt wanted \<longleftrightarrow> (nxt, wanted) \<in> (depends_rel db)\<^sup>*"
        by simp
      moreover have "(current, wanted) \<in> (depends_rel db)\<^sup>* \<longleftrightarrow> (nxt, wanted) \<in> (depends_rel db)\<^sup>*"
        by (rule rtrancl_one_step) (use t 4 in \<open>auto simp: rel\<close>)
      ultimately show ?thesis using simps 4 t by simp
    next
      case False
      with stuck simps 4 show ?thesis by (auto split: option.splits)
    qed
  qed
qed

text \<open>
  The cycle test of a dependency edit follows the chain of predecessors to its end: it
  always returns, and it answers whether the wanted task can be reached.
\<close>

theorem dependencyReaches_correct:
  assumes "schema_ok db" and "\<forall>i\<in>task_ids db. 0 < i" and "0 < wanted"
  shows "dependencyReaches db start wanted \<longleftrightarrow> (start, wanted) \<in> (depends_rel db)\<^sup>*"
  unfolding dependencyReaches_def by (rule reaches_loop_correct [OF assms]) simp

theorem dependencyReaches_correct_witness:
  "(2, 1) \<in> (depends_rel demo_chain)\<^sup>* \<and> (1, 2) \<notin> (depends_rel demo_chain)\<^sup>*"
proof -
  have ok: "schema_ok demo_chain" by code_simp
  have pos: "\<forall>i\<in>task_ids demo_chain. 0 < i"
    by (simp add: task_ids_def demo_chain_def demo_project_db_def demo_tasks_def demo_in_def demo_task_def)
  have "dependencyReaches demo_chain 2 1" "\<not> dependencyReaches demo_chain 1 2" by code_simp+
  with dependencyReaches_correct [OF ok pos, of 1 2] dependencyReaches_correct [OF ok pos, of 2 1]
  show ?thesis by simp
qed

section \<open>The cycle test of a project\<close>

definition one_succ :: "(int \<rightharpoonup> int) \<Rightarrow> int \<Rightarrow> int list" where
  "one_succ d i = (case d i of None \<Rightarrow> [] | Some j \<Rightarrow> [j])"

lemma visit_refines:
  "visit n d (colour s) i = map_option (\<lambda>(s', v, cyc). (colour s', \<not> cyc)) (gvisit n (one_succ d) s i)"
proof (induction n arbitrary: s i)
  case 0
  then show ?case by simp
next
  case (Suc n)
  show ?case
  proof (cases "d i")
    case None
    then show ?thesis by (simp add: one_succ_def)
  next
    case (Some j)
    have "visit n d ((colour s)(i := 1)) j =
        map_option (\<lambda>(s', v, cyc). (colour s', \<not> cyc)) (gvisit n (one_succ d) (s\<lparr>colour := (colour s)(i := 1)\<rparr>) j)"
      using Suc [of "s\<lparr>colour := (colour s)(i := 1)\<rparr>" j] by (simp add: fun_upd_def)
    moreover have "one_succ d i = [j]" using Some by (simp add: one_succ_def)
    ultimately show ?thesis
      using Some by (auto split: option.splits prod.splits)
  qed
qed

lemma visit_all_refines:
  "visit_all n d (colour s) is = map_option (\<lambda>(v, cyc). \<not> cyc) (gscan n (one_succ d) s is m)"
proof (induction "is" arbitrary: s m)
  case Nil
  then show ?case by simp
next
  case (Cons i "is")
  show ?case
    using Cons by (auto simp: visit_refines split: option.splits prod.splits)
qed

lemma validate_graph_iff:
  assumes "distinct (map fst ds)" and "set order = set (map fst ds)"
  shows "visit_all (2 * length ds + 2) (map_of ds) (\<lambda>_. 0) order = Some (acyclic (set ds))"
proof -
  let ?succs = "one_succ (map_of ds)"
  let ?V = "fst ` set ds \<union> snd ` set ds"
  have edges: "edges ?succs = set ds"
    using assms(1) by (auto simp: one_succ_def edges_def split: option.splits dest: map_of_SomeD)
  have "set (?succs z) \<subseteq> snd ` set ds" for z
    by (cases "map_of ds z") (auto simp: one_succ_def dest!: map_of_SomeD intro: rev_image_eqI)
  then have V: "\<forall>z\<in>?V. set (?succs z) \<subseteq> ?V" by blast
  have "card ?V \<le> card (fst ` set ds) + card (snd ` set ds)" by (rule card_Un_le)
  also have "\<dots> \<le> length ds + length ds"
    by (intro add_mono) (metis card_length length_map list.set_map)+
  finally have card: "card ?V < 2 * length ds + 2" by simp
  have sub: "set order \<subseteq> ?V" using assms(2) by auto
  obtain v cyc where r: "gscan (2 * length ds + 2) ?succs no_marks order 0 = Some (v, cyc)"
    and cyc: "cyc \<longleftrightarrow> cyclic_from ?succs (set order)"
    using gscan_result [OF _ V sub card] by auto
  have "cyclic_from ?succs (set order) \<longleftrightarrow> \<not> acyclic (set ds)"
  proof
    assume "\<not> acyclic (set ds)"
    then obtain y where y: "(y, y) \<in> (set ds)\<^sup>+" by (auto simp: acyclic_def)
    then obtain z where "(y, z) \<in> set ds" by (meson tranclD)
    then have "y \<in> set order" by (auto simp: assms(2) intro: rev_image_eqI)
    with y show "cyclic_from ?succs (set order)" by (auto simp: cyclic_from_def edges)
  qed (auto simp: cyclic_from_def edges acyclic_def)
  with r cyc visit_all_refines [of "2 * length ds + 2" "map_of ds" no_marks order 0]
  show ?thesis by (simp add: no_marks_def)
qed

definition project_rel :: "db \<Rightarrow> int \<Rightarrow> (int \<times> int) set" where
  "project_rel db pid = {(t_id t, d) | t d. t \<in> set (tasks db) \<and> t_project_id t = Some pid \<and>
     t_merge_of t = None \<and> t_depends_on t = Some d}"

lemma set_project_deps: "set (project_deps db pid) = project_rel db pid"
  by (auto simp: project_deps_def project_rel_def project_rows_def List.map_filter_def
      intro: rev_image_eqI)

lemma distinct_project_deps: "schema_ok db \<Longrightarrow> distinct (map fst (project_deps db pid))"
proof -
  assume "schema_ok db"
  then have d: "distinct (map t_id (project_rows db pid))"
    by (auto simp: project_rows_def intro: distinct_map_filter)
  have eq: "map fst (List.map_filter (\<lambda>t. map_option (\<lambda>d. (t_id t, d)) (t_depends_on t)) ts) =
      map t_id (filter (\<lambda>t. t_depends_on t \<noteq> None) ts)" for ts
    by (induction ts) (auto simp: List.map_filter_simps)
  show ?thesis unfolding project_deps_def eq using d by (rule distinct_map_filter)
qed

lemma validate_graph_acyclic:
  assumes "schema_ok db" and "\<forall>xs. set (rng xs) = set xs"
  shows "validateProjectDependencyGraph rng db pid =
    (if acyclic (project_rel db pid) then Inr () else Inl (Err MsgReorderCycle))"
  using validate_graph_iff [OF distinct_project_deps [OF assms(1)], of "rng (map fst (project_deps db pid))" pid]
  by (simp add: assms(2) validateProjectDependencyGraph_def Let_def set_project_deps)

text \<open>
  C5. The cycle test of a project is exact, whatever order Go ranges over the map in: it
  accepts precisely the projects whose own dependency edges form no cycle.
\<close>

theorem validateProjectDependencyGraph_exact:
  assumes "schema_ok db" and "\<forall>xs. set (rng xs) = set xs"
  shows "validateProjectDependencyGraph rng db pid = Inr () \<longleftrightarrow> acyclic (project_rel db pid)"
  by (simp add: validate_graph_acyclic [OF assms])

theorem validateProjectDependencyGraph_exact_witness:
  "acyclic (project_rel demo_chain 1)"
proof -
  have ok: "schema_ok demo_chain" by code_simp
  have "\<forall>xs :: int list. set (rev xs) = set xs" by simp
  moreover have "validateProjectDependencyGraph rev demo_chain 1 = Inr ()" by code_simp
  ultimately show ?thesis using validateProjectDependencyGraph_exact [OF ok, of rev 1] by blast
qed

section \<open>Dependency edits\<close>

lemma set_task_col_project: "set_task_col c v t = Some t' \<Longrightarrow> c \<noteq> ColProjectId \<Longrightarrow> t_project_id t' = t_project_id t"
  unfolding set_task_col_def col_defs by (cases c) (auto split: any.splits)

lemma set_task_col_depends: "set_task_col c v t = Some t' \<Longrightarrow> c \<noteq> ColDependsOn \<Longrightarrow> t_depends_on t' = t_depends_on t"
  unfolding set_task_col_def col_defs by (cases c) (auto split: any.splits)

lemma set_cols_keep:
  assumes "\<And>c v t t'. set_task_col c v t = Some t' \<Longrightarrow> c \<noteq> C \<Longrightarrow> g t' = g t"
  shows "set_cols set_task_col fs t = Some t' \<Longrightarrow> map_of fs C = None \<Longrightarrow> g t' = g t"
proof (induction fs arbitrary: t)
  case (Cons x fs)
  obtain c v where x: "x = (c, v)" by (cases x)
  from Cons.prems x obtain u where u: "set_task_col c v t = Some u" "set_cols set_task_col fs u = Some t'"
    and c: "c \<noteq> C" "map_of fs C = None"
    by (auto split: option.splits if_splits)
  from Cons.IH [OF u(2) c(2)] assms [OF u(1) c(1)] show ?case by simp
qed simp

lemma edit_task_project:
  "edit_task fs now t = Some t' \<Longrightarrow> map_of fs ColProjectId = None \<Longrightarrow> t_project_id t' = t_project_id t"
  using set_cols_keep [of ColProjectId t_project_id, OF set_task_col_project] by (auto simp: edit_task_def)

lemma edit_task_depends:
  "edit_task fs now t = Some t' \<Longrightarrow> map_of fs ColDependsOn = None \<Longrightarrow> t_depends_on t' = t_depends_on t"
  using set_cols_keep [of ColDependsOn t_depends_on, OF set_task_col_depends] by (auto simp: edit_task_def)

lemma map_of_filter_keys: "P k \<Longrightarrow> map_of (filter (\<lambda>(c, v). P c) fs) k = map_of fs k"
  by (induction fs) auto

lemma edit_with_dependency_frame:
  assumes "edit_with_dependency fs now mode target t = Some t'"
  shows "t_id t' = t_id t" and "t_merge_of t' = t_merge_of t" and "t_depends_on t' = target"
    and "t_dependency_mode t' = mode" and "t_revision t' = t_revision t + 1"
    and "map_of fs ColProjectId = None \<Longrightarrow> t_project_id t' = t_project_id t"
  using assms edit_task_frame edit_task_project [of "filter (\<lambda>(c, v). c \<noteq> ColDependencyMode \<and> c \<noteq> ColDependsOn) fs" now t]
    map_of_filter_keys [of "\<lambda>c. c \<noteq> ColDependencyMode \<and> c \<noteq> ColDependsOn" ColProjectId fs]
  by (auto simp: edit_with_dependency_def)

lemma one_row_edit:
  assumes good: "schema_ok db" and good': "schema_ok (db\<lparr>tasks := ts\<rparr>)"
    and edit: "edit_rows (\<lambda>u. t_id u = i \<and> t_revision u = e) f (tasks db) = Some ts"
    and f: "\<And>r r'. f r = Some r' \<Longrightarrow> t_id r' = t_id r"
    and one: "affected (\<lambda>u. t_id u = i \<and> t_revision u = e) (tasks db) = 1"
  shows "\<exists>t t'. get_task i db = Some t \<and> t_revision t = e \<and> f t = Some t' \<and>
    get_task i (db\<lparr>tasks := ts\<rparr>) = Some t' \<and> (\<forall>j. j \<noteq> i \<longrightarrow> get_task j (db\<lparr>tasks := ts\<rparr>) = get_task j db)"
proof -
  let ?p = "\<lambda>u. t_id u = i \<and> t_revision u = e"
  obtain t where t: "get_task i db = Some t" "t_revision t = e"
    using one unfolding affected_task [OF good] by (auto split: option.splits if_splits)
  have sel': "get_task j (db\<lparr>tasks := ts\<rparr>) = map_option (\<lambda>r. if ?p r then the (f r) else r) (get_task j db)" for j
    unfolding get_task_def using edit_rows_sel(1) [OF edit f] by simp
  have pt: "t \<in> set (tasks db)" "?p t" using t get_task_mem get_task_id by auto
  have "\<exists>t'. f t = Some t'" by (rule edit_rows_sel(2) [OF edit f pt])
  then obtain t' where "f t = Some t'" by blast
  moreover have "get_task j (db\<lparr>tasks := ts\<rparr>) = get_task j db" if "j \<noteq> i" for j
    using sel' [of j] that by (cases "get_task j db") (auto dest: get_task_id)
  ultimately show ?thesis using sel' [of i] t pt by auto
qed

lemma store_dependency_edit_effect:
  assumes good: "schema_ok db" and run: "store_dependency_edit rng i e fs now pid mode target db = Inr db'"
  shows "schema_ok db' \<and> (0 < pid \<longrightarrow> validateProjectDependencyGraph rng db' pid = Inr ()) \<and>
    (\<exists>t t'. get_task i db = Some t \<and> t_revision t = e \<and> edit_with_dependency fs now mode target t = Some t' \<and>
      get_task i db' = Some t' \<and> (\<forall>j. j \<noteq> i \<longrightarrow> get_task j db' = get_task j db))"
proof -
  let ?p = "\<lambda>u. t_id u = i \<and> t_revision u = e"
  from run obtain ts where
    edit: "edit_rows ?p (edit_with_dependency fs now mode target) (tasks db) = Some ts"
    and ok: "schema_ok (db\<lparr>tasks := ts\<rparr>)" and one: "affected ?p (tasks db) = 1"
    and db': "db' = db\<lparr>tasks := ts\<rparr>"
    and graph: "0 < pid \<longrightarrow> validateProjectDependencyGraph rng db' pid = Inr ()"
    by (auto simp: store_dependency_edit_def Let_def rbind_eq_Inr exec_stmt_Inr split: if_splits option.splits)
  have f: "\<And>r r'. edit_with_dependency fs now mode target r = Some r' \<Longrightarrow> t_id r' = t_id r"
    by (rule edit_with_dependency_frame(1))
  from one_row_edit [OF good ok edit f one] db' graph ok show ?thesis by auto
qed

text \<open>The shape of every accepted edit that names a dependency column.\<close>

lemma UpdateTaskAtRevision_cases:
  assumes good: "schema_ok db" and run: "UpdateTaskAtRevision rng i e fs now db = Inr db'"
    and dep: "map_of fs ColDependencyMode \<noteq> None \<or> map_of fs ColDependsOn \<noteq> None"
  shows "\<exists>t t' pid mode target target0. schema_ok db' \<and> get_task i db = Some t \<and> t_revision t = e \<and>
    t_merge_of t = None \<and> patched_project fs t = Inr pid \<and> patched_mode fs t = Inr mode \<and>
    resolved_target db i (map_of fs ColDependsOn \<noteq> None) pid mode target0 = Inr target \<and>
    edit_with_dependency fs now mode target t = Some t' \<and> get_task i db' = Some t' \<and>
    (\<forall>j. j \<noteq> i \<longrightarrow> get_task j db' = get_task j db) \<and>
    (0 < pid \<longrightarrow> validateProjectDependencyGraph rng db' pid = Inr ())"
proof -
  from run dep obtain t pid mode target0 target where
    t: "get_task i db = Some t" "t_revision t = e" "t_merge_of t = None"
    and parse: "patched_project fs t = Inr pid" "patched_mode fs t = Inr mode"
      "resolved_target db i (map_of fs ColDependsOn \<noteq> None) pid mode target0 = Inr target"
    and store: "store_dependency_edit rng i e fs now pid mode target db = Inr db'"
    unfolding UpdateTaskAtRevision_def Let_def
    by (auto simp: rbind_eq_Inr split: if_splits option.splits)
  from store_dependency_edit_effect [OF good store] t parse show ?thesis by fastforce
qed

section \<open>Edits keep the graph acyclic\<close>

text \<open>Every edge joins two implementation tasks of one project.\<close>

definition project_local :: "db \<Rightarrow> bool" where
  "project_local db \<longleftrightarrow> (\<forall>x y. (x, y) \<in> depends_rel db \<longrightarrow>
     (\<exists>t u p. get_task x db = Some t \<and> get_task y db = Some u \<and> t_merge_of t = None \<and>
        t_merge_of u = None \<and> t_project_id t = Some p \<and> t_project_id u = Some p))"

lemma trancl_Un_disjoint:
  assumes "Field A \<inter> Field B = {}" and "(x, y) \<in> (A \<union> B)\<^sup>+"
  shows "(x, y) \<in> A\<^sup>+ \<or> (x, y) \<in> B\<^sup>+"
  using assms(2)
proof induction
  case (base y)
  then show ?case by blast
next
  case (step y z)
  have dom: "y \<in> Field A" if "(x, y) \<in> A\<^sup>+" using that by (metis FieldI2 tranclD2)
  have ran: "y \<in> Field B" if "(x, y) \<in> B\<^sup>+" using that by (metis FieldI2 tranclD2)
  from step.hyps(2) have "(y, z) \<in> A \<and> y \<in> Field A \<or> (y, z) \<in> B \<and> y \<in> Field B" by (auto simp: Field_def)
  with step.IH dom ran assms(1) show ?case by (blast intro: trancl_into_trancl)
qed

lemma acyclic_Un_disjoint: "Field A \<inter> Field B = {} \<Longrightarrow> acyclic A \<Longrightarrow> acyclic B \<Longrightarrow> acyclic (A \<union> B)"
  by (auto simp: acyclic_def dest: trancl_Un_disjoint)

text \<open>One row gets a new target: the edges afterwards.\<close>

lemma depends_rel_retarget:
  assumes "schema_ok db" and "schema_ok db'" and "get_task i db' = Some t'"
    and "\<forall>j. j \<noteq> i \<longrightarrow> get_task j db' = get_task j db"
  shows "depends_rel db' = {(x, y) \<in> depends_rel db. x \<noteq> i} \<union> {(i, d) | d. t_depends_on t' = Some d}"
proof (rule set_eqI)
  fix e :: "int \<times> int"
  obtain x y where e: "e = (x, y)" by (cases e)
  show "e \<in> depends_rel db' \<longleftrightarrow> e \<in> {(x, y) \<in> depends_rel db. x \<noteq> i} \<union> {(i, d) | d. t_depends_on t' = Some d}"
    using assms(3,4) by (cases "x = i") (auto simp: e depends_rel_iff [OF assms(1)] depends_rel_iff [OF assms(2)])
qed

lemma previous_in_mem: "previous_in i p cs = Some d \<Longrightarrow> p = Some d \<or> d \<in> set cs"
  by (induction cs arbitrary: p) (auto split: if_splits)

lemma previousProjectTask_target:
  assumes "schema_ok db" and "previousProjectTask db pid i = Some d"
  shows "\<exists>u. get_task d db = Some u \<and> t_project_id u = Some pid \<and> t_merge_of u = None"
proof -
  from previous_in_mem [OF assms(2) [unfolded previousProjectTask_def]]
  obtain u where "u \<in> set (tasks db)" "t_id u = d" "t_project_id u = Some pid" "t_merge_of u = None"
    by (auto simp: chain_tasks_def)
  with get_task_distinct [OF assms(1)] show ?thesis by blast
qed

lemma resolved_target_ok:
  assumes "schema_ok db" and "validDependencyMode mode"
    and "resolved_target db i ct pid mode target0 = Inr (Some d)"
  shows "pid \<noteq> 0 \<and> (\<exists>u. get_task d db = Some u \<and> t_project_id u = Some pid \<and> t_merge_of u = None)"
  using assms previousProjectTask_target [OF assms(1), of pid i d]
  by (auto simp: resolved_target_def validDependencyMode_def validateDependencyTarget_ok
      split: dependency_mode.splits if_splits option.splits sum.splits store_error.splits)

lemma resolved_strong:
  "resolved_target db i ct pid DependencyStrong target0 = Inr target \<Longrightarrow>
   \<exists>d. target = Some d \<and> \<not> dependencyReaches db d i"
  by (auto simp: resolved_target_def split: if_splits option.splits sum.splits store_error.splits)

lemma patched_mode_valid:
  "patched_mode fs t = Inr mode \<Longrightarrow> validDependencyMode (t_dependency_mode t) \<Longrightarrow> validDependencyMode mode"
  by (auto simp: patched_mode_def validDependencyMode_def split: option.splits any.splits if_splits)

lemma project_local_split:
  assumes ok: "schema_ok db" and loc: "project_local db"
  shows "depends_rel db = project_rel db pid \<union> (depends_rel db - project_rel db pid)"
    and "Field (project_rel db pid) \<inter> Field (depends_rel db - project_rel db pid) = {}"
proof -
  have sub: "project_rel db pid \<subseteq> depends_rel db" by (auto simp: project_rel_def depends_rel_def)
  then show "depends_rel db = project_rel db pid \<union> (depends_rel db - project_rel db pid)" by blast
  have proj: "(x, y) \<in> project_rel db pid \<longleftrightarrow> (x, y) \<in> depends_rel db \<and> map_option t_project_id (get_task x db) = Some (Some pid)" for x y
  proof
    assume "(x, y) \<in> project_rel db pid"
    then obtain t where "t \<in> set (tasks db)" "t_id t = x" "t_project_id t = Some pid" "(x, y) \<in> depends_rel db"
      by (auto simp: project_rel_def depends_rel_def)
    with get_task_distinct [OF ok] show "(x, y) \<in> depends_rel db \<and> map_option t_project_id (get_task x db) = Some (Some pid)"
      by auto
  next
    assume r: "(x, y) \<in> depends_rel db \<and> map_option t_project_id (get_task x db) = Some (Some pid)"
    then obtain t where t: "get_task x db = Some t" "t_depends_on t = Some y" "t_project_id t = Some pid"
      by (auto simp: depends_rel_iff [OF ok])
    moreover have "t_merge_of t = None" using loc r t(1) unfolding project_local_def by fastforce
    ultimately show "(x, y) \<in> project_rel db pid"
      using get_task_mem [OF t(1)] get_task_id [OF t(1)] unfolding project_rel_def by blast
  qed
  have same: "map_option t_project_id (get_task x db) = map_option t_project_id (get_task y db)"
    if "(x, y) \<in> depends_rel db" for x y
    using loc that unfolding project_local_def by fastforce
  have "map_option t_project_id (get_task x db) = Some (Some pid)" if x: "x \<in> Field (project_rel db pid)" for x
  proof -
    from x obtain y where "(x, y) \<in> project_rel db pid \<or> (y, x) \<in> project_rel db pid" by (auto simp: Field_def)
    then show ?thesis using proj same by (metis Diff_iff)
  qed
  moreover have "map_option t_project_id (get_task x db) \<noteq> Some (Some pid)"
    if x: "x \<in> Field (depends_rel db - project_rel db pid)" for x
  proof -
    from x obtain y where "(x, y) \<in> depends_rel db - project_rel db pid \<or> (y, x) \<in> depends_rel db - project_rel db pid"
      by (auto simp: Field_def)
    then show ?thesis using proj same by (metis Diff_iff)
  qed
  ultimately show "Field (project_rel db pid) \<inter> Field (depends_rel db - project_rel db pid) = {}" by blast
qed

lemma acyclic_retarget:
  assumes "acyclic R" and "(d, i) \<notin> R\<^sup>*"
  shows "acyclic ({(x, y) \<in> R. x \<noteq> i} \<union> {(i, d)})"
proof -
  have "{(x, y) \<in> R. x \<noteq> i} \<subseteq> R" by auto
  then have "acyclic {(x, y) \<in> R. x \<noteq> i}" "(d, i) \<notin> {(x, y) \<in> R. x \<noteq> i}\<^sup>*"
    using assms acyclic_subset rtrancl_mono by blast+
  then show ?thesis by (simp add: acyclic_insert)
qed

lemma set_cols_project:
  assumes "set_cols set_task_col fs t = Some t'" and "distinct (map fst fs)"
  shows "t_project_id t' = (case map_of fs ColProjectId of
     None \<Rightarrow> t_project_id t | Some (AInt v) \<Rightarrow> Some v | Some _ \<Rightarrow> None)"
  using assms
proof (induction fs arbitrary: t)
  case (Cons x fs)
  obtain c v where x: "x = (c, v)" by (cases x)
  from Cons.prems(1) x obtain u where u: "set_task_col c v t = Some u" "set_cols set_task_col fs u = Some t'"
    by (auto split: option.splits)
  note IH = Cons.IH [OF u(2)]
  show ?case
  proof (cases "c = ColProjectId")
    case True
    then have "map_of fs ColProjectId = None" using Cons.prems(2) x by (auto simp: map_of_eq_None_iff)
    then have "t_project_id t' = t_project_id u" using IH Cons.prems(2) by simp
    moreover have "t_project_id u = (case v of AInt k \<Rightarrow> Some k | _ \<Rightarrow> None)"
      using u(1) True by (auto simp: set_task_col_def null_int_col_def split: any.splits)
    ultimately show ?thesis using x True by (cases v) auto
  next
    case False
    then show ?thesis using IH Cons.prems(2) set_task_col_project [OF u(1)] x
      by (auto split: option.splits any.splits)
  qed
qed simp

lemma patched_project_row:
  assumes "edit_with_dependency fs now mode target t = Some t'" and "distinct (map fst fs)"
    and "patched_project fs t = Inr pid" and "t_project_id t \<noteq> Some 0"
  shows "t_project_id t' = (if pid = 0 then None else Some pid)"
    and "map_of fs ColProjectId \<noteq> None \<Longrightarrow> 0 \<le> pid"
proof -
  let ?fs = "filter (\<lambda>(c, v). c \<noteq> ColDependencyMode \<and> c \<noteq> ColDependsOn) fs"
  obtain u where u: "set_cols set_task_col ?fs t = Some u" "t_project_id t' = t_project_id u"
    using assms(1) by (auto simp: edit_with_dependency_def edit_task_def)
  have "distinct (map fst ?fs)" using assms(2) by (rule distinct_map_filter)
  from set_cols_project [OF u(1) this] assms(3,4) u(2)
  show "t_project_id t' = (if pid = 0 then None else Some pid)"
    using map_of_filter_keys [of "\<lambda>c. c \<noteq> ColDependencyMode \<and> c \<noteq> ColDependsOn" ColProjectId fs]
    by (auto simp: patched_project_def split: option.splits any.splits if_splits)
  show "map_of fs ColProjectId \<noteq> None \<Longrightarrow> 0 \<le> pid"
    using assms(3) by (auto simp: patched_project_def split: option.splits any.splits if_splits)
qed

lemma dependency_edit_keeps:
  assumes ok: "schema_ok db" and pos: "\<forall>i\<in>task_ids db \<union> project_ids db. 0 < i"
    and acyc: "acyclic (depends_rel db)" and loc: "project_local db"
    and modes: "\<forall>t\<in>set (tasks db). validDependencyMode (t_dependency_mode t)"
    and rng: "\<forall>xs. set (rng xs) = set xs" and keys: "distinct (map fst fs)"
    and dep: "map_of fs ColDependencyMode \<noteq> None \<or> map_of fs ColDependsOn \<noteq> None"
    and move: "map_of fs ColProjectId \<noteq> None \<longrightarrow> (\<forall>x. (x, i) \<notin> depends_rel db)"
    and run: "UpdateTaskAtRevision rng i e fs now db = Inr db'"
  shows "schema_ok db' \<and> acyclic (depends_rel db') \<and> project_local db'"
proof -
  from UpdateTaskAtRevision_cases [OF ok run dep] obtain t t' pid mode target target0 where
    ok': "schema_ok db'" and t: "get_task i db = Some t" "t_merge_of t = None"
    and pid: "patched_project fs t = Inr pid" and mode: "patched_mode fs t = Inr mode"
    and target: "resolved_target db i (map_of fs ColDependsOn \<noteq> None) pid mode target0 = Inr target"
    and edit: "edit_with_dependency fs now mode target t = Some t'" and t': "get_task i db' = Some t'"
    and frame: "\<forall>j. j \<noteq> i \<longrightarrow> get_task j db' = get_task j db"
    and graph: "0 < pid \<longrightarrow> validateProjectDependencyGraph rng db' pid = Inr ()" by blast
  note new = edit_with_dependency_frame [OF edit]
  have "validDependencyMode (t_dependency_mode t)" using modes get_task_mem [OF t(1)] by blast
  with mode have vmode: "validDependencyMode mode" by (rule patched_mode_valid)
  have i: "0 < i" using pos t(1) get_task_None [of i db] by fastforce
  have old_pos: "0 < p" if "t_project_id t = Some p" for p
    using schema_ok_row [OF ok get_task_mem [OF t(1)]] that pos by (auto simp: task_refs_ok_def)
  then have t0: "t_project_id t \<noteq> Some 0" by auto
  note row = patched_project_row [OF edit keys pid t0]
  have pid0: "0 \<le> pid"
    using row(2) pid old_pos by (cases "map_of fs ColProjectId")
      (force simp: patched_project_def split: option.splits)+
  note rel' = depends_rel_retarget [OF ok ok' t' frame, unfolded new(3)]
  have tgt: "0 < pid \<and> t_project_id t' = Some pid \<and>
      (\<exists>u. get_task d db = Some u \<and> t_project_id u = Some pid \<and> t_merge_of u = None)" if "target = Some d" for d
    using resolved_target_ok [OF ok vmode target [unfolded that]] row(1) pid0 by auto
  have loc': "project_local db'"
    unfolding project_local_def
  proof (intro allI impI)
    fix x y assume r: "(x, y) \<in> depends_rel db'"
    show "\<exists>a b p. get_task x db' = Some a \<and> get_task y db' = Some b \<and> t_merge_of a = None \<and>
        t_merge_of b = None \<and> t_project_id a = Some p \<and> t_project_id b = Some p"
    proof (cases "x = i")
      case True
      with r rel' have y: "target = Some y" by auto
      from tgt [OF y] t' t(2) new(2) True frame show ?thesis
        by (cases "y = i") auto
    next
      case False
      with r rel' have r': "(x, y) \<in> depends_rel db" by auto
      with loc obtain a b p where ab: "get_task x db = Some a" "get_task y db = Some b"
        "t_merge_of a = None" "t_merge_of b = None" "t_project_id a = Some p" "t_project_id b = Some p"
        unfolding project_local_def by blast
      show ?thesis
      proof (cases "y = i")
        case True
        with move r' have "map_of fs ColProjectId = None" by blast
        with new(2,6) ab t True frame t' False show ?thesis by auto
      next
        case y: False
        with False frame ab show ?thesis by auto
      qed
    qed
  qed
  have "acyclic (depends_rel db')"
  proof (cases target)
    case None
    then show ?thesis unfolding rel' by (intro acyclic_subset [OF acyc]) auto
  next
    case (Some d)
    show ?thesis
    proof (cases "mode = DependencyStrong")
      case True
      with resolved_strong target Some have "\<not> dependencyReaches db d i" by blast
      then have "(d, i) \<notin> (depends_rel db)\<^sup>*"
        unfolding dependencyReaches_def using reaches_loop_correct [OF ok _ i, of "[]" d] pos by simp
      from acyclic_retarget [OF acyc this] Some show ?thesis unfolding rel' by simp
    next
      case False
      then have A: "acyclic (project_rel db' pid)"
        using graph tgt [OF Some] validate_graph_acyclic [OF ok' rng, of pid] by (auto split: if_splits)
      have "(i, d) \<in> project_rel db' pid"
        using t' get_task_mem [OF t'] get_task_id [OF t'] tgt [OF Some] new(2,3) t(2) Some
        unfolding project_rel_def by auto
      then have "depends_rel db' - project_rel db' pid \<subseteq> depends_rel db"
        using Some unfolding rel' by auto
      then have "acyclic (depends_rel db' - project_rel db' pid)" by (rule acyclic_subset [OF acyc])
      with A show ?thesis
        using project_local_split [OF ok' loc', of pid] acyclic_Un_disjoint by metis
    qed
  qed
  with ok' loc' show ?thesis by blast
qed

text \<open>
  Dependency edits keep the dependency graph acyclic and its edges inside the projects, in
  every mode: for the strong mode by the reachability test, for the weak one by the test of the
  project's graph after the edit. An edit that also moves the task to another project may do so
  only for a task nobody depends on, which is what the server's authorisation of a patch checks.
\<close>

theorem UpdateTaskAtRevision_keeps_acyclic:
  assumes ok: "schema_ok db" and pos: "\<forall>i\<in>task_ids db \<union> project_ids db. 0 < i"
    and acyc: "acyclic (depends_rel db)" and loc: "project_local db"
    and modes: "\<forall>t\<in>set (tasks db). validDependencyMode (t_dependency_mode t)"
    and rng: "\<forall>xs. set (rng xs) = set xs" and keys: "distinct (map fst fs)"
    and dep: "map_of fs ColDependencyMode \<noteq> None \<or> map_of fs ColDependsOn \<noteq> None"
    and move: "map_of fs ColProjectId \<noteq> None \<longrightarrow> (\<forall>x. (x, i) \<notin> depends_rel db)"
    and run: "UpdateTaskAtRevision rng i e fs now db = Inr db'"
  shows "schema_ok db' \<and> acyclic (depends_rel db') \<and> project_local db'"
  by (rule dependency_edit_keeps [OF assms])

lemma depends_rel_list:
  "depends_rel db = set (List.map_filter (\<lambda>t. map_option (\<lambda>d. (t_id t, d)) (t_depends_on t)) (tasks db))"
  by (auto simp: depends_rel_def List.map_filter_def intro: rev_image_eqI)

lemmas demo_chain_defs = demo_chain_def demo_project_db_def demo_tasks_def demo_in_def demo_task_def
  demo_project_def

lemma demo_chain_ok: "schema_ok demo_chain"
  by code_simp

lemma demo_chain_pos: "\<forall>i\<in>task_ids demo_chain \<union> project_ids demo_chain. 0 < i"
  by (simp add: task_ids_def project_ids_def demo_chain_defs)

lemma demo_chain_rel: "depends_rel demo_chain = {(2, 1)}"
  by (simp add: depends_rel_list List.map_filter_simps demo_chain_defs)

theorem UpdateTaskAtRevision_keeps_acyclic_witness:
  "\<exists>d. UpdateTaskAtRevision rev 2 1 [(ColDependencyMode, AStr ''weak'')] ''t1'' demo_chain = Inr d \<and>
     acyclic (depends_rel d) \<and> project_local d"
proof -
  let ?fs = "[(ColDependencyMode, AStr ''weak'')]"
  have "case UpdateTaskAtRevision rev 2 1 ?fs ''t1'' demo_chain of Inl _ \<Rightarrow> False | Inr d \<Rightarrow> True"
    by code_simp
  then obtain d where d: "UpdateTaskAtRevision rev 2 1 ?fs ''t1'' demo_chain = Inr d"
    by (auto split: sum.splits)
  have acyc: "acyclic (depends_rel demo_chain)"
    unfolding demo_chain_rel by (simp only: acyclic_insert) (simp add: acyclic_def)
  have loc: "project_local demo_chain"
    unfolding project_local_def demo_chain_rel
    by (simp add: demo_chain_def demo_project_db_def demo_tasks_def demo_in_def demo_task_def get_task_def)
  have modes: "\<forall>t\<in>set (tasks demo_chain). validDependencyMode (t_dependency_mode t)"
    by (simp add: validDependencyMode_def demo_chain_def demo_project_db_def demo_tasks_def demo_in_def demo_task_def)
  from UpdateTaskAtRevision_keeps_acyclic [OF demo_chain_ok demo_chain_pos acyc loc modes _ _ _ _ d] d
  show ?thesis by simp
qed

end
