(* ===== verification/Reorder_Laws.thy ===== *)
theory Reorder_Laws
  imports Update_Laws
begin

text \<open>
  What \<^verbatim>\<open>ReorderProjectTasks\<close> does: the statements of its two loops collapse into one map
  over the rows each, the queued tasks share out the slots they had, the weak chain is relinked to
  the new order, and everything else stays.
\<close>

section \<open>The loops as maps over the rows\<close>

definition movable :: "int \<Rightarrow> task \<Rightarrow> bool" where
  "movable pid t \<longleftrightarrow> t_project_id t = Some pid \<and> t_merge_of t = None \<and> t_status t = StatusQueued"

definition reslot :: "int \<Rightarrow> string \<Rightarrow> (int \<rightharpoonup> int) \<Rightarrow> task \<Rightarrow> task" where
  "reslot pid now slot t =
     (case slot (t_id t) of
        None \<Rightarrow> t
      | Some pos \<Rightarrow>
          if movable pid t
          then t\<lparr>t_sort_order := pos, t_updated_at := now, t_revision := t_revision t + 1\<rparr> else t)"

definition relink :: "int \<Rightarrow> string \<Rightarrow> (int \<rightharpoonup> int option) \<Rightarrow> task \<Rightarrow> task" where
  "relink pid now pred t =
     (case pred (t_id t) of
        None \<Rightarrow> t
      | Some p \<Rightarrow>
          if movable pid t \<and> t_dependency_mode t = DependencyWeak
          then t\<lparr>t_depends_on := p, t_updated_at := now, t_revision := t_revision t + 1\<rparr> else t)"

lemma reslot_sel [simp]:
  "t_id (reslot pid now slot t) = t_id t" "t_project_id (reslot pid now slot t) = t_project_id t"
  "t_merge_of (reslot pid now slot t) = t_merge_of t" "t_status (reslot pid now slot t) = t_status t"
  "t_cron (reslot pid now slot t) = t_cron t" "t_created_at (reslot pid now slot t) = t_created_at t"
  "t_dependency_mode (reslot pid now slot t) = t_dependency_mode t"
  "t_depends_on (reslot pid now slot t) = t_depends_on t" "movable q (reslot pid now slot t) = movable q t"
  by (simp_all add: reslot_def movable_def split: option.split)

lemma relink_sel [simp]:
  "t_id (relink pid now pred t) = t_id t" "t_project_id (relink pid now pred t) = t_project_id t"
  "t_merge_of (relink pid now pred t) = t_merge_of t" "t_status (relink pid now pred t) = t_status t"
  "t_cron (relink pid now pred t) = t_cron t" "t_created_at (relink pid now pred t) = t_created_at t"
  "t_dependency_mode (relink pid now pred t) = t_dependency_mode t"
  "t_sort_order (relink pid now pred t) = t_sort_order t" "movable q (relink pid now pred t) = movable q t"
  by (simp_all add: relink_def movable_def split: option.split)

lemma plain_slot: "plain_update (\<lambda>t. t\<lparr>t_sort_order := pos, t_updated_at := now, t_revision := t_revision t + 1\<rparr>)"
  by (rule plain_updateI) (simp_all add: shape_ok_def task_refs_ok_def)

text \<open>The loop succeeds: no statement of it can violate the schema.\<close>

lemma reorder_loop_map:
  assumes "schema_ok db" and "distinct (map fst xs)"
  shows "reorder_loop pid now xs db = Inr (db\<lparr>tasks := map (reslot pid now (map_of xs)) (tasks db)\<rparr>) \<and>
    schema_ok (db\<lparr>tasks := map (reslot pid now (map_of xs)) (tasks db)\<rparr>)"
  using assms
proof (induction xs arbitrary: db)
  case Nil
  have "reslot pid now (map_of []) = (\<lambda>t. t)" by (simp add: reslot_def fun_eq_iff)
  with Nil show ?case by simp
next
  case (Cons x xs)
  obtain i pos where x: "x = (i, pos)" by (cases x)
  let ?p = "\<lambda>t. t_id t = i \<and> t_project_id t = Some pid \<and> t_merge_of t = None \<and> t_status t = StatusQueued"
  let ?f = "\<lambda>t. t\<lparr>t_sort_order := pos, t_updated_at := now, t_revision := t_revision t + 1\<rparr>"
  let ?db1 = "db\<lparr>tasks := upd_where ?p ?f (tasks db)\<rparr>"
  have ok1: "schema_ok ?db1" by (rule schema_ok_plain [OF Cons.prems(1) plain_slot])
  have step: "update_tasks ?p ?f db = Inr (?db1, affected ?p (tasks db))"
    by (rule update_tasks_plain [OF Cons.prems(1) plain_slot])
  have dist: "distinct (map fst xs)" using Cons.prems(2) by simp
  have "map_of xs i = None" using Cons.prems(2) x by (simp add: map_of_eq_None_iff)
  then have one: "reslot pid now (map_of xs) (if ?p t then ?f t else t) = reslot pid now (map_of (x # xs)) t" for t
    by (auto simp: reslot_def x movable_def split: option.split)
  have comp: "map (reslot pid now (map_of xs)) (upd_where ?p ?f (tasks db)) =
      map (reslot pid now (map_of (x # xs))) (tasks db)"
    unfolding upd_where_def by (simp add: one)
  have upd: "?db1\<lparr>tasks := map (reslot pid now (map_of xs)) (tasks ?db1)\<rparr> =
      db\<lparr>tasks := map (reslot pid now (map_of (x # xs))) (tasks db)\<rparr>"
    using comp by (simp del: map_of.simps)
  from Cons.IH [OF ok1 dist] show ?case
    unfolding upd by (simp add: x step del: map_of.simps)
qed

text \<open>The predecessors along the order.\<close>

definition preds :: "int option \<Rightarrow> int list \<Rightarrow> (int \<times> int option) list" where
  "preds p ids = zip ids (p # map Some ids)"

lemma preds_simps [simp]: "preds p [] = []" "preds p (i # is) = (i, p) # preds (Some i) is"
  by (simp_all add: preds_def)

lemma map_fst_preds [simp]: "map fst (preds p ids) = ids"
  by (induction ids arbitrary: p) auto

lemma fst_preds [simp]: "fst ` set (preds p ids) = set ids"
  by (metis map_fst_preds list.set_map)

lemma map_of_preds: "i \<in> set ids \<Longrightarrow> map_of (preds p ids) i = Some (previous_in i p ids)"
  by (induction ids arbitrary: p) auto

lemma schema_ok_rebuild:
  assumes ok: "schema_ok db" and p: "case p of None \<Rightarrow> True | Some d \<Rightarrow> d \<in> task_ids db"
  shows "schema_ok (db\<lparr>tasks := upd_where q (\<lambda>u. u\<lparr>t_depends_on := p, t_updated_at := now, t_revision := t_revision u + 1\<rparr>) (tasks db)\<rparr>)"
proof (rule schema_ok_upd [OF ok])
  show "keeps_keys (\<lambda>u. u\<lparr>t_depends_on := p, t_updated_at := now, t_revision := t_revision u + 1\<rparr>)"
    by (rule keeps_keysI) simp_all
  fix t assume "t \<in> set (tasks db)"
  from schema_ok_row [OF ok this] p
  show "shape_ok (t\<lparr>t_depends_on := p, t_updated_at := now, t_revision := t_revision t + 1\<rparr>) \<and>
      task_refs_ok db (t\<lparr>t_depends_on := p, t_updated_at := now, t_revision := t_revision t + 1\<rparr>)"
    by (auto simp: shape_ok_def task_refs_ok_def split: option.splits)
qed

lemma rebuild_loop_map:
  assumes "schema_ok db" and "distinct (map t_id ts)" and "set (map t_id ts) \<subseteq> task_ids db"
    and "case p of None \<Rightarrow> True | Some d \<Rightarrow> d \<in> task_ids db"
    and "\<forall>t\<in>set ts. \<forall>u. get_task (t_id t) db = Some u \<longrightarrow>
       t_status u = t_status t \<and> t_dependency_mode u = t_dependency_mode t"
  shows "rebuild_loop pid now p ts db = Inr (db\<lparr>tasks := map (relink pid now (map_of (preds p (map t_id ts)))) (tasks db)\<rparr>) \<and>
    schema_ok (db\<lparr>tasks := map (relink pid now (map_of (preds p (map t_id ts)))) (tasks db)\<rparr>)"
  using assms
proof (induction ts arbitrary: db p)
  case Nil
  have "relink pid now (map_of (preds p [])) = (\<lambda>t. t)" by (simp add: relink_def fun_eq_iff)
  with Nil show ?case by simp
next
  case (Cons t ts)
  let ?i = "t_id t"
  have dist: "distinct (map t_id ts)" and none: "map_of (preds (Some ?i) (map t_id ts)) ?i = None"
    using Cons.prems(2) by (simp_all add: map_of_eq_None_iff fst_preds)
  have live: "t_status u = t_status t \<and> t_dependency_mode u = t_dependency_mode t"
    if "u \<in> set (tasks db)" "t_id u = ?i" for u
    using Cons.prems(5) get_task_distinct [OF Cons.prems(1) that(1)] that(2) by simp
  show ?case
  proof (cases "t_status t = StatusQueued \<and> t_dependency_mode t = DependencyWeak")
    case True
    let ?q = "\<lambda>u. t_id u = ?i \<and> t_project_id u = Some pid \<and> t_merge_of u = None \<and>
             t_status u = StatusQueued \<and> t_dependency_mode u = DependencyWeak"
    let ?f = "\<lambda>u. u\<lparr>t_depends_on := p, t_updated_at := now, t_revision := t_revision u + 1\<rparr>"
    let ?db1 = "db\<lparr>tasks := upd_where ?q ?f (tasks db)\<rparr>"
    have ok1: "schema_ok ?db1" by (rule schema_ok_rebuild [OF Cons.prems(1,4)])
    then have step: "update_tasks ?q ?f db = Inr (?db1, affected ?q (tasks db))"
      by (simp add: update_tasks_Inr)
    have ids1: "task_ids ?db1 = task_ids db" by (rule task_ids_upd) (rule keeps_keysI, simp_all)
    have get1: "get_task j ?db1 = map_option (\<lambda>u. if ?q u then ?f u else u) (get_task j db)" for j
      by (rule get_task_upd) simp
    have "\<forall>v\<in>set ts. \<forall>u. get_task (t_id v) ?db1 = Some u \<longrightarrow>
        t_status u = t_status v \<and> t_dependency_mode u = t_dependency_mode v"
    proof (intro ballI allI impI)
      fix v u assume v: "v \<in> set ts" and u: "get_task (t_id v) ?db1 = Some u"
      from u [unfolded get1] obtain w where w: "get_task (t_id v) db = Some w"
        "u = (if ?q w then ?f w else w)" by (auto simp only: map_option_eq_Some)
      from w(2) have "t_status u = t_status w \<and> t_dependency_mode u = t_dependency_mode w" by simp
      moreover have "t_status w = t_status v \<and> t_dependency_mode w = t_dependency_mode v"
        using Cons.prems(5) v w(1) by simp
      ultimately show "t_status u = t_status v \<and> t_dependency_mode u = t_dependency_mode v" by simp
    qed
    with Cons.IH [OF ok1 dist _ _ this, of "Some ?i"] Cons.prems(3) ids1
    have IH: "rebuild_loop pid now (Some ?i) ts ?db1 = Inr (?db1\<lparr>tasks := map (relink pid now (map_of (preds (Some ?i) (map t_id ts)))) (tasks ?db1)\<rparr>) \<and>
        schema_ok (?db1\<lparr>tasks := map (relink pid now (map_of (preds (Some ?i) (map t_id ts)))) (tasks ?db1)\<rparr>)"
      by simp
    have one: "relink pid now (map_of (preds (Some ?i) (map t_id ts))) (if ?q u then ?f u else u) =
        relink pid now (map_of (preds p (map t_id (t # ts)))) u" for u
      using none by (cases "t_id u = ?i") (simp_all add: relink_def movable_def split: option.split)
    have upd: "?db1\<lparr>tasks := map (relink pid now (map_of (preds (Some ?i) (map t_id ts)))) (tasks ?db1)\<rparr> =
        db\<lparr>tasks := map (relink pid now (map_of (preds p (map t_id (t # ts))))) (tasks db)\<rparr>"
      by (simp add: upd_where_def comp_def one del: map_of.simps preds_simps list.map)
    show ?thesis using IH True unfolding upd by (simp add: step del: map_of.simps preds_simps)
  next
    case False
    have "\<forall>v\<in>set ts. \<forall>u. get_task (t_id v) db = Some u \<longrightarrow>
        t_status u = t_status v \<and> t_dependency_mode u = t_dependency_mode v"
      using Cons.prems(5) by simp
    with Cons.IH [OF Cons.prems(1) dist _ _ this, of "Some ?i"] Cons.prems(3)
    have IH: "rebuild_loop pid now (Some ?i) ts db = Inr (db\<lparr>tasks := map (relink pid now (map_of (preds (Some ?i) (map t_id ts)))) (tasks db)\<rparr>) \<and>
        schema_ok (db\<lparr>tasks := map (relink pid now (map_of (preds (Some ?i) (map t_id ts)))) (tasks db)\<rparr>)"
      by simp
    have "relink pid now (map_of (preds (Some ?i) (map t_id ts))) u =
        relink pid now (map_of (preds p (map t_id (t # ts)))) u" if "u \<in> set (tasks db)" for u
      using none live [OF that] False by (auto simp: relink_def movable_def split: option.split)
    then have upd: "map (relink pid now (map_of (preds (Some ?i) (map t_id ts)))) (tasks db) =
        map (relink pid now (map_of (preds p (map t_id (t # ts))))) (tasks db)" by (rule map_cong [OF refl])
    show ?thesis using IH False unfolding upd by (auto simp del: map_of.simps preds_simps)
  qed
qed

section \<open>The effect of a reordering\<close>

lemma enumerate_filter_ids:
  "map fst (reorder_slots rows) = map t_id (filter (\<lambda>t. t_status t = StatusQueued) rows)"
proof -
  have "map (\<lambda>x. t_id (snd x)) (filter (\<lambda>x. t_status (snd x) = StatusQueued) (enumerate k rows)) =
      map t_id (filter (\<lambda>t. t_status t = StatusQueued) rows)" for k
    by (induction rows arbitrary: k) auto
  then show ?thesis by (simp add: reorder_slots_def case_prod_unfold comp_def)
qed

lemma reorder_check_iff:
  "reorder_check eligible seen ids \<longleftrightarrow> set ids \<subseteq> eligible \<and> distinct ids \<and> set ids \<inter> set seen = {}"
  by (induction eligible seen ids rule: reorder_check.induct) auto

lemma sorted_chain_ids:
  assumes "schema_ok db"
  shows "distinct (map t_id (sort_key order_key (chain_tasks pid db)))"
proof -
  have "distinct (map t_id (chain_tasks pid db))"
    unfolding chain_tasks_def using schema_ok_distinct [OF assms] by (rule distinct_map_filter)
  then have "inj_on t_id (set (chain_tasks pid db))" "distinct (chain_tasks pid db)"
    by (auto simp: distinct_map)
  then show ?thesis by (simp add: distinct_map)
qed

text \<open>The state after an accepted reordering: two maps over the rows.\<close>

lemma ReorderProjectTasks_shape:
  assumes ok: "schema_ok db" and run: "ReorderProjectTasks rng pid ids now db = Inr db'"
  shows "\<exists>slots db1. slots = reorder_slots (sort_key order_key (chain_tasks pid db)) \<and>
    length ids = length slots \<and> set ids = set (map fst slots) \<and> distinct ids \<and>
    db1 = db\<lparr>tasks := map (reslot pid now (map_of (zip ids (map snd slots)))) (tasks db)\<rparr> \<and> schema_ok db1 \<and>
    db' = db1\<lparr>tasks := map (relink pid now (map_of (preds None (map t_id (sort_key order_key (chain_tasks pid db1)))))) (tasks db1)\<rparr> \<and>
    schema_ok db' \<and> validateProjectDependencyGraph rng db' pid = Inr ()"
proof -
  let ?slots = "reorder_slots (sort_key order_key (chain_tasks pid db))"
  let ?xs = "zip ids (map snd ?slots)"
  from run have len: "length ids = length ?slots"
    and chk: "reorder_check (set (map fst ?slots)) [] ids"
    and rest: "rbind (reorder_loop pid now ?xs db) (\<lambda>db1.
          rbind (rebuildQueuedWeakDependencies pid now db1) (\<lambda>db2.
          rbind (validateProjectDependencyGraph rng db2 pid) (\<lambda>_. Inr db2))) = Inr db'"
    by (auto simp: ReorderProjectTasks_def Let_def split: if_splits)
  from chk have ids: "set ids \<subseteq> set (map fst ?slots)" "distinct ids" by (auto simp: reorder_check_iff)
  have "distinct (map fst ?slots)"
    unfolding enumerate_filter_ids using sorted_chain_ids [OF ok, of pid] by (rule distinct_map_filter)
  then have "card (set (map fst ?slots)) = length ?slots" by (metis distinct_card length_map)
  moreover have "card (set ids) = length ids" using ids(2) by (rule distinct_card)
  ultimately have eq: "set ids = set (map fst ?slots)"
    using ids(1) len card_subset_eq [OF finite_set ids(1)] by simp
  have dist: "distinct (map fst ?xs)" using ids(2) len by simp
  let ?db1 = "db\<lparr>tasks := map (reslot pid now (map_of ?xs)) (tasks db)\<rparr>"
  from reorder_loop_map [OF ok dist]
  have l1: "reorder_loop pid now ?xs db = Inr ?db1" and ok1: "schema_ok ?db1" by blast+
  let ?ts = "sort_key order_key (chain_tasks pid ?db1)"
  have sub: "set (map t_id ?ts) \<subseteq> task_ids ?db1"
    by (auto simp: chain_tasks_def task_ids_def)
  have live: "\<forall>t\<in>set ?ts. \<forall>u. get_task (t_id t) ?db1 = Some u \<longrightarrow>
       t_status u = t_status t \<and> t_dependency_mode u = t_dependency_mode t"
  proof (intro ballI allI impI)
    fix t u assume t: "t \<in> set ?ts" and u: "get_task (t_id t) ?db1 = Some u"
    from t have "t \<in> set (tasks ?db1)" by (simp add: chain_tasks_def)
    with get_task_distinct [OF ok1 this] u show "t_status u = t_status t \<and> t_dependency_mode u = t_dependency_mode t"
      by simp
  qed
  from rebuild_loop_map [OF ok1 sorted_chain_ids [OF ok1] sub _ live, of None pid now]
  have l2: "rebuildQueuedWeakDependencies pid now ?db1 =
      Inr (?db1\<lparr>tasks := map (relink pid now (map_of (preds None (map t_id ?ts)))) (tasks ?db1)\<rparr>)"
    and ok2: "schema_ok (?db1\<lparr>tasks := map (relink pid now (map_of (preds None (map t_id ?ts)))) (tasks ?db1)\<rparr>)"
    unfolding rebuildQueuedWeakDependencies_def by simp_all
  from rest have "db' = ?db1\<lparr>tasks := map (relink pid now (map_of (preds None (map t_id ?ts)))) (tasks ?db1)\<rparr>"
    and "validateProjectDependencyGraph rng db' pid = Inr ()"
    unfolding l1 rbind_Inr l2 by (auto simp: rbind_eq_Inr)
  with len eq ids(2) ok1 ok2 show ?thesis by blast
qed

lemma get_task_map:
  assumes "\<And>t. t_id (f t) = t_id t"
  shows "get_task j (db\<lparr>tasks := map f (tasks db)\<rparr>) = map_option f (get_task j db)"
proof -
  have "sel t_id j (map f ts) = map_option f (sel t_id j ts)" for ts
    by (induction ts) (auto simp: assms)
  then show ?thesis by (simp add: get_task_def)
qed

lemma chain_tasks_map:
  assumes "\<And>t. t_project_id (f t) = t_project_id t" and "\<And>t. t_merge_of (f t) = t_merge_of t"
    and "\<And>t. t_cron (f t) = t_cron t"
  shows "chain_tasks pid (db\<lparr>tasks := map f (tasks db)\<rparr>) = map f (chain_tasks pid db)"
proof -
  have "filter P (map f ts) = map f (filter P ts)" if "\<And>t. P (f t) = P t" for P ts
    using that by (induction ts) auto
  then show ?thesis by (simp add: chain_tasks_def assms)
qed

lemma sort_key_map_eq:
  assumes "\<And>t. k (f t) = k t"
  shows "sort_key k (map f xs) = map f (sort_key k xs)"
proof -
  have ins: "insort_key k (f x) (map f ys) = map f (insort_key k x ys)" for x ys
    by (induction ys) (auto simp: assms)
  show ?thesis by (induction xs) (auto simp: ins)
qed

lemma order_key_relink [simp]: "order_key (relink pid now pred t) = order_key t"
  by (simp add: order_key_def)

lemma sorted_relinked:
  "sort_key order_key (chain_tasks pid (db\<lparr>tasks := map (relink q now pred) (tasks db)\<rparr>)) =
     map (relink q now pred) (sort_key order_key (chain_tasks pid db))"
  using sort_key_map_eq [of order_key "relink q now pred"] by (simp add: chain_tasks_map)

definition queued_chain :: "int \<Rightarrow> db \<Rightarrow> task list" where
  "queued_chain pid db =
     filter (\<lambda>t. t_status t = StatusQueued) (sort_key order_key (chain_tasks pid db))"

lemma slot_ids: "map fst (reorder_slots (sort_key order_key (chain_tasks pid db))) = map t_id (queued_chain pid db)"
  by (simp add: enumerate_filter_ids queued_chain_def)

lemma queued_chain_iff:
  "t \<in> set (queued_chain pid db) \<longleftrightarrow> t \<in> set (tasks db) \<and> movable pid t \<and> t_cron t = []"
  by (auto simp: queued_chain_def chain_tasks_def movable_def)

text \<open>
  C6. A reordering that is accepted touches only the queued implementation tasks of the project:
  the k-th task of the request gets the k-th slot, tasks with a strong or no dependency keep it,
  every weak one waits for the task directly before it in the new order, and the project's graph
  is acyclic. All other rows, the running and finished ones among them, are unchanged.
\<close>

theorem ReorderProjectTasks_effect:
  assumes ok: "schema_ok db" and rng: "\<forall>xs. set (rng xs) = set xs"
    and run: "ReorderProjectTasks rng pid ids now db = Inr db'"
  shows "schema_ok db' \<and> acyclic (project_rel db' pid) \<and>
    (\<forall>k<length ids. \<exists>t. get_task (ids ! k) db' = Some t \<and> t_status t = StatusQueued \<and>
       t_sort_order t = snd (reorder_slots (sort_key order_key (chain_tasks pid db)) ! k)) \<and>
    (\<forall>j t. get_task j db = Some t \<longrightarrow> (\<exists>t'. get_task j db' = Some t' \<and>
       (j \<notin> set ids \<longrightarrow> t' = t) \<and>
       (t_dependency_mode t \<noteq> DependencyWeak \<longrightarrow> t_depends_on t' = t_depends_on t))) \<and>
    (\<forall>t\<in>set (queued_chain pid db'). t_dependency_mode t = DependencyWeak \<longrightarrow>
       t_depends_on t = previousProjectTask db' pid (t_id t))"
proof -
  let ?slots = "reorder_slots (sort_key order_key (chain_tasks pid db))"
  let ?g = "reslot pid now (map_of (zip ids (map snd ?slots)))"
  define db1 where "db1 = db\<lparr>tasks := map ?g (tasks db)\<rparr>"
  let ?order = "map t_id (sort_key order_key (chain_tasks pid db1))"
  let ?h = "relink pid now (map_of (preds None ?order))"
  from ReorderProjectTasks_shape [OF ok run] have len: "length ids = length ?slots"
    and mem: "set ids = set (map fst ?slots)" and dist: "distinct ids" and ok1: "schema_ok db1"
    and db': "db' = db1\<lparr>tasks := map ?h (tasks db1)\<rparr>" and ok': "schema_ok db'"
    and graph: "validateProjectDependencyGraph rng db' pid = Inr ()"
    unfolding db1_def by blast+
  have get1: "get_task j db1 = map_option ?g (get_task j db)" for j
    unfolding db1_def by (rule get_task_map) simp
  have get': "get_task j db' = map_option ?h (get_task j db1)" for j
    unfolding db' by (rule get_task_map) simp
  have acyc: "acyclic (project_rel db' pid)"
    using graph by (simp add: validate_graph_acyclic [OF ok' rng] split: if_splits)
  have queued: "\<exists>t. get_task i db = Some t \<and> movable pid t \<and> t_cron t = []" if "i \<in> set ids" for i
  proof -
    from that mem obtain t where "t \<in> set (queued_chain pid db)" "t_id t = i"
      unfolding slot_ids by auto
    with get_task_distinct [OF ok] show ?thesis by (auto simp: queued_chain_iff)
  qed
  have slots: "\<exists>t. get_task (ids ! k) db' = Some t \<and> t_status t = StatusQueued \<and> t_sort_order t = snd (?slots ! k)"
    if k: "k < length ids" for k
  proof -
    obtain t where t: "get_task (ids ! k) db = Some t" "movable pid t" using queued k nth_mem by blast
    have "map_of (zip ids (map snd ?slots)) (ids ! k) = Some (map snd ?slots ! k)"
      using dist len k by (simp add: map_of_zip_nth)
    with t get_task_id [OF t(1)] len k have "t_sort_order (?g t) = snd (?slots ! k)" "t_status (?g t) = StatusQueued"
      by (simp_all add: reslot_def movable_def)
    then show ?thesis by (simp add: get' get1 t(1))
  qed
  have frame: "\<exists>t'. get_task j db' = Some t' \<and> (j \<notin> set ids \<longrightarrow> t' = t) \<and>
       (t_dependency_mode t \<noteq> DependencyWeak \<longrightarrow> t_depends_on t' = t_depends_on t)"
    if t: "get_task j db = Some t" for j t
  proof -
    have j: "t_id t = j" using t by (rule get_task_id)
    have "?h (?g t) = t" if "j \<notin> set ids"
    proof -
      have g: "?g t = t" using that j len
        by (auto simp: reslot_def split: option.split dest: map_of_SomeD set_zip_leftD)
      have "t \<notin> set (queued_chain pid db)"
        using that j mem unfolding slot_ids by auto
      then have no: "\<not> (movable pid t \<and> t_cron t = [])" using get_task_mem [OF t] by (simp add: queued_chain_iff)
      show ?thesis
      proof (cases "movable pid t")
        case True
        with no have cron: "t_cron t \<noteq> []" by blast
        have "j \<notin> set ?order"
        proof
          assume "j \<in> set ?order"
          then obtain u where u: "u \<in> set (tasks db1)" "t_id u = j" "t_cron u = []" by (auto simp: chain_tasks_def)
          with get_task_distinct [OF ok1 u(1)] have "get_task j db1 = Some u" by simp
          with get1 t g cron u(3) show False by simp
        qed
        then have "map_of (preds None ?order) j = None" by (simp only: map_of_eq_None_iff fst_preds not_False_eq_True)
        then show ?thesis by (simp add: g relink_def j)
      qed (auto simp: g relink_def split: option.split)
    qed
    moreover have "t_depends_on (?h (?g t)) = t_depends_on t" if "t_dependency_mode t \<noteq> DependencyWeak"
      using that by (simp add: relink_def split: option.split)
    ultimately show ?thesis by (simp add: get' get1 t)
  qed
  have weak: "t_depends_on t = previousProjectTask db' pid (t_id t)"
    if t: "t \<in> set (queued_chain pid db')" "t_dependency_mode t = DependencyWeak" for t
  proof -
    from t(1) have t': "t \<in> set (tasks db')" "movable pid t" "t_cron t = []" by (simp_all add: queued_chain_iff)
    then obtain u where u: "u \<in> set (tasks db1)" "t = ?h u" by (auto simp: db')
    have "t_id u \<in> set ?order" using t' u by (auto simp: chain_tasks_def movable_def)
    then have "map_of (preds None ?order) (t_id u) = Some (previous_in (t_id u) None ?order)"
      by (rule map_of_preds)
    moreover have "previousProjectTask db' pid (t_id (?h u)) = previous_in (t_id u) None ?order"
      by (simp add: previousProjectTask_def db' sorted_relinked comp_def)
    moreover have "movable pid u \<and> t_dependency_mode u = DependencyWeak"
      using t(2) t'(2) by (simp add: u(2))
    ultimately show ?thesis unfolding u(2) by (simp add: relink_def)
  qed
  from ok' acyc slots frame weak show ?thesis by blast
qed

text \<open>The project of the examples: two queued tasks of one project, in slots 1 and 2.\<close>

definition demo_pair :: db where
  "demo_pair = demo_project_db [(demo_in 1 1 1 StatusQueued)\<lparr>t_dependency_mode := DependencyWeak\<rparr>,
     (demo_in 1 2 2 StatusQueued)\<lparr>t_dependency_mode := DependencyWeak, t_depends_on := Some 1\<rparr>]"

lemma demo_pair_run: "\<exists>d. ReorderProjectTasks rev 1 [2, 1] ''t1'' demo_pair = Inr d"
proof -
  have "case ReorderProjectTasks rev 1 [2, 1] ''t1'' demo_pair of Inl _ \<Rightarrow> False | Inr d \<Rightarrow> True" by code_simp
  then show ?thesis by (auto split: sum.splits)
qed

theorem ReorderProjectTasks_effect_witness:
  "\<exists>d. ReorderProjectTasks rev 1 [2, 1] ''t1'' demo_pair = Inr d \<and> acyclic (project_rel d 1)"
proof -
  obtain d where d: "ReorderProjectTasks rev 1 [2, 1] ''t1'' demo_pair = Inr d" using demo_pair_run by blast
  have ok: "schema_ok demo_pair" by code_simp
  have "\<forall>xs :: int list. set (rev xs) = set xs" by simp
  from ReorderProjectTasks_effect [OF ok this d] d show ?thesis by blast
qed

section \<open>Does the queue end up in the requested order?\<close>

lemma sorted_filter_key: "sorted (map k xs) \<Longrightarrow> sorted (map k (filter P xs))"
  by (induction xs) auto

lemma order_key_le: "order_key t \<le> order_key u \<Longrightarrow> 0 < t_sort_order t \<Longrightarrow> 0 < t_sort_order u \<Longrightarrow>
    t_sort_order t \<le> t_sort_order u"
  by (auto simp: order_key_def less_eq_prod_def)

lemma sorted_sort_order:
  assumes "sorted (map order_key ts)" and "\<forall>t\<in>set ts. 0 < t_sort_order t"
  shows "sorted (map t_sort_order ts)"
  using assms by (induction ts) (auto dest: order_key_le)

lemma queued_chain_sorted: "sorted (map order_key (queued_chain pid db))"
  unfolding queued_chain_def by (rule sorted_filter_key) simp

lemma slots_positive:
  assumes "\<forall>t\<in>set (queued_chain pid db). 0 < t_sort_order t"
  shows "map snd (reorder_slots (sort_key order_key (chain_tasks pid db))) = map t_sort_order (queued_chain pid db)"
proof -
  have aux: "map (\<lambda>x. if t_sort_order (snd x) \<le> 0 then int (fst x) + 1 else t_sort_order (snd x))
        (filter (\<lambda>x. t_status (snd x) = StatusQueued) (enumerate k rows)) =
      map t_sort_order (filter (\<lambda>t. t_status t = StatusQueued) rows)"
    if "\<forall>t\<in>set (filter (\<lambda>t. t_status t = StatusQueued) rows). 0 < t_sort_order t" for k rows
    using that by (induction rows arbitrary: k) auto
  from aux [of "sort_key order_key (chain_tasks pid db)" 0] assms show ?thesis
    by (simp add: queued_chain_def reorder_slots_def case_prod_unfold comp_def)
qed

text \<open>
  When every queued task of the project has a slot of its own, as the tasks created through
  the scheduling entry point do, the queue ends up in exactly the requested order.
\<close>

theorem ReorderProjectTasks_honours_request:
  assumes ok: "schema_ok db" and rng: "\<forall>xs. set (rng xs) = set xs"
    and pos: "\<forall>t\<in>set (queued_chain pid db). 0 < t_sort_order t"
    and dist: "distinct (map t_sort_order (queued_chain pid db))"
    and run: "ReorderProjectTasks rng pid ids now db = Inr db'"
  shows "map t_id (queued_chain pid db') = ids"
proof -
  let ?slots = "map t_sort_order (queued_chain pid db)"
  let ?g = "reslot pid now (map_of (zip ids ?slots))"
  define db1 where "db1 = db\<lparr>tasks := map ?g (tasks db)\<rparr>"
  let ?h = "relink pid now (map_of (preds None (map t_id (sort_key order_key (chain_tasks pid db1)))))"
  note shape = ReorderProjectTasks_shape [OF ok run]
  from shape have len: "length ids = length ?slots"
    and mem: "set ids = set (map t_id (queued_chain pid db))" and di: "distinct ids" and ok1: "schema_ok db1"
    and db': "db' = db1\<lparr>tasks := map ?h (tasks db1)\<rparr>"
    unfolding db1_def slots_positive [OF pos, symmetric] slot_ids [symmetric] by auto
  have q': "queued_chain pid db' = map ?h (queued_chain pid db1)"
  proof -
    have "filter (\<lambda>t. t_status t = StatusQueued) (map ?h ts) = map ?h (filter (\<lambda>t. t_status t = StatusQueued) ts)" for ts
      by (induction ts) auto
    then show ?thesis by (simp add: queued_chain_def db' sorted_relinked)
  qed
  have q1: "set (queued_chain pid db1) = ?g ` set (queued_chain pid db)"
    by (auto simp: queued_chain_iff db1_def)
  have ids1: "set (map t_id (queued_chain pid db1)) = set ids" using q1 mem by (auto simp: image_image)
  define f where "f i = t_sort_order (the (get_task i db1))" for i
  have f: "f (t_id t) = t_sort_order t" if "t \<in> set (queued_chain pid db1)" for t
    using that get_task_distinct [OF ok1] by (simp add: f_def queued_chain_iff)
  have slot: "f (ids ! k) = ?slots ! k" if k: "k < length ids" for k
  proof -
    have "ids ! k \<in> set (map t_id (queued_chain pid db))" using k mem nth_mem by blast
    then obtain t where t: "t \<in> set (queued_chain pid db)" "t_id t = ids ! k" by auto
    have "get_task (ids ! k) db = Some t"
      using get_task_distinct [OF ok, of t] t by (simp add: queued_chain_iff)
    then have g: "get_task (ids ! k) db1 = Some (?g t)"
      unfolding db1_def by (simp add: get_task_map)
    have "map_of (zip ids ?slots) (ids ! k) = Some (?slots ! k)"
      using map_of_zip_nth [OF len di, of k] k len by simp
    with t g show ?thesis by (simp add: f_def reslot_def queued_chain_iff)
  qed
  have fids: "map f ids = ?slots" by (rule nth_equalityI) (use len slot in auto)
  have pos1: "\<forall>t\<in>set (queued_chain pid db1). 0 < t_sort_order t"
  proof
    fix t assume t: "t \<in> set (queued_chain pid db1)"
    then have "t_id t \<in> set ids" using ids1 by auto
    then have "f (t_id t) \<in> set ?slots" using fids by (metis image_eqI list.set_map)
    with f [OF t] pos show "0 < t_sort_order t" by auto
  qed
  have s1: "map f (map t_id (queued_chain pid db1)) = map t_sort_order (queued_chain pid db1)"
    using f by simp
  have inj: "inj_on f (set ids)" using fids dist by (metis distinct_map)
  have d1: "distinct (map t_id (queued_chain pid db1))"
    unfolding queued_chain_def using sorted_chain_ids [OF ok1] by (rule distinct_map_filter)
  have "map t_id (queued_chain pid db1) = ids"
  proof (rule map_sorted_distinct_set_unique)
    show "inj_on f (set (map t_id (queued_chain pid db1)) \<union> set ids)" using ids1 inj by simp
    show "sorted (map f (map t_id (queued_chain pid db1)))"
      unfolding s1 using queued_chain_sorted pos1 by (rule sorted_sort_order)
    show "distinct (map f (map t_id (queued_chain pid db1)))"
      using d1 ids1 inj by (simp only: distinct_map)
    show "sorted (map f ids)" unfolding fids using queued_chain_sorted pos by (rule sorted_sort_order)
    show "distinct (map f ids)" unfolding fids by (rule dist)
    show "set (map t_id (queued_chain pid db1)) = set ids" by (rule ids1)
  qed
  then show ?thesis by (simp add: q' comp_def)
qed

theorem ReorderProjectTasks_honours_request_witness:
  "\<exists>d. ReorderProjectTasks rev 1 [2, 1] ''t1'' demo_pair = Inr d \<and> map t_id (queued_chain 1 d) = [2, 1]"
proof -
  obtain d where d: "ReorderProjectTasks rev 1 [2, 1] ''t1'' demo_pair = Inr d" using demo_pair_run by blast
  have ok: "schema_ok demo_pair" by code_simp
  have rng: "\<forall>xs :: int list. set (rev xs) = set xs" by simp
  have "map t_sort_order (queued_chain 1 demo_pair) = [1, 2]" by code_simp
  then have "\<forall>x\<in>set (map t_sort_order (queued_chain 1 demo_pair)). 0 < x"
    and "distinct (map t_sort_order (queued_chain 1 demo_pair))" by simp_all
  with ReorderProjectTasks_honours_request [OF ok rng _ _ d] d show ?thesis by simp
qed

definition demo_stray :: db where
  "demo_stray = demo_project_db [demo_in 1 5 1 StatusQueued, demo_task 2 StatusQueued]"

text \<open>
  A task that was moved into the project by a plain edit has no slot. Then the reordering
  can be accepted and still leave the queue in another order than the one requested: here a task
  without a project is moved into project 1, next to a task in slot 5, and the request to put it
  first is answered with success while it stays last.
\<close>

lemma ReorderProjectTasks_wrong_order:
  "case UpdateAtRevision ResTask 2 1 [(ColProjectId, AInt 1), (ColProjectDir, AStr [])] ''t1'' demo_stray of
     Inl _ \<Rightarrow> False
   | Inr db1 \<Rightarrow> map t_id (queued_chain 1 db1) = [1, 2] \<and>
       (case ReorderProjectTasks rev 1 [2, 1] ''t2'' db1 of
          Inl _ \<Rightarrow> False
        | Inr db2 \<Rightarrow> map t_id (queued_chain 1 db2) = [1, 2])"
  by code_simp

end
