(* ===== verification/Delete_Laws.thy ===== *)
theory Delete_Laws
  imports Store_Delete Reorder_Laws
begin

text \<open>
  What a successful deletion did, and the two situations in which the deletion of a tree cannot
  succeed although the checks before it pass: a dependency inside the tree, and a task that is
  its own ancestor.
\<close>

section \<open>Collecting the tree\<close>

lemma collect_grows:
  "collectTaskTreeIDs n db seen i = Some out \<Longrightarrow>
     set seen \<subseteq> set out \<and> set out \<subseteq> set seen \<union> task_ids db \<and> (i \<in> task_ids db \<longrightarrow> i \<in> set out)"
  "collect_children n db seen cs = Some out \<Longrightarrow>
     set seen \<subseteq> set out \<and> set out \<subseteq> set seen \<union> task_ids db \<and> set cs \<inter> task_ids db \<subseteq> set out"
proof (induction n db seen i and n db seen cs arbitrary: out and out
    rule: collectTaskTreeIDs_collect_children.induct)
  case (2 n db seen i)
  show ?case
  proof (cases "i \<in> set seen \<or> get_task i db = None")
    case True
    with 2 show ?thesis using get_task_None [of i db] by (auto split: if_splits)
  next
    case False
    then have "collect_children n db (i # seen) (tree_children db i) = Some out" using 2(2) by auto
    with 2 False have "set (i # seen) \<subseteq> set out \<and> set out \<subseteq> set (i # seen) \<union> task_ids db" by blast
    moreover have "i \<in> task_ids db" using False get_task_None [of i db] by auto
    ultimately show ?thesis by auto
  qed
next
  case (4 n db seen c cs)
  from 4(3) obtain mid where "collectTaskTreeIDs n db seen c = Some mid" "collect_children n db mid cs = Some out"
    by (auto split: option.splits)
  with 4(1) [OF this(1)] 4(2) [OF this] show ?case by auto
qed auto

text \<open>Every collected task's children are collected.\<close>

lemma collect_closed:
  "collectTaskTreeIDs n db seen i = Some out \<Longrightarrow>
     \<forall>x\<in>set out - set seen. set (tree_children db x) \<inter> task_ids db \<subseteq> set out"
  "collect_children n db seen cs = Some out \<Longrightarrow>
     \<forall>x\<in>set out - set seen. set (tree_children db x) \<inter> task_ids db \<subseteq> set out"
proof (induction n db seen i and n db seen cs arbitrary: out and out
    rule: collectTaskTreeIDs_collect_children.induct)
  case (2 n db seen i)
  show ?case
  proof (cases "i \<in> set seen \<or> get_task i db = None")
    case True
    with 2 show ?thesis by (auto split: if_splits)
  next
    case False
    then have c: "collect_children n db (i # seen) (tree_children db i) = Some out" using 2(2) by auto
    with 2 False have "\<forall>x\<in>set out - set (i # seen). set (tree_children db x) \<inter> task_ids db \<subseteq> set out" by blast
    with collect_grows(2) [OF c] show ?thesis by auto
  qed
next
  case (4 n db seen c cs)
  from 4(3) obtain mid where m: "collectTaskTreeIDs n db seen c = Some mid" "collect_children n db mid cs = Some out"
    by (auto split: option.splits)
  with 4(1) [OF m(1)] 4(2) [OF m] collect_grows(2) [OF m(2)] show ?case by blast
qed auto

section \<open>Deleting rows\<close>

text \<open>A deletion only removes rows, and a removed row's children are removed with it.\<close>

definition removes :: "db \<Rightarrow> db \<Rightarrow> bool" where
  "removes db db' \<longleftrightarrow> (\<forall>j t. get_task j db' = Some t \<longrightarrow> get_task j db = Some t)"

lemma removes_trans: "removes a b \<Longrightarrow> removes b c \<Longrightarrow> removes a c"
  by (auto simp: removes_def)

lemma removes_refl [simp]: "removes a a"
  by (simp add: removes_def)

lemma removes_ids:
  assumes "removes db db'"
  shows "task_ids db' \<subseteq> task_ids db"
proof
  fix j assume "j \<in> task_ids db'"
  then obtain t where "get_task j db' = Some t" using get_task_None [of j db'] by blast
  with assms have "get_task j db = Some t" by (simp add: removes_def)
  then show "j \<in> task_ids db" using get_task_None [of j db] by auto
qed

lemma delete_children_mem:
  "c \<in> set (delete_children db i) \<longleftrightarrow> (\<exists>t\<in>set (tasks db). t_id t = c \<and>
     (t_parent_id t = Some i \<or> t_merge_of t = Some i \<or> t_parent_session_id t = Some i \<or> t_parent_task_id t = Some i))"
  by (auto simp: delete_children_def)

lemma delete_task_row_effect:
  assumes "schema_ok db" and "delete_task_row i db = Inr (db', k)"
  shows "schema_ok db' \<and> removes db db' \<and> task_ids db' = task_ids db - {i}"
proof -
  have db': "schema_ok db'" "tasks db' = del_where (\<lambda>t. t_id t = i) (tasks db)"
    using assms(2) by (auto simp: delete_task_row_def rbind_eq_Inr exec_stmt_Inr)
  have "get_task j db' = (case get_task j db of None \<Rightarrow> None | Some r \<Rightarrow> if t_id r = i then None else Some r)" for j
    unfolding get_task_def db'(2) by (rule sel_del_where) (use assms(1) in blast)
  then have "removes db db'" by (auto simp: removes_def split: option.splits if_splits)
  moreover have "task_ids db' = task_ids db - {i}" by (auto simp: task_ids_def db'(2))
  ultimately show ?thesis using db'(1) by blast
qed

lemma delete_tree_effect:
  "deleteTaskTree n i db = Some (Inr db') \<Longrightarrow> schema_ok db \<Longrightarrow>
     schema_ok db' \<and> removes db db' \<and> i \<notin> task_ids db' \<and>
     (\<forall>j\<in>task_ids db - task_ids db'. set (delete_children db j) \<inter> task_ids db' = {})"
  "delete_trees n cs db = Some (Inr db') \<Longrightarrow> schema_ok db \<Longrightarrow>
     schema_ok db' \<and> removes db db' \<and> set cs \<inter> task_ids db' = {} \<and>
     (\<forall>j\<in>task_ids db - task_ids db'. set (delete_children db j) \<inter> task_ids db' = {})"
proof (induction n i db and n cs db arbitrary: db' and db'
    rule: deleteTaskTree_delete_trees.induct)
  case (2 n i db)
  from 2(2) obtain db1 k where c: "delete_trees n (delete_children db i) db = Some (Inr db1)"
    and d: "delete_task_row i db1 = Inr (db', k)"
    by (auto simp: rbind_eq_Inr split: option.splits sum.splits if_splits prod.splits)
  from 2(1) [OF c 2(3)] have ok1: "schema_ok db1" and r1: "removes db db1"
    and kids: "set (delete_children db i) \<inter> task_ids db1 = {}"
    and fam: "\<forall>j\<in>task_ids db - task_ids db1. set (delete_children db j) \<inter> task_ids db1 = {}" by blast+
  from delete_task_row_effect [OF ok1 d] have e: "schema_ok db'" "removes db1 db'" "task_ids db' = task_ids db1 - {i}"
    by blast+
  have "set (delete_children db j) \<inter> task_ids db' = {}" if "j \<in> task_ids db - task_ids db'" for j
    using that kids fam e(3) by (cases "j = i") auto
  with e removes_trans [OF r1 e(2)] show ?case by blast
next
  case (4 n c cs db)
  from 4(3) obtain db1 where c: "deleteTaskTree n c db = Some (Inr db1)" "delete_trees n cs db1 = Some (Inr db')"
    by (auto split: option.splits sum.splits)
  from 4(1) [OF c(1) 4(4)] have A: "schema_ok db1" "removes db db1" "c \<notin> task_ids db1"
    "\<forall>j\<in>task_ids db - task_ids db1. set (delete_children db j) \<inter> task_ids db1 = {}" by blast+
  from 4(2) [OF c(1) refl c(2) A(1)] have B: "schema_ok db'" "removes db1 db'" "set cs \<inter> task_ids db' = {}"
    "\<forall>j\<in>task_ids db1 - task_ids db'. set (delete_children db1 j) \<inter> task_ids db' = {}" by blast+
  have sub: "task_ids db' \<subseteq> task_ids db1" using B(2) by (rule removes_ids)
  have kids: "x \<in> set (delete_children db1 j)" if "x \<in> set (delete_children db j)" "x \<in> task_ids db1" for x j
  proof -
    from that(1) obtain t where t: "t \<in> set (tasks db)" "t_id t = x"
      "t_parent_id t = Some j \<or> t_merge_of t = Some j \<or> t_parent_session_id t = Some j \<or> t_parent_task_id t = Some j"
      by (auto simp: delete_children_mem)
    from that(2) obtain u where u: "get_task x db1 = Some u" using get_task_None [of x db1] by blast
    with A(2) get_task_distinct [OF 4(4) t(1)] t(2) have "u = t" by (auto simp: removes_def)
    with u t show ?thesis using get_task_mem [OF u] by (auto simp: delete_children_mem)
  qed
  have "set (delete_children db j) \<inter> task_ids db' = {}" if "j \<in> task_ids db - task_ids db'" for j
  proof (cases "j \<in> task_ids db1")
    case True
    with that B(4) kids sub show ?thesis by blast
  next
    case False
    with that A(4) sub show ?thesis by blast
  qed
  with B A removes_trans [OF A(2) B(2)] sub show ?case by auto
qed auto

section \<open>Unlinking\<close>

lemma replacement_loop_cong:
  assumes "\<forall>j\<in>set deleting. get_task j db' = get_task j db"
  shows "current \<in> set deleting \<Longrightarrow> task_ids db' = task_ids db \<Longrightarrow>
    replacement_loop db' deleting seen current = replacement_loop db deleting seen current"
  using assms
proof (induction db deleting seen current rule: replacement_loop.induct)
  case (1 db deleting seen current)
  have eq: "get_task current db' = get_task current db" using 1 by blast
  show ?case
    unfolding replacement_loop.simps [of db' deleting seen current] replacement_loop.simps [of db deleting seen current] eq
    using 1 by (auto simp: Let_def split: option.split)
qed

lemma dependencyReplacement_cong:
  assumes "\<forall>j\<in>set deleting. get_task j db' = get_task j db" and "s \<in> set deleting"
    and "task_ids db' = task_ids db"
  shows "dependencyReplacement db' s deleting = dependencyReplacement db s deleting"
  unfolding dependencyReplacement_def by (rule replacement_loop_cong [OF assms])

text \<open>The replacement is the nearest predecessor that survives.\<close>

lemma replacement_loop_sound:
  "replacement_loop db deleting seen current = Some c \<Longrightarrow> schema_ok db \<Longrightarrow>
     c \<notin> set deleting \<and> c \<in> task_ids db \<and>
     (\<exists>m. (current, m) \<in> {(x, y) \<in> depends_rel db. y \<in> set deleting}\<^sup>* \<and> (m, c) \<in> depends_rel db)"
proof (induction db deleting seen current rule: replacement_loop.induct)
  case (1 db deleting seen current)
  note simps = replacement_loop.simps [of db deleting seen current]
  from 1(2) obtain t where t: "current \<notin> set seen" "get_task current db = Some t" "t_depends_on t \<noteq> None"
    "\<not> (t_dependency_mode t = DependencyNone \<or> t_dependency_mode t = DependencyOther [])"
    and res: "(if the (t_depends_on t) \<notin> set deleting then Some (the (t_depends_on t))
      else replacement_loop db deleting (current # seen) (the (t_depends_on t))) = Some c"
    unfolding simps by (auto simp: Let_def split: if_splits option.splits)
  have e: "(current, the (t_depends_on t)) \<in> depends_rel db"
    using t by (auto simp: depends_rel_iff [OF 1(3)])
  show ?case
  proof (cases "the (t_depends_on t) \<in> set deleting")
    case True
    with res have "replacement_loop db deleting (current # seen) (the (t_depends_on t)) = Some c" by simp
    from 1(1) [OF t(1,2) _ refl _ this 1(3)] t True e show ?thesis
      by (auto intro: converse_rtrancl_into_rtrancl)
  next
    case False
    with res have c: "c = the (t_depends_on t)" by simp
    with e False depends_rel_closed [OF 1(3) e] show ?thesis by auto
  qed
qed

text \<open>The rows after the sources in \<open>dn\<close> have been unlinked.\<close>

definition unlinked_target :: "db \<Rightarrow> int list \<Rightarrow> int set \<Rightarrow> task \<Rightarrow> int option" where
  "unlinked_target db deleting dn t =
     (case t_depends_on t of
        None \<Rightarrow> None
      | Some s \<Rightarrow> if s \<in> dn \<and> t_id t \<notin> set deleting then dependencyReplacement db s deleting else Some s)"

definition unlinked :: "db \<Rightarrow> int list \<Rightarrow> int set \<Rightarrow> db \<Rightarrow> bool" where
  "unlinked db deleting dn db' \<longleftrightarrow> schema_ok db' \<and> task_ids db' = task_ids db \<and>
     (\<forall>j t. get_task j db = Some t \<longrightarrow> (\<exists>t'. get_task j db' = Some t' \<and>
        t_dependency_mode t' = t_dependency_mode t \<and> (j \<in> set deleting \<longrightarrow> t' = t) \<and>
        t_depends_on t' = unlinked_target db deleting dn t))"

lemma keeps_dep: "keeps_keys (\<lambda>t. t\<lparr>t_depends_on := r, t_updated_at := now, t_revision := t_revision t + 1\<rparr>)"
  by (rule keeps_keysI) simp_all

lemma unlink_dependents_effect:
  assumes "unlink_dependents deleting now s ds db = Inr db'" and "schema_ok db" and "distinct (map t_id ds)"
    and "s \<in> set deleting"
  shows "schema_ok db' \<and> task_ids db' = task_ids db \<and>
    (\<forall>d\<in>set ds. t_id d \<notin> set deleting \<longrightarrow> t_dependency_mode d \<noteq> DependencyStrong) \<and>
    (\<forall>j t. get_task j db = Some t \<longrightarrow> (\<exists>t'. get_task j db' = Some t' \<and>
       t_dependency_mode t' = t_dependency_mode t \<and>
       (if j \<in> t_id ` set ds \<and> j \<notin> set deleting
        then t_depends_on t' = dependencyReplacement db s deleting else t' = t)))"
  using assms
proof (induction ds arbitrary: db)
  case Nil
  then show ?case by auto
next
  case (Cons d ds)
  show ?case
  proof (cases "t_id d \<in> set deleting")
    case True
    with Cons.prems have r: "unlink_dependents deleting now s ds db = Inr db'" "distinct (map t_id ds)" by auto
    have "(j \<in> t_id ` set (d # ds) \<and> j \<notin> set deleting) = (j \<in> t_id ` set ds \<and> j \<notin> set deleting)" for j
      using True by auto
    then show ?thesis using Cons.IH [OF r(1) Cons.prems(2) r(2) Cons.prems(4)] True by simp
  next
    case False
    let ?rep = "dependencyReplacement db s deleting"
    let ?f = "\<lambda>t. t\<lparr>t_depends_on := ?rep, t_updated_at := now, t_revision := t_revision t + 1\<rparr>"
    let ?db1 = "db\<lparr>tasks := upd_where (\<lambda>t. t_id t = t_id d) ?f (tasks db)\<rparr>"
    from Cons.prems(1) False have weak: "t_dependency_mode d \<noteq> DependencyStrong"
      and ok1: "schema_ok ?db1" and rest: "unlink_dependents deleting now s ds ?db1 = Inr db'"
      by (auto simp: Let_def rbind_eq_Inr update_tasks_Inr split: if_splits)
    have get1: "get_task j ?db1 = map_option (\<lambda>t. if t_id t = t_id d then ?f t else t) (get_task j db)" for j
      by (rule get_task_upd) simp
    have ids1: "task_ids ?db1 = task_ids db" by (rule task_ids_upd) (rule keeps_dep)
    have same: "\<forall>j\<in>set deleting. get_task j ?db1 = get_task j db"
    proof
      fix j assume j: "j \<in> set deleting"
      show "get_task j ?db1 = get_task j db"
        unfolding get1 using j False by (cases "get_task j db") (auto dest: get_task_id)
    qed
    have rep1: "dependencyReplacement ?db1 s deleting = ?rep"
      by (rule dependencyReplacement_cong [OF same Cons.prems(4) ids1])
    from Cons.prems(3) have dist: "distinct (map t_id ds)" "t_id d \<notin> t_id ` set ds" by auto
    note IH = Cons.IH [OF rest ok1 dist(1) Cons.prems(4), unfolded rep1 ids1]
    have step: "\<exists>t'. get_task j db' = Some t' \<and> t_dependency_mode t' = t_dependency_mode u \<and>
       (if j \<in> t_id ` set ds \<and> j \<notin> set deleting then t_depends_on t' = ?rep else t' = u)"
      if "get_task j ?db1 = Some u" for j u
      using IH that by blast
    have all: "\<exists>t'. get_task j db' = Some t' \<and> t_dependency_mode t' = t_dependency_mode t \<and>
       (if j \<in> t_id ` set (d # ds) \<and> j \<notin> set deleting then t_depends_on t' = ?rep else t' = t)"
      if t: "get_task j db = Some t" for j t
    proof (cases "j = t_id d")
      case True
      with t get1 have "get_task j ?db1 = Some (?f t)" by (auto dest: get_task_id)
      from step [OF this] True dist(2) False show ?thesis by auto
    next
      case ne: False
      with t get1 have "get_task j ?db1 = Some t" by (auto dest: get_task_id)
      from step [OF this] ne show ?thesis by auto
    qed
    have strong: "\<forall>d'\<in>set (d # ds). t_id d' \<notin> set deleting \<longrightarrow> t_dependency_mode d' \<noteq> DependencyStrong"
      using IH weak by simp
    show ?thesis using IH all strong by blast
  qed
qed

lemma unlink_step:
  assumes ok: "schema_ok db" and un: "unlinked db deleting dn db1" and s: "s \<in> set deleting"
    and dn: "dn \<subseteq> set deleting"
    and run: "unlink_dependents deleting now s (filter (\<lambda>t. t_depends_on t = Some s) (tasks db1)) db1 = Inr db2"
  shows "unlinked db deleting (insert s dn) db2"
    and "\<forall>t\<in>set (tasks db). t_depends_on t = Some s \<longrightarrow> s \<notin> dn \<longrightarrow> t_id t \<notin> set deleting \<longrightarrow>
      t_dependency_mode t \<noteq> DependencyStrong"
proof -
  let ?ds = "filter (\<lambda>t. t_depends_on t = Some s) (tasks db1)"
  have ok1: "schema_ok db1" and ids1: "task_ids db1 = task_ids db"
    and rows: "\<And>j t. get_task j db = Some t \<Longrightarrow> \<exists>t'. get_task j db1 = Some t' \<and>
        t_dependency_mode t' = t_dependency_mode t \<and> (j \<in> set deleting \<longrightarrow> t' = t) \<and>
        t_depends_on t' = unlinked_target db deleting dn t"
    using un unfolding unlinked_def by blast+
  have dist: "distinct (map t_id ?ds)" using schema_ok_distinct [OF ok1] by (rule distinct_map_filter)
  note eff = unlink_dependents_effect [OF run ok1 dist s]
  have same: "\<forall>j\<in>set deleting. get_task j db1 = get_task j db"
  proof
    fix j assume j: "j \<in> set deleting"
    show "get_task j db1 = get_task j db"
    proof (cases "get_task j db")
      case None
      then show ?thesis using ids1 get_task_None by metis
    next
      case (Some t)
      with rows [OF Some] j show ?thesis by auto
    qed
  qed
  have rep: "dependencyReplacement db1 s deleting = dependencyReplacement db s deleting"
    by (rule dependencyReplacement_cong [OF same s ids1])
  have in_ds: "j \<in> t_id ` set ?ds \<longleftrightarrow> t_depends_on t' = Some s" if "get_task j db1 = Some t'" for j t'
  proof
    assume "j \<in> t_id ` set ?ds"
    then obtain t where t: "t \<in> set (tasks db1)" "t_depends_on t = Some s" "j = t_id t" by auto
    with get_task_distinct [OF ok1 t(1)] that show "t_depends_on t' = Some s" by simp
  next
    assume "t_depends_on t' = Some s"
    then have "t' \<in> set ?ds" using get_task_mem [OF that] by simp
    then show "j \<in> t_id ` set ?ds" using get_task_id [OF that] by blast
  qed
  have row2: "\<exists>t2. get_task j db2 = Some t2 \<and> t_dependency_mode t2 = t_dependency_mode t \<and>
      (j \<in> set deleting \<longrightarrow> t2 = t) \<and> t_depends_on t2 = unlinked_target db deleting (insert s dn) t"
    if t: "get_task j db = Some t" for j t
  proof -
    from rows [OF t] obtain t1 where t1: "get_task j db1 = Some t1" "t_dependency_mode t1 = t_dependency_mode t"
      "j \<in> set deleting \<longrightarrow> t1 = t" "t_depends_on t1 = unlinked_target db deleting dn t" by blast
    from eff t1(1) obtain t2 where t2: "get_task j db2 = Some t2" "t_dependency_mode t2 = t_dependency_mode t1"
      "if j \<in> t_id ` set ?ds \<and> j \<notin> set deleting then t_depends_on t2 = dependencyReplacement db1 s deleting else t2 = t1"
      by blast
    have id: "t_id t = j" using t by (rule get_task_id)
    have alive: "dependencyReplacement db x deleting \<noteq> Some s" for x
      using replacement_loop_sound [of db deleting "[]" x s] ok s by (auto simp: dependencyReplacement_def)
    have "t_depends_on t2 = unlinked_target db deleting (insert s dn) t"
    proof (cases "t_depends_on t")
      case None
      with t1(4) in_ds [OF t1(1)] t2(3) show ?thesis by (simp add: unlinked_target_def)
    next
      case (Some x)
      with t1(4) in_ds [OF t1(1)] t2(3) id alive rep show ?thesis
        by (cases "j \<in> set deleting"; cases "x \<in> dn"; cases "x = s") (auto simp: unlinked_target_def)
    qed
    moreover have "j \<in> set deleting \<longrightarrow> t2 = t" using t1(3) t2(3) by (simp split: if_splits)
    ultimately show ?thesis using t1(2) t2(1,2) by simp
  qed
  show "unlinked db deleting (insert s dn) db2"
    unfolding unlinked_def using eff ids1 row2 by auto
  show "\<forall>t\<in>set (tasks db). t_depends_on t = Some s \<longrightarrow> s \<notin> dn \<longrightarrow> t_id t \<notin> set deleting \<longrightarrow>
      t_dependency_mode t \<noteq> DependencyStrong"
  proof (intro ballI impI)
    fix t assume t: "t \<in> set (tasks db)" "t_depends_on t = Some s" "s \<notin> dn" "t_id t \<notin> set deleting"
    from rows [OF get_task_distinct [OF ok t(1)]] obtain t1 where t1: "get_task (t_id t) db1 = Some t1"
      "t_dependency_mode t1 = t_dependency_mode t" "t_depends_on t1 = unlinked_target db deleting dn t" by blast
    then have "t1 \<in> set ?ds" using get_task_mem [OF t1(1)] t by (simp add: unlinked_target_def)
    with eff get_task_id [OF t1(1)] t(4) t1(2) show "t_dependency_mode t \<noteq> DependencyStrong" by metis
  qed
qed

lemma unlink_sources_effect:
  "unlink_sources deleting now ss db1 = Inr db' \<Longrightarrow> schema_ok db \<Longrightarrow> unlinked db deleting dn db1 \<Longrightarrow>
   set ss \<subseteq> set deleting \<Longrightarrow> dn \<subseteq> set deleting \<Longrightarrow>
   unlinked db deleting (dn \<union> set ss) db' \<and>
   (\<forall>t\<in>set (tasks db). \<forall>s\<in>set ss - dn. t_depends_on t = Some s \<longrightarrow> t_id t \<notin> set deleting \<longrightarrow>
      t_dependency_mode t \<noteq> DependencyStrong)"
proof (induction ss arbitrary: db1 dn)
  case (Cons s ss)
  from Cons.prems(1) obtain db2 where d: "unlink_dependents deleting now s (filter (\<lambda>t. t_depends_on t = Some s) (tasks db1)) db1 = Inr db2"
    and r: "unlink_sources deleting now ss db2 = Inr db'" by (auto simp: rbind_eq_Inr)
  have s: "s \<in> set deleting" "set ss \<subseteq> set deleting" using Cons.prems(4) by auto
  note st = unlink_step [OF Cons.prems(2,3) s(1) Cons.prems(5) d]
  have sub: "insert s dn \<subseteq> set deleting" using s(1) Cons.prems(5) by simp
  from Cons.IH [OF r Cons.prems(2) st(1) s(2) sub] st(2) show ?case by auto
qed simp

lemma unlinked_start: "schema_ok db \<Longrightarrow> unlinked db deleting {} db"
  by (auto simp: unlinked_def unlinked_target_def split: option.split)

lemma unlink_sessions_effect:
  "unlink_sessions now ss db = Inr db' \<Longrightarrow> schema_ok db \<Longrightarrow>
   schema_ok db' \<and> task_ids db' = task_ids db \<and>
   (\<forall>j t. get_task j db = Some t \<longrightarrow> (\<exists>t'. get_task j db' = Some t' \<and> t_depends_on t' = t_depends_on t \<and>
      t_parent_id t' = t_parent_id t \<and> t_merge_of t' = t_merge_of t))"
proof (induction ss arbitrary: db)
  case (Cons s ss)
  let ?f = "\<lambda>t. t\<lparr>t_session_id := None, t_updated_at := now, t_revision := t_revision t + 1\<rparr>"
  let ?db1 = "db\<lparr>tasks := upd_where (\<lambda>t. t_session_id t = Some s) ?f (tasks db)\<rparr>"
  from Cons.prems have ok1: "schema_ok ?db1" and rest: "unlink_sessions now ss ?db1 = Inr db'"
    by (auto simp: rbind_eq_Inr update_tasks_Inr)
  have get1: "get_task j ?db1 = map_option (\<lambda>t. if t_session_id t = Some s then ?f t else t) (get_task j db)" for j
    by (rule get_task_upd) simp
  have ids1: "task_ids ?db1 = task_ids db" by (rule task_ids_upd) (rule keeps_keysI, simp_all)
  have step: "\<exists>t'. get_task j db' = Some t' \<and> t_depends_on t' = t_depends_on u \<and>
      t_parent_id t' = t_parent_id u \<and> t_merge_of t' = t_merge_of u" if "get_task j ?db1 = Some u" for j u
    using Cons.IH [OF rest ok1] that by blast
  have all: "\<exists>t'. get_task j db' = Some t' \<and> t_depends_on t' = t_depends_on t \<and>
      t_parent_id t' = t_parent_id t \<and> t_merge_of t' = t_merge_of t" if t: "get_task j db = Some t" for j t
  proof -
    from t get1 obtain u where "get_task j ?db1 = Some u" "t_depends_on u = t_depends_on t"
      "t_parent_id u = t_parent_id t" "t_merge_of u = t_merge_of t" by auto
    with step [OF this(1)] show ?thesis by simp
  qed
  have "schema_ok db' \<and> task_ids db' = task_ids ?db1" using Cons.IH [OF rest ok1] by blast
  with ids1 all show ?case by simp
qed simp

section \<open>DeleteTask\<close>

lemma collect_reachable:
  "collectTaskTreeIDs n db seen i = Some out \<Longrightarrow>
     \<forall>x\<in>set out - set seen. (i, x) \<in> {(y, c). c \<in> set (tree_children db y)}\<^sup>*"
  "collect_children n db seen cs = Some out \<Longrightarrow>
     \<forall>x\<in>set out - set seen. \<exists>c\<in>set cs. (c, x) \<in> {(y, c). c \<in> set (tree_children db y)}\<^sup>*"
proof (induction n db seen i and n db seen cs arbitrary: out and out
    rule: collectTaskTreeIDs_collect_children.induct)
  case (2 n db seen i)
  show ?case
  proof (cases "i \<in> set seen \<or> get_task i db = None")
    case True
    with 2(2) show ?thesis by (auto split: if_splits)
  next
    case False
    then have c: "collect_children n db (i # seen) (tree_children db i) = Some out" using 2(2) by auto
    with 2(1) False have IH: "\<forall>x\<in>set out - set (i # seen). \<exists>c\<in>set (tree_children db i).
        (c, x) \<in> {(y, c). c \<in> set (tree_children db y)}\<^sup>*" by blast
    show ?thesis
    proof
      fix x assume x: "x \<in> set out - set seen"
      show "(i, x) \<in> {(y, c). c \<in> set (tree_children db y)}\<^sup>*"
      proof (cases "x = i")
        case False
        with IH x obtain c where "c \<in> set (tree_children db i)"
          "(c, x) \<in> {(y, c). c \<in> set (tree_children db y)}\<^sup>*" by auto
        then show ?thesis by (auto intro: converse_rtrancl_into_rtrancl)
      qed simp
    qed
  qed
next
  case (4 n db seen c cs)
  from 4(3) obtain mid where m: "collectTaskTreeIDs n db seen c = Some mid" "collect_children n db mid cs = Some out"
    by (auto split: option.splits)
  with 4(1) [OF m(1)] 4(2) [OF m] show ?case by auto
qed auto


text \<open>A chain of three tasks, the middle one deleted.\<close>

definition demo_three :: db where
  "demo_three = demo_project_db
     [(demo_in 1 1 1 StatusQueued),
      (demo_in 1 2 2 StatusQueued)\<lparr>t_dependency_mode := DependencyWeak, t_depends_on := Some 1\<rparr>,
      (demo_in 1 3 3 StatusQueued)\<lparr>t_dependency_mode := DependencyWeak, t_depends_on := Some 2\<rparr>]"


section \<open>Deletions that cannot succeed\<close>

definition demo_family :: db where
  "demo_family = demo_project_db
     [(demo_in 1 1 1 StatusSucceeded),
      (demo_in 1 2 2 StatusSucceeded)\<lparr>t_parent_id := Some 1\<rparr>,
      (demo_in 1 3 3 StatusSucceeded)\<lparr>t_parent_id := Some 1, t_dependency_mode := DependencyWeak, t_depends_on := Some 2\<rparr>]"

text \<open>
  The rows of a tree are deleted in the order of their ids while dependencies inside the
  tree are kept. A parent whose second child waits for the first therefore cannot be deleted: the
  statement that removes the first child violates the foreign key of the second one's dependency.
\<close>

lemma DeleteTask_fails_on_inner_dependency:
  "schema_ok demo_family \<and> collectTaskTreeIDs 6 demo_family [] 1 = Some [3, 2, 1] \<and>
   DeleteTask 6 rev 1 ''t1'' demo_family = Some (Inl ErrConstraint)"
  by code_simp

definition demo_loop :: db where
  "demo_loop = demo_project_db [(demo_in 1 1 1 StatusQueued)\<lparr>t_parent_id := Some 1, t_revision := 2, t_updated_at := ''t1''\<rparr>]"

lemma demo_loop_diverges: "deleteTaskTree n 1 demo_loop = None"
proof (induction n)
  case (Suc n)
  have "delete_children demo_loop 1 = [1]" by code_simp
  with Suc show ?case by simp
qed simp

text \<open>
  Nothing keeps a task from being made its own parent by a plain edit. The reading of the tree
  guards against that, the deletion does not: with any amount of fuel it does not come to an end.
\<close>

lemma DeleteTask_diverges:
  "UpdateAtRevision ResTask 1 1 [(ColParentId, AInt 1)] ''t1'' (demo_project_db [demo_in 1 1 1 StatusQueued]) = Inr demo_loop \<and>
   (\<forall>n. DeleteTask n rev 1 ''t2'' demo_loop = None)"
proof -
  have upd: "UpdateAtRevision ResTask 1 1 [(ColParentId, AInt 1)] ''t1'' (demo_project_db [demo_in 1 1 1 StatusQueued]) = Inr demo_loop"
    by code_simp
  have c: "collectTaskTreeIDs n demo_loop [] 1 \<in> {None, Some [1]}" for n
  proof (cases n)
    case (Suc m)
    have k: "tree_children demo_loop 1 = [1]" and g: "get_task 1 demo_loop \<noteq> None" by code_simp+
    then have "collectTaskTreeIDs n demo_loop [] 1 = collect_children m demo_loop [1] [1]" using Suc by auto
    then show ?thesis by (cases m) auto
  qed simp
  have u: "rbind (unlinkTaskDependencies rev [1] ''t2'' demo_loop) (unlinkTaskSessionReferences rev [1] ''t2'') = Inr demo_loop"
    by code_simp
  have "DeleteTask n rev 1 ''t2'' demo_loop = None" for n
    using c [of n] u demo_loop_diverges by (auto simp: DeleteTask_def split: option.split)
  with upd show ?thesis by blast
qed

section \<open>When the deletion returns\<close>

definition kin :: "task \<Rightarrow> int \<times> int option \<times> int option \<times> int option \<times> int option" where
  "kin t = (t_id t, t_parent_id t, t_merge_of t, t_parent_session_id t, t_parent_task_id t)"

definition family_rel :: "db \<Rightarrow> (int \<times> int) set" where
  "family_rel db = {(y, c). c \<in> set (delete_children db y)}"

lemma family_rel_kin:
  assumes "set (map kin (tasks db')) \<subseteq> set (map kin (tasks db))"
  shows "family_rel db' \<subseteq> family_rel db"
proof -
  have "family_rel d = {(y, c). \<exists>a b e f. (c, a, b, e, f) \<in> set (map kin (tasks d)) \<and> Some y \<in> {a, b, e, f}}" for d
    by (force simp: family_rel_def delete_children_mem kin_def)
  with assms show ?thesis by blast
qed

lemma update_tasks_kin:
  "update_tasks p f db = Inr (db', k) \<Longrightarrow> (\<And>t. kin (f t) = kin t) \<Longrightarrow> map kin (tasks db') = map kin (tasks db)"
  by (auto simp: update_tasks_Inr intro: map_upd_where)

lemma kin_rows [simp]:
  "kin (t\<lparr>t_depends_on := x, t_updated_at := now, t_revision := r\<rparr>) = kin t"
  "kin (t\<lparr>t_session_id := y, t_updated_at := now, t_revision := r\<rparr>) = kin t"
  by (simp_all add: kin_def)

lemma unlink_dependents_kin:
  "unlink_dependents deleting now s ds db = Inr db' \<Longrightarrow> map kin (tasks db') = map kin (tasks db)"
proof (induction ds arbitrary: db)
  case (Cons d ds)
  then show ?case
    by (auto simp: Let_def rbind_eq_Inr dest!: update_tasks_kin split: if_splits)
qed simp

lemma unlink_sources_kin:
  "unlink_sources deleting now ss db = Inr db' \<Longrightarrow> map kin (tasks db') = map kin (tasks db)"
  by (induction ss arbitrary: db) (auto simp: rbind_eq_Inr dest!: unlink_dependents_kin)

lemma unlink_sessions_kin:
  "unlink_sessions now ss db = Inr db' \<Longrightarrow> map kin (tasks db') = map kin (tasks db)"
proof (induction ss arbitrary: db)
  case (Cons s ss)
  then show ?case by (auto simp: rbind_eq_Inr dest!: update_tasks_kin)
qed simp

lemma delete_task_row_kin:
  "delete_task_row i db = Inr (db', k) \<Longrightarrow> set (map kin (tasks db')) \<subseteq> set (map kin (tasks db))"
  by (auto simp: delete_task_row_def rbind_eq_Inr exec_stmt_Inr)

lemma acyclic_below: "acyclic {(y, c :: int). y < c}"
proof -
  have "(a, b) \<in> {(y, c :: int). y < c}\<^sup>+ \<Longrightarrow> a < b" for a b
    by (induction rule: trancl_induct) auto
  then show ?thesis by (auto simp: acyclic_def)
qed

text \<open>The number of descendants bounds the depth of the recursion.\<close>

definition descendants :: "(int \<times> int) set \<Rightarrow> int \<Rightarrow> int set" where
  "descendants R i = {c. (i, c) \<in> R\<^sup>+}"

lemma descendants_less:
  assumes "finite R" and "acyclic R" and "(i, c) \<in> R"
  shows "card (descendants R c) < card (descendants R i)"
proof (rule psubset_card_mono)
  have "descendants R i \<subseteq> Range R" by (auto simp: descendants_def dest: tranclD2)
  then show "finite (descendants R i)" using assms(1) finite_Range finite_subset by blast
  have "c \<in> descendants R i" "c \<notin> descendants R c"
    using assms(2,3) by (auto simp: descendants_def acyclic_def)
  moreover have "descendants R c \<subseteq> descendants R i"
    using assms(3) by (auto simp: descendants_def intro: trancl_into_trancl2)
  ultimately show "descendants R c \<subset> descendants R i" by blast
qed

lemma delete_tree_returns:
  "finite R \<Longrightarrow> acyclic R \<Longrightarrow> family_rel db \<subseteq> R \<Longrightarrow> card (descendants R i) < n \<Longrightarrow>
     \<exists>r. deleteTaskTree n i db = Some r \<and> (\<forall>db'. r = Inr db' \<longrightarrow> family_rel db' \<subseteq> R)"
  "finite R \<Longrightarrow> acyclic R \<Longrightarrow> family_rel db \<subseteq> R \<Longrightarrow> (\<forall>c\<in>set cs. card (descendants R c) < n) \<Longrightarrow>
     \<exists>r. delete_trees n cs db = Some r \<and> (\<forall>db'. r = Inr db' \<longrightarrow> family_rel db' \<subseteq> R)"
proof (induction n i db and n cs db rule: deleteTaskTree_delete_trees.induct)
  case (2 n i db)
  have "\<forall>c\<in>set (delete_children db i). card (descendants R c) < n"
    using descendants_less [OF 2(2,3)] 2(4,5) unfolding family_rel_def by fastforce
  with 2 obtain r where r: "delete_trees n (delete_children db i) db = Some r"
    "\<forall>db'. r = Inr db' \<longrightarrow> family_rel db' \<subseteq> R" by blast
  have "family_rel db' \<subseteq> R" if "r = Inr d" "delete_task_row i d = Inr (db', k)" for d db' k
    using r(2) that family_rel_kin [OF delete_task_row_kin] by blast
  with r show ?case
    by (cases r) (auto simp: rbind_eq_Inr split: if_splits)
next
  case (4 n c cs db)
  then obtain r where r: "deleteTaskTree n c db = Some r" "\<forall>db'. r = Inr db' \<longrightarrow> family_rel db' \<subseteq> R" by auto
  show ?case
  proof (cases r)
    case (Inl e)
    with r show ?thesis by auto
  next
    case (Inr d)
    with 4(2) [OF r(1) Inr 4(3,4)] r 4(6) show ?thesis by auto
  qed
qed auto

lemma collect_returns:
  "card (task_ids db - set seen) < n \<Longrightarrow> collectTaskTreeIDs n db seen i \<noteq> None"
  "card (task_ids db - set seen) < n \<Longrightarrow> collect_children n db seen cs \<noteq> None"
proof (induction n db seen i and n db seen cs rule: collectTaskTreeIDs_collect_children.induct)
  case (2 n db seen i)
  show ?case
  proof (cases "i \<in> set seen \<or> get_task i db = None")
    case False
    then obtain t where "get_task i db = Some t" by auto
    from unseen_decreases [OF this, of seen] False 2(2) have "card (task_ids db - set (i # seen)) < n" by simp
    with False 2(1) show ?thesis by simp
  qed auto
next
  case (4 n db seen c cs)
  then obtain mid where m: "collectTaskTreeIDs n db seen c = Some mid" by blast
  have "card (task_ids db - set mid) \<le> card (task_ids db - set seen)"
    by (rule card_mono) (use collect_grows(1) [OF m] in \<open>auto simp: task_ids_def\<close>)
  with 4(2) [OF m] 4(3) m show ?case by auto
qed auto

text \<open>
  C10. Apart from such loops the deletion returns: when the four parent links form no cycle, one
  level of recursion more than there are tasks is enough for every task and every order.
\<close>

theorem DeleteTask_returns:
  assumes "acyclic (family_rel db)" and "card (task_ids db) < n"
  shows "DeleteTask n rng i now db \<noteq> None"
proof -
  define ups where "ups = (\<Union>t\<in>set (tasks db). set_option (t_parent_id t) \<union> set_option (t_merge_of t) \<union>
    set_option (t_parent_session_id t) \<union> set_option (t_parent_task_id t))"
  have fin_prod: "finite (ups \<times> task_ids db)" by (auto simp: ups_def task_ids_def)
  have sub: "family_rel db \<subseteq> ups \<times> task_ids db"
    by (auto simp: family_rel_def delete_children_mem task_ids_def ups_def)
  have fin: "finite (family_rel db)" by (rule finite_subset [OF sub fin_prod])
  have "descendants (family_rel db) i \<subseteq> Range (family_rel db)"
    unfolding descendants_def by (auto dest: tranclD2)
  also have "\<dots> \<subseteq> task_ids db" using sub by blast
  finally have "card (descendants (family_rel db) i) \<le> card (task_ids db)"
    by (rule card_mono [rotated]) (simp add: task_ids_def)
  with assms(2) have depth: "card (descendants (family_rel db) i) < n" by simp
  have c: "collectTaskTreeIDs n db [] i \<noteq> None" using assms(2) by (intro collect_returns) simp
  have "deleteTaskTree n i db2 \<noteq> None"
    if "unlink_sources deleting now ss db = Inr db1" "unlink_sessions now ss' db1 = Inr db2" for deleting ss ss' db1 db2
  proof -
    have "map kin (tasks db2) = map kin (tasks db)"
      using unlink_sources_kin [OF that(1)] unlink_sessions_kin [OF that(2)] by simp
    then have "family_rel db2 \<subseteq> family_rel db" by (intro family_rel_kin) simp
    from delete_tree_returns(1) [OF fin assms(1) this depth] show ?thesis by auto
  qed
  with c show ?thesis
    by (auto simp: DeleteTask_def unlinkTaskDependencies_def unlinkTaskSessionReferences_def rbind_def
        split: option.splits sum.splits)
qed

theorem DeleteTask_returns_witness: "DeleteTask 4 rev 1 ''t1'' demo_family \<noteq> None"
proof (rule DeleteTask_returns)
  have "family_rel demo_family = {(1, 2), (1, 3)}"
    by (auto simp: family_rel_def delete_children_mem demo_family_def demo_project_db_def demo_tasks_def
        demo_in_def demo_task_def)
  then have "family_rel demo_family \<subseteq> {(y, c). y < c}" by auto
  then show "acyclic (family_rel demo_family)" by (meson acyclic_below acyclic_subset)
  show "card (task_ids demo_family) < 4"
    by (simp add: task_ids_def demo_family_def demo_project_db_def demo_tasks_def demo_in_def demo_task_def)
qed

end
