(* ===== verification/Store_Query.thy ===== *)
theory Store_Query
  imports Store_Dependency
begin

text \<open>
  task_query.go, task_schedule.go, task_views.go and the reading part of sessions.go: the lists
  the other components work from. The queue of dispatchable tasks is sorted with Go's
  \<^verbatim>\<open>sort.SliceStable\<close> under \<^verbatim>\<open>queuedTaskLess\<close>; up to twenty elements that is
  an insertion sort, the function \<open>slice_stable\<close>.
\<close>

section \<open>Projections\<close>

definition continuation :: "char \<Rightarrow> bool" where
  "continuation c \<longleftrightarrow> 128 \<le> (of_char c :: nat) \<and> (of_char c :: nat) < 192"

text \<open>\<^verbatim>\<open>substr(body, 1, n)\<close> counts UTF-8 characters.\<close>

fun utf8_take :: "nat \<Rightarrow> string \<Rightarrow> string" where
  "utf8_take 0 s = []"
| "utf8_take (Suc n) [] = []"
| "utf8_take (Suc n) (c # cs) = c # takeWhile continuation cs @ utf8_take n (dropWhile continuation cs)"

definition brief :: "task \<Rightarrow> task" where
  "brief t = t\<lparr>t_body := utf8_take 400 (t_body t)\<rparr>"

record SessionTask =
  ss_id :: int
  ss_title :: string
  ss_body :: string
  ss_status :: status
  ss_perm :: perm
  ss_role_id :: "int option"
  ss_project_id :: "int option"
  ss_project_dir :: string
  ss_worktree_branch :: string
  ss_base_commit :: string
  ss_revision :: int
  ss_created_at :: string
  ss_updated_at :: string
  ss_worktree_path :: string
  ss_session_dir :: string
  ss_last_message_at :: string
  ss_message_count :: int
  ss_suspended_at :: "string option"
  ss_delivered_at :: "string option"

definition AsSession :: "task \<Rightarrow> SessionTask option" where
  "AsSession t =
     (if t_type t \<noteq> TaskTypeSession then None
      else Some \<lparr>ss_id = t_id t, ss_title = t_title t, ss_body = t_body t, ss_status = t_status t,
        ss_perm = t_perm t, ss_role_id = t_role_id t, ss_project_id = t_project_id t,
        ss_project_dir = t_project_dir t, ss_worktree_branch = t_worktree_branch t,
        ss_base_commit = t_base_commit t, ss_revision = t_revision t, ss_created_at = t_created_at t,
        ss_updated_at = t_updated_at t, ss_worktree_path = t_worktree_path t,
        ss_session_dir = t_session_dir t, ss_last_message_at = t_last_message_at t,
        ss_message_count = t_message_count t, ss_suspended_at = t_suspended_at t,
        ss_delivered_at = t_delivered_at t\<rparr>)"

record WorkflowTask =
  wt_id :: int
  wt_title :: string
  wt_body :: string
  wt_status :: status
  wt_project_id :: "int option"
  wt_cron :: string
  wt_enabled :: bool
  wt_revision :: int
  wt_created_at :: string
  wt_updated_at :: string
  wt_spec :: spec_text
  wt_violations :: string
  wt_spec_hash :: string

definition AsWorkflow :: "task \<Rightarrow> WorkflowTask option" where
  "AsWorkflow t =
     (if t_type t \<noteq> TaskTypeWorkflow then None
      else Some \<lparr>wt_id = t_id t, wt_title = t_title t, wt_body = t_body t, wt_status = t_status t,
        wt_project_id = t_project_id t, wt_cron = t_cron t, wt_enabled = t_enabled t,
        wt_revision = t_revision t, wt_created_at = t_created_at t, wt_updated_at = t_updated_at t,
        wt_spec = t_spec t, wt_violations = t_violations t, wt_spec_hash = t_spec_hash t\<rparr>)"

section \<open>Lists\<close>

record TaskFilter =
  tf_role_id :: "int option"
  tf_project_id :: "int option"
  tf_status :: string
  tf_type :: "task_type option"
  tf_scheduled :: "bool option"
  tf_limit :: int

definition ListTasksFiltered :: "TaskFilter \<Rightarrow> db \<Rightarrow> task list" where
  "ListTasksFiltered f db =
     (let rows = filter (\<lambda>t.
          (tf_role_id f = None \<or> t_role_id t = tf_role_id f) \<and>
          (tf_project_id f = None \<or> t_project_id t = tf_project_id f) \<and>
          (tf_status f = [] \<or> t_status t = status_of (tf_status f)) \<and>
          (case tf_type f of None \<Rightarrow> True | Some ty \<Rightarrow> t_type t = ty) \<and>
          (case tf_scheduled f of None \<Rightarrow> True | Some True \<Rightarrow> t_cron t \<noteq> [] | Some False \<Rightarrow> t_cron t = []))
          (tasks db);
        sorted = (if tf_project_id f \<noteq> None
          then sort_key (\<lambda>t. (if t_merge_of t \<noteq> None then 1 else 0 :: int, t_sort_order t, t_created_at t, t_id t)) rows
          else rev (sort_key (\<lambda>t. (t_created_at t, t_id t)) rows));
        limited = (if tf_limit f > 0 then take (nat (tf_limit f)) sorted else sorted)
      in map brief limited)"

definition ListScheduledTasks :: "db \<Rightarrow> task list" where
  "ListScheduledTasks db = map brief (sort_key t_id (filter (\<lambda>t. t_cron t \<noteq> []) (tasks db)))"

definition ListRunningTasks :: "db \<Rightarrow> task list" where
  "ListRunningTasks db =
     map brief (filter (\<lambda>t. t_status t \<in> {StatusRunning, StatusClaimed}) (tasks db))"

definition by_age :: "(task \<Rightarrow> bool) \<Rightarrow> db \<Rightarrow> task list" where
  "by_age p db = sort_key (\<lambda>t. (t_created_at t, t_id t)) (filter p (tasks db))"

definition ListChildren :: "int \<Rightarrow> db \<Rightarrow> task list" where
  "ListChildren parentID db = by_age (\<lambda>t. t_parent_id t = Some parentID) db"

definition ListChildrenBySession :: "int \<Rightarrow> db \<Rightarrow> task list" where
  "ListChildrenBySession sessionID db = by_age (\<lambda>t. t_parent_session_id t = Some sessionID) db"

definition ListChildrenByParentTask :: "int \<Rightarrow> db \<Rightarrow> task list" where
  "ListChildrenByParentTask parentTaskID db = by_age (\<lambda>t. t_parent_task_id t = Some parentTaskID) db"

definition HasTask :: "int \<Rightarrow> db \<Rightarrow> bool" where
  "HasTask i db \<longleftrightarrow> 0 < affected (\<lambda>t. t_id t = i) (tasks db)"

definition TaskExistsByExternalKey :: "string \<Rightarrow> db \<Rightarrow> bool" where
  "TaskExistsByExternalKey key db \<longleftrightarrow> key \<noteq> [] \<and> list_ex (\<lambda>t. t_external_key t = key) (tasks db)"

definition ListSessionTasks :: "int option \<Rightarrow> int option \<Rightarrow> string \<Rightarrow> bool \<Rightarrow> db \<Rightarrow> task list" where
  "ListSessionTasks projectID roleID status includeDeleted db =
     map brief (rev (sort_key (\<lambda>t. (if t_last_message_at t \<noteq> [] then t_last_message_at t else t_created_at t, t_id t))
       (filter (\<lambda>t. t_type t = TaskTypeSession \<and> t_cron t = [] \<and>
          (projectID = None \<or> t_project_id t = projectID) \<and> (roleID = None \<or> t_role_id t = roleID) \<and>
          (if status \<noteq> [] then t_status t = status_of status
           else includeDeleted \<or> t_status t \<noteq> SessionStatusDeleted)) (tasks db))))"

definition GetSessionTask :: "int \<Rightarrow> db \<Rightarrow> task option" where
  "GetSessionTask i db =
     (case get_task i db of None \<Rightarrow> None | Some t \<Rightarrow> if AsSession t = None then None else Some t)"

definition ListSessionsForTask :: "int \<Rightarrow> db \<Rightarrow> int list" where
  "ListSessionsForTask taskID db = map t_id (filter (\<lambda>t. t_session_id t = Some taskID) (tasks db))"

section \<open>The queue\<close>

fun gins :: "('a \<Rightarrow> 'a \<Rightarrow> bool) \<Rightarrow> 'a \<Rightarrow> 'a list \<Rightarrow> 'a list" where
  "gins lt x [] = [x]"
| "gins lt x (y # ys) = (if lt x y then y # gins lt x ys else x # y # ys)"

text \<open>The sorted prefix is kept in reverse: a new element moves left while it is less.\<close>

definition slice_stable :: "('a \<Rightarrow> 'a \<Rightarrow> bool) \<Rightarrow> 'a list \<Rightarrow> 'a list" where
  "slice_stable lt xs = rev (fold (gins lt) xs [])"

fun proj_earliest :: "(int \<rightharpoonup> string) \<Rightarrow> task list \<Rightarrow> (int \<rightharpoonup> string)" where
  "proj_earliest m [] = m"
| "proj_earliest m (t # ts) =
    (case t_project_id t of
       None \<Rightarrow> proj_earliest m ts
     | Some p \<Rightarrow>
         (case m p of
            None \<Rightarrow> proj_earliest (m(p \<mapsto> t_created_at t)) ts
          | Some cur \<Rightarrow> if t_created_at t < cur then proj_earliest (m(p \<mapsto> t_created_at t)) ts
              else proj_earliest m ts))"

definition queueKey :: "(int \<rightharpoonup> string) \<Rightarrow> task \<Rightarrow> string" where
  "queueKey earliest t =
     (case t_project_id t of
        None \<Rightarrow> t_created_at t
      | Some p \<Rightarrow> (case earliest p of None \<Rightarrow> t_created_at t | Some e \<Rightarrow> e))"

definition queuedTaskLess :: "(int \<rightharpoonup> string) \<Rightarrow> task \<Rightarrow> task \<Rightarrow> bool" where
  "queuedTaskLess earliest a b =
     (let aKey = queueKey earliest a; bKey = queueKey earliest b in
      if aKey \<noteq> bKey then aKey < bKey
      else let aMerge = (t_merge_of a \<noteq> None); bMerge = (t_merge_of b \<noteq> None) in
        if aMerge \<noteq> bMerge then aMerge
        else if t_project_id a \<noteq> None \<and> t_project_id b \<noteq> None \<and> t_project_id a = t_project_id b \<and>
           t_sort_order a \<noteq> t_sort_order b then t_sort_order a < t_sort_order b
        else if t_created_at a \<noteq> t_created_at b then t_created_at a < t_created_at b
        else t_id a < t_id b)"

definition queue_rows :: "db \<Rightarrow> task list" where
  "queue_rows db =
     map brief (by_age (\<lambda>t. t_status t = StatusQueued \<and> t_type t = TaskTypeTask \<and> t_cron t = [] \<and>
       (case t_role_id t of
          None \<Rightarrow> False
        | Some r \<Rightarrow> (case get_role_row r db of None \<Rightarrow> False | Some a \<Rightarrow> a_enabled a))) db)"

definition ListQueuedTasks :: "db \<Rightarrow> task list" where
  "ListQueuedTasks db =
     (let out = queue_rows db in slice_stable (queuedTaskLess (proj_earliest Map.empty out)) out)"

section \<open>The order of the queue\<close>

text \<open>Under a comparison by a key the insertion sort is the stable sort by that key.\<close>

lemma mset_gins: "mset (gins lt x ys) = add_mset x (mset ys)"
  by (induction ys) auto

lemma mset_slice_stable: "mset (slice_stable lt xs) = mset xs"
proof -
  have "mset (fold (gins lt) xs ys) = mset xs + mset ys" for ys
    by (induction xs arbitrary: ys) (auto simp: mset_gins)
  then show ?thesis by (simp add: slice_stable_def)
qed

lemma set_gins: "set (gins lt x ys) = insert x (set ys)"
  by (induction ys) auto

lemma gins_sorted:
  "sorted (map k (rev ys)) \<Longrightarrow> sorted (map k (rev (gins (\<lambda>a b. k a < (k b :: 'k :: linorder)) x ys)))"
  by (induction ys) (auto simp: sorted_append set_gins)

lemma gins_filter:
  "sorted (map k (rev ys)) \<Longrightarrow>
   filter (\<lambda>y. c = k y) (gins (\<lambda>a b. k a < (k b :: 'k :: linorder)) x ys) =
     filter (\<lambda>y. c = k y) (x # ys)"
  by (induction ys) (auto simp: sorted_append)

lemma slice_stable_key:
  fixes k :: "'a \<Rightarrow> 'k :: linorder"
  shows "slice_stable (\<lambda>a b. k a < k b) xs = sort_key k xs"
proof -
  let ?l = "\<lambda>a b. k a < k b"
  have inv: "sorted (map k (rev (fold (gins ?l) xs ys))) \<and>
      filter (\<lambda>y. c = k y) (rev (fold (gins ?l) xs ys)) = filter (\<lambda>y. c = k y) (rev ys @ xs)"
    if "sorted (map k (rev ys))" for c ys
    using that
  proof (induction xs arbitrary: ys)
    case (Cons x xs)
    have "filter (\<lambda>y. c = k y) (rev (gins ?l x ys) @ xs) = filter (\<lambda>y. c = k y) (rev ys @ x # xs)"
      using gins_filter [OF Cons.prems, of c x]
      by (simp flip: rev_filter)
    with Cons.IH [OF gins_sorted [OF Cons.prems, of x]] show ?case by simp
  qed simp
  show ?thesis
    by (rule properties_for_sort_key [symmetric])
      (use inv [of "[]"] mset_slice_stable [of ?l xs] in \<open>auto simp: slice_stable_def\<close>)
qed

lemma slice_stable_cong:
  assumes "\<And>a b. a \<in> set xs \<Longrightarrow> b \<in> set xs \<Longrightarrow> lt a b = lt' a b"
  shows "slice_stable lt xs = slice_stable lt' xs"
proof -
  have ins: "gins lt x ys = gins lt' x ys" if "x \<in> set xs" "set ys \<subseteq> set xs" for x ys
    using that(2) by (induction ys) (auto simp: assms that(1))
  have "fold (gins lt) zs ys = fold (gins lt') zs ys" if "set zs \<subseteq> set xs" "set ys \<subseteq> set xs" for zs ys
    using that by (induction zs arbitrary: ys) (auto simp: ins set_gins)
  then show ?thesis by (simp add: slice_stable_def)
qed

text \<open>
  The order the dispatcher is meant to see: projects compete by their earliest queued task;
  within one, merge tasks first, then the project order.
\<close>

definition queue_order :: "(int \<rightharpoonup> string) \<Rightarrow> task \<Rightarrow> string \<times> int \<times> int \<times> string \<times> int" where
  "queue_order earliest t =
     (queueKey earliest t, if t_merge_of t \<noteq> None then 0 else 1,
      if t_project_id t = None then 0 else t_sort_order t, t_created_at t, t_id t)"


definition demo_queue :: db where
  "demo_queue = demo_project_db
     [(demo_in 1 2 1 StatusQueued)\<lparr>t_created_at := ''t1''\<rparr>,
      (demo_in 1 1 2 StatusQueued)\<lparr>t_created_at := ''t3''\<rparr>,
      (demo_task 3 StatusQueued)\<lparr>t_created_at := ''t2''\<rparr>]"


definition demo_tie :: db where
  "demo_tie = demo_project_db
     [(demo_in 1 2 1 StatusQueued)\<lparr>t_created_at := ''t0''\<rparr>,
      (demo_in 2 1 2 StatusQueued)\<lparr>t_created_at := ''t0''\<rparr>,
      (demo_in 1 1 3 StatusQueued)\<lparr>t_created_at := ''t1''\<rparr>]"

text \<open>
  When two projects share their earliest creation time (the clock has a resolution of one
  second) \<^verbatim>\<open>queuedTaskLess\<close> is not transitive and the dispatcher can see a project's
  tasks out of their order: task 1 of project 1 comes before task 3, although the user put task 3
  first.
\<close>

lemma queuedTaskLess_not_transitive:
  "schema_ok demo_tie \<and>
   (let e = proj_earliest Map.empty (queue_rows demo_tie);
        a = tasks demo_tie ! 0; b = tasks demo_tie ! 1; c = tasks demo_tie ! 2
    in queuedTaskLess e a b \<and> queuedTaskLess e b c \<and> queuedTaskLess e c a) \<and>
   map t_id (ListQueuedTasks demo_tie) = [1, 2, 3] \<and>
   t_sort_order (tasks demo_tie ! 2) < t_sort_order (tasks demo_tie ! 0)"
  by code_simp

end
