(* ===== verification/Store_Workflow.thy ===== *)
theory Store_Workflow
  imports Store_Query "HOL-Library.AList"
begin

text \<open>
  workflows.go: workflow definitions are task rows of type \<^verbatim>\<open>workflow\<close> holding a
  specification; a run is a row that names the tasks created for the nodes. The JSON of a
  specification and of a run's task ids is the value itself (\<^verbatim>\<open>encoding/json\<close> reads back
  what it wrote); the object of task ids is the list of its entries in key order. \<open>render\<close> is
  \<^verbatim>\<open>workflow.RenderIntent\<close> (\<^verbatim>\<open>render_intent\<close> of \<^verbatim>\<open>Workflow_Policy\<close>) at the
  current time.
\<close>

section \<open>Definitions\<close>

text \<open>Go's zero value of the row type.\<close>

definition zero_task :: task where
  "zero_task =
     \<lparr>t_id = 0, t_type = TaskTypeOther [], t_title = [], t_body = [], t_status = StatusOther [],
      t_perm = PermOther [], t_run_mode = RunModeOther [], t_concurrent = False, t_role_id = None,
      t_project_id = None, t_project_dir = [], t_parent_id = None, t_depends_on = None,
      t_dependency_mode = DependencyOther [], t_block_on_failure = False, t_schedule_id = None,
      t_error = [], t_exit_code = None, t_review_note = [], t_review_rounds = 0, t_tmux_log_offset = 0,
      t_worktree_branch = [], t_base_commit = [], t_resume_of = None, t_merge_of = None,
      t_merge_skipped = False, t_sort_order = 0, t_terminal_cols = 0, t_terminal_rows = 0,
      t_session_id = None, t_workflow_run_id = None, t_parent_session_id = None,
      t_parent_task_id = None, t_cron = [], t_enabled = False, t_last_run_at = None,
      t_next_run_at = None, t_worktree_path = [], t_session_dir = [], t_last_message_at = [],
      t_message_count = 0, t_suspended_at = None, t_delivered_at = None, t_spec = SpecEmpty,
      t_violations = [], t_spec_hash = [], t_external_key = [], t_revision = 0, t_created_at = [],
      t_started_at = None, t_finished_at = None, t_updated_at = []\<rparr>"

definition CreateWorkflowTask ::
  "string \<Rightarrow> spec \<Rightarrow> string \<Rightarrow> bool \<Rightarrow> int option \<Rightarrow> string \<Rightarrow> db \<Rightarrow> store_error + (db \<times> int)" where
  "CreateWorkflowTask now sp cron enabled pid hash db =
     CreateTask now (zero_task\<lparr>t_type := TaskTypeWorkflow, t_title := s_goal sp, t_body := s_goal sp,
       t_status := WorkflowStatusAdopted, t_project_id := pid, t_spec := SpecJson sp,
       t_spec_hash := hash, t_cron := cron, t_enabled := enabled\<rparr>) db"

definition GetWorkflowTask :: "int \<Rightarrow> db \<Rightarrow> task option" where
  "GetWorkflowTask i db =
     (case get_task i db of
        None \<Rightarrow> None
      | Some t \<Rightarrow> if AsWorkflow t = None then None else Some t)"

definition ListWorkflowTasks :: "db \<Rightarrow> task list" where
  "ListWorkflowTasks db =
     ListTasksFiltered \<lparr>tf_role_id = None, tf_project_id = None, tf_status = [],
       tf_type = Some TaskTypeWorkflow, tf_scheduled = None, tf_limit = 0\<rparr> db"

definition workflow_row :: "string \<Rightarrow> spec \<Rightarrow> string \<Rightarrow> bool \<Rightarrow> int option \<Rightarrow> string \<Rightarrow> task \<Rightarrow> task" where
  "workflow_row now sp cron enabled pid hash t =
     t\<lparr>t_title := s_goal sp, t_body := s_goal sp, t_spec := SpecJson sp, t_spec_hash := hash,
       t_cron := cron, t_enabled := enabled, t_project_id := pid, t_updated_at := now,
       t_revision := t_revision t + 1\<rparr>"

definition UpdateWorkflowTask ::
  "string \<Rightarrow> int \<Rightarrow> int \<Rightarrow> spec \<Rightarrow> string \<Rightarrow> bool \<Rightarrow> int option \<Rightarrow> string \<Rightarrow> db
     \<Rightarrow> store_error + (db \<times> task option)" where
  "UpdateWorkflowTask now i expected sp cron enabled pid hash db =
     rbind (update_tasks (\<lambda>t. t_id t = i \<and> t_revision t = expected \<and> t_type t = TaskTypeWorkflow)
         (workflow_row now sp cron enabled pid hash) db)
       (\<lambda>(db', n). if n \<noteq> 1 then Inl ErrRevisionConflict else Inr (db', GetWorkflowTask i db'))"

text \<open>
  \<^verbatim>\<open>DELETE FROM workflow_runs\<close>: tasks that still name a deleted run go with it
  (\<^verbatim>\<open>ON DELETE CASCADE\<close>), and their edges and log lines with them.
\<close>

definition delete_runs :: "(run \<Rightarrow> bool) \<Rightarrow> db \<Rightarrow> store_error + db" where
  "delete_runs p db =
     (let gone = map r_id (filter p (runs db));
          doomed = map t_id (filter (\<lambda>t. \<exists>r\<in>set gone. t_workflow_run_id t = Some r) (tasks db)) in
      exec_stmt (db\<lparr>runs := del_where p (runs db),
        tasks := del_where (\<lambda>t. t_id t \<in> set doomed) (tasks db),
        deps := del_where (\<lambda>d. d_task_id d \<in> set doomed) (deps db),
        logs := del_where (\<lambda>g. g_task_id g \<in> set doomed) (logs db)\<rparr>))"

definition delete_tasks_where :: "(task \<Rightarrow> bool) \<Rightarrow> db \<Rightarrow> store_error + db" where
  "delete_tasks_where p db =
     (let doomed = map t_id (filter p (tasks db)) in
      exec_stmt (db\<lparr>tasks := del_where p (tasks db),
        deps := del_where (\<lambda>d. d_task_id d \<in> set doomed) (deps db),
        logs := del_where (\<lambda>g. g_task_id g \<in> set doomed) (logs db)\<rparr>))"

definition run_active :: "run \<Rightarrow> bool" where
  "run_active r \<longleftrightarrow> r_status r \<in> {RunStatusCreated, RunStatusRunning}"

definition DeleteWorkflowTask :: "string \<Rightarrow> int \<Rightarrow> int \<Rightarrow> db \<Rightarrow> store_error + db" where
  "DeleteWorkflowTask now i expected db =
     (case sel t_id i (filter (\<lambda>t. t_type t = TaskTypeWorkflow) (tasks db)) of
        None \<Rightarrow> Inl ErrNoRows
      | Some t \<Rightarrow>
          if t_revision t \<noteq> expected then Inl ErrRevisionConflict
          else if list_ex (\<lambda>r. r_workflow_id r = i \<and> run_active r) (runs db) then Inl ErrWorkflowRunsActive
          else
            let own = map r_id (filter (\<lambda>r. r_workflow_id r = i) (runs db)) in
            rbind (update_tasks (\<lambda>t. \<exists>r\<in>set own. t_workflow_run_id t = Some r)
                (\<lambda>t. t\<lparr>t_workflow_run_id := None, t_updated_at := now\<rparr>) db) (\<lambda>(db1, n1).
            rbind (delete_runs (\<lambda>r. r_workflow_id r = i) db1) (\<lambda>db2.
            delete_tasks_where
              (\<lambda>t. t_id t = i \<and> t_revision t = expected \<and> t_type t = TaskTypeWorkflow) db2)))"

section \<open>Runs\<close>

definition insert_run_row :: "run \<Rightarrow> db \<Rightarrow> store_error + (db \<times> int)" where
  "insert_run_row r db =
     (let i = next_id (run_seq db) (map r_id (runs db)) in
      rbind (exec_stmt (db\<lparr>runs := runs db @ [r\<lparr>r_id := i\<rparr>], run_seq := i\<rparr>)) (\<lambda>db'. Inr (db', i)))"

definition insert_dep_row :: "dep \<Rightarrow> db \<Rightarrow> store_error + db" where
  "insert_dep_row d db = exec_stmt (db\<lparr>deps := deps db @ [d]\<rparr>)"

definition node_task :: "(string \<Rightarrow> string) \<Rightarrow> spec \<Rightarrow> int \<Rightarrow> string \<Rightarrow> int \<Rightarrow> node \<Rightarrow> task" where
  "node_task render sp pid dir rid n =
     zero_task\<lparr>t_title := render (n_intent n), t_body := render (n_intent n), t_status := StatusQueued,
       t_perm := perm_of (n_permission n), t_run_mode := RunModeBatch,
       t_concurrent := l_max_concurrency (s_limits sp) > 1, t_role_id := Some (rs_role_id (n_role n)),
       t_project_id := Some pid, t_project_dir := dir, t_workflow_run_id := Some rid,
       t_dependency_mode := DependencyNone, t_block_on_failure := (n_failure_policy n = ''stop'')\<rparr>"

fun create_nodes :: "(string \<Rightarrow> string) \<Rightarrow> string \<Rightarrow> spec \<Rightarrow> int \<Rightarrow> string \<Rightarrow> int \<Rightarrow> node list
    \<Rightarrow> (string \<times> int) list \<Rightarrow> db \<Rightarrow> store_error + (db \<times> (string \<times> int) list)" where
  "create_nodes render now sp pid dir rid [] ids db = Inr (db, ids)"
| "create_nodes render now sp pid dir rid (n # ns) ids db =
    rbind (insertTask (assignNextTaskSortOrder db
        (prepareTaskForInsert now (node_task render sp pid dir rid n))) db) (\<lambda>(db', i).
      create_nodes render now sp pid dir rid ns (AList.update (n_id n) i ids) db')"

definition on_failure :: "node \<Rightarrow> string" where
  "on_failure n = (if n_failure_policy n = ''continue'' then ''continue'' else ''block'')"

text \<open>A missing key of a Go map reads as zero, the value of the \<^verbatim>\<open>task_id\<close> operand.\<close>

definition id_at :: "(string \<times> int) list \<Rightarrow> string \<Rightarrow> int" where
  "id_at ids k = (case map_of ids k of None \<Rightarrow> 0 | Some i \<Rightarrow> i)"

fun node_edges :: "(string \<times> int) list \<Rightarrow> node \<Rightarrow> string list \<Rightarrow> db \<Rightarrow> store_error + db" where
  "node_edges ids n [] db = Inr db"
| "node_edges ids n (d # ds) db =
    (case map_of ids d of
       None \<Rightarrow> Inl (Err MsgDependencyNodeMissing)
     | Some source \<Rightarrow>
         rbind (insert_dep_row \<lparr>d_task_id = id_at ids (n_id n), d_depends_on = source,
             d_on_failure = on_failure n\<rparr> db) (node_edges ids n ds))"

fun create_edges :: "(string \<times> int) list \<Rightarrow> node list \<Rightarrow> db \<Rightarrow> store_error + db" where
  "create_edges ids [] db = Inr db"
| "create_edges ids (n # ns) db = rbind (node_edges ids n (n_depends_on n) db) (create_edges ids ns)"

definition InstantiateWorkflow ::
  "(string \<Rightarrow> string \<Rightarrow> string) \<Rightarrow> string \<Rightarrow> WorkflowTask \<Rightarrow> int \<Rightarrow> string \<Rightarrow> db \<Rightarrow> store_error + (db \<times> run)" where
  "InstantiateWorkflow render now tk pid custom db =
     (case get_task (wt_id tk) db of
        None \<Rightarrow> Inl ErrNoRows
      | Some row \<Rightarrow>
          if t_status row \<noteq> WorkflowStatusAdopted \<or> t_revision row \<noteq> wt_revision tk
          then Inl ErrRevisionConflict
          else case wt_spec tk of
              SpecEmpty \<Rightarrow> Inl (Err MsgSpecUnreadable)
            | SpecBad _ \<Rightarrow> Inl (Err MsgSpecUnreadable)
            | SpecJson sp \<Rightarrow>
                (case sel p_id pid (filter (\<lambda>p. p_status p = ''active'') (projects db)) of
                   None \<Rightarrow> Inl (Err MsgProjectUnavailable)
                 | Some p \<Rightarrow>
                     let task = trim_space custom;
                         r = \<lparr>r_id = 0, r_workflow_id = wt_id tk, r_project_id = pid, r_task = task,
                           r_status = RunStatusRunning, r_task_ids = [], r_revision = 1,
                           r_created_at = now, r_started_at = Some now, r_finished_at = None,
                           r_updated_at = now\<rparr>;
                         nodes = sort_key n_id (s_nodes sp) in
                     rbind (insert_run_row r db) (\<lambda>(db1, rid).
                     rbind (create_nodes (\<lambda>s. render s task) now sp pid (p_project_dir p) rid nodes [] db1) (\<lambda>(db2, ids).
                     rbind (create_edges ids nodes db2) (\<lambda>db3.
                     rbind (exec_stmt (db3\<lparr>runs := upd_where (\<lambda>r. r_id r = rid)
                         (\<lambda>r. r\<lparr>r_task_ids := ids\<rparr>) (runs db3)\<rparr>)) (\<lambda>db4.
                     Inr (db4, r\<lparr>r_id := rid, r_task_ids := ids\<rparr>)))))))"

definition WorkflowRunConcurrencyLimit :: "int \<Rightarrow> db \<Rightarrow> store_error + int" where
  "WorkflowRunConcurrencyLimit rid db =
     (case get_run rid db of
        None \<Rightarrow> Inl ErrNoRows
      | Some r \<Rightarrow>
          (case get_task (r_workflow_id r) db of
             None \<Rightarrow> Inl ErrNoRows
           | Some t \<Rightarrow>
               (case t_spec t of
                  SpecJson sp \<Rightarrow>
                    Inr (if l_max_concurrency (s_limits sp) < 1 then 1 else l_max_concurrency (s_limits sp))
                | _ \<Rightarrow> Inl (Err MsgSpecUnreadable))))"

definition ListActiveWorkflowRuns :: "db \<Rightarrow> run list" where
  "ListActiveWorkflowRuns db = sort_key r_id (filter (\<lambda>r. r_status r = RunStatusRunning) (runs db))"

definition ListWorkflowRunsByWorkflow :: "int \<Rightarrow> db \<Rightarrow> run list" where
  "ListWorkflowRunsByWorkflow i db = rev (sort_key r_id (filter (\<lambda>r. r_workflow_id r = i) (runs db)))"

definition finish_run_row :: "run_status \<Rightarrow> string \<Rightarrow> run \<Rightarrow> run" where
  "finish_run_row st now r =
     r\<lparr>r_status := st, r_finished_at := Some now, r_updated_at := now, r_revision := r_revision r + 1\<rparr>"

definition FinishWorkflowRun :: "int \<Rightarrow> int \<Rightarrow> run_status \<Rightarrow> string \<Rightarrow> db \<Rightarrow> store_error + db" where
  "FinishWorkflowRun rid expected st now db =
     (if st \<notin> {RunStatusSucceeded, RunStatusFailed, RunStatusCancelled} then Inl (Err MsgBadRunStatus)
      else
        let p = (\<lambda>r. r_id r = rid \<and> r_revision r = expected \<and> r_status r = RunStatusRunning) in
        rbind (exec_stmt (db\<lparr>runs := upd_where p (finish_run_row st now) (runs db)\<rparr>)) (\<lambda>db'.
          if affected p (runs db) \<noteq> 1 then Inl ErrRevisionConflict else Inr db'))"

end
