(* ===== verification/Workflow_Laws.thy ===== *)
theory Workflow_Laws
  imports Store_Workflow
begin

text \<open>
  What instantiating, editing, deleting and finishing guarantee: a run holds exactly one task
  per node with the edges of the definition, a deletion keeps the history of finished runs, and
  the writes to definitions and runs satisfy the contract of the optimistic writes.
\<close>

section \<open>Instantiation\<close>

text \<open>The row of a node's task.\<close>

definition node_row :: "(string \<Rightarrow> string) \<Rightarrow> spec \<Rightarrow> int \<Rightarrow> string \<Rightarrow> int \<Rightarrow> node \<Rightarrow> task \<Rightarrow> bool" where
  "node_row render sp pid dir rid n t \<longleftrightarrow>
     t_type t = TaskTypeTask \<and> t_title t = render (n_intent n) \<and> t_body t = render (n_intent n) \<and>
     t_status t = StatusQueued \<and> t_perm t = perm_of (n_permission n) \<and> t_run_mode t = RunModeBatch \<and>
     t_concurrent t = (1 < l_max_concurrency (s_limits sp)) \<and>
     t_role_id t = Some (rs_role_id (n_role n)) \<and> t_project_id t = Some pid \<and> t_project_dir t = dir \<and>
     t_workflow_run_id t = Some rid \<and> t_depends_on t = None \<and> t_dependency_mode t = DependencyNone \<and>
     t_merge_of t = None \<and> t_cron t = [] \<and> t_block_on_failure t = (n_failure_policy n = ''stop'')"

lemma node_row_inserted:
  "node_row render sp pid dir rid n ((with_defaults (assignNextTaskSortOrder db
     (prepareTaskForInsert now (node_task render sp pid dir rid n))))\<lparr>t_id := i\<rparr>)"
  by (simp add: node_row_def node_task_def zero_task_def prepareTaskForInsert_def
      normalizeDependencyMode_def assignNextTaskSortOrder_def with_defaults_def Let_def)

lemma insertTask_frame:
  assumes "insertTask t db = Inr (db', i)"
  shows "runs db' = runs db" "deps db' = deps db" "roles db' = roles db" "projects db' = projects db"
    "run_seq db' = run_seq db"
  using assms by (auto simp: insertTask_def insert_task_row_Inr)

lemma update_new: "k \<notin> fst ` set al \<Longrightarrow> AList.update k v al = al @ [(k, v)]"
  by (induction al) auto

lemma create_nodes_effect:
  assumes "create_nodes render now sp pid dir rid ns ids db = Inr (db', ids')"
    and "distinct (map n_id ns)" and "n_id ` set ns \<inter> fst ` set ids = {}"
  shows "\<exists>new. tasks db' = tasks db @ new \<and> list_all2 (node_row render sp pid dir rid) ns new \<and>
    ids' = ids @ zip (map n_id ns) (map t_id new) \<and> runs db' = runs db \<and> deps db' = deps db \<and>
    run_seq db' = run_seq db \<and> roles db' = roles db \<and> projects db' = projects db \<and> (schema_ok db \<longrightarrow> schema_ok db')"
  using assms
proof (induction ns arbitrary: ids db)
  case Nil
  then show ?case by simp
next
  case (Cons n ns)
  let ?t = "assignNextTaskSortOrder db (prepareTaskForInsert now (node_task render sp pid dir rid n))"
  from Cons.prems(1) obtain db1 i where ins: "insertTask ?t db = Inr (db1, i)"
    and rest: "create_nodes render now sp pid dir rid ns (AList.update (n_id n) i ids) db1 = Inr (db', ids')"
    by (auto simp: rbind_eq_Inr)
  have upd: "AList.update (n_id n) i ids = ids @ [(n_id n, i)]"
    using Cons.prems(3) by (intro update_new) auto
  let ?r = "(with_defaults ?t)\<lparr>t_id := i\<rparr>"
  have d: "distinct (map n_id ns)" "n_id ` set ns \<inter> fst ` set (AList.update (n_id n) i ids) = {}"
    using Cons.prems(2,3) unfolding upd by auto
  from Cons.IH [OF rest d] obtain new where new: "tasks db' = tasks db1 @ new"
    "list_all2 (node_row render sp pid dir rid) ns new"
    "ids' = (ids @ [(n_id n, i)]) @ zip (map n_id ns) (map t_id new)" "runs db' = runs db1"
    "deps db' = deps db1" "run_seq db' = run_seq db1" "roles db' = roles db1" "projects db' = projects db1"
    "schema_ok db1 \<longrightarrow> schema_ok db'"
    unfolding upd by auto
  have "schema_ok db'" using new(9) insertTask_row(4) [OF ins] by simp
  then show ?case
    using new insertTask_row(6) [OF ins] insertTask_frame [OF ins]
      node_row_inserted [where db = db and i = i and now = now]
    by (intro exI [of _ "?r # new"]) simp
qed

text \<open>The edges of the definition, between the tasks of the run.\<close>

definition edges_of :: "(string \<times> int) list \<Rightarrow> node list \<Rightarrow> dep list" where
  "edges_of ids ns = concat (map (\<lambda>n. map (\<lambda>d. \<lparr>d_task_id = id_at ids (n_id n), d_depends_on = id_at ids d,
     d_on_failure = on_failure n\<rparr>) (n_depends_on n)) ns)"

lemma node_edges_effect:
  assumes "node_edges ids n ds db = Inr db'"
  shows "db' = db\<lparr>deps := deps db @ map (\<lambda>d. \<lparr>d_task_id = id_at ids (n_id n), d_depends_on = id_at ids d,
      d_on_failure = on_failure n\<rparr>) ds\<rparr> \<and> set ds \<subseteq> fst ` set ids"
  using assms
proof (induction ds arbitrary: db)
  case (Cons d ds)
  then obtain s db1 where s: "map_of ids d = Some s" and
    db1: "db1 = db\<lparr>deps := deps db @ [\<lparr>d_task_id = id_at ids (n_id n), d_depends_on = s,
      d_on_failure = on_failure n\<rparr>]\<rparr>" and rest: "node_edges ids n ds db1 = Inr db'"
    by (auto simp: insert_dep_row_def rbind_eq_Inr exec_stmt_Inr split: option.splits)
  have "id_at ids d = s" by (simp add: id_at_def s)
  moreover have "d \<in> fst ` set ids" using s by (force dest: map_of_SomeD)
  ultimately show ?case using Cons.IH [OF rest] by (simp add: db1)
qed simp

lemma create_edges_effect:
  "create_edges ids ns db = Inr db' \<Longrightarrow> db' = db\<lparr>deps := deps db @ edges_of ids ns\<rparr>"
proof (induction ns arbitrary: db)
  case (Cons n ns)
  then obtain db1 where db1: "node_edges ids n (n_depends_on n) db = Inr db1" "create_edges ids ns db1 = Inr db'"
    by (auto simp: rbind_eq_Inr)
  from Cons.IH [OF db1(2)] node_edges_effect [OF db1(1)] show ?case by (simp add: edges_of_def)
qed (simp add: edges_of_def)

lemma create_edges_known:
  "create_edges ids ns db = Inr db' \<Longrightarrow> n \<in> set ns \<Longrightarrow> set (n_depends_on n) \<subseteq> fst ` set ids"
  by (induction ns arbitrary: db) (auto simp: rbind_eq_Inr dest!: node_edges_effect)

text \<open>The state a successful instantiation leaves, in terms of the rows it adds.\<close>

lemma InstantiateWorkflow_rows:
  assumes inst: "InstantiateWorkflow render now tk pid custom db = Inr (db', run)"
    and sp: "wt_spec tk = SpecJson sp" and dist: "distinct (map n_id (s_nodes sp))"
  obtains new dir where
    "tasks db' = tasks db @ new"
    "list_all2 (node_row (\<lambda>s. render s (trim_space custom)) sp pid dir (r_id run)) (sort_key n_id (s_nodes sp)) new"
    "r_task_ids run = zip (map n_id (sort_key n_id (s_nodes sp))) (map t_id new)"
    "deps db' = deps db @ edges_of (r_task_ids run) (sort_key n_id (s_nodes sp))"
    "r_id run \<notin> run_ids db" "runs db' = runs db @ [run]" "schema_ok db'"
    "r_status run = RunStatusRunning" "r_workflow_id run = wt_id tk" "r_project_id run = pid"
    "\<forall>n\<in>set (s_nodes sp). set (n_depends_on n) \<subseteq> n_id ` set (s_nodes sp)"
proof -
  let ?ns = "sort_key n_id (s_nodes sp)"
  let ?task = "trim_space custom"
  obtain p where p: "sel p_id pid (filter (\<lambda>p. p_status p = ''active'') (projects db)) = Some p"
    using inst sp by (auto simp: InstantiateWorkflow_def split: option.splits if_splits)
  define r where "r = \<lparr>r_id = 0, r_workflow_id = wt_id tk, r_project_id = pid, r_task = ?task,
    r_status = RunStatusRunning, r_task_ids = [], r_revision = 1, r_created_at = now,
    r_started_at = Some now, r_finished_at = None, r_updated_at = now\<rparr>"
  obtain db1 rid db2 ids db3 db4 where
    r1: "insert_run_row r db = Inr (db1, rid)" and
    r2: "create_nodes (\<lambda>s. render s ?task) now sp pid (p_project_dir p) rid ?ns [] db1 = Inr (db2, ids)" and
    r3: "create_edges ids ?ns db2 = Inr db3" and
    r4: "exec_stmt (db3\<lparr>runs := upd_where (\<lambda>r. r_id r = rid) (\<lambda>r. r\<lparr>r_task_ids := ids\<rparr>) (runs db3)\<rparr>) = Inr db'" and
    run: "run = r\<lparr>r_id := rid, r_task_ids := ids\<rparr>"
    using inst sp p
    by (auto simp: InstantiateWorkflow_def rbind_eq_Inr Let_def r_def split: option.splits if_splits)
  have rid: "rid = next_id (run_seq db) (map r_id (runs db))" and
    db1: "db1 = db\<lparr>runs := runs db @ [r\<lparr>r_id := rid\<rparr>], run_seq := rid\<rparr>"
    using r1 by (auto simp: insert_run_row_def Let_def rbind_eq_Inr exec_stmt_Inr)
  have fresh: "rid \<notin> run_ids db"
    unfolding rid run_ids_def using next_id_fresh by (metis list.set_map)
  have "distinct (map n_id ?ns)" using dist
    by (metis distinct_map mset_eq_imp_distinct_iff mset_map mset_sort)
  from create_nodes_effect [OF r2 this] obtain new where new:
    "tasks db2 = tasks db @ new" "list_all2 (node_row (\<lambda>s. render s ?task) sp pid (p_project_dir p) rid) ?ns new"
    "ids = zip (map n_id ?ns) (map t_id new)" "runs db2 = runs db1" "deps db2 = deps db"
    by (auto simp: db1)
  note db3 = create_edges_effect [OF r3]
  have runs': "runs db' = runs db @ [run]"
    using r4 fresh by (auto simp: exec_stmt_Inr db3 new(4) db1 run run_ids_def intro: upd_where_id)
  have len: "length (map n_id ?ns) = length (map t_id new)" using list_all2_lengthD [OF new(2)] by simp
  have "map fst ids = map n_id ?ns" using len by (simp add: new(3))
  then have "set (map fst ids) = set (map n_id ?ns)" by (rule arg_cong)
  then have keys: "fst ` set ids = n_id ` set (s_nodes sp)" by simp
  show thesis
  proof (rule that [of new "p_project_dir p"])
    show "tasks db' = tasks db @ new" "deps db' = deps db @ edges_of (r_task_ids run) ?ns" "schema_ok db'"
      using r4 by (auto simp: exec_stmt_Inr db3 new run)
    show "\<forall>n\<in>set (s_nodes sp). set (n_depends_on n) \<subseteq> n_id ` set (s_nodes sp)"
      using create_edges_known [OF r3] keys by auto
  qed (use new fresh runs' in \<open>simp_all add: run r_def\<close>)
qed

text \<open>The edges that start at one node's task, when nodes and tasks correspond one to one.\<close>

lemma edges_of_node:
  assumes at: "\<And>m. m \<in> set ns \<Longrightarrow> map_of ids (n_id m) \<noteq> None"
    and dv: "distinct (map snd ids)" and dn: "distinct (map n_id ns)" and n: "n \<in> set ns"
    and i: "map_of ids (n_id n) = Some i"
    and known: "\<And>m. m \<in> set ns \<Longrightarrow> set (n_depends_on m) \<subseteq> n_id ` set ns"
  shows "\<lparr>d_task_id = i, d_depends_on = j, d_on_failure = f\<rparr> \<in> set (edges_of ids ns) \<longleftrightarrow>
    f = on_failure n \<and> (\<exists>d\<in>set (n_depends_on n). map_of ids d = Some j)"
proof
  assume "\<lparr>d_task_id = i, d_depends_on = j, d_on_failure = f\<rparr> \<in> set (edges_of ids ns)"
  then obtain m d where m: "m \<in> set ns" "d \<in> set (n_depends_on m)" "i = id_at ids (n_id m)"
    "j = id_at ids d" "f = on_failure m" by (auto simp: edges_of_def)
  from m(1,3) at have "map_of ids (n_id m) = Some i" by (fastforce simp: id_at_def)
  then have "n_id m = n_id n"
    using dv i by (metis distinct_map inj_onD map_of_SomeD prod.inject snd_conv)
  then have "m = n" using dn n m(1) by (auto simp: distinct_map dest: inj_onD)
  moreover have "map_of ids d = Some j"
    using known [OF m(1)] m(2,4) at by (fastforce simp: id_at_def)
  ultimately show "f = on_failure n \<and> (\<exists>d\<in>set (n_depends_on n). map_of ids d = Some j)"
    using m by auto
next
  assume f: "f = on_failure n \<and> (\<exists>d\<in>set (n_depends_on n). map_of ids d = Some j)"
  then obtain d where "d \<in> set (n_depends_on n)" "id_at ids d = j" by (auto simp: id_at_def)
  moreover have "id_at ids (n_id n) = i" using i by (simp add: id_at_def)
  ultimately show "\<lparr>d_task_id = i, d_depends_on = j, d_on_failure = f\<rparr> \<in> set (edges_of ids ns)"
    using f n by (force simp: edges_of_def)
qed

lemma edges_of_start:
  assumes "e \<in> set (edges_of ids ns)" and "\<And>m. m \<in> set ns \<Longrightarrow> map_of ids (n_id m) \<noteq> None"
  shows "d_task_id e \<in> snd ` set ids"
proof -
  from assms(1) obtain m where m: "m \<in> set ns" "d_task_id e = id_at ids (n_id m)" by (auto simp: edges_of_def)
  with assms(2) obtain i where "map_of ids (n_id m) = Some i" by blast
  with m(2) have "(n_id m, d_task_id e) \<in> set ids" by (auto simp: id_at_def dest: map_of_SomeD)
  then show ?thesis by force
qed

lemma node_at:
  assumes rows: "list_all2 P ns new" and dk: "distinct (map n_id ns)" and n: "n \<in> set ns"
  shows "\<exists>t\<in>set new. map_of (zip (map n_id ns) (map t_id new)) (n_id n) = Some (t_id t) \<and> P n t"
proof -
  have len: "length ns = length new" using list_all2_lengthD [OF rows] .
  from n obtain k where k: "k < length ns" "ns ! k = n" by (metis in_set_conv_nth)
  have "(n_id n, t_id (new ! k)) \<in> set (zip (map n_id ns) (map t_id new))"
    using k len by (force simp: set_zip)
  then have "map_of (zip (map n_id ns) (map t_id new)) (n_id n) = Some (t_id (new ! k))"
    using dk len by (intro map_of_is_SomeI) simp_all
  then show ?thesis using list_all2_nthD [OF rows k(1)] k len by (auto intro: bexI [of _ "new ! k"])
qed

lemma instantiated_run:
  assumes ok: "schema_ok db" and sp: "wt_spec tk = SpecJson sp" and dist: "distinct (map n_id (s_nodes sp))"
    and inst: "InstantiateWorkflow render now tk pid custom db = Inr (db', run)"
  shows "get_run (r_id run) db' = Some run \<and> r_id run \<notin> run_ids db \<and> r_status run = RunStatusRunning \<and>
    map fst (r_task_ids run) = sort (map n_id (s_nodes sp)) \<and> distinct (map snd (r_task_ids run)) \<and>
    (\<forall>n\<in>set (s_nodes sp). \<exists>i t. map_of (r_task_ids run) (n_id n) = Some i \<and> i \<notin> task_ids db \<and>
       get_task i db' = Some t \<and>
       (\<exists>dir. node_row (\<lambda>s. render s (trim_space custom)) sp pid dir (r_id run) n t) \<and>
       (\<forall>j f. \<lparr>d_task_id = i, d_depends_on = j, d_on_failure = f\<rparr> \<in> set (deps db') \<longleftrightarrow>
          f = on_failure n \<and> (\<exists>d\<in>set (n_depends_on n). map_of (r_task_ids run) d = Some j))) \<and>
    (\<forall>j\<in>task_ids db. get_task j db' = get_task j db \<and>
       (\<forall>e. d_task_id e = j \<longrightarrow> (e \<in> set (deps db') \<longleftrightarrow> e \<in> set (deps db))))"
proof -
  let ?ns = "sort_key n_id (s_nodes sp)"
  let ?ids = "r_task_ids run"
  obtain new dir where N: "tasks db' = tasks db @ new"
    "list_all2 (node_row (\<lambda>s. render s (trim_space custom)) sp pid dir (r_id run)) ?ns new"
    "?ids = zip (map n_id ?ns) (map t_id new)" "deps db' = deps db @ edges_of ?ids ?ns"
    "r_id run \<notin> run_ids db" "runs db' = runs db @ [run]" "schema_ok db'" "r_status run = RunStatusRunning"
    "\<forall>n\<in>set (s_nodes sp). set (n_depends_on n) \<subseteq> n_id ` set (s_nodes sp)"
    by (rule InstantiateWorkflow_rows [OF inst sp dist]) blast
  have keys: "map fst ?ids = map n_id ?ns" and vals: "map snd ?ids = map t_id new"
    using list_all2_lengthD [OF N(2)] by (simp_all add: N(3))
  have sorted: "map n_id ?ns = sort (map n_id (s_nodes sp))"
    by (rule properties_for_sort [symmetric]) simp_all
  have dk: "distinct (map n_id ?ns)" using dist unfolding sorted by simp
  have dv: "distinct (map snd ?ids)" using schema_ok_distinct [OF N(7)] unfolding vals N(1) by simp
  have fresh: "t_id t \<notin> task_ids db" if "t \<in> set new" for t
    using schema_ok_distinct [OF N(7)] that by (auto simp: N(1) task_ids_def)
  have at: "\<exists>t\<in>set new. map_of ?ids (n_id n) = Some (t_id t) \<and>
      node_row (\<lambda>s. render s (trim_space custom)) sp pid dir (r_id run) n t" if n: "n \<in> set ?ns" for n
    using node_at [OF N(2) dk n] unfolding N(3) .
  have some: "map_of ?ids (n_id m) \<noteq> None" if "m \<in> set ?ns" for m using at [OF that] by auto
  have known: "set (n_depends_on m) \<subseteq> n_id ` set ?ns" if "m \<in> set ?ns" for m using N(9) that by simp
  have old_edges: "d_task_id e \<in> task_ids db" if "e \<in> set (deps db)" for e
    using ok that by (auto simp: schema_ok_def others_ok_def list_all_iff)
  have start: "d_task_id e \<notin> task_ids db" if "e \<in> set (edges_of ?ids ?ns)" for e
    using edges_of_start [OF that some] fresh arg_cong [OF vals, of set] by auto
  have node: "\<exists>i t. map_of ?ids (n_id n) = Some i \<and> i \<notin> task_ids db \<and> get_task i db' = Some t \<and>
      (\<exists>dir. node_row (\<lambda>s. render s (trim_space custom)) sp pid dir (r_id run) n t) \<and>
      (\<forall>j f. \<lparr>d_task_id = i, d_depends_on = j, d_on_failure = f\<rparr> \<in> set (deps db') \<longleftrightarrow>
         f = on_failure n \<and> (\<exists>d\<in>set (n_depends_on n). map_of ?ids d = Some j))"
    if n: "n \<in> set (s_nodes sp)" for n
  proof -
    have n': "n \<in> set ?ns" using n by simp
    obtain t where t: "t \<in> set new" "map_of ?ids (n_id n) = Some (t_id t)"
      "node_row (\<lambda>s. render s (trim_space custom)) sp pid dir (r_id run) n t"
      using at [OF n'] by blast
    have "get_task (t_id t) db' = Some t"
      using get_task_distinct [OF N(7)] t(1) by (simp add: N(1))
    moreover have "\<lparr>d_task_id = t_id t, d_depends_on = j, d_on_failure = f\<rparr> \<notin> set (deps db)" for j f
      using old_edges fresh [OF t(1)] by fastforce
    ultimately show ?thesis
      using t fresh [OF t(1)] edges_of_node [OF some dv dk n' t(2) known] by (auto simp: N(4))
  qed
  have run: "get_run (r_id run) db' = Some run"
    using N(5) by (auto simp: get_run_def N(6) sel_append run_ids_def sel_not_mem)
  have old: "get_task j db' = get_task j db" if j: "j \<in> task_ids db" for j
    using j get_task_None [of j db] by (auto simp: get_task_def N(1) sel_append)
  have oldd: "e \<in> set (deps db') \<longleftrightarrow> e \<in> set (deps db)" if e: "d_task_id e \<in> task_ids db" for e
    using start [of e] e by (auto simp: N(4))
  show ?thesis using run N(5,8) node old oldd dv keys sorted by auto
qed


section \<open>An accepted definition can always be started\<close>

lemma schema_ok_more_runs:
  assumes ok: "schema_ok db" and i: "r_id r \<notin> run_ids db"
    and refs: "r_workflow_id r \<in> task_ids db" "r_project_id r \<in> project_ids db"
  shows "schema_ok (db\<lparr>runs := runs db @ [r], run_seq := k\<rparr>)"
proof -
  let ?db = "db\<lparr>runs := runs db @ [r], run_seq := k\<rparr>"
  have ids: "task_ids ?db = task_ids db" "role_ids ?db = role_ids db" "project_ids ?db = project_ids db"
    "run_ids ?db = insert (r_id r) (run_ids db)"
    by (auto simp: task_ids_def role_ids_def project_ids_def run_ids_def)
  have "task_refs_ok ?db t" if "task_refs_ok db t" for t
    using that unfolding task_refs_ok_def ids by (auto intro: fk_mono)
  then have "list_all (task_refs_ok ?db) (tasks db)"
    using ok by (auto simp: schema_ok_def tasks_ok_def list_all_iff)
  then have "tasks_ok ?db" using ok by (simp add: schema_ok_def tasks_ok_def)
  moreover have "others_ok ?db"
    using ok i refs unfolding schema_ok_def others_ok_def ids by (auto simp: run_ids_def)
  ultimately show ?thesis by (simp add: schema_ok_def)
qed

lemma schema_ok_run_cols:
  assumes ok: "schema_ok db" and f: "\<And>r. r_id (f r) = r_id r" "\<And>r. r_workflow_id (f r) = r_workflow_id r"
    "\<And>r. r_project_id (f r) = r_project_id r"
  shows "schema_ok (db\<lparr>runs := upd_where p f (runs db)\<rparr>)"
proof -
  let ?db = "db\<lparr>runs := upd_where p f (runs db)\<rparr>"
  have rids: "map r_id (upd_where p f (runs db)) = map r_id (runs db)" by (rule map_upd_where) (rule f)
  have ids: "run_ids ?db = run_ids db"
    using arg_cong [OF rids, of set] unfolding list.set_map by (simp add: run_ids_def)
  have other: "task_ids ?db = task_ids db" "role_ids ?db = role_ids db" "project_ids ?db = project_ids db"
    by (simp_all add: task_ids_def role_ids_def project_ids_def)
  have "list_all (\<lambda>r. r_workflow_id r \<in> task_ids db \<and> r_project_id r \<in> project_ids db) (upd_where p f (runs db))"
    using ok f by (intro list_all_upd_where) (auto simp: schema_ok_def others_ok_def list_all_iff)
  moreover have "task_refs_ok ?db = task_refs_ok db" by (rule ext) (simp add: task_refs_ok_def ids other)
  ultimately show ?thesis
    using ok rids by (simp add: schema_ok_def tasks_ok_def others_ok_def ids other)
qed

lemma create_nodes_succeeds:
  assumes "schema_ok db" and "pid \<in> project_ids db" and "rid \<in> run_ids db"
    and "\<And>n. n \<in> set ns \<Longrightarrow> rs_role_id (n_role n) \<in> role_ids db"
  shows "\<exists>db' ids'. create_nodes render now sp pid dir rid ns ids db = Inr (db', ids')"
  using assms
proof (induction ns arbitrary: ids db)
  case (Cons n ns)
  let ?t = "with_defaults (assignNextTaskSortOrder db (prepareTaskForInsert now (node_task render sp pid dir rid n)))"
  let ?i = "next_id (task_seq db) (map t_id (tasks db))"
  have row: "shape_ok ?t" "t_merge_of ?t = None" "t_external_key ?t = []"
    by (simp_all add: shape_ok_def node_task_def zero_task_def prepareTaskForInsert_def
        normalizeDependencyMode_def assignNextTaskSortOrder_def with_defaults_def Let_def)
  have refs: "task_refs_ok db ?t"
    using Cons.prems(2-4) by (simp add: task_refs_ok_def node_task_def zero_task_def prepareTaskForInsert_def
        normalizeDependencyMode_def assignNextTaskSortOrder_def with_defaults_def Let_def)
  have fresh: "?i \<notin> task_ids db" unfolding task_ids_def using next_id_fresh by (metis list.set_map)
  have "schema_ok (db\<lparr>tasks := tasks db @ [?t\<lparr>t_id := ?i\<rparr>], task_seq := ?i\<rparr>)"
    using schema_ok_insert [OF Cons.prems(1) fresh row(1) refs] row by simp
  then have ins: "insertTask (assignNextTaskSortOrder db (prepareTaskForInsert now (node_task render sp pid dir rid n))) db =
      Inr (db\<lparr>tasks := tasks db @ [?t\<lparr>t_id := ?i\<rparr>], task_seq := ?i\<rparr>, ?i)"
    by (simp add: insertTask_def insert_task_row_def Let_def)
  have "\<exists>db' ids'. create_nodes render now sp pid dir rid ns (AList.update (n_id n) ?i ids)
      (db\<lparr>tasks := tasks db @ [?t\<lparr>t_id := ?i\<rparr>], task_seq := ?i\<rparr>) = Inr (db', ids')"
    using Cons.prems insertTask_row(4) [OF ins]
    by (intro Cons.IH) (auto simp: project_ids_def run_ids_def role_ids_def)
  with ins show ?case by simp
qed simp

lemma schema_ok_fewer_deps:
  "schema_ok (db\<lparr>deps := xs @ ys\<rparr>) \<Longrightarrow> schema_ok (db\<lparr>deps := xs\<rparr>)"
  by (auto simp: schema_ok_def tasks_ok_def others_ok_def list_all_iff task_refs_ok_def
      role_ids_def project_ids_def run_ids_def task_ids_def)

lemma node_edges_succeeds:
  assumes "schema_ok (db\<lparr>deps := deps db @ map (\<lambda>d. \<lparr>d_task_id = id_at ids (n_id n), d_depends_on = id_at ids d,
      d_on_failure = on_failure n\<rparr>) ds @ rest\<rparr>)" and "\<And>d. d \<in> set ds \<Longrightarrow> map_of ids d \<noteq> None"
  shows "\<exists>db'. node_edges ids n ds db = Inr db'"
  using assms
proof (induction ds arbitrary: db)
  case (Cons d ds)
  let ?e = "\<lparr>d_task_id = id_at ids (n_id n), d_depends_on = id_at ids d, d_on_failure = on_failure n\<rparr>"
  let ?db = "db\<lparr>deps := deps db @ [?e]\<rparr>"
  have "schema_ok ?db" using Cons.prems(1) schema_ok_fewer_deps [where db = db and xs = "deps db @ [?e]"] by simp
  moreover have "\<exists>db'. node_edges ids n ds ?db = Inr db'" using Cons.prems by (intro Cons.IH) simp_all
  moreover obtain s where "map_of ids d = Some s" using Cons.prems(2) by auto
  ultimately show ?case by (auto simp: insert_dep_row_def id_at_def)
qed simp

lemma create_edges_succeeds:
  assumes "schema_ok (db\<lparr>deps := deps db @ edges_of ids ns\<rparr>)"
    and "\<And>n d. n \<in> set ns \<Longrightarrow> d \<in> set (n_depends_on n) \<Longrightarrow> map_of ids d \<noteq> None"
  shows "create_edges ids ns db = Inr (db\<lparr>deps := deps db @ edges_of ids ns\<rparr>)"
proof -
  have "\<exists>db'. create_edges ids ns db = Inr db'"
    using assms
  proof (induction ns arbitrary: db)
    case (Cons n ns)
    have "\<exists>db1. node_edges ids n (n_depends_on n) db = Inr db1"
      using Cons.prems by (intro node_edges_succeeds [where rest = "edges_of ids ns"]) (auto simp: edges_of_def)
    then obtain db1 where db1: "node_edges ids n (n_depends_on n) db = Inr db1" ..
    from node_edges_effect [OF db1] Cons.prems have "\<exists>db'. create_edges ids ns db1 = Inr db'"
      by (intro Cons.IH) (auto simp: edges_of_def)
    with db1 show ?case by simp
  qed simp
  with create_edges_effect show ?thesis by blast
qed

abbreviation edge_ends :: "dep \<Rightarrow> int \<times> int" where
  "edge_ends e \<equiv> (d_task_id e, d_depends_on e)"

lemma edges_of_distinct:
  assumes "inj_on (id_at ids) K" and "n_id ` set ns \<subseteq> K" and "\<And>n. n \<in> set ns \<Longrightarrow> set (n_depends_on n) \<subseteq> K"
    and "distinct (map n_id ns)" and "\<And>n. n \<in> set ns \<Longrightarrow> distinct (n_depends_on n)"
  shows "distinct (map edge_ends (edges_of ids ns))"
  using assms(2-)
proof (induction ns)
  case (Cons n ns)
  have rest: "distinct (map edge_ends (edges_of ids ns))" using Cons by simp
  have "inj_on (id_at ids) (set (n_depends_on n))"
    using Cons.prems(2) by (intro inj_on_subset [OF assms(1)]) simp
  then have "distinct (map (\<lambda>d. (id_at ids (n_id n), id_at ids d)) (n_depends_on n))"
    using Cons.prems(4) by (auto simp: distinct_map inj_on_def)
  moreover have "id_at ids (n_id n) \<noteq> d_task_id e" if "e \<in> set (edges_of ids ns)" for e
  proof -
    from that obtain m where m: "m \<in> set ns" "d_task_id e = id_at ids (n_id m)" by (auto simp: edges_of_def)
    with Cons.prems(3) have "n_id m \<noteq> n_id n" by (auto simp: image_iff)
    with m Cons.prems(1) show ?thesis using inj_onD [OF assms(1), of "n_id n" "n_id m"] by auto
  qed
  ultimately show ?case using rest by (auto simp: edges_of_def comp_def)
qed (simp add: edges_of_def)

lemma schema_ok_more_deps:
  assumes "schema_ok db" and "distinct (map edge_ends es)"
    and "\<And>e. e \<in> set es \<Longrightarrow> d_task_id e \<in> task_ids db \<and> d_depends_on e \<in> task_ids db \<and> d_task_id e \<noteq> d_depends_on e"
    and "\<And>e d. e \<in> set es \<Longrightarrow> d \<in> set (deps db) \<Longrightarrow> d_task_id d \<noteq> d_task_id e"
  shows "schema_ok (db\<lparr>deps := deps db @ es\<rparr>)"
proof -
  have refs: "task_refs_ok (db\<lparr>deps := deps db @ es\<rparr>) t = task_refs_ok db t" for t
    by (simp add: task_refs_ok_def role_ids_def project_ids_def run_ids_def task_ids_def)
  have "distinct (map edge_ends (deps db @ es))"
    using assms(1,2,4) by (auto simp: schema_ok_def others_ok_def)
  moreover have "list_all (\<lambda>d. d_task_id d \<in> task_ids db \<and> d_depends_on d \<in> task_ids db \<and> d_task_id d \<noteq> d_depends_on d) (deps db @ es)"
    using assms(1,3) by (auto simp: schema_ok_def others_ok_def list_all_iff)
  ultimately show ?thesis
    using assms(1) by (simp add: schema_ok_def tasks_ok_def others_ok_def refs list_all_iff
        role_ids_def project_ids_def task_ids_def)
qed

lemma inj_on_id_at:
  assumes "distinct (map snd ids)"
  shows "inj_on (id_at ids) (fst ` set ids)"
proof (rule inj_onI)
  fix x y assume "x \<in> fst ` set ids" "y \<in> fst ` set ids" and eq: "id_at ids x = id_at ids y"
  then obtain i j where ij: "map_of ids x = Some i" "map_of ids y = Some j"
    by (metis map_of_eq_None_iff option.exhaust)
  with eq have "(x, i) \<in> set ids" "(y, i) \<in> set ids" by (auto simp: id_at_def dest: map_of_SomeD)
  with assms show "x = y" by (metis distinct_map inj_onD prod.inject snd_conv)
qed

text \<open>The edges of a definition whose dependencies are named once, exist and are not the node itself.\<close>

definition deps_ok :: "node list \<Rightarrow> bool" where
  "deps_ok ns \<longleftrightarrow> distinct (map n_id ns) \<and>
     (\<forall>n\<in>set ns. distinct (n_depends_on n) \<and> n_id n \<notin> set (n_depends_on n) \<and>
        set (n_depends_on n) \<subseteq> n_id ` set ns)"

lemma schema_ok_edges_of:
  assumes ok: "schema_ok db2" and old: "\<And>d. d \<in> set (deps db2) \<Longrightarrow> d_task_id d \<notin> snd ` set ids"
    and keys: "fst ` set ids = n_id ` set ns" and dv: "distinct (map snd ids)"
    and ids: "snd ` set ids \<subseteq> task_ids db2" and deps: "deps_ok ns"
  shows "schema_ok (db2\<lparr>deps := deps db2 @ edges_of ids ns\<rparr>)"
proof (rule schema_ok_more_deps [OF ok])
  note inj = inj_on_id_at [OF dv, unfolded keys]
  have at: "id_at ids k \<in> snd ` set ids" if "k \<in> n_id ` set ns" for k
  proof -
    from that obtain i where "map_of ids k = Some i" by (metis keys map_of_eq_None_iff option.exhaust)
    then show ?thesis by (force simp: id_at_def dest: map_of_SomeD)
  qed
  show "distinct (map edge_ends (edges_of ids ns))"
    using deps by (intro edges_of_distinct [OF inj]) (auto simp: deps_ok_def)
  fix e assume "e \<in> set (edges_of ids ns)"
  then obtain n d where e: "n \<in> set ns" "d \<in> set (n_depends_on n)" "d_task_id e = id_at ids (n_id n)"
    "d_depends_on e = id_at ids d" by (auto simp: edges_of_def)
  then have nd: "d \<in> n_id ` set ns" "d \<noteq> n_id n" using deps by (auto simp: deps_ok_def)
  have "id_at ids (n_id n) \<noteq> id_at ids d" using inj_onD [OF inj, of "n_id n" d] nd e(1) by auto
  moreover have mem: "id_at ids (n_id n) \<in> snd ` set ids" "id_at ids d \<in> snd ` set ids"
    using at nd e(1) by auto
  ultimately show "d_task_id e \<in> task_ids db2 \<and> d_depends_on e \<in> task_ids db2 \<and> d_task_id e \<noteq> d_depends_on e"
    using ids e(3,4) by auto
  fix d' assume "d' \<in> set (deps db2)"
  with old mem(1) e(3) show "d_task_id d' \<noteq> d_task_id e" by metis
qed

lemma accepted_deps_ok:
  assumes "spec_accepted p sp"
  shows "deps_ok (sort_key n_id (s_nodes sp))"
proof -
  have "map n_id (sort_key n_id (s_nodes sp)) = sort (map n_id (s_nodes sp))"
    by (rule properties_for_sort [symmetric]) simp_all
  then have "distinct (map n_id (sort_key n_id (s_nodes sp)))"
    using assms by (simp add: spec_accepted_def)
  then show ?thesis using assms unfolding deps_ok_def spec_accepted_def by simp
qed

text \<open>
  A definition the policy accepts can always be started: on a database the schema admits,
  while the definition is adopted and unchanged since it was read, the project is active and the
  roles of its nodes exist, the instantiation succeeds; no constraint of the schema stands in its way.
\<close>

theorem InstantiateWorkflow_succeeds:
  assumes ok: "schema_ok db" and acc: "spec_accepted p sp" and sp: "wt_spec tk = SpecJson sp"
    and row: "get_task (wt_id tk) db = Some row" "t_status row = WorkflowStatusAdopted" "t_revision row = wt_revision tk"
    and proj: "get_project pid db = Some q" "p_status q = ''active''"
    and rls: "\<forall>n\<in>set (s_nodes sp). rs_role_id (n_role n) \<in> role_ids db"
  shows "\<exists>db' run. InstantiateWorkflow render now tk pid custom db = Inr (db', run)"
proof -
  let ?ns = "sort_key n_id (s_nodes sp)"
  let ?task = "trim_space custom"
  define r where "r = \<lparr>r_id = 0, r_workflow_id = wt_id tk, r_project_id = pid, r_task = ?task,
    r_status = RunStatusRunning, r_task_ids = [], r_revision = 1, r_created_at = now,
    r_started_at = Some now, r_finished_at = None, r_updated_at = now\<rparr>"
  define rid where "rid = next_id (run_seq db) (map r_id (runs db))"
  define db1 where "db1 = db\<lparr>runs := runs db @ [r\<lparr>r_id := rid\<rparr>], run_seq := rid\<rparr>"
  have fresh: "rid \<notin> run_ids db" unfolding rid_def run_ids_def using next_id_fresh by (metis list.set_map)
  have ids: "wt_id tk \<in> task_ids db" "pid \<in> project_ids db"
    using row(1) get_task_None [of "wt_id tk" db] proj(1) by (auto simp: get_project_def project_ids_def)
  have p: "sel p_id pid (filter (\<lambda>p. p_status p = ''active'') (projects db)) \<noteq> None"
    using proj by (auto simp: get_project_def sel_None_iff dest!: sel_Some_mem)
  then obtain pr where pr: "sel p_id pid (filter (\<lambda>p. p_status p = ''active'') (projects db)) = Some pr" by blast
  have ok1: "schema_ok db1"
    unfolding db1_def using ok fresh ids by (intro schema_ok_more_runs) (simp_all add: r_def run_ids_def)
  then have r1: "insert_run_row r db = Inr (db1, rid)"
    by (simp add: insert_run_row_def Let_def db1_def rid_def)
  obtain db2 ids' where r2: "create_nodes (\<lambda>s. render s ?task) now sp pid (p_project_dir pr) rid ?ns [] db1 = Inr (db2, ids')"
  proof -
    have "pid \<in> project_ids db1" "rid \<in> run_ids db1" "role_ids db1 = role_ids db"
      using ids(2) by (auto simp: db1_def project_ids_def run_ids_def role_ids_def)
    with create_nodes_succeeds [OF ok1 this(1,2), of ?ns] rls that show thesis by fastforce
  qed
  have dok: "deps_ok ?ns" by (rule accepted_deps_ok [OF acc])
  then have dn: "distinct (map n_id ?ns)" by (simp add: deps_ok_def)
  from create_nodes_effect [OF r2 dn] obtain new where new: "tasks db2 = tasks db @ new"
    "length ?ns = length new" "ids' = zip (map n_id ?ns) (map t_id new)" "runs db2 = runs db1" "deps db2 = deps db"
    "schema_ok db1 \<longrightarrow> schema_ok db2"
    by (auto simp: db1_def dest: list_all2_lengthD)
  have ok2: "schema_ok db2" using new(6) ok1 by simp
  have vals: "map snd ids' = map t_id new" and keys: "map fst ids' = map n_id ?ns" using new(2) by (simp_all add: new(3))
  have dv: "distinct (map snd ids')" using schema_ok_distinct [OF ok2] unfolding vals new(1) by simp
  have sids: "snd ` set ids' = t_id ` set new" using arg_cong [OF vals, of set] by simp
  have skeys: "fst ` set ids' = n_id ` set ?ns" using arg_cong [OF keys, of set] by simp
  have old: "d_task_id d \<notin> snd ` set ids'" if "d \<in> set (deps db2)" for d
  proof -
    have "d_task_id d \<in> task_ids db"
      using ok that by (auto simp: new(5) schema_ok_def others_ok_def list_all_iff)
    moreover have "task_ids db \<inter> t_id ` set new = {}"
      using schema_ok_distinct [OF ok2] by (simp add: new(1) task_ids_def)
    ultimately show ?thesis unfolding sids by blast
  qed
  have ok3: "schema_ok (db2\<lparr>deps := deps db2 @ edges_of ids' ?ns\<rparr>)"
    by (rule schema_ok_edges_of [OF ok2 old skeys dv _ dok]) (auto simp: sids new(1) task_ids_def)
  have r3: "create_edges ids' ?ns db2 = Inr (db2\<lparr>deps := deps db2 @ edges_of ids' ?ns\<rparr>)"
    using dok by (intro create_edges_succeeds [OF ok3]) (auto simp: deps_ok_def skeys map_of_eq_None_iff)
  have r4: "schema_ok ((db2\<lparr>deps := deps db2 @ edges_of ids' ?ns\<rparr>)\<lparr>runs := upd_where (\<lambda>r. r_id r = rid)
      (\<lambda>r. r\<lparr>r_task_ids := ids'\<rparr>) (runs db2)\<rparr>)"
    by (rule schema_ok_run_cols [OF ok3, simplified]) simp_all
  show ?thesis
    using r1 r2 r3 r4 row sp pr
    by (simp add: InstantiateWorkflow_def Let_def r_def [symmetric])
qed

section \<open>A definition to start\<close>

definition demo_step :: "string \<Rightarrow> string list \<Rightarrow> node" where
  "demo_step i ds = \<lparr>n_id = i, n_intent = ''do '' @ i,
     n_role = \<lparr>rs_role_id = 1, rs_required_capabilities = []\<rparr>, n_depends_on = ds, n_permission = ''full'',
     n_allowed_actions = [], n_approval_required = False, n_input_refs = [], n_timeout_seconds = 60,
     n_failure_policy = ''stop'', n_budget = 1\<rparr>"

definition demo_flow :: spec where
  "demo_flow = \<lparr>s_version = 1, s_goal = ''g'', s_created_by = [],
     s_limits = \<lparr>l_budget = 10, l_max_nodes = 4, l_max_depth = 4, l_max_concurrency = 2\<rparr>,
     s_nodes = [demo_step ''test'' [''build''], demo_step ''build'' []]\<rparr>"

definition demo_flow_task :: task where
  "demo_flow_task = (demo_task 1 WorkflowStatusAdopted)\<lparr>t_type := TaskTypeWorkflow, t_title := ''g'',
     t_body := ''g'', t_spec := SpecJson demo_flow\<rparr>"

definition demo_flow_db :: db where
  "demo_flow_db = demo_project_db [demo_flow_task]"

definition demo_tk :: WorkflowTask where "demo_tk = the (AsWorkflow demo_flow_task)"

definition demo_start :: "store_error + (db \<times> run)" where
  "demo_start = InstantiateWorkflow (\<lambda>i t. i @ t) ''t1'' demo_tk 1 ''x'' demo_flow_db"

lemma demo_tk: "wt_spec demo_tk = SpecJson demo_flow" "wt_id demo_tk = 1" "wt_revision demo_tk = 1"
  by (simp_all add: demo_tk_def AsWorkflow_def demo_flow_task_def demo_task_def)

lemma demo_flow_ok: "schema_ok demo_flow_db" by code_simp


definition demo_policy :: policy where
  "demo_policy = default_policy (\<lambda>i. \<lparr>rc_exists = True, rc_enabled = True, rc_capabilities = [''batch'']\<rparr>)"

lemma demo_flow_accepted: "spec_accepted demo_policy demo_flow"
proof -
  have "validate demo_policy demo_flow [''test'', ''build''] = []" by code_simp
  moreover have "set [''test'', ''build''] = n_id ` set (s_nodes demo_flow)" by (simp add: demo_flow_def demo_step_def)
  ultimately show ?thesis using validate_contract [of "[''test'', ''build'']" demo_flow demo_policy] by simp
qed

theorem InstantiateWorkflow_succeeds_witness: "\<exists>db' run. demo_start = Inr (db', run)"
proof -
  have "get_task 1 demo_flow_db = Some demo_flow_task" by code_simp
  moreover have "t_status demo_flow_task = WorkflowStatusAdopted" "t_revision demo_flow_task = 1" by code_simp+
  moreover have "get_project 1 demo_flow_db = Some (demo_project 1 ''p'')" "p_status (demo_project 1 ''p'') = ''active''"
    by code_simp+
  moreover have "\<forall>n\<in>set (s_nodes demo_flow). rs_role_id (n_role n) \<in> role_ids demo_flow_db"
    by (simp add: demo_flow_def demo_step_def role_ids_def demo_flow_db_def demo_project_db_def demo_tasks_def demo_db_def demo_role_def)
  ultimately show ?thesis
    using InstantiateWorkflow_succeeds [OF demo_flow_ok demo_flow_accepted demo_tk(1), of demo_flow_task 1 "demo_project 1 ''p''"]
    unfolding demo_start_def demo_tk by blast
qed

section \<open>Deleting a definition\<close>

lemma delete_runs_Inr:
  assumes "delete_runs p db = Inr db'" and "\<And>t r. t \<in> set (tasks db) \<Longrightarrow> r \<in> set (runs db) \<Longrightarrow> p r \<Longrightarrow> t_workflow_run_id t \<noteq> Some (r_id r)"
  shows "db' = db\<lparr>runs := del_where p (runs db)\<rparr> \<and> schema_ok db'"
proof -
  have doomed: "filter (\<lambda>t. \<exists>r\<in>set (map r_id (filter p (runs db))). t_workflow_run_id t = Some r) (tasks db) = []"
    using assms(2) by (fastforce simp: filter_empty_conv)
  have "db' = db\<lparr>runs := del_where p (runs db), tasks := tasks db, deps := deps db, logs := logs db\<rparr>" "schema_ok db'"
    using assms(1) unfolding delete_runs_def Let_def doomed by (simp_all add: exec_stmt_Inr del_where_def)
  then show ?thesis by (cases db) simp
qed

text \<open>
  Deleting a definition keeps history: after a successful deletion the definition and its
  runs are gone, none of the runs was in progress, and every other task is still there; the
  tasks of its runs have lost the reference to their run, the rest is untouched. The cascade of
  the schema deletes no task.
\<close>

theorem DeleteWorkflowTask_effect:
  assumes ok: "schema_ok db" and del: "DeleteWorkflowTask now i e db = Inr db'"
  shows "(\<exists>t. get_task i db = Some t \<and> t_type t = TaskTypeWorkflow \<and> t_revision t = e) \<and>
    (\<forall>r\<in>set (runs db). r_workflow_id r = i \<longrightarrow> \<not> run_active r) \<and>
    runs db' = filter (\<lambda>r. r_workflow_id r \<noteq> i) (runs db) \<and> get_task i db' = None \<and>
    (\<forall>j t. j \<noteq> i \<longrightarrow> get_task j db = Some t \<longrightarrow>
       get_task j db' = Some (if \<exists>r\<in>set (runs db). r_workflow_id r = i \<and> t_workflow_run_id t = Some (r_id r)
         then t\<lparr>t_workflow_run_id := None, t_updated_at := now\<rparr> else t))"
proof -
  let ?own = "map r_id (filter (\<lambda>r. r_workflow_id r = i) (runs db))"
  let ?mine = "\<lambda>t. \<exists>r\<in>set ?own. t_workflow_run_id t = Some r"
  let ?cut = "\<lambda>t. t\<lparr>t_workflow_run_id := None, t_updated_at := now\<rparr>"
  let ?it = "\<lambda>t. t_id t = i \<and> t_revision t = e \<and> t_type t = TaskTypeWorkflow"
  obtain t n1 db1 db2 where
    t: "sel t_id i (filter (\<lambda>t. t_type t = TaskTypeWorkflow) (tasks db)) = Some t" "t_revision t = e" and
    idle: "\<not> list_ex (\<lambda>r. r_workflow_id r = i \<and> run_active r) (runs db)" and
    s1: "update_tasks ?mine ?cut db = Inr (db1, n1)" and
    s2: "delete_runs (\<lambda>r. r_workflow_id r = i) db1 = Inr db2" and
    s3: "delete_tasks_where ?it db2 = Inr db'"
    using del by (auto simp: DeleteWorkflowTask_def Let_def rbind_eq_Inr split: option.splits if_splits)
  have t': "t \<in> set (tasks db)" "t_type t = TaskTypeWorkflow" "t_id t = i" using t(1) by auto
  then have gt: "get_task i db = Some t" using get_task_distinct [OF ok] by auto
  have db1: "db1 = db\<lparr>tasks := upd_where ?mine ?cut (tasks db)\<rparr>" using s1 by (simp add: update_tasks_Inr)
  have none: "t_workflow_run_id u \<noteq> Some (r_id r)"
    if "u \<in> set (tasks db1)" "r \<in> set (runs db1)" "r_workflow_id r = i" for u r
    using that by (auto simp: db1 set_upd_where split: if_splits)
  have db2: "db2 = db1\<lparr>runs := del_where (\<lambda>r. r_workflow_id r = i) (runs db1)\<rparr>" "schema_ok db2"
    using delete_runs_Inr [OF s2] none by auto
  have db': "tasks db' = del_where ?it (tasks db2)" "runs db' = runs db2"
    using s3 by (auto simp: delete_tasks_where_def Let_def exec_stmt_Inr)
  have get2: "get_task j db2 = map_option (\<lambda>u. if ?mine u then ?cut u else u) (get_task j db)" for j
    by (simp add: db2 db1 get_task_def sel_upd_where)
  have get': "get_task j db' = (case get_task j db2 of None \<Rightarrow> None | Some u \<Rightarrow> if ?it u then None else Some u)" for j
    using sel_del_where [OF schema_ok_distinct [OF db2(2)]] by (simp add: get_task_def db'(1))
  have "get_task i db' = None" using get' [of i] get2 [of i] gt t(2) t' by auto
  moreover have "get_task j db' = Some (if ?mine u then ?cut u else u)" if "j \<noteq> i" "get_task j db = Some u" for j u
    using get' [of j] get2 [of j] that get_task_id [OF that(2)] by auto
  ultimately show ?thesis
    using gt t(2) t' idle db' by (auto simp: list_ex_iff db2 db1 del_where_def)
qed

theorem DeleteWorkflowTask_effect_witness:
  "\<exists>d. DeleteWorkflowTask ''t2'' 1 1 demo_flow_db = Inr d \<and> get_task 1 d = None"
proof -
  have "case DeleteWorkflowTask ''t2'' 1 1 demo_flow_db of Inl _ \<Rightarrow> False | Inr _ \<Rightarrow> True" by code_simp
  then obtain d where d: "DeleteWorkflowTask ''t2'' 1 1 demo_flow_db = Inr d" by (auto split: sum.splits)
  from DeleteWorkflowTask_effect [OF demo_flow_ok d] d show ?thesis by blast
qed

section \<open>Finishing a run\<close>

definition run_revision :: "int \<Rightarrow> db \<Rightarrow> int option" where
  "run_revision i db = map_option r_revision (get_run i db)"

definition finish_run :: "int \<Rightarrow> int \<Rightarrow> run_status \<times> string \<Rightarrow> db \<Rightarrow> store_error + db" where
  "finish_run i e u db = FinishWorkflowRun i e (fst u) (snd u) db"

lemma finish_run_row_sel [simp]:
  "r_id (finish_run_row st now r) = r_id r" "r_workflow_id (finish_run_row st now r) = r_workflow_id r"
  "r_project_id (finish_run_row st now r) = r_project_id r" "r_status (finish_run_row st now r) = st"
  "r_revision (finish_run_row st now r) = r_revision r + 1" "r_task_ids (finish_run_row st now r) = r_task_ids r"
  by (simp_all add: finish_run_row_def)

lemma schema_ok_distinct_runs: "schema_ok db \<Longrightarrow> distinct (map r_id (runs db))"
  by (simp add: schema_ok_def others_ok_def)

lemma FinishWorkflowRun_cases:
  assumes ok: "schema_ok db" and fin: "FinishWorkflowRun i e st now db = Inr db'"
  shows "\<exists>r. get_run i db = Some r \<and> r_revision r = e \<and> r_status r = RunStatusRunning \<and>
    st \<in> {RunStatusSucceeded, RunStatusFailed, RunStatusCancelled} \<and>
    get_run i db' = Some (finish_run_row st now r) \<and> (\<forall>j. j \<noteq> i \<longrightarrow> get_run j db' = get_run j db) \<and>
    tasks db' = tasks db \<and> deps db' = deps db \<and> schema_ok db'"
proof -
  let ?p = "\<lambda>r. r_id r = i \<and> r_revision r = e \<and> r_status r = RunStatusRunning"
  have st: "st \<in> {RunStatusSucceeded, RunStatusFailed, RunStatusCancelled}"
    and db': "db' = db\<lparr>runs := upd_where ?p (finish_run_row st now) (runs db)\<rparr>" "schema_ok db'"
    and one: "affected ?p (runs db) = 1"
    using fin by (auto simp: FinishWorkflowRun_def Let_def rbind_eq_Inr exec_stmt_Inr split: if_splits)
  obtain r where r: "get_run i db = Some r" "r_revision r = e" "r_status r = RunStatusRunning"
    using one unfolding affected_key [OF schema_ok_distinct_runs [OF ok]] get_run_def
    by (auto split: option.splits if_splits)
  have get': "get_run j db' = map_option (\<lambda>r. if ?p r then finish_run_row st now r else r) (get_run j db)" for j
    by (simp add: get_run_def db'(1) sel_upd_where)
  have "r_id r = i" using r(1) by (auto simp: get_run_def)
  then have "get_run i db' = Some (finish_run_row st now r)" using r get' by simp
  moreover have "get_run j db' = get_run j db" if "j \<noteq> i" for j
    using that get' [of j] by (cases "get_run j db") (auto simp: get_run_def)
  ultimately show ?thesis using r st db' by auto
qed

interpretation fin: optimistic run_revision finish_run schema_ok
proof unfold_locales
  fix db i e u db' j r
  assume ok: "schema_ok db" and fin: "finish_run i e u db = Inr db'"
  note c = FinishWorkflowRun_cases [OF ok fin [unfolded finish_run_def]]
  show "run_revision i db = Some e" "run_revision i db' = Some (e + 1)" "schema_ok db'"
    using c by (auto simp: run_revision_def)
  show "j \<noteq> i \<Longrightarrow> run_revision j db = Some r \<Longrightarrow> run_revision j db' = Some r"
    using c by (auto simp: run_revision_def)
qed

lemma finish_not_running:
  "schema_ok db \<Longrightarrow> map_option r_status (get_run i db) \<noteq> Some RunStatusRunning \<Longrightarrow>
   winners i ws (fst (attempts finish_run ws db)) = 0"
proof (induction ws arbitrary: db)
  case (Cons w ws)
  obtain j e u where w: "w = (j, e, u)" by (cases w)
  show ?case
  proof (cases "finish_run j e u db")
    case (Inl x)
    with Cons w show ?thesis by (auto simp: case_prod_beta Let_def)
  next
    case (Inr db1)
    note c = FinishWorkflowRun_cases [OF Cons.prems(1) Inr [unfolded finish_run_def]]
    with Cons.prems(2) have "j \<noteq> i" by auto
    moreover from this c Cons.prems(2) have "map_option r_status (get_run i db1) \<noteq> Some RunStatusRunning" by auto
    moreover have "schema_ok db1" using c by blast
    ultimately show ?thesis using Cons.IH [of db1] Inr w by (auto simp: case_prod_beta Let_def)
  qed
qed simp

text \<open>
  A run ends once: of any sequence of attempts to finish a run, with whatever revisions and
  final states and interleaved with attempts on other runs, at most one succeeds, and its
  revision grows by the number that did.
\<close>

theorem FinishWorkflowRun_once:
  assumes "schema_ok db" and "get_run i db = Some r"
  shows "winners i ws (fst (attempts finish_run ws db)) \<le> 1 \<and>
    map_option r_revision (get_run i (snd (attempts finish_run ws db))) =
      Some (r_revision r + int (winners i ws (fst (attempts finish_run ws db))))"
proof
  show "winners i ws (fst (attempts finish_run ws db)) \<le> 1"
    using assms(1)
  proof (induction ws arbitrary: db)
    case (Cons w ws)
    obtain j e u where w: "w = (j, e, u)" by (cases w)
    show ?case
    proof (cases "finish_run j e u db")
      case (Inl x)
      with Cons w show ?thesis by (auto simp: case_prod_beta Let_def)
    next
      case (Inr db1)
      note c = FinishWorkflowRun_cases [OF Cons.prems Inr [unfolded finish_run_def]]
      have "winners i ws (fst (attempts finish_run ws db1)) = 0" if "j = i"
        using c that by (intro finish_not_running) auto
      moreover have "schema_ok db1" using c by blast
      ultimately show ?thesis using Cons.IH [of db1] Inr w by (auto simp: case_prod_beta Let_def)
    qed
  qed simp
  show "map_option r_revision (get_run i (snd (attempts finish_run ws db))) =
      Some (r_revision r + int (winners i ws (fst (attempts finish_run ws db))))"
    using fin.revision_counts [OF assms(1), of i "r_revision r" ws] assms(2) by (simp add: run_revision_def)
qed

definition demo_run_db :: db where
  "demo_run_db = demo_flow_db\<lparr>runs := [\<lparr>r_id = 1, r_workflow_id = 1, r_project_id = 1, r_task = [],
     r_status = RunStatusRunning, r_task_ids = [], r_revision = 1, r_created_at = ''t1'',
     r_started_at = Some ''t1'', r_finished_at = None, r_updated_at = ''t1''\<rparr>], run_seq := 1\<rparr>"

theorem FinishWorkflowRun_once_witness:
  "map_option r_revision (get_run 1 (snd (attempts finish_run
     [(1, 1, (RunStatusFailed, ''t2'')), (1, 2, (RunStatusSucceeded, ''t3''))] demo_run_db))) = Some 2"
proof -
  let ?ws = "[(1, 1, (RunStatusFailed, ''t2'')), (1, 2, (RunStatusSucceeded, ''t3''))]"
  have ok: "schema_ok demo_run_db" by code_simp
  obtain r where r: "get_run 1 demo_run_db = Some r" "r_revision r = 1"
    by (auto simp: demo_run_db_def get_run_def)
  have "winners 1 ?ws (fst (attempts finish_run ?ws demo_run_db)) = 1" by code_simp
  with FinishWorkflowRun_once [OF ok r(1), of ?ws] r(2) show ?thesis by simp
qed

end
