(* ===== verification/Exec_Slots.thy ===== *)
theory Exec_Slots
  imports Store_Workflow
begin

text \<open>
  The execution slots of \<^verbatim>\<open>internal/exec\<close> (executor.go): per role, per project and
  per run the executor counts the executions it has admitted. A Go \<^verbatim>\<open>map[int64]int\<close>
  is a partial map whose missing keys read as zero. The interface \<open>slot_pool\<close> states what a
  bounded pool promises; the role slots and the run slots of the executor provide it.
\<close>

section \<open>Counters\<close>

type_synonym counts = "int \<rightharpoonup> int"

definition held :: "counts \<Rightarrow> int \<Rightarrow> int" where
  "held m k = (case m k of None \<Rightarrow> 0 | Some n \<Rightarrow> n)"

definition bump :: "int \<Rightarrow> counts \<Rightarrow> counts" where
  "bump k m = m(k \<mapsto> held m k + 1)"

definition drop_slot :: "int \<Rightarrow> counts \<Rightarrow> counts" where
  "drop_slot k m = (if held m k \<le> 1 then m(k := None) else m(k \<mapsto> held m k - 1))"

definition reserve :: "int \<Rightarrow> int \<Rightarrow> counts \<Rightarrow> counts \<times> bool" where
  "reserve limit k m =
     (let limit = (if limit < 1 then 1 else limit) in
      if held m k \<ge> limit then (m, False) else (bump k m, True))"

lemma held_bump_fun: "held (bump k m) = (held m)(k := held m k + 1)"
  by (simp add: held_def bump_def fun_eq_iff)

lemma held_bump [simp]: "held (bump k m) j = (if j = k then held m k + 1 else held m j)"
  by (simp add: held_bump_fun)

lemma held_empty [simp]: "held Map.empty k = 0"
  by (simp add: held_def)

lemma held_drop:
  "0 < held m k \<Longrightarrow> held (drop_slot k m) j = (if j = k then held m k - 1 else held m j)"
  by (auto simp: held_def drop_slot_def split: option.splits)

lemma held_drop_other [simp]: "j \<noteq> k \<Longrightarrow> held (drop_slot k m) j = held m j"
  by (auto simp: held_def drop_slot_def)

section \<open>Bounded pools\<close>

text \<open>
  The contract of a bounded pool: a reservation is granted only below the limit and counts one
  more holder, a refused one changes nothing, a release of a held slot counts one less.
\<close>

datatype slot_op = Enter int | Leave int

text \<open>
  A schedule of reservations and releases. The holders are the keys of the reservations that
  were granted and not released; only a holder releases.
\<close>

fun run_ops :: "(int \<Rightarrow> int \<Rightarrow> 's \<Rightarrow> 's \<times> bool) \<Rightarrow> (int \<Rightarrow> 's \<Rightarrow> 's) \<Rightarrow> (int \<Rightarrow> int)
    \<Rightarrow> slot_op list \<Rightarrow> 's \<times> int list \<Rightarrow> 's \<times> int list" where
  "run_ops res rel lim [] sh = sh"
| "run_ops res rel lim (Enter k # os) (s, hs) =
    (let (s', b) = res (lim k) k s in run_ops res rel lim os (s', if b then k # hs else hs))"
| "run_ops res rel lim (Leave k # os) (s, hs) =
    (if k \<in> set hs then run_ops res rel lim os (rel k s, remove1 k hs) else run_ops res rel lim os (s, hs))"

locale slot_pool =
  fixes used :: "'s \<Rightarrow> int \<Rightarrow> int"
    and res :: "int \<Rightarrow> int \<Rightarrow> 's \<Rightarrow> 's \<times> bool"
    and rel :: "int \<Rightarrow> 's \<Rightarrow> 's"
  assumes granted: "res l k s = (s', True) \<Longrightarrow> used s k < max 1 l \<and> used s' = (used s)(k := used s k + 1)"
    and refused: "res l k s = (s', False) \<Longrightarrow> s' = s \<and> max 1 l \<le> used s k"
    and released: "0 < used s k \<Longrightarrow> used (rel k s) = (used s)(k := used s k - 1)"
begin

definition agrees :: "'s \<Rightarrow> int list \<Rightarrow> bool" where
  "agrees s hs \<longleftrightarrow> (\<forall>k. used s k = int (count_list hs k))"

lemma count_remove1: "count_list (remove1 k hs) j = (if j = k then count_list hs k - 1 else count_list hs j)"
  by (induction hs) auto

lemma held_pos: "k \<in> set hs \<Longrightarrow> 0 < count_list hs k"
  by (induction hs) auto

lemma bounded:
  "agrees s hs \<Longrightarrow> (\<forall>k. used s k \<le> max 1 (lim k)) \<Longrightarrow> run_ops res rel lim os (s, hs) = (s', hs') \<Longrightarrow>
   agrees s' hs' \<and> (\<forall>k. used s' k \<le> max 1 (lim k))"
proof (induction os arbitrary: s hs)
  case (Cons op os)
  show ?case
  proof (cases op)
    case (Enter k)
    obtain s1 b where r: "res (lim k) k s = (s1, b)" by (cases "res (lim k) k s")
    have "agrees s1 (if b then k # hs else hs) \<and> (\<forall>j. used s1 j \<le> max 1 (lim j))"
    proof (cases b)
      case True
      with granted [of "lim k" k s s1] r Cons.prems(1,2) show ?thesis by (auto simp: agrees_def)
    next
      case False
      with refused [of "lim k" k s s1] r Cons.prems(1,2) show ?thesis by simp
    qed
    with Cons.IH [of s1 "if b then k # hs else hs"] Cons.prems(3) Enter r show ?thesis
      by (simp split del: if_split)
  next
    case (Leave k)
    show ?thesis
    proof (cases "k \<in> set hs")
      case True
      have pos: "0 < used s k" using Cons.prems(1) held_pos [OF True] by (simp add: agrees_def)
      have "used s k \<le> max 1 (lim k)" using Cons.prems(2) by blast
      then have "used s k - 1 \<le> max 1 (lim k)" by linarith
      then have "agrees (rel k s) (remove1 k hs) \<and> (\<forall>j. used (rel k s) j \<le> max 1 (lim j))"
        using Cons.prems(1,2) held_pos [OF True]
        by (auto simp: agrees_def released [OF pos] count_remove1 of_nat_diff)
      with Cons.IH [of "rel k s" "remove1 k hs"] Cons.prems(3) Leave True show ?thesis by simp
    qed (use Cons Leave in auto)
  qed
qed simp

end

interpretation counter: slot_pool held reserve drop_slot
proof unfold_locales
  fix l k :: int and s s' :: counts
  show "reserve l k s = (s', True) \<Longrightarrow> held s k < max 1 l \<and> held s' = (held s)(k := held s k + 1)"
    by (auto simp: reserve_def Let_def held_bump_fun split: if_splits)
  show "reserve l k s = (s', False) \<Longrightarrow> s' = s \<and> max 1 l \<le> held s k"
    by (auto simp: reserve_def Let_def split: if_splits)
  show "0 < held s k \<Longrightarrow> held (drop_slot k s) = (held s)(k := held s k - 1)"
    by (auto simp: fun_eq_iff held_drop)
qed

section \<open>The slots of the executor\<close>

record executor =
  active :: counts
  activeProj :: counts
  activeRuns :: counts

definition no_slots :: executor where
  "no_slots = \<lparr>active = Map.empty, activeProj = Map.empty, activeRuns = Map.empty\<rparr>"

definition reserveRoleSlot :: "int \<Rightarrow> int \<Rightarrow> executor \<Rightarrow> executor \<times> bool" where
  "reserveRoleSlot limit roleID e =
     (case reserve limit roleID (active e) of (m, b) \<Rightarrow> (e\<lparr>active := m\<rparr>, b))"

definition restoreRoleSlot :: "int \<Rightarrow> executor \<Rightarrow> executor" where
  "restoreRoleSlot roleID e = e\<lparr>active := bump roleID (active e)\<rparr>"

definition releaseRoleSlot :: "int \<Rightarrow> executor \<Rightarrow> executor" where
  "releaseRoleSlot roleID e = e\<lparr>active := drop_slot roleID (active e)\<rparr>"

definition reserveProjectSlot :: "task \<Rightarrow> executor \<Rightarrow> executor \<times> bool" where
  "reserveProjectSlot tk e =
     (case t_project_id tk of
        None \<Rightarrow> (e, True)
      | Some pid \<Rightarrow>
          if \<not> t_concurrent tk \<and> held (activeProj e) pid > 0 then (e, False)
          else (e\<lparr>activeProj := bump pid (activeProj e)\<rparr>, True))"

definition releaseProjectSlot :: "task \<Rightarrow> executor \<Rightarrow> executor" where
  "releaseProjectSlot tk e =
     (case t_project_id tk of None \<Rightarrow> e | Some pid \<Rightarrow> e\<lparr>activeProj := drop_slot pid (activeProj e)\<rparr>)"

definition restoreProjectSlot :: "task \<Rightarrow> executor \<Rightarrow> executor" where
  "restoreProjectSlot tk e =
     (case t_project_id tk of None \<Rightarrow> e | Some pid \<Rightarrow> e\<lparr>activeProj := bump pid (activeProj e)\<rparr>)"

definition reserveWorkflowSlot :: "int \<Rightarrow> task \<Rightarrow> executor \<Rightarrow> executor \<times> bool" where
  "reserveWorkflowSlot limit tk e =
     (case t_workflow_run_id tk of
        None \<Rightarrow> (e, True)
      | Some runID \<Rightarrow>
          (case reserve limit runID (activeRuns e) of (m, b) \<Rightarrow> (e\<lparr>activeRuns := m\<rparr>, b)))"

definition releaseWorkflowSlot :: "task \<Rightarrow> executor \<Rightarrow> executor" where
  "releaseWorkflowSlot tk e =
     (case t_workflow_run_id tk of None \<Rightarrow> e | Some runID \<Rightarrow> e\<lparr>activeRuns := drop_slot runID (activeRuns e)\<rparr>)"

definition restoreWorkflowSlot :: "task \<Rightarrow> executor \<Rightarrow> executor" where
  "restoreWorkflowSlot tk e =
     (case t_workflow_run_id tk of None \<Rightarrow> e | Some runID \<Rightarrow> e\<lparr>activeRuns := bump runID (activeRuns e)\<rparr>)"

lemma reserve_cases:
  "reserve l k m = (m', b) \<Longrightarrow>
     (if b then held m k < max 1 l \<and> held m' = (held m)(k := held m k + 1) else m' = m \<and> max 1 l \<le> held m k)"
  using counter.granted [of l k m m'] counter.refused [of l k m m'] by (cases b) auto

interpretation role_slots: slot_pool "\<lambda>e. held (active e)" reserveRoleSlot releaseRoleSlot
proof unfold_locales
  fix l k :: int and s s' :: executor
  show "reserveRoleSlot l k s = (s', True) \<Longrightarrow> held (active s) k < max 1 l \<and>
      held (active s') = (held (active s))(k := held (active s) k + 1)"
    by (auto simp: reserveRoleSlot_def split: prod.splits dest: reserve_cases)
  show "reserveRoleSlot l k s = (s', False) \<Longrightarrow> s' = s \<and> max 1 l \<le> held (active s) k"
    by (auto simp: reserveRoleSlot_def split: prod.splits dest!: reserve_cases)
  show "0 < held (active s) k \<Longrightarrow> held (active (releaseRoleSlot k s)) = (held (active s))(k := held (active s) k - 1)"
    by (simp add: releaseRoleSlot_def counter.released)
qed

section \<open>Dispatching\<close>

definition ConcurrencyLimit :: "role \<Rightarrow> int" where
  "ConcurrencyLimit a = (if a_max_concurrency a < 1 then 1 else a_max_concurrency a)"

text \<open>
  The limits read so far in this pass over the queue. A turn of the loop for one task returns
  whether the task was handed to \<^verbatim>\<open>runTask\<close>.
\<close>

record pass =
  limits :: counts
  runLimits :: counts

definition run_limit :: "db \<Rightarrow> int \<Rightarrow> pass \<Rightarrow> (int \<times> pass) option" where
  "run_limit db runID ps =
     (case runLimits ps runID of
        Some l \<Rightarrow> Some (l, ps)
      | None \<Rightarrow>
          (case WorkflowRunConcurrencyLimit runID db of
             Inl _ \<Rightarrow> None
           | Inr l \<Rightarrow> Some (l, ps\<lparr>runLimits := (runLimits ps)(runID \<mapsto> l)\<rparr>)))"

definition role_limit :: "db \<Rightarrow> int \<Rightarrow> pass \<Rightarrow> (int \<times> pass) option" where
  "role_limit db roleID ps =
     (case limits ps roleID of
        Some l \<Rightarrow> Some (l, ps)
      | None \<Rightarrow>
          (case get_role_row roleID db of
             None \<Rightarrow> None
           | Some agent \<Rightarrow>
               if \<not> a_enabled agent then None
               else Some (ConcurrencyLimit agent,
                 ps\<lparr>limits := (limits ps)(roleID \<mapsto> ConcurrencyLimit agent)\<rparr>)))"

text \<open>From the role's slot to the claim, with the run's slot already taken.\<close>

definition admit :: "string \<Rightarrow> task \<Rightarrow> int \<Rightarrow> pass \<times> executor \<times> db \<Rightarrow> (pass \<times> executor \<times> db) \<times> bool" where
  "admit now tk roleID st =
     (case st of (ps, e, db) \<Rightarrow>
      case role_limit db roleID ps of
        None \<Rightarrow> ((ps, releaseWorkflowSlot tk e, db), False)
      | Some (l, ps2) \<Rightarrow>
          (case reserveRoleSlot l roleID e of
             (e2, False) \<Rightarrow> ((ps2, releaseWorkflowSlot tk e2, db), False)
           | (e2, True) \<Rightarrow>
               (case reserveProjectSlot tk e2 of
                  (e3, False) \<Rightarrow> ((ps2, releaseWorkflowSlot tk (releaseRoleSlot roleID e3), db), False)
                | (e3, True) \<Rightarrow>
                    (case ClaimTask (t_id tk) now db of
                       Inr (db', True) \<Rightarrow> ((ps2, e3, db'), True)
                     | _ \<Rightarrow> ((ps2, releaseWorkflowSlot tk (releaseProjectSlot tk
                           (releaseRoleSlot roleID e3)), db), False)))))"

definition dispatch_one :: "string \<Rightarrow> task \<Rightarrow> pass \<times> executor \<times> db \<Rightarrow> (pass \<times> executor \<times> db) \<times> bool" where
  "dispatch_one now tk st =
     (case st of (ps, e, db) \<Rightarrow>
      case t_role_id tk of
        None \<Rightarrow> (st, False)
      | Some roleID \<Rightarrow>
          if (case CheckTaskDependency db tk of Inl _ \<Rightarrow> True | Inr c \<Rightarrow> \<not> dc_ready c) then (st, False)
          else case t_workflow_run_id tk of
              None \<Rightarrow> admit now tk roleID (ps, e, db)
            | Some runID \<Rightarrow>
                (case run_limit db runID ps of
                   None \<Rightarrow> (st, False)
                 | Some (l, ps1) \<Rightarrow>
                     (case reserveWorkflowSlot l tk e of
                        (e1, False) \<Rightarrow> ((ps1, e1, db), False)
                      | (e1, True) \<Rightarrow> admit now tk roleID (ps1, e1, db))))"

fun dispatch_loop :: "string \<Rightarrow> task list \<Rightarrow> pass \<times> executor \<times> db \<Rightarrow> (pass \<times> executor \<times> db) \<times> task list" where
  "dispatch_loop now [] st = (st, [])"
| "dispatch_loop now (tk # tks) st =
    (let (st1, b) = dispatch_one now tk st; (st2, rest) = dispatch_loop now tks st1
     in (st2, if b then tk # rest else rest))"

text \<open>A pass over the queue: the new slots, the new database and the tasks it started.\<close>

definition dispatch :: "string \<Rightarrow> executor \<Rightarrow> db \<Rightarrow> executor \<times> db \<times> task list" where
  "dispatch now e db =
     (case dispatch_loop now (ListQueuedTasks db) (\<lparr>limits = Map.empty, runLimits = Map.empty\<rparr>, e, db) of
        ((ps, e', db'), started) \<Rightarrow> (e', db', started))"

end
