(* ===== verification/Exec_Laws.thy ===== *)
theory Exec_Laws
  imports Exec_Slots
begin

text \<open>
  What dispatching guarantees: the slot counters agree with the executions in progress, no
  role and no run exceeds its limit, a task without the concurrency mark starts only on an
  idle project, and every started task was queued and had its dependencies delivered. The
  executor as a whole is a step relation between passes of the dispatcher, ending executions,
  recovery after a restart and changes of the store by others.
\<close>

section \<open>Loads\<close>

definition add_opt :: "int option \<Rightarrow> (int \<Rightarrow> int) \<Rightarrow> int \<Rightarrow> int" where
  "add_opt k f = (case k of None \<Rightarrow> f | Some k \<Rightarrow> f(k := f k + 1))"

definition sub_opt :: "int option \<Rightarrow> (int \<Rightarrow> int) \<Rightarrow> int \<Rightarrow> int" where
  "sub_opt k f = (case k of None \<Rightarrow> f | Some k \<Rightarrow> f(k := f k - 1))"

definition pos_opt :: "int option \<Rightarrow> (int \<Rightarrow> int) \<Rightarrow> bool" where
  "pos_opt k f \<longleftrightarrow> (case k of None \<Rightarrow> True | Some k \<Rightarrow> 0 < f k)"

lemma sub_add_opt [simp]: "sub_opt k (add_opt k f) = f"
  by (auto simp: add_opt_def sub_opt_def split: option.splits)

lemma pos_add_opt [simp]: "(\<And>j. 0 \<le> f j) \<Longrightarrow> pos_opt k (add_opt k f)"
  by (auto simp: pos_opt_def add_opt_def split: option.splits)

lemma add_opt_apply: "add_opt k f j = f j + (if k = Some j then 1 else 0)"
  by (auto simp: add_opt_def split: option.splits)

lemma release_frame [simp]:
  "activeProj (releaseRoleSlot r e) = activeProj e" "activeRuns (releaseRoleSlot r e) = activeRuns e"
  "active (releaseProjectSlot t e) = active e" "activeRuns (releaseProjectSlot t e) = activeRuns e"
  "active (releaseWorkflowSlot t e) = active e" "activeProj (releaseWorkflowSlot t e) = activeProj e"
  by (simp_all add: releaseRoleSlot_def releaseProjectSlot_def releaseWorkflowSlot_def split: option.splits)

lemma release_held:
  "0 < held (active e) r \<Longrightarrow> held (active (releaseRoleSlot r e)) = sub_opt (Some r) (held (active e))"
  "pos_opt (t_project_id t) (held (activeProj e)) \<Longrightarrow>
     held (activeProj (releaseProjectSlot t e)) = sub_opt (t_project_id t) (held (activeProj e))"
  "pos_opt (t_workflow_run_id t) (held (activeRuns e)) \<Longrightarrow>
     held (activeRuns (releaseWorkflowSlot t e)) = sub_opt (t_workflow_run_id t) (held (activeRuns e))"
  by (simp_all add: releaseRoleSlot_def releaseProjectSlot_def releaseWorkflowSlot_def counter.released
      sub_opt_def pos_opt_def split: option.splits)

lemma reserveRole_cases:
  assumes "reserveRoleSlot l r e = (e', b)"
  shows "activeProj e' = activeProj e" and "activeRuns e' = activeRuns e"
    and "held (active e') = (if b then add_opt (Some r) (held (active e)) else held (active e))"
    and "b \<Longrightarrow> held (active e) r < max 1 l"
  using assms by (auto simp: reserveRoleSlot_def add_opt_def split: prod.splits dest: reserve_cases)

lemma reserveProject_cases:
  assumes "reserveProjectSlot t e = (e', b)"
  shows "active e' = active e" and "activeRuns e' = activeRuns e"
    and "held (activeProj e') = (if b then add_opt (t_project_id t) (held (activeProj e)) else held (activeProj e))"
    and "b \<Longrightarrow> t_project_id t = Some p \<Longrightarrow> \<not> t_concurrent t \<Longrightarrow> held (activeProj e) p \<le> 0"
  using assms by (auto simp: reserveProjectSlot_def add_opt_def held_bump_fun split: option.splits if_splits)

lemma reserveWorkflow_cases:
  assumes "reserveWorkflowSlot l t e = (e', b)"
  shows "active e' = active e" and "activeProj e' = activeProj e"
    and "held (activeRuns e') = (if b then add_opt (t_workflow_run_id t) (held (activeRuns e)) else held (activeRuns e))"
    and "b \<Longrightarrow> t_workflow_run_id t = Some k \<Longrightarrow> held (activeRuns e) k < max 1 l"
  using assms by (auto simp: reserveWorkflowSlot_def add_opt_def split: prod.splits option.splits dest: reserve_cases)

text \<open>The three loads together.\<close>

definition loads :: "executor \<Rightarrow> (int \<Rightarrow> int) \<times> (int \<Rightarrow> int) \<times> (int \<Rightarrow> int)" where
  "loads e = (held (active e), held (activeProj e), held (activeRuns e))"

definition with_task :: "task \<Rightarrow> (int \<Rightarrow> int) \<times> (int \<Rightarrow> int) \<times> (int \<Rightarrow> int)
    \<Rightarrow> (int \<Rightarrow> int) \<times> (int \<Rightarrow> int) \<times> (int \<Rightarrow> int)" where
  "with_task t l = (case l of (a, p, r) \<Rightarrow>
     (add_opt (t_role_id t) a, add_opt (t_project_id t) p, add_opt (t_workflow_run_id t) r))"

definition nonneg :: "executor \<Rightarrow> bool" where
  "nonneg e \<longleftrightarrow> (\<forall>k. 0 \<le> held (active e) k \<and> 0 \<le> held (activeProj e) k \<and> 0 \<le> held (activeRuns e) k)"

lemma nonneg_loads: "loads e' = loads e \<Longrightarrow> nonneg e' = nonneg e"
  by (simp add: loads_def nonneg_def)

lemma nonneg_with_task: "nonneg e \<Longrightarrow> loads e' = with_task t (loads e) \<Longrightarrow> nonneg e'"
  by (auto simp: loads_def nonneg_def with_task_def add_opt_apply)

section \<open>One turn of the dispatcher\<close>

lemma admit_effect:
  assumes adm: "admit now tk r (ps, e, db) = ((ps', e', db'), b)" and role: "t_role_id tk = Some r"
    and base: "nonneg e0" and run: "loads e = (held (active e0), held (activeProj e0),
      add_opt (t_workflow_run_id tk) (held (activeRuns e0)))"
  shows "\<not> b \<Longrightarrow> loads e' = loads e0 \<and> db' = db"
    and "b \<Longrightarrow> loads e' = with_task tk (loads e0) \<and> ClaimTask (t_id tk) now db = Inr (db', True)"
    and "b \<Longrightarrow> \<exists>l. role_limit db r ps = Some (l, ps') \<and> held (active e0) r < max 1 l"
    and "b \<Longrightarrow> t_project_id tk = Some p \<Longrightarrow> \<not> t_concurrent tk \<Longrightarrow> held (activeProj e0) p = 0"
    and "\<exists>l. ps' = ps \<or> role_limit db r ps = Some (l, ps')"
proof -
  note R = run [unfolded loads_def prod.inject]
  have nn: "\<And>j. 0 \<le> held (active e0) j" "\<And>j. 0 \<le> held (activeProj e0) j" "\<And>j. 0 \<le> held (activeRuns e0) j"
    using base by (auto simp: nonneg_def)
  have all: "(\<not> b \<longrightarrow> loads e' = loads e0 \<and> db' = db) \<and>
    (b \<longrightarrow> loads e' = with_task tk (loads e0) \<and> ClaimTask (t_id tk) now db = Inr (db', True) \<and>
       (\<exists>l. role_limit db r ps = Some (l, ps') \<and> held (active e0) r < max 1 l) \<and>
       (\<forall>p. t_project_id tk = Some p \<longrightarrow> \<not> t_concurrent tk \<longrightarrow> held (activeProj e0) p = 0)) \<and>
    (\<exists>l. ps' = ps \<or> role_limit db r ps = Some (l, ps'))"
  proof (cases "role_limit db r ps")
    case None
    with adm R nn show ?thesis by (auto simp: admit_def loads_def release_held)
  next
    case (Some lp)
    then obtain l ps2 where l: "role_limit db r ps = Some (l, ps2)" by (cases lp) auto
    obtain e2 b2 where r2: "reserveRoleSlot l r e = (e2, b2)" by fastforce
    note R2 = reserveRole_cases [OF r2]
    show ?thesis
    proof (cases b2)
      case False
      with adm l r2 R R2 nn show ?thesis by (auto simp: admit_def loads_def release_held)
    next
      case True
      obtain e3 b3 where r3: "reserveProjectSlot tk e2 = (e3, b3)" by fastforce
      note R3 = reserveProject_cases [OF r3]
      have h3: "held (active e3) = add_opt (Some r) (held (active e0))"
        "held (activeRuns e3) = add_opt (t_workflow_run_id tk) (held (activeRuns e0))"
        "held (active e0) r < max 1 l"
        using R R2 R3 True by auto
      have pos: "0 < held (active e3) r" using nn(1) [of r] by (simp add: h3(1) add_opt_apply)
      have undo: "loads (releaseWorkflowSlot tk (releaseRoleSlot r e3)) =
          (held (active e0), held (activeProj e3), held (activeRuns e0))"
        using pos nn by (simp add: loads_def release_held h3)
      show ?thesis
      proof (cases b3)
        case False
        then have "loads (releaseWorkflowSlot tk (releaseRoleSlot r e3)) = loads e0"
          using R R2(1) R3(3) undo by (simp add: loads_def)
        with adm l r2 r3 True False show ?thesis by (auto simp: admit_def)
      next
        case b3: True
        have h3p: "held (activeProj e3) = add_opt (t_project_id tk) (held (activeProj e0))"
          using R R2(1) R3(3) b3 by simp
        have "loads (releaseWorkflowSlot tk (releaseProjectSlot tk (releaseRoleSlot r e3))) = loads e0"
          using pos nn by (simp add: loads_def release_held h3 h3p)
        moreover have "loads e3 = with_task tk (loads e0)"
          by (simp add: loads_def with_task_def h3 h3p role)
        moreover have "held (activeProj e0) p = 0" if "t_project_id tk = Some p" "\<not> t_concurrent tk" for p
          using R3(4) [OF b3 that] R R2(1) nn(2) [of p] by simp
        ultimately show ?thesis
          using adm l r2 r3 True b3 h3(3)
          by (auto simp: admit_def split: sum.splits bool.splits prod.splits)
      qed
    qed
  qed
  show "\<not> b \<Longrightarrow> loads e' = loads e0 \<and> db' = db"
    "b \<Longrightarrow> loads e' = with_task tk (loads e0) \<and> ClaimTask (t_id tk) now db = Inr (db', True)"
    "b \<Longrightarrow> \<exists>l. role_limit db r ps = Some (l, ps') \<and> held (active e0) r < max 1 l"
    "b \<Longrightarrow> t_project_id tk = Some p \<Longrightarrow> \<not> t_concurrent tk \<Longrightarrow> held (activeProj e0) p = 0"
    "\<exists>l. ps' = ps \<or> role_limit db r ps = Some (l, ps')"
    using all by auto
qed

section \<open>What a claim leaves alone\<close>

definition settled :: "status \<Rightarrow> bool" where
  "settled st \<longleftrightarrow> st \<in> {StatusSucceeded, StatusFailed, StatusCancelled}"

text \<open>An update that keeps what deliveries depend on.\<close>

definition delivery_neutral :: "(task \<Rightarrow> task) \<Rightarrow> bool" where
  "delivery_neutral g \<longleftrightarrow> (\<forall>t. t_id (g t) = t_id t \<and> t_merge_of (g t) = t_merge_of t \<and>
     t_merge_skipped (g t) = t_merge_skipped t \<and> t_worktree_branch (g t) = t_worktree_branch t \<and>
     t_block_on_failure (g t) = t_block_on_failure t \<and>
     (t_status (g t) = t_status t \<or> \<not> settled (t_status (g t)) \<and> \<not> settled (t_status t)))"

lemma neutral_status:
  assumes "delivery_neutral g"
  shows "t_status (g t) = StatusSucceeded \<longleftrightarrow> t_status t = StatusSucceeded"
    and "t_status (g t) = StatusFailed \<or> t_status (g t) = StatusCancelled \<longleftrightarrow>
      t_status t = StatusFailed \<or> t_status t = StatusCancelled"
proof -
  have "t_status (g t) = t_status t \<or> \<not> settled (t_status (g t)) \<and> \<not> settled (t_status t)"
    using assms by (simp add: delivery_neutral_def)
  then show "t_status (g t) = StatusSucceeded \<longleftrightarrow> t_status t = StatusSucceeded"
    "t_status (g t) = StatusFailed \<or> t_status (g t) = StatusCancelled \<longleftrightarrow>
      t_status t = StatusFailed \<or> t_status t = StatusCancelled"
    by (auto simp: settled_def)
qed

lemma neutral_delivery:
  assumes g: "delivery_neutral g" and db': "tasks db' = map g (tasks db)"
  shows "delivered db' (g s) = delivered db s" and "delivery_failed db' (g s) = delivery_failed db s"
proof -
  have f: "t_id (g t) = t_id t" "t_merge_of (g t) = t_merge_of t" "t_merge_skipped (g t) = t_merge_skipped t"
    "t_worktree_branch (g t) = t_worktree_branch t" for t using g by (auto simp: delivery_neutral_def)
  show "delivered db' (g s) = delivered db s"
    by (simp add: delivered_def db' f neutral_status [OF g])
  show "delivery_failed db' (g s) = delivery_failed db s"
    by (simp add: delivery_failed_def db' f neutral_status [OF g])
qed

lemma neutral_ready:
  assumes g: "delivery_neutral g" and db': "tasks db' = map g (tasks db)" "deps db' = deps db"
  shows "ready_spec db' t = ready_spec db t"
proof -
  have sel_map: "sel t_id i (map g ts) = map_option g (sel t_id i ts)" for i ts
    using g by (induction ts) (auto simp: delivery_neutral_def)
  then have get: "get_task i db' = map_option g (get_task i db)" for i by (simp add: get_task_def db')
  have edge: "edge_open db' e = edge_open db e" for e
    using neutral_delivery [OF g db'(1)] by (auto simp: edge_open_def get)
  have block: "t_block_on_failure (g s) = t_block_on_failure s" for s using g by (simp add: delivery_neutral_def)
  note same = ready_spec_def Let_def edge db'(2) get neutral_delivery [OF g db'(1)] block
  show ?thesis
  proof (cases "t_depends_on t")
    case None
    then show ?thesis by (auto simp: same)
  next
    case (Some d)
    then show ?thesis by (cases "get_task d db") (auto simp: same)
  qed
qed

lemma claim_frame:
  assumes ok: "schema_ok db" and claim: "ClaimTask i now db = Inr (db', True)"
  shows "schema_ok db'" and "roles db' = roles db" and "ready_spec db' t = ready_spec db t"
    and "WorkflowRunConcurrencyLimit k db' = WorkflowRunConcurrencyLimit k db"
    and "status_in i db = Some StatusQueued"
    and "status_in j db' = (if j = i then Some StatusClaimed else status_in j db)"
proof -
  let ?p = "\<lambda>t. t_id t = i \<and> t_status t = StatusQueued"
  let ?f = "\<lambda>t. t\<lparr>t_status := StatusClaimed, t_started_at := Some now, t_updated_at := now, t_revision := t_revision t + 1\<rparr>"
  let ?g = "\<lambda>t. if ?p t then ?f t else t"
  have db': "db' = db\<lparr>tasks := upd_where ?p ?f (tasks db)\<rparr>" and ok': "schema_ok db'"
    using claim by (auto simp: ClaimTask_def rbind_eq_Inr update_tasks_Inr)
  then show "schema_ok db'" "roles db' = roles db" by simp_all
  from claim.fires [OF ok, of i now] claim
  show "status_in i db = Some StatusQueued"
    "status_in j db' = (if j = i then Some StatusClaimed else status_in j db)" by auto
  have "delivery_neutral ?g" by (auto simp: delivery_neutral_def settled_def)
  then show "ready_spec db' t = ready_spec db t"
    by (rule neutral_ready) (simp_all add: db' upd_where_def)
  have "get_task j db' = map_option ?g (get_task j db)" for j
    unfolding db' by (rule get_task_upd) simp
  moreover have "get_run k db' = get_run k db" by (simp add: db' get_run_def)
  ultimately show "WorkflowRunConcurrencyLimit k db' = WorkflowRunConcurrencyLimit k db"
    by (auto simp: WorkflowRunConcurrencyLimit_def split: option.splits)
qed

section \<open>A pass of the dispatcher\<close>

definition pass_ok :: "db \<Rightarrow> pass \<Rightarrow> bool" where
  "pass_ok db ps \<longleftrightarrow>
     (\<forall>r l. limits ps r = Some l \<longrightarrow>
        (\<exists>a. get_role_row r db = Some a \<and> a_enabled a \<and> l = ConcurrencyLimit a)) \<and>
     (\<forall>k l. runLimits ps k = Some l \<longrightarrow> WorkflowRunConcurrencyLimit k db = Inr l)"

lemma role_limit_ok:
  "pass_ok db ps \<Longrightarrow> role_limit db r ps = Some (l, ps') \<Longrightarrow>
     pass_ok db ps' \<and> (\<exists>a. get_role_row r db = Some a \<and> a_enabled a \<and> l = ConcurrencyLimit a)"
  by (auto simp: role_limit_def pass_ok_def split: option.splits if_splits)

lemma run_limit_ok:
  "pass_ok db ps \<Longrightarrow> run_limit db k ps = Some (l, ps') \<Longrightarrow>
     pass_ok db ps' \<and> WorkflowRunConcurrencyLimit k db = Inr l"
  by (auto simp: run_limit_def pass_ok_def split: option.splits sum.splits if_splits)

lemma limit_pos: "1 \<le> ConcurrencyLimit a" "WorkflowRunConcurrencyLimit k db = Inr l \<Longrightarrow> 1 \<le> l"
  by (auto simp: ConcurrencyLimit_def WorkflowRunConcurrencyLimit_def split: option.splits spec_text.splits)

text \<open>How many of the tasks have the key \<open>k\<close>.\<close>

definition num :: "(task \<Rightarrow> int option) \<Rightarrow> int \<Rightarrow> task list \<Rightarrow> int" where
  "num f k ts = int (length (filter (\<lambda>t. f t = Some k) ts))"

lemma num_simps [simp]:
  "num f k [] = 0" "num f k (t # ts) = (if f t = Some k then 1 else 0) + num f k ts"
  "num f k (ts @ us) = num f k ts + num f k us" "0 \<le> num f k ts"
  by (simp_all add: num_def)

text \<open>
  When a task may be started, with \<open>xs\<close> started before it in the same pass: its
  dependencies are delivered, it is queued, its role is enabled and below its limit, its run
  below its limit, and its project idle unless it is marked concurrent.
\<close>

definition start_ok :: "db \<Rightarrow> executor \<Rightarrow> task list \<Rightarrow> task \<Rightarrow> bool" where
  "start_ok db e xs t \<longleftrightarrow>
     ready_spec db t \<and> status_in (t_id t) db = Some StatusQueued \<and>
     (\<exists>r a. t_role_id t = Some r \<and> get_role_row r db = Some a \<and> a_enabled a \<and>
        held (active e) r + num t_role_id r xs < ConcurrencyLimit a) \<and>
     (\<forall>k. t_workflow_run_id t = Some k \<longrightarrow>
        (\<exists>l. WorkflowRunConcurrencyLimit k db = Inr l \<and> held (activeRuns e) k + num t_workflow_run_id k xs < l)) \<and>
     (\<forall>p. t_project_id t = Some p \<longrightarrow> \<not> t_concurrent t \<longrightarrow>
        held (activeProj e) p + num t_project_id p xs = 0)"

lemma dispatch_one_effect:
  assumes one: "dispatch_one now tk (ps, e, db) = ((ps', e', db'), b)"
    and ok: "schema_ok db" "nonneg e" "pass_ok db ps"
  shows "\<not> b \<Longrightarrow> loads e' = loads e \<and> db' = db"
    and "b \<Longrightarrow> loads e' = with_task tk (loads e) \<and> ClaimTask (t_id tk) now db = Inr (db', True) \<and> start_ok db e [] tk"
    and "pass_ok db ps'"
proof -
  have "(\<not> b \<longrightarrow> loads e' = loads e \<and> db' = db) \<and> pass_ok db ps' \<and>
    (b \<longrightarrow> loads e' = with_task tk (loads e) \<and> ClaimTask (t_id tk) now db = Inr (db', True) \<and> start_ok db e [] tk)"
  proof (cases "t_role_id tk")
    case None
    with one ok show ?thesis by (auto simp: dispatch_one_def)
  next
    case (Some r)
    obtain c where c: "CheckTaskDependency db tk = Inr c" "dc_ready c = ready_spec db tk"
      using check_contract [OF ok(1)] by blast
    have admitted: ?thesis if adm: "admit now tk r (ps1, e1, db) = ((ps', e', db'), b)" and p1: "pass_ok db ps1"
      and rdy: "ready_spec db tk"
      and e1: "loads e1 = (held (active e), held (activeProj e), add_opt (t_workflow_run_id tk) (held (activeRuns e)))"
      and run: "\<forall>k. t_workflow_run_id tk = Some k \<longrightarrow>
        (\<exists>l. WorkflowRunConcurrencyLimit k db = Inr l \<and> held (activeRuns e) k < l)" for ps1 e1
    proof -
      note A = admit_effect [OF adm Some ok(2) e1]
      have ps': "pass_ok db ps'" using A(5) role_limit_ok [OF p1] p1 by auto
      show ?thesis
      proof (cases b)
        case True
        obtain l where l: "role_limit db r ps1 = Some (l, ps')" "held (active e) r < max 1 l"
          using A(3) [OF True] by blast
        obtain a where a: "get_role_row r db = Some a" "a_enabled a" "l = ConcurrencyLimit a"
          using role_limit_ok [OF p1 l(1)] by blast
        have "status_in (t_id tk) db = Some StatusQueued" using claim_frame(5) [OF ok(1)] A(2) [OF True] by blast
        then have "start_ok db e [] tk"
          using rdy Some a l(2) run A(4) [OF True] limit_pos(1) [of a] by (auto simp: start_ok_def max_def)
        with A(2) [OF True] True ps' show ?thesis by simp
      qed (use A(1) ps' in simp)
    qed
    show ?thesis
    proof (cases "dc_ready c")
      case False
      with one ok Some c show ?thesis by (auto simp: dispatch_one_def)
    next
      case True
      show ?thesis
      proof (cases "t_workflow_run_id tk")
        case None
        have "admit now tk r (ps, e, db) = ((ps', e', db'), b)"
          using one Some c True None by (simp add: dispatch_one_def)
        with ok(3) c True None show ?thesis by (intro admitted) (auto simp: loads_def add_opt_def)
      next
        case run: (Some k)
        show ?thesis
        proof (cases "run_limit db k ps")
          case None
          with one ok Some c True run show ?thesis by (auto simp: dispatch_one_def)
        next
          case lim: (Some lp)
          obtain l ps1 where l: "run_limit db k ps = Some (l, ps1)" using lim by (cases lp) auto
          note L = run_limit_ok [OF ok(3) l]
          obtain e1 b1 where r1: "reserveWorkflowSlot l tk e = (e1, b1)" by fastforce
          note R1 = reserveWorkflow_cases [OF r1]
          show ?thesis
          proof (cases b1)
            case False
            with one Some c True run l r1 R1 L show ?thesis by (auto simp: dispatch_one_def loads_def)
          next
            case b1: True
            have "admit now tk r (ps1, e1, db) = ((ps', e', db'), b)"
              using one Some c True run l r1 b1 by (simp add: dispatch_one_def)
            then show ?thesis
            proof (rule admitted)
              show "pass_ok db ps1" "ready_spec db tk" using L c True by simp_all
              show "loads e1 = (held (active e), held (activeProj e), add_opt (t_workflow_run_id tk) (held (activeRuns e)))"
                using R1 b1 by (simp add: loads_def)
              show "\<forall>k. t_workflow_run_id tk = Some k \<longrightarrow>
                  (\<exists>l. WorkflowRunConcurrencyLimit k db = Inr l \<and> held (activeRuns e) k < l)"
                using R1(4) [OF b1] run L limit_pos(2) [of k db l] by (auto simp: max_def)
            qed
          qed
        qed
      qed
    qed
  qed
  then show "\<not> b \<Longrightarrow> loads e' = loads e \<and> db' = db"
    "b \<Longrightarrow> loads e' = with_task tk (loads e) \<and> ClaimTask (t_id tk) now db = Inr (db', True) \<and> start_ok db e [] tk"
    "pass_ok db ps'" by auto
qed

lemma loads_with:
  assumes "loads e' = with_task t (loads e)"
  shows "held (active e') k = held (active e) k + (if t_role_id t = Some k then 1 else 0)"
    and "held (activeProj e') k = held (activeProj e) k + (if t_project_id t = Some k then 1 else 0)"
    and "held (activeRuns e') k = held (activeRuns e) k + (if t_workflow_run_id t = Some k then 1 else 0)"
  using assms by (auto simp: loads_def with_task_def add_opt_apply)

lemma loads_same:
  assumes "loads e' = loads e"
  shows "held (active e') = held (active e)" and "held (activeProj e') = held (activeProj e)"
    and "held (activeRuns e') = held (activeRuns e)"
  using assms by (auto simp: loads_def)

text \<open>A task that may start after a claim and a slot more may start after \<open>tk\<close> was started.\<close>

lemma start_ok_later:
  assumes ok: "schema_ok db" and claim: "ClaimTask (t_id tk) now db = Inr (db1, True)"
    and e1: "loads e1 = with_task tk (loads e)" and st: "start_ok db1 e1 xs t"
  shows "start_ok db e (tk # xs) t"
proof -
  note F = claim_frame [OF ok claim]
  have "status_in (t_id t) db = Some StatusQueued"
    using st F(6) [of "t_id t"] by (auto simp: start_ok_def split: if_splits)
  moreover have "get_role_row r db1 = get_role_row r db" for r by (simp add: get_role_row_def F(2))
  ultimately show ?thesis
    using st unfolding start_ok_def F(3,4) loads_with [OF e1]
    by (auto simp: add.assoc split: if_splits)
qed

lemma start_ok_same: "loads e' = loads e \<Longrightarrow> start_ok db e' xs t = start_ok db e xs t"
  unfolding start_ok_def using loads_same [of e' e] by simp

lemma dispatch_loop_effect:
  assumes "dispatch_loop now tks (ps, e, db) = ((ps', e', db'), started)"
    and "schema_ok db" "nonneg e" "pass_ok db ps"
  shows "schema_ok db' \<and> nonneg e' \<and> set started \<subseteq> set tks \<and> roles db' = roles db \<and>
    (\<forall>k. held (active e') k = held (active e) k + num t_role_id k started) \<and>
    (\<forall>k. held (activeProj e') k = held (activeProj e) k + num t_project_id k started) \<and>
    (\<forall>k. held (activeRuns e') k = held (activeRuns e) k + num t_workflow_run_id k started) \<and>
    (\<forall>k. WorkflowRunConcurrencyLimit k db' = WorkflowRunConcurrencyLimit k db) \<and>
    (\<forall>j. status_in j db' = (if j \<in> t_id ` set started then Some StatusClaimed else status_in j db)) \<and>
    (\<forall>xs t ys. started = xs @ t # ys \<longrightarrow> start_ok db e xs t)"
  using assms
proof (induction tks arbitrary: ps e db started)
  case Nil
  then show ?case by simp
next
  case (Cons tk tks)
  obtain ps1 e1 db1 b where one: "dispatch_one now tk (ps, e, db) = ((ps1, e1, db1), b)"
    by (cases "dispatch_one now tk (ps, e, db)") auto
  obtain rest where rest: "dispatch_loop now tks (ps1, e1, db1) = ((ps', e', db'), rest)"
    and started: "started = (if b then tk # rest else rest)"
    using Cons.prems(1) one by (auto simp: Let_def split: prod.splits)
  note E = dispatch_one_effect [OF one Cons.prems(2-4)]
  show ?case
  proof (cases b)
    case False
    then have same: "loads e1 = loads e" "db1 = db" using E(1) by simp_all
    have "nonneg e1" using nonneg_loads [OF same(1)] Cons.prems(3) by simp
    from Cons.IH [OF rest [unfolded same(2)] Cons.prems(2) this E(3)] show ?thesis
      using False started loads_same [OF same(1)] start_ok_same [OF same(1)] by auto
  next
    case True
    then have s: "loads e1 = with_task tk (loads e)" "ClaimTask (t_id tk) now db = Inr (db1, True)" "start_ok db e [] tk"
      using E(2) by simp_all
    note F = claim_frame [OF Cons.prems(2) s(2)]
    have nn: "nonneg e1" using nonneg_with_task [OF Cons.prems(3) s(1)] .
    have ps1: "pass_ok db1 ps1"
      using E(3) by (simp add: pass_ok_def get_role_row_def F(2,4))
    note IH = Cons.IH [OF rest F(1) nn ps1]
    have split: "start_ok db e xs t" if "started = xs @ t # ys" for xs t ys
    proof (cases xs)
      case Nil
      with that started True s(3) show ?thesis by simp
    next
      case (Cons x xs')
      with that started True have "x = tk" "rest = xs' @ t # ys" by auto
      with IH start_ok_later [OF \<open>schema_ok db\<close> s(2,1)] Cons show ?thesis by blast
    qed
    show ?thesis
      using IH True started split F(2,4,6) loads_with [OF s(1)] by (auto split: if_splits)
  qed
qed

lemma dispatch_effect:
  assumes disp: "dispatch now e db = (e', db', started)" and ok: "schema_ok db" "nonneg e"
  shows "schema_ok db' \<and> nonneg e' \<and> set started \<subseteq> set (ListQueuedTasks db) \<and>
    (\<forall>k. held (active e') k = held (active e) k + num t_role_id k started) \<and>
    (\<forall>k. held (activeProj e') k = held (activeProj e) k + num t_project_id k started) \<and>
    (\<forall>k. held (activeRuns e') k = held (activeRuns e) k + num t_workflow_run_id k started) \<and>
    (\<forall>j. status_in j db' = (if j \<in> t_id ` set started then Some StatusClaimed else status_in j db)) \<and>
    (\<forall>xs t ys. started = xs @ t # ys \<longrightarrow> start_ok db e xs t)"
proof -
  obtain ps where "dispatch_loop now (ListQueuedTasks db) (\<lparr>limits = Map.empty, runLimits = Map.empty\<rparr>, e, db) =
      ((ps, e', db'), started)"
    using disp by (auto simp: dispatch_def split: prod.splits)
  from dispatch_loop_effect [OF this ok] show ?thesis by (simp add: pass_ok_def)
qed

lemma num_pos_split: "0 < num f k ts \<Longrightarrow> \<exists>xs t ys. ts = xs @ t # ys \<and> f t = Some k \<and> num f k ts = num f k xs + 1"
proof (induction ts rule: rev_induct)
  case (snoc t ts)
  show ?case
  proof (cases "f t = Some k")
    case True
    then show ?thesis by (intro exI [of _ ts] exI [of _ t] exI [of _ "[]"]) simp
  next
    case False
    with snoc.IH snoc.prems obtain xs u ys where "ts = xs @ u # ys" "f u = Some k" "num f k ts = num f k xs + 1" by auto
    with False show ?thesis by (intro exI [of _ xs] exI [of _ u] exI [of _ "ys @ [t]"]) simp
  qed
qed simp

text \<open>
  C12. A pass of the dispatcher starts a task only when it may: the tasks it started were queued
  and are now claimed, no other status changed, and each of them, taken in the order they were
  started, had its dependencies delivered, an enabled role below its limit, a run below its
  limit, and, unless marked concurrent, a project on which nothing was running.
\<close>

theorem dispatch_starts_admissible:
  assumes "dispatch now e db = (e', db', started)" and "schema_ok db" and "nonneg e"
  shows "(\<forall>xs t ys. started = xs @ t # ys \<longrightarrow> start_ok db e xs t) \<and>
    (\<forall>j. status_in j db' = (if j \<in> t_id ` set started then Some StatusClaimed else status_in j db))"
  using dispatch_effect [OF assms] by blast

section \<open>The executor over time\<close>

record execution =
  x_task :: task
  x_recovered :: bool

record machine =
  slots :: executor
  rows :: db
  live :: "execution list"

text \<open>The deferred releases of \<^verbatim>\<open>runTask\<close> and of \<^verbatim>\<open>monitorRecovered\<close>.\<close>

definition end_run :: "task \<Rightarrow> executor \<Rightarrow> executor" where
  "end_run tk e = releaseWorkflowSlot tk (releaseProjectSlot tk
     (case t_role_id tk of None \<Rightarrow> e | Some r \<Rightarrow> releaseRoleSlot r e))"

definition end_recovered :: "task \<Rightarrow> executor \<Rightarrow> executor" where
  "end_recovered tk e =
     (case t_role_id tk of None \<Rightarrow> e | Some r \<Rightarrow> releaseProjectSlot tk (releaseRoleSlot r e))"

text \<open>The part of \<^verbatim>\<open>recoverInterrupted\<close> that takes an execution over.\<close>

definition restore :: "executor \<Rightarrow> task \<Rightarrow> executor" where
  "restore e tk = restoreWorkflowSlot tk (restoreProjectSlot tk
     (case t_role_id tk of None \<Rightarrow> e | Some r \<Rightarrow> restoreRoleSlot r e))"

inductive exec_step :: "machine \<Rightarrow> machine \<Rightarrow> bool" where
  pass: "dispatch now (slots m) (rows m) = (e', db', started) \<Longrightarrow>
    exec_step m (m\<lparr>slots := e', rows := db', live := live m @ map (\<lambda>t. \<lparr>x_task = t, x_recovered = False\<rparr>) started\<rparr>)"
| finish: "x \<in> set (live m) \<Longrightarrow>
    exec_step m (m\<lparr>slots := (if x_recovered x then end_recovered else end_run) (x_task x) (slots m),
      live := remove1 x (live m)\<rparr>)"
| restart: "set ts \<subseteq> set (ListRunningTasks (rows m)) \<Longrightarrow> \<forall>t\<in>set ts. t_role_id t \<noteq> None \<Longrightarrow>
    exec_step m (m\<lparr>slots := foldl restore no_slots ts, live := map (\<lambda>t. \<lparr>x_task = t, x_recovered = True\<rparr>) ts\<rparr>)"
| store: "schema_ok db' \<Longrightarrow> exec_step m (m\<lparr>rows := db'\<rparr>)"

inductive reachable_machine :: "machine \<Rightarrow> bool" where
  start: "schema_ok db \<Longrightarrow> reachable_machine \<lparr>slots = no_slots, rows = db, live = []\<rparr>"
| step: "reachable_machine m \<Longrightarrow> exec_step m m' \<Longrightarrow> reachable_machine m'"

abbreviation tasks_of :: "execution list \<Rightarrow> task list" where
  "tasks_of xs \<equiv> map x_task xs"

definition slots_agree :: "machine \<Rightarrow> bool" where
  "slots_agree m \<longleftrightarrow> schema_ok (rows m) \<and> (\<forall>x\<in>set (live m). t_role_id (x_task x) \<noteq> None) \<and>
     (\<forall>k. held (active (slots m)) k = num t_role_id k (tasks_of (live m)) \<and>
        held (activeProj (slots m)) k = num t_project_id k (tasks_of (live m)) \<and>
        num t_workflow_run_id k (tasks_of (live m)) \<le> held (activeRuns (slots m)) k)"

lemma slots_agree_nonneg: "slots_agree m \<Longrightarrow> nonneg (slots m)"
  unfolding slots_agree_def nonneg_def by (metis num_simps(4) order_trans)

lemma num_remove1:
  "x \<in> set xs \<Longrightarrow> num f k (tasks_of (remove1 x xs)) = num f k (tasks_of xs) - (if f (x_task x) = Some k then 1 else 0)"
  by (induction xs) auto

lemma num_member: "x \<in> set xs \<Longrightarrow> f (x_task x) = Some k \<Longrightarrow> 0 < num f k (tasks_of xs)"
  by (induction xs) (auto simp: add_pos_nonneg add_nonneg_pos)

lemma restore_held:
  "held (active (restore e t)) = add_opt (t_role_id t) (held (active e))"
  "held (activeProj (restore e t)) = add_opt (t_project_id t) (held (activeProj e))"
  "held (activeRuns (restore e t)) = add_opt (t_workflow_run_id t) (held (activeRuns e))"
  by (simp_all add: restore_def restoreWorkflowSlot_def restoreProjectSlot_def restoreRoleSlot_def add_opt_def
      held_bump_fun split: option.splits)

lemma restore_all:
  "held (active (foldl restore e ts)) k = held (active e) k + num t_role_id k ts \<and>
   held (activeProj (foldl restore e ts)) k = held (activeProj e) k + num t_project_id k ts \<and>
   held (activeRuns (foldl restore e ts)) k = held (activeRuns e) k + num t_workflow_run_id k ts"
  by (induction ts arbitrary: e) (auto simp: restore_held add_opt_apply)

lemma sub_opt_apply: "sub_opt k f j = f j - (if k = Some j then 1 else 0)"
  by (auto simp: sub_opt_def split: option.splits)

lemma finish_agrees:
  assumes ag: "slots_agree m" and x: "x \<in> set (live m)"
  shows "slots_agree (m\<lparr>slots := (if x_recovered x then end_recovered else end_run) (x_task x) (slots m),
    live := remove1 x (live m)\<rparr>)"
proof -
  let ?t = "x_task x" and ?e = "slots m"
  obtain r where r: "t_role_id ?t = Some r" using ag x by (auto simp: slots_agree_def)
  have pos: "0 < held (active ?e) r" "pos_opt (t_project_id ?t) (held (activeProj ?e))"
    "pos_opt (t_workflow_run_id ?t) (held (activeRuns ?e))"
    using ag num_member [OF x, of t_role_id] num_member [OF x, of t_project_id] num_member [OF x, of t_workflow_run_id] r
    by (auto simp: slots_agree_def pos_opt_def split: option.splits intro: less_le_trans)
  have frame: "set (remove1 x (live m)) \<subseteq> set (live m)" by (rule set_remove1_subset)
  have le: "num t_workflow_run_id k (tasks_of (live m)) \<le> held (activeRuns ?e) k" for k
    using ag by (simp add: slots_agree_def)
  have le1: "num t_workflow_run_id k (tasks_of (live m)) - 1 \<le> held (activeRuns ?e) k" for k
    using le [of k] by linarith
  show ?thesis
    using ag pos r frame le le1
    by (auto simp: slots_agree_def end_run_def end_recovered_def release_held num_remove1 [OF x] sub_opt_apply)
qed

lemma step_agrees: "exec_step m m' \<Longrightarrow> slots_agree m \<Longrightarrow> slots_agree m'"
proof (induction rule: exec_step.induct)
  case (pass now m e' db' started)
  have E: "schema_ok db' \<and> nonneg e' \<and> set started \<subseteq> set (ListQueuedTasks (rows m)) \<and>
    (\<forall>k. held (active e') k = held (active (slots m)) k + num t_role_id k started) \<and>
    (\<forall>k. held (activeProj e') k = held (activeProj (slots m)) k + num t_project_id k started) \<and>
    (\<forall>k. held (activeRuns e') k = held (activeRuns (slots m)) k + num t_workflow_run_id k started)"
    and ok: "\<forall>xs t ys. started = xs @ t # ys \<longrightarrow> start_ok (rows m) (slots m) xs t"
    using dispatch_effect [OF pass.hyps] slots_agree_nonneg [OF pass.prems] pass.prems
    by (auto simp: slots_agree_def)
  have "t_role_id t \<noteq> None" if "t \<in> set started" for t
    using ok split_list [OF that] by (fastforce simp: start_ok_def)
  with E pass.prems show ?case by (auto simp: slots_agree_def comp_def)
next
  case (finish x m)
  then show ?case by (intro finish_agrees)
next
  case (restart ts m)
  then show ?case using restore_all [of no_slots ts] by (auto simp: slots_agree_def comp_def no_slots_def)
next
  case (store db' m)
  then show ?case by (simp add: slots_agree_def)
qed

lemma reachable_agrees: "reachable_machine m \<Longrightarrow> slots_agree m"
proof (induction rule: reachable_machine.induct)
  case (start db)
  then show ?case by (simp add: slots_agree_def no_slots_def)
next
  case (step m m')
  then show ?case by (blast intro: step_agrees)
qed


section \<open>Two things the slots do not promise\<close>

definition demo_run_row :: run where
  "demo_run_row = \<lparr>r_id = 1, r_workflow_id = 1, r_project_id = 1, r_task = [],
     r_status = RunStatusRunning, r_task_ids = [(''a'', 2), (''b'', 3)], r_revision = 1, r_created_at = ''t1'',
     r_started_at = Some ''t1'', r_finished_at = None, r_updated_at = ''t1''\<rparr>"

definition demo_narrow :: spec where
  "demo_narrow = \<lparr>s_version = 1, s_goal = ''g'', s_created_by = [],
     s_limits = \<lparr>l_budget = 10, l_max_nodes = 4, l_max_depth = 4, l_max_concurrency = 1\<rparr>, s_nodes = []\<rparr>"

definition demo_run_tasks :: "status \<Rightarrow> db" where
  "demo_run_tasks st = (demo_project_db
     [(demo_task 1 WorkflowStatusAdopted)\<lparr>t_type := TaskTypeWorkflow, t_spec := SpecJson demo_narrow\<rparr>,
      (demo_in 1 1 2 st)\<lparr>t_workflow_run_id := Some 1\<rparr>,
      (demo_in 1 2 3 StatusQueued)\<lparr>t_workflow_run_id := Some 1\<rparr>])
     \<lparr>runs := [demo_run_row], run_seq := 1\<rparr>"

definition demo_node_task :: task where
  "demo_node_task = (demo_in 1 1 2 StatusRunning)\<lparr>t_workflow_run_id := Some 1\<rparr>"


theorem dispatch_starts_admissible_witness:
  "case dispatch ''t2'' no_slots (demo_run_tasks StatusSucceeded) of (e', db', started) \<Rightarrow>
     status_in 3 db' = Some StatusClaimed \<and> status_in 2 db' = Some StatusSucceeded"
proof -
  have ok: "schema_ok (demo_run_tasks StatusSucceeded)" by code_simp
  have nn: "nonneg no_slots" by (simp add: nonneg_def no_slots_def)
  obtain e' db' started where d: "dispatch ''t2'' no_slots (demo_run_tasks StatusSucceeded) = (e', db', started)"
    by (cases "dispatch ''t2'' no_slots (demo_run_tasks StatusSucceeded)") auto
  have "case dispatch ''t2'' no_slots (demo_run_tasks StatusSucceeded) of (e', db', started) \<Rightarrow>
      map t_id started = [3]" by code_simp
  then have "map t_id started = [3]" by (simp add: d)
  then have ids: "t_id ` set started = {3}" by (metis list.set_map list.set(1) list.set(2))
  have "status_in 2 (demo_run_tasks StatusSucceeded) = Some StatusSucceeded" by code_simp
  then show ?thesis using dispatch_starts_admissible [OF d ok nn] ids d by simp
qed

text \<open>
  After a restart the run slot of a node that was taken over is restored but never released:
  once that node has ended, no execution is in progress, yet a run that allows one node at a
  time starts none of its remaining nodes. Without the restart the next node starts.
\<close>

lemma recovered_run_slot_leaks:
  "reachable_machine \<lparr>slots = end_recovered demo_node_task (foldl restore no_slots [demo_node_task]),
      rows = demo_run_tasks StatusSucceeded, live = []\<rparr> \<and>
   snd (snd (dispatch ''t2'' (end_recovered demo_node_task (foldl restore no_slots [demo_node_task]))
      (demo_run_tasks StatusSucceeded))) = [] \<and>
   map t_id (snd (snd (dispatch ''t2'' no_slots (demo_run_tasks StatusSucceeded)))) = [3]"
proof (intro conjI)
  let ?db = "demo_run_tasks StatusRunning" and ?x = "\<lparr>x_task = demo_node_task, x_recovered = True\<rparr>"
  have "schema_ok ?db" by code_simp
  then have m0: "reachable_machine \<lparr>slots = no_slots, rows = ?db, live = []\<rparr>" by (rule reachable_machine.start)
  have "filter (\<lambda>t. t_status t = StatusRunning) (tasks ?db) = [demo_node_task]"
    by (simp add: demo_run_tasks_def demo_project_db_def demo_tasks_def demo_node_task_def demo_in_def demo_task_def)
  then have "demo_node_task \<in> set (tasks ?db)" by (metis filter_is_subset list.set_intros(1) subsetD)
  moreover have "utf8_take n [] = []" for n by (cases n) auto
  then have "brief demo_node_task = demo_node_task"
    by (simp add: brief_def demo_node_task_def demo_in_def demo_task_def)
  ultimately have "demo_node_task \<in> set (ListRunningTasks ?db)"
    by (force simp: ListRunningTasks_def demo_node_task_def demo_in_def demo_task_def)
  then have m1: "reachable_machine \<lparr>slots = foldl restore no_slots [demo_node_task], rows = ?db, live = [?x]\<rparr>"
    using reachable_machine.step [OF m0 exec_step.restart [of "[demo_node_task]"]]
    by (simp add: demo_node_task_def demo_in_def demo_task_def)
  have m2: "reachable_machine \<lparr>slots = end_recovered demo_node_task (foldl restore no_slots [demo_node_task]), rows = ?db, live = []\<rparr>"
    using reachable_machine.step [OF m1 exec_step.finish [of ?x]] by simp
  have "schema_ok (demo_run_tasks StatusSucceeded)" by code_simp
  from reachable_machine.step [OF m2 exec_step.store [OF this]]
  show "reachable_machine \<lparr>slots = end_recovered demo_node_task (foldl restore no_slots [demo_node_task]),
      rows = demo_run_tasks StatusSucceeded, live = []\<rparr>" by simp
  show "snd (snd (dispatch ''t2'' (end_recovered demo_node_task (foldl restore no_slots [demo_node_task]))
      (demo_run_tasks StatusSucceeded))) = []" by code_simp
  show "map t_id (snd (snd (dispatch ''t2'' no_slots (demo_run_tasks StatusSucceeded)))) = [3]" by code_simp
qed

text \<open>A task marked concurrent starts beside one that is not.\<close>

lemma concurrent_overlaps_serial:
  "\<not> t_concurrent (demo_in 1 1 1 StatusRunning) \<and>
   snd (reserveProjectSlot ((demo_in 1 2 2 StatusQueued)\<lparr>t_concurrent := True\<rparr>)
     (fst (reserveProjectSlot (demo_in 1 1 1 StatusRunning) no_slots)))"
  by code_simp

end
