(* ===== verification/Exec_Run.thy ===== *)
theory Exec_Run
  imports Exec_Laws Update_Laws Store_Merge
begin

text \<open>
  The life of one execution (executor.go): preparing the workspace and the request to the
  runtime, settling the result, reconciling missing merge tasks and recovering after a restart.
  Git, the file system, tmux and the runtimes are not under the model: an \<open>env\<close> record holds
  what they answer. Log lines and published events are left out; the texts of error messages are
  \<open>say\<close> of the failure.
\<close>

section \<open>Prompts (prompt.go)\<close>

definition title_label :: string where
  "title_label = [CHR 0xE4, CHR 0xBB, CHR 0xBB, CHR 0xE5, CHR 0x8A, CHR 0xA1, CHR 0xE6, CHR 0xA0,
     CHR 0x87, CHR 0xE9, CHR 0xA2, CHR 0x98, CHR 0xEF, CHR 0xBC, CHR 0x9A]"

definition body_label :: string where
  "body_label = [CHR 0x0A, CHR 0x0A, CHR 0xE4, CHR 0xBB, CHR 0xBB, CHR 0xE5, CHR 0x8A, CHR 0xA1,
     CHR 0xE5, CHR 0x86, CHR 0x85, CHR 0xE5, CHR 0xAE, CHR 0xB9, CHR 0xEF, CHR 0xBC, CHR 0x9A, CHR 0x0A]"

definition blank_line :: string where "blank_line = [CHR 0x0A, CHR 0x0A]"

definition AppendSystemPrompt :: "string \<Rightarrow> string \<Rightarrow> string" where
  "AppendSystemPrompt base0 addition0 =
     (let base = trim_space base0; addition = trim_space addition0 in
      if base = [] then addition else if addition = [] then base else base @ blank_line @ addition)"

definition taskPrompt :: "task \<Rightarrow> string" where
  "taskPrompt tk =
     (let title = trim_space (t_title tk); body = trim_space (t_body tk) in
      if title = [] then body else if body = [] then title
      else title_label @ title @ body_label @ body)"

section \<open>The world around the executor\<close>

datatype failure =
    FNoProjectDir | FDirMissing | FRoleMissing | FRuntimeUnknown | FWorkspace | FNoIsolation
  | FDirtyCheck | FMainDirty | FSourceMissing | FIntegrate | FAutoMerge | FSkills | FPrepare
  | FOffset | FStart | FSnapshot | FCreateMerge | FMerge | FInterrupted | FWindowLost | FPoll
  | FExit int | FTerminated

record integration =
  conflicts :: "string list"
  skipped :: bool

record request =
  rq_dir :: string
  rq_prompt :: string
  rq_role :: role_config
  rq_perm :: perm
  rq_mode :: run_mode
  rq_session :: int
  rq_skip_git :: bool

record env =
  say :: "failure \<Rightarrow> string"
  dir_exists :: "string \<Rightarrow> bool"
  runtime_known :: "string \<Rightarrow> bool"
  is_git :: "string \<Rightarrow> bool"
  ensure_ok :: "task \<Rightarrow> bool"
  ensure_dir :: "task \<Rightarrow> string"
  ensure_branch :: "task \<Rightarrow> string"
  ensure_base :: "task \<Rightarrow> string"
  main_dirty :: "string \<Rightarrow> bool option"
  integrate :: "task \<Rightarrow> task \<Rightarrow> integration option"
  merge_main :: "task \<Rightarrow> bool"
  skills_ok :: "role \<Rightarrow> task \<Rightarrow> bool"
  skill_prompt :: "role \<Rightarrow> string"
  prepare_ok :: "string \<Rightarrow> request \<Rightarrow> bool"
  tmux_start :: "task \<Rightarrow> bool"
  snapshot :: "task \<Rightarrow> bool"
  branch_changed :: "task \<Rightarrow> bool option"
  merge_text :: "task \<Rightarrow> string \<times> string"

text \<open>\<^verbatim>\<open>_ = e.st.UpdateTask(...)\<close>: an error is ignored.\<close>

definition upd :: "int \<Rightarrow> fields \<Rightarrow> string \<Rightarrow> db \<Rightarrow> db" where
  "upd i fs now db = (case UpdateTask i fs now db of Inl _ \<Rightarrow> db | Inr db' \<Rightarrow> db')"

definition fail_task :: "env \<Rightarrow> string \<Rightarrow> int \<Rightarrow> failure \<Rightarrow> db \<Rightarrow> db" where
  "fail_task v now i f db =
     upd i [(ColStatus, AStr ''failed''), (ColFinishedAt, AStr now), (ColError, AStr (say v f))] now db"

definition fail_exit :: "env \<Rightarrow> string \<Rightarrow> int \<Rightarrow> int \<Rightarrow> failure \<Rightarrow> db \<Rightarrow> db" where
  "fail_exit v now i code f db =
     upd i [(ColStatus, AStr ''failed''), (ColFinishedAt, AStr now), (ColExitCode, AInt code),
       (ColError, AStr (say v f))] now db"

section \<open>runTask up to the start of the runtime\<close>

text \<open>
  The execution either ends here (\<open>Inl\<close>, failed or merged by the platform itself) or hands a
  request to the runtime (\<open>Inr\<close>, with the task as the executor knows it from then on).
\<close>

definition build_request :: "env \<Rightarrow> role \<Rightarrow> bool \<Rightarrow> string \<Rightarrow> task \<Rightarrow> request" where
  "build_request v agent git dir tk =
     (let rc = a_role_config agent;
          instr = trim_space (rcf_instructions rc) in
      \<lparr>rq_dir = dir,
       rq_prompt = (if instr \<noteq> [] then instr @ blank_line @ taskPrompt tk else taskPrompt tk),
       rq_role = (if skill_prompt v agent \<noteq> []
          then rc\<lparr>rcf_system_prompt := AppendSystemPrompt (rcf_system_prompt rc) (skill_prompt v agent)\<rparr> else rc),
       rq_perm = t_perm tk, rq_mode = t_run_mode tk,
       rq_session = (case t_resume_of tk of Some s \<Rightarrow> s | None \<Rightarrow> t_id tk),
       rq_skip_git = (\<not> git \<and> a_runtime_id agent = ''codex'' \<and>
          map_of (rcf_custom rc) ''execution_mode'' \<noteq> Some ''yolo'')\<rparr>)"

definition interactiveTerminalColumns :: int where "interactiveTerminalColumns = 80"

definition interactiveTerminalRows :: int where "interactiveTerminalRows = 24"

definition start_runtime :: "env \<Rightarrow> string \<Rightarrow> role \<Rightarrow> bool \<Rightarrow> string \<Rightarrow> task \<Rightarrow> db \<Rightarrow> db + (db \<times> task \<times> request)" where
  "start_runtime v now agent git dir tk db =
     (if \<not> skills_ok v agent tk then Inl (fail_task v now (t_id tk) FSkills db)
      else let rq = build_request v agent git dir tk in
        if \<not> prepare_ok v (a_runtime_id agent) rq then Inl (fail_task v now (t_id tk) FPrepare db)
        else case UpdateTmuxLogOffset (t_id tk) 0 db of
            Inl _ \<Rightarrow> Inl (fail_task v now (t_id tk) FOffset db)
          | Inr db1 \<Rightarrow>
              if \<not> tmux_start v tk then Inl (fail_task v now (t_id tk) FStart db1)
              else Inr ((if t_run_mode tk = RunModeInteractive
                   then (case UpdateTerminalSize (t_id tk) interactiveTerminalColumns interactiveTerminalRows db1 of Inl _ \<Rightarrow> db1 | Inr d \<Rightarrow> d) else db1),
                 tk\<lparr>t_tmux_log_offset := 0\<rparr>, rq))"

definition merge_prepare :: "env \<Rightarrow> string \<Rightarrow> role \<Rightarrow> bool \<Rightarrow> string \<Rightarrow> task \<Rightarrow> int \<Rightarrow> db \<Rightarrow> db + (db \<times> task \<times> request)" where
  "merge_prepare v now agent git dir tk source_id db =
     (case main_dirty v (t_project_dir tk) of
        None \<Rightarrow> Inl (fail_task v now (t_id tk) FDirtyCheck db)
      | Some True \<Rightarrow> Inl (fail_task v now (t_id tk) FMainDirty db)
      | Some False \<Rightarrow>
          (case get_task source_id db of
             None \<Rightarrow> Inl (fail_task v now (t_id tk) FSourceMissing db)
           | Some source \<Rightarrow>
               (case integrate v source tk of
                  None \<Rightarrow> Inl (fail_task v now (t_id tk) FIntegrate db)
                | Some res \<Rightarrow>
                    if conflicts res \<noteq> [] \<or> skipped res then start_runtime v now agent git dir tk db
                    else if \<not> merge_main v tk then Inl (fail_exit v now (t_id tk) 1 FAutoMerge db)
                    else Inl (upd (t_id tk) [(ColStatus, AStr ''succeeded''), (ColFinishedAt, AStr now),
                        (ColExitCode, AInt 0)] now db))))"

definition runTask :: "env \<Rightarrow> string \<Rightarrow> task \<Rightarrow> db \<Rightarrow> db + (db \<times> task \<times> request)" where
  "runTask v now tk db =
     (case StartTask (t_id tk) now db of
        Inl _ \<Rightarrow> Inl db
      | Inr (db1, False) \<Rightarrow> Inl db1
      | Inr (db1, True) \<Rightarrow>
          if t_project_dir tk = [] then Inl (fail_task v now (t_id tk) FNoProjectDir db1)
          else if \<not> dir_exists v (t_project_dir tk) then Inl (fail_task v now (t_id tk) FDirMissing db1)
          else case (case t_role_id tk of None \<Rightarrow> None | Some r \<Rightarrow> get_role_row r db1) of
              None \<Rightarrow> Inl (fail_task v now (t_id tk) FRoleMissing db1)
            | Some agent \<Rightarrow>
                if \<not> runtime_known v (a_runtime_id agent) then Inl (fail_task v now (t_id tk) FRuntimeUnknown db1)
                else
                  let git = is_git v (t_project_dir tk); dir = ensure_dir v tk; branch = ensure_branch v tk in
                  if git \<and> \<not> ensure_ok v tk then Inl (fail_task v now (t_id tk) FWorkspace db1)
                  else if git \<and> branch = [] then Inl (fail_task v now (t_id tk) FNoIsolation db1)
                  else
                    let (tk2, db2) = (if branch \<noteq> []
                        then (tk\<lparr>t_worktree_branch := branch, t_base_commit := ensure_base v tk\<rparr>,
                          upd (t_id tk) [(ColWorktreeBranch, AStr branch), (ColBaseCommit, AStr (ensure_base v tk))] now db1)
                        else (tk, db1)) in
                    case t_merge_of tk2 of
                      None \<Rightarrow> start_runtime v now agent git dir tk2 db2
                    | Some source_id \<Rightarrow> merge_prepare v now agent git dir tk2 source_id db2)"

section \<open>Settling a result\<close>

datatype run_err = NoErr | Stopping | Canceled | RunErr failure

definition exitError :: "int \<Rightarrow> run_err" where
  "exitError code = (if code = 0 then NoErr else RunErr (FExit code))"

definition reconcile_one :: "env \<Rightarrow> string \<Rightarrow> task \<Rightarrow> db \<Rightarrow> db" where
  "reconcile_one v now tk db =
     (if \<not> snapshot v tk then db
      else case EnsureMergeTask (merge_text v) now tk db of Inl _ \<Rightarrow> db | Inr (db', mid, created) \<Rightarrow> db')"

definition reconcileMergeTasks :: "env \<Rightarrow> string \<Rightarrow> db \<Rightarrow> db" where
  "reconcileMergeTasks v now db = fold (reconcile_one v now) (ListCompletedGitTasksWithoutMerge db) db"

definition keepCompletedSourceForMergeReconciliation :: "env \<Rightarrow> string \<Rightarrow> task \<Rightarrow> db \<Rightarrow> db \<times> bool" where
  "keepCompletedSourceForMergeReconciliation v now tk db =
     (let mark = (case MarkTaskSucceededAwaitingMerge now (t_id tk) db of
          Inl _ \<Rightarrow> (db, False)
        | Inr (db1, marked) \<Rightarrow> if marked then (reconcileMergeTasks v now db1, True) else (db1, False)) in
      case get_task (t_id tk) db of
        None \<Rightarrow> mark
      | Some cur \<Rightarrow>
          if t_status cur = StatusCancelled then (db, True)
          else if t_status cur = StatusSucceeded \<and> t_merge_of cur = None \<and> t_worktree_branch cur \<noteq> []
          then (reconcileMergeTasks v now db, True)
          else mark)"

definition settle_source :: "env \<Rightarrow> string \<Rightarrow> task \<Rightarrow> int \<Rightarrow> db \<Rightarrow> db" where
  "settle_source v now tk code db =
     (if \<not> snapshot v tk then fail_exit v now (t_id tk) code FSnapshot db
      else if branch_changed v tk = Some False
      then upd (t_id tk) [(ColStatus, AStr ''succeeded''), (ColFinishedAt, AStr now), (ColExitCode, AInt 0),
        (ColMergeSkipped, ABool True)] now db
      else case CompleteTaskAndCreateMerge now (t_id tk) (NewMergeTask (merge_text v) tk) db of
          Inr (db', mid) \<Rightarrow> db'
        | Inl _ \<Rightarrow>
            (case keepCompletedSourceForMergeReconciliation v now tk db of
               (db', True) \<Rightarrow> db'
             | (db', False) \<Rightarrow> fail_exit v now (t_id tk) code FCreateMerge db'))"

definition finishRun :: "env \<Rightarrow> string \<Rightarrow> task \<Rightarrow> int \<Rightarrow> run_err \<Rightarrow> bool \<Rightarrow> db \<Rightarrow> db" where
  "finishRun v now tk code runErr canceled db =
     (if runErr = Stopping then db
      else if (case get_task (t_id tk) db of None \<Rightarrow> False | Some cur \<Rightarrow> t_status cur = StatusCancelled) then db
      else if runErr \<noteq> NoErr then
        (if canceled \<or> runErr = Canceled
         then upd (t_id tk) [(ColStatus, AStr ''cancelled''), (ColFinishedAt, AStr now),
            (ColError, AStr (say v FTerminated))] now db
         else fail_exit v now (t_id tk) code (case runErr of RunErr f \<Rightarrow> f | _ \<Rightarrow> FInterrupted) db)
      else if t_merge_of tk = None \<and> t_perm tk = PermReview then
        upd (t_id tk) [(ColStatus, AStr ''awaiting_review''), (ColFinishedAt, AStr now), (ColExitCode, AInt 0),
          (ColReviewRounds, AInt (t_review_rounds tk + 1))] now db
      else if t_merge_of tk = None \<and> t_worktree_branch tk \<noteq> [] then settle_source v now tk code db
      else if t_merge_of tk \<noteq> None \<and> t_worktree_branch tk \<noteq> [] \<and> \<not> merge_main v tk
      then fail_exit v now (t_id tk) code FMerge db
      else upd (t_id tk) [(ColStatus, AStr ''succeeded''), (ColFinishedAt, AStr now), (ColExitCode, AInt 0)] now db)"

section \<open>Recovery after a restart\<close>

text \<open>What polling an execution's window answers: \<open>None\<close> is an error of the poll or of the logs.\<close>

record observation =
  ob_done :: bool
  ob_alive :: bool
  ob_exit :: int

definition markInterrupted :: "env \<Rightarrow> string \<Rightarrow> task \<Rightarrow> db \<Rightarrow> db" where
  "markInterrupted v now tk db = fail_task v now (t_id tk) FInterrupted db"

definition recover_one :: "env \<Rightarrow> string \<Rightarrow> (task \<Rightarrow> observation option) \<Rightarrow> task \<Rightarrow> executor \<times> task list \<times> db
    \<Rightarrow> executor \<times> task list \<times> db" where
  "recover_one v now poll tk st =
     (case st of (e, watched, db) \<Rightarrow>
      case poll tk of
        None \<Rightarrow> (e, watched, markInterrupted v now tk db)
      | Some obs \<Rightarrow>
          if ob_done obs then (e, watched, finishRun v now tk (ob_exit obs) (exitError (ob_exit obs)) False db)
          else if \<not> ob_alive obs then (e, watched, markInterrupted v now tk db)
          else if t_role_id tk = None then (e, watched, markInterrupted v now tk db)
          else (restore e tk, watched @ [tk], db))"

definition recoverInterrupted :: "env \<Rightarrow> string \<Rightarrow> (task \<Rightarrow> observation option) \<Rightarrow> executor \<Rightarrow> db
    \<Rightarrow> executor \<times> task list \<times> db" where
  "recoverInterrupted v now poll e db = fold (recover_one v now poll) (ListRunningTasks db) (e, [], db)"

section \<open>Input to interactive executions\<close>

datatype input_error =
    InEmpty | InMultiline | InTooLong | InNul | InNoTask | InNotRunning | InNotInteractive
  | InNoRole | InCols | InRows | InRunner

definition maxInteractiveInputBytes :: nat where "maxInteractiveInputBytes = 16 * 1024"

definition validateInteractiveInputTarget :: "int \<Rightarrow> db \<Rightarrow> input_error + unit" where
  "validateInteractiveInputTarget i db =
     (case get_task i db of
        None \<Rightarrow> Inl InNoTask
      | Some tk \<Rightarrow>
          if t_status tk \<noteq> StatusRunning then Inl InNotRunning
          else if t_run_mode tk \<noteq> RunModeInteractive then Inl InNotInteractive
          else case t_role_id tk of
              None \<Rightarrow> Inl InNoRole
            | Some r \<Rightarrow> if get_role_row r db = None then Inl InNoRole else Inr ())"

definition SendInput :: "bool \<Rightarrow> int \<Rightarrow> string \<Rightarrow> db \<Rightarrow> input_error + unit" where
  "SendInput runner_ok i text db =
     (if trim_space text = [] then Inl InEmpty
      else if list_ex (\<lambda>c. c = CHR 0x00 \<or> c = CHR 0x0D \<or> c = CHR 0x0A) text then Inl InMultiline
      else if length text > maxInteractiveInputBytes then Inl InTooLong
      else rbind (validateInteractiveInputTarget i db) (\<lambda>_. if runner_ok then Inr () else Inl InRunner))"

text \<open>\<open>exit_command\<close>: what the runtime registry answers for a runtime (\<open>None\<close>: not interactive).\<close>

definition EndSession :: "bool \<Rightarrow> (string \<Rightarrow> string option) \<Rightarrow> int \<Rightarrow> db \<Rightarrow> input_error + string" where
  "EndSession runner_ok exit_command i db =
     rbind (validateInteractiveInputTarget i db) (\<lambda>_.
       case get_task i db of
         None \<Rightarrow> Inl InNoTask
       | Some tk \<Rightarrow>
           (case (case t_role_id tk of None \<Rightarrow> None | Some r \<Rightarrow> get_role_row r db) of
              None \<Rightarrow> Inl InNoRole
            | Some agent \<Rightarrow>
                (case exit_command (a_runtime_id agent) of
                   None \<Rightarrow> Inl InNotInteractive
                 | Some cmd \<Rightarrow> if runner_ok then Inr cmd else Inl InRunner)))"

definition SendKeystrokes :: "bool \<Rightarrow> int \<Rightarrow> string \<Rightarrow> db \<Rightarrow> input_error + unit" where
  "SendKeystrokes runner_ok i keys db =
     (if keys = [] then Inl InEmpty
      else if list_ex (\<lambda>c. c = CHR 0x00) keys then Inl InNul
      else if length keys > maxInteractiveInputBytes then Inl InTooLong
      else rbind (validateInteractiveInputTarget i db) (\<lambda>_. if runner_ok then Inr () else Inl InRunner))"

definition Resize :: "bool \<Rightarrow> int \<Rightarrow> int \<Rightarrow> int \<Rightarrow> db \<Rightarrow> input_error + db" where
  "Resize runner_ok i cols rws db =
     rbind (validateInteractiveInputTarget i db) (\<lambda>_.
       if cols < 20 \<or> cols > 1000 then Inl InCols
       else if rws < 5 \<or> rws > 300 then Inl InRows
       else if \<not> runner_ok then Inl InRunner
       else case UpdateTerminalSize i cols rws db of Inl _ \<Rightarrow> Inl InRunner | Inr db' \<Rightarrow> Inr db')"

section \<open>Which worktrees the periodic cleanup discards\<close>

definition terminalTask :: "status \<Rightarrow> bool" where
  "terminalTask st \<longleftrightarrow> st \<in> {StatusSucceeded, StatusFailed, StatusCancelled}"

fun merges_of :: "task list \<Rightarrow> (int \<rightharpoonup> task) \<Rightarrow> int \<rightharpoonup> task" where
  "merges_of [] m = m"
| "merges_of (t # ts) m = merges_of ts (case t_merge_of t of None \<Rightarrow> m | Some s \<Rightarrow> m(s \<mapsto> t))"

definition completedCodeDelivery :: "task \<Rightarrow> (int \<rightharpoonup> task) \<Rightarrow> bool" where
  "completedCodeDelivery tk merges \<longleftrightarrow>
     t_status tk = StatusSucceeded \<and>
     (t_merge_of tk \<noteq> None \<or> t_merge_skipped tk \<or>
      t_worktree_branch tk \<noteq> [] \<and>
        (case merges (t_id tk) of None \<Rightarrow> False | Some m \<Rightarrow> t_status m = StatusSucceeded))"

text \<open>\<open>managed\<close>: the task has a worktree of ours; \<open>old\<close>: it finished before the cutoff.\<close>

definition CleanupTaskWorkspaces :: "(task \<Rightarrow> bool) \<Rightarrow> (task \<Rightarrow> bool) \<Rightarrow> int \<Rightarrow> task list \<Rightarrow> task list" where
  "CleanupTaskWorkspaces managed old retentionDays ts =
     (let merges = merges_of ts Map.empty in
      filter (\<lambda>tk.
        managed tk \<and> terminalTask (t_status tk) \<and>
        (let completed = completedCodeDelivery tk merges in
         completed \<or> retentionDays > 0 \<and> t_finished_at tk \<noteq> None \<and> old tk) \<and>
        (t_merge_of tk = None \<and> t_worktree_branch tk \<noteq> [] \<and> \<not> t_merge_skipped tk \<longrightarrow>
           (case merges (t_id tk) of None \<Rightarrow> False | Some m \<Rightarrow> terminalTask (t_status m)))) ts)"

definition CleanupCompletedTaskRuntimeSessions :: "(task \<Rightarrow> bool) \<Rightarrow> task list \<Rightarrow> task list" where
  "CleanupCompletedTaskRuntimeSessions has_runtime ts =
     (let merges = merges_of ts Map.empty in
      filter (\<lambda>tk. t_status tk = StatusSucceeded \<and> completedCodeDelivery tk merges \<and> has_runtime tk) ts)"

end
