(* ===== verification/Exec_Run_Laws.thy ===== *)
theory Exec_Run_Laws
  imports Exec_Run
begin

text \<open>
  What the life of an execution keeps: the repair of missing merge tasks is complete, every
  result settles the row exactly once, a cancelled task stays cancelled, and no runtime is
  started outside the isolation the code promises.
\<close>

section \<open>Growing the table of tasks\<close>

text \<open>Only merge tasks were added.\<close>

definition grows :: "db \<Rightarrow> db \<Rightarrow> bool" where
  "grows db db' \<longleftrightarrow> schema_ok db' \<and> (\<forall>j t. get_task j db = Some t \<longrightarrow> get_task j db' = Some t) \<and>
     (\<forall>j t. get_task j db' = Some t \<and> get_task j db = None \<longrightarrow> t_merge_of t \<noteq> None)"

lemma growsI:
  "schema_ok db' \<Longrightarrow> (\<And>j t. get_task j db = Some t \<Longrightarrow> get_task j db' = Some t) \<Longrightarrow>
   (\<And>j t. get_task j db' = Some t \<Longrightarrow> get_task j db = None \<Longrightarrow> t_merge_of t \<noteq> None) \<Longrightarrow> grows db db'"
  unfolding grows_def by blast

lemma growsD:
  assumes "grows db db'"
  shows "schema_ok db'" "get_task j db = Some t \<Longrightarrow> get_task j db' = Some t"
    "get_task j db' = Some t \<Longrightarrow> get_task j db = None \<Longrightarrow> t_merge_of t \<noteq> None"
  using assms unfolding grows_def by blast+

lemma grows_refl: "schema_ok db \<Longrightarrow> grows db db"
  by (rule growsI) simp_all

lemma grows_trans:
  assumes "grows a b" and "grows b c"
  shows "grows a c"
proof (rule growsI)
  fix j t
  assume t: "get_task j c = Some t" "get_task j a = None"
  show "t_merge_of t \<noteq> None"
  proof (cases "get_task j b")
    case None
    then show ?thesis using growsD(3) [OF assms(2) t(1)] by blast
  next
    case (Some u)
    then show ?thesis using growsD(2) [OF assms(2) Some] growsD(3) [OF assms(1) Some t(2)] t(1) by simp
  qed
qed (use growsD [OF assms(1)] growsD [OF assms(2)] in blast)+

lemma HasMerge_iff: "HasMergeTaskForSource s db \<longleftrightarrow> (\<exists>m\<in>set (tasks db). t_merge_of m = Some s)"
  by (simp add: HasMergeTaskForSource_def list_ex_iff)

lemma HasMerge_GetMerge: "HasMergeTaskForSource s db \<longleftrightarrow> GetMergeTaskForSource s db \<noteq> None"
  unfolding HasMerge_iff using GetMergeTask_None [of s db] by auto

lemma grows_HasMerge:
  assumes "schema_ok db" and "grows db db'" and "HasMergeTaskForSource s db"
  shows "HasMergeTaskForSource s db'"
proof -
  from assms(3) obtain m where m: "m \<in> set (tasks db)" "t_merge_of m = Some s" by (auto simp: HasMerge_iff)
  with assms(1) have "get_task (t_id m) db = Some m" by (simp add: get_task_distinct)
  with assms(2) have "get_task (t_id m) db' = Some m" by (simp add: grows_def)
  from get_task_mem [OF this] m(2) show ?thesis by (auto simp: HasMerge_iff)
qed

lemma EnsureMergeTask_grows:
  assumes good: "schema_ok db" and run: "EnsureMergeTask text now source db = Inr (db', mid, created)"
  shows "grows db db' \<and> HasMergeTaskForSource (t_id source) db'"
proof (cases created)
  case True
  with run have run': "EnsureMergeTask text now source db = Inr (db', mid, True)" by simp
  note eff = EnsureMergeTask_new [OF good run']
  then obtain m where m: "GetMergeTaskForSource (t_id source) db' = Some m" "t_id m = mid" and ok: "schema_ok db'"
    by blast
  have mem: "m \<in> set (tasks db')" "t_merge_of m = Some (t_id source)" using GetMergeTask_Some [OF ok] m by auto
  then have "get_task mid db' = Some m" using ok m(2) get_task_distinct by blast
  then have new: "get_task mid db' = Some m" .
  have same: "get_task j db' = get_task j db" if "j \<noteq> mid" for j using eff that by blast
  have fresh: "get_task mid db = None" using eff by blast
  have "grows db db'"
  proof (rule growsI [OF ok])
    fix j t
    show "get_task j db = Some t \<Longrightarrow> get_task j db' = Some t"
      using same fresh by (cases "j = mid") auto
    show "get_task j db' = Some t \<Longrightarrow> get_task j db = None \<Longrightarrow> t_merge_of t \<noteq> None"
      using same [of j] new mem(2) by (cases "j = mid") auto
  qed
  with m show ?thesis by (simp add: HasMerge_GetMerge)
next
  case False
  with run have "db' = db" "GetMergeTaskForSource (t_id source) db \<noteq> None"
    by (auto simp: EnsureMergeTask_def Let_def rbind_eq_Inr split: if_splits option.splits prod.splits)
  with good show ?thesis by (simp add: HasMerge_GetMerge grows_refl)
qed

text \<open>A stored source that still needs its merge task gets it.\<close>

lemma merge_row_refs:
  assumes "task_refs_ok db t" and "t_id t \<in> task_ids db"
  shows "task_refs_ok db (merge_row ((prepareMergeTask now (t_id t) (NewMergeTask text t))\<lparr>t_block_on_failure := b\<rparr>))"
  using assms by (simp add: task_refs_ok_def merge_row_def prepareMergeTask_def NewMergeTask_def Let_def)

lemma EnsureMergeTask_stored:
  assumes good: "schema_ok db" and src: "get_task (t_id t) db = Some t" and pos: "0 < t_id t"
    and need: "t_status t = StatusSucceeded" "t_merge_of t = None" "t_worktree_branch t \<noteq> []"
  shows "\<exists>db' mid created. EnsureMergeTask text now t db = Inr (db', mid, created)"
proof (cases "GetMergeTaskForSource (t_id t) db")
  case (Some m)
  show ?thesis using EnsureMergeTask_existing [OF pos Some] by blast
next
  case None
  let ?row = "merge_row ((prepareMergeTask now (t_id t) (NewMergeTask text t))\<lparr>t_block_on_failure := t_block_on_failure t\<rparr>)"
  let ?i = "next_id (task_seq db) (map t_id (tasks db))"
  have mem: "t \<in> set (tasks db)" using src by (rule get_task_mem)
  have refs: "task_refs_ok db t" using schema_ok_row [OF good mem] by simp
  have tid: "t_id t \<in> task_ids db" using mem by (auto simp: task_ids_def)
  have fresh: "?i \<notin> task_ids db" unfolding task_ids_def using next_id_fresh by (metis list.set_map)
  have "t_id t \<notin> set (merge_keys (tasks db))"
    using None unfolding GetMergeTask_None by (auto simp: merge_keys_def List.map_filter_def)
  then have key: "case t_merge_of ?row of None \<Rightarrow> True | Some m \<Rightarrow> m \<notin> set (merge_keys (tasks db))" by simp
  have "schema_ok (db\<lparr>tasks := tasks db @ [?row\<lparr>t_id := ?i\<rparr>], task_seq := ?i\<rparr>)"
    by (rule schema_ok_insert [OF good fresh _ merge_row_refs [OF refs tid] key]) simp_all
  then have "insert_task_row ?row db = Inr (db\<lparr>tasks := tasks db @ [?row\<lparr>t_id := ?i\<rparr>], task_seq := ?i\<rparr>, ?i)"
    by (simp add: insert_task_row_Inr)
  moreover have "list_ex (\<lambda>u. t_id u = t_id t \<and> t_status u = StatusSucceeded \<and> t_merge_of u = None \<and>
      t_worktree_branch u \<noteq> []) (tasks db)"
    using mem need by (auto simp: list_ex_iff)
  ultimately have "EnsureMergeTask text now t db =
      Inr (db\<lparr>tasks := tasks db @ [?row\<lparr>t_id := ?i\<rparr>], task_seq := ?i\<rparr>, ?i, True)"
    using pos None src
    by (simp add: EnsureMergeTask_def Let_def inheritMergeFailurePolicy_def insertMergeTask_def)
  then show ?thesis by blast
qed

section \<open>The repair of missing merge tasks\<close>

definition awaits_merge :: "db \<Rightarrow> task \<Rightarrow> bool" where
  "awaits_merge db t \<longleftrightarrow> get_task (t_id t) db = Some t \<and> t_status t = StatusSucceeded \<and> t_merge_of t = None \<and>
     t_worktree_branch t \<noteq> [] \<and> \<not> t_merge_skipped t"

lemma awaits_list:
  "schema_ok db \<Longrightarrow> t \<in> set (ListCompletedGitTasksWithoutMerge db) \<longleftrightarrow>
     awaits_merge db t \<and> \<not> HasMergeTaskForSource (t_id t) db"
  by (auto simp: ListCompletedGitTasksWithoutMerge_def awaits_merge_def HasMergeTaskForSource_def get_task_distinct
      dest: get_task_mem)

lemma reconcile_one_grows: "schema_ok db \<Longrightarrow> grows db (reconcile_one v now t db)"
  by (auto simp: reconcile_one_def grows_refl split: sum.splits dest: EnsureMergeTask_grows)

lemma reconcile_one_merge:
  assumes "schema_ok db" and "awaits_merge db t" and "0 < t_id t" and "snapshot v t"
  shows "HasMergeTaskForSource (t_id t) (reconcile_one v now t db)"
proof -
  obtain db' mid created where "EnsureMergeTask (merge_text v) now t db = Inr (db', mid, created)"
    using EnsureMergeTask_stored [OF assms(1) _ assms(3)] assms(2) unfolding awaits_merge_def by blast
  with EnsureMergeTask_grows [OF assms(1) this] assms(4) show ?thesis by (simp add: reconcile_one_def)
qed

lemma awaits_grows: "grows db db' \<Longrightarrow> awaits_merge db t \<Longrightarrow> awaits_merge db' t"
  by (simp add: grows_def awaits_merge_def)

lemma reconcile_fold:
  assumes "schema_ok db" and "\<forall>t\<in>set ts. awaits_merge db t"
  shows "grows db (fold (reconcile_one v now) ts db) \<and>
    (\<forall>t\<in>set ts. 0 < t_id t \<and> snapshot v t \<longrightarrow> HasMergeTaskForSource (t_id t) (fold (reconcile_one v now) ts db))"
  using assms
proof (induction ts arbitrary: db)
  case (Cons t ts)
  let ?db1 = "reconcile_one v now t db"
  have g: "grows db ?db1" using Cons.prems(1) by (rule reconcile_one_grows)
  then have ok: "schema_ok ?db1" by (simp add: grows_def)
  have aw: "\<forall>u\<in>set ts. awaits_merge ?db1 u" using Cons.prems(2) awaits_grows [OF g] by auto
  note IH = Cons.IH [OF ok aw]
  have "HasMergeTaskForSource (t_id t) (fold (reconcile_one v now) ts ?db1)" if "0 < t_id t" "snapshot v t"
    using reconcile_one_merge [OF Cons.prems(1) _ that] Cons.prems(2) IH grows_HasMerge [OF ok] by auto
  with IH g show ?case using grows_trans by auto
qed (simp add: grows_refl)

lemma reconcile_grows:
  assumes "schema_ok db"
  shows "grows db (reconcileMergeTasks v now db)"
  unfolding reconcileMergeTasks_def using reconcile_fold [OF assms] awaits_list [OF assms] by blast

lemma reconcile_covers:
  assumes "schema_ok db" and "awaits_merge db t" and "0 < t_id t" and "snapshot v t"
  shows "HasMergeTaskForSource (t_id t) (reconcileMergeTasks v now db)"
proof (cases "HasMergeTaskForSource (t_id t) db")
  case True
  then show ?thesis using grows_HasMerge [OF assms(1) reconcile_grows [OF assms(1)]] by blast
next
  case False
  then have "t \<in> set (ListCompletedGitTasksWithoutMerge db)" using awaits_list [OF assms(1)] assms(2) by blast
  then show ?thesis
    unfolding reconcileMergeTasks_def using reconcile_fold [OF assms(1)] awaits_list [OF assms(1)] assms(3,4) by blast
qed


definition demo_env :: env where
  "demo_env = \<lparr>say = (\<lambda>_. ''e''), dir_exists = (\<lambda>_. True), runtime_known = (\<lambda>_. True), is_git = (\<lambda>_. True),
     ensure_ok = (\<lambda>_. True), ensure_dir = (\<lambda>_. ''/w''), ensure_branch = (\<lambda>_. ''b''), ensure_base = (\<lambda>_. ''c''),
     main_dirty = (\<lambda>_. Some False), integrate = (\<lambda>_ _. Some \<lparr>conflicts = [], skipped = False\<rparr>),
     merge_main = (\<lambda>_. True), skills_ok = (\<lambda>_ _. True), skill_prompt = (\<lambda>_. []), prepare_ok = (\<lambda>_ _. True),
     tmux_start = (\<lambda>_. True), snapshot = (\<lambda>_. True), branch_changed = (\<lambda>_. Some True), merge_text = demo_text\<rparr>"

lemma demo_env_sel [simp]:
  "is_git demo_env d" "ensure_dir demo_env t = ''/w''" "ensure_branch demo_env t = ''b''" "snapshot demo_env t"
  "main_dirty demo_env d = Some False" "merge_main demo_env t"
  by (simp_all add: demo_env_def)


section \<open>Settling a row\<close>

text \<open>The columns the executor writes: no constraint of the schema mentions them.\<close>

definition plain_col :: "column \<times> any \<Rightarrow> bool" where
  "plain_col x \<longleftrightarrow>
     (fst x \<in> {ColStatus, ColFinishedAt, ColError, ColWorktreeBranch, ColBaseCommit} \<and> (\<exists>s. snd x = AStr s)) \<or>
     (fst x \<in> {ColExitCode, ColReviewRounds} \<and> (\<exists>i. snd x = AInt i)) \<or>
     (fst x = ColMergeSkipped \<and> (\<exists>b. snd x = ABool b))"

lemma plain_col_simps [simp]:
  "plain_col (ColStatus, AStr s)" "plain_col (ColFinishedAt, AStr s)" "plain_col (ColError, AStr s)"
  "plain_col (ColWorktreeBranch, AStr s)" "plain_col (ColBaseCommit, AStr s)" "plain_col (ColExitCode, AInt i)"
  "plain_col (ColReviewRounds, AInt i)" "plain_col (ColMergeSkipped, ABool b)"
  by (auto simp: plain_col_def)

lemma plain_col_update:
  "plain_col (c, v) \<Longrightarrow> \<exists>f. plain_update f \<and> (\<forall>t. set_task_col c v t = Some (f t))"
  by (rule exI [of _ "\<lambda>t. the (set_task_col c v t)"])
    (auto simp: plain_col_def set_task_col_def col_defs shape_ok_def task_refs_ok_def intro!: plain_updateI)

lemma plain_update_comp: "plain_update f \<Longrightarrow> plain_update g \<Longrightarrow> plain_update (\<lambda>t. g (f t))"
  by (simp add: plain_update_def keeps_keys_def)

lemma plain_cols_update:
  "list_all plain_col fs \<Longrightarrow> \<exists>f. plain_update f \<and> (\<forall>t. set_cols set_task_col fs t = Some (f t))"
proof (induction fs)
  case Nil
  have "plain_update (\<lambda>t. t)" by (simp add: plain_update_def keeps_keys_def)
  then show ?case by auto
next
  case (Cons x fs)
  obtain c v where x: "x = (c, v)" by (cases x)
  with Cons obtain f g where "plain_update f" "\<And>t. set_task_col c v t = Some (f t)"
    "plain_update g" "\<And>t. set_cols set_task_col fs t = Some (g t)"
    using plain_col_update [of c v] by auto
  then show ?case using plain_update_comp [of f g] by (auto simp: x intro!: exI [of _ "\<lambda>t. g (f t)"])
qed

lemma plain_edit:
  assumes "list_all plain_col fs"
  shows "plain_update (\<lambda>t. the (edit_task fs now t)) \<and> (\<forall>t. edit_task fs now t \<noteq> None)"
proof -
  obtain f where f: "plain_update f" "\<And>t. set_cols set_task_col fs t = Some (f t)"
    using plain_cols_update [OF assms] by blast
  have "plain_update (\<lambda>t. (f t)\<lparr>t_updated_at := now, t_revision := t_revision t + 1\<rparr>)"
    using f(1) by (simp add: plain_update_def keeps_keys_def shape_ok_def task_refs_ok_def)
  with f(2) show ?thesis by (simp add: edit_task_def)
qed

lemma upd_plain:
  assumes good: "schema_ok db" and fs: "list_all plain_col fs" "fs \<noteq> []"
  shows "schema_ok (upd i fs now db) \<and> (\<forall>j. get_task j (upd i fs now db) =
    (if j = i then map_option (\<lambda>t. the (edit_task fs now t)) (get_task j db) else get_task j db))"
proof -
  let ?f = "\<lambda>t. the (edit_task fs now t)"
  let ?db = "db\<lparr>tasks := upd_where (\<lambda>t. t_id t = i) ?f (tasks db)\<rparr>"
  have plain: "plain_update ?f" and ex: "\<And>t. edit_task fs now t \<noteq> None" using plain_edit [OF fs(1)] by auto
  have ok: "schema_ok ?db" using good plain by (rule schema_ok_plain)
  have "map_of fs ColProjectId = None"
    using fs(1) by (induction fs) (auto simp: plain_col_def)
  then have "UpdateTask i fs now db = Inr ?db"
    using fs(2) ex ok by (simp add: UpdateTask_def updateOne_def edit_rows_def list_all_iff)
  then have run: "upd i fs now db = ?db" by (simp add: upd_def)
  have "get_task j ?db = map_option (\<lambda>t. if t_id t = i then ?f t else t) (get_task j db)" for j
    using plain by (intro get_task_upd) (simp add: plain_update_def keeps_keys_def)
  then have "get_task j ?db = (if j = i then map_option ?f (get_task j db) else get_task j db)" for j
    by (cases "get_task j db") (auto dest: get_task_id)
  then show ?thesis using ok by (simp add: run)
qed

text \<open>
  What a settled execution looks like: its row has the status, the other rows are as they were,
  and a succeeded source has its merge task unless the merge was skipped.
\<close>

definition settled :: "int \<Rightarrow> status \<Rightarrow> db \<Rightarrow> db \<Rightarrow> bool" where
  "settled i st db db' \<longleftrightarrow> schema_ok db' \<and>
     (\<exists>r. get_task i db' = Some r \<and> t_status r = st \<and>
        (st = StatusSucceeded \<and> t_merge_of r = None \<and> t_worktree_branch r \<noteq> [] \<longrightarrow>
           t_merge_skipped r \<or> HasMergeTaskForSource i db')) \<and>
     (\<forall>j t. j \<noteq> i \<and> get_task j db = Some t \<longrightarrow> get_task j db' = Some t)"

lemma settled_upd:
  assumes good: "schema_ok db" and row: "get_task i db = Some r"
    and fs: "list_all plain_col fs" "fs \<noteq> []" and st: "t_status (the (edit_task fs now r)) = st"
    and merge: "st = StatusSucceeded \<Longrightarrow> t_merge_of (the (edit_task fs now r)) \<noteq> None \<or>
      t_worktree_branch (the (edit_task fs now r)) = [] \<or> t_merge_skipped (the (edit_task fs now r))"
  shows "settled i st db (upd i fs now db)"
proof -
  note eff = upd_plain [OF good fs, of i now]
  then have "get_task i (upd i fs now db) = Some (the (edit_task fs now r))" using row by simp
  with eff st merge show ?thesis by (auto simp: settled_def)
qed

lemmas edit_simps = edit_task_def set_task_col_def col_defs status_of_def status_names_def

lemma settled_fail_task:
  "schema_ok db \<Longrightarrow> get_task i db = Some r \<Longrightarrow> settled i StatusFailed db (fail_task v now i f db)"
  unfolding fail_task_def by (rule settled_upd) (simp_all add: edit_simps)

lemma settled_fail_exit:
  "schema_ok db \<Longrightarrow> get_task i db = Some r \<Longrightarrow> settled i StatusFailed db (fail_exit v now i code f db)"
  unfolding fail_exit_def by (rule settled_upd) (simp_all add: edit_simps)

text \<open>A statement on one row.\<close>

definition row_set :: "int \<Rightarrow> task \<Rightarrow> db \<Rightarrow> db \<Rightarrow> bool" where
  "row_set i r db db' \<longleftrightarrow> schema_ok db' \<and> get_task i db' = Some r \<and>
     (\<forall>j. j \<noteq> i \<longrightarrow> get_task j db' = get_task j db)"

lemma row_set_trans: "row_set i r a b \<Longrightarrow> row_set i r' b c \<Longrightarrow> row_set i r' a c"
  by (simp add: row_set_def)

lemma settled_after: "row_set i r a b \<Longrightarrow> settled i st b c \<Longrightarrow> settled i st a c"
  by (auto simp: row_set_def settled_def)

lemma update_row:
  assumes good: "schema_ok db" and row: "get_task i db = Some cur" and q: "q cur" and plain: "plain_update f"
  shows "\<exists>db1. update_tasks (\<lambda>t. t_id t = i \<and> q t) f db = Inr (db1, 1) \<and> row_set i (f cur) db db1"
proof -
  let ?p = "\<lambda>t. t_id t = i \<and> q t"
  let ?db1 = "db\<lparr>tasks := upd_where ?p f (tasks db)\<rparr>"
  have "affected ?p (tasks db) = 1" unfolding affected_task [OF good] using row q by simp
  moreover have "get_task j ?db1 = map_option (\<lambda>t. if ?p t then f t else t) (get_task j db)" for j
    using plain by (intro get_task_upd) (simp add: plain_update_def keeps_keys_def)
  then have "get_task j ?db1 = (if j = i then Some (f cur) else get_task j db)" for j
    using row q by (cases "get_task j db") (auto dest: get_task_id)
  ultimately show ?thesis
    using update_tasks_plain [OF good plain, of ?p] schema_ok_plain [OF good plain, of ?p]
    by (simp add: row_set_def)
qed

section \<open>The result of an execution\<close>

lemma settled_merged:
  assumes "merged_from i s s' mid db db'"
  shows "settled i StatusSucceeded db db'"
proof -
  from assms obtain m where m: "get_task mid db' = Some m" "t_merge_of m = Some i" by (auto simp: merged_from_def)
  then have "HasMergeTaskForSource i db'" by (auto simp: HasMerge_iff dest: get_task_mem)
  moreover have "get_task j db' = Some t" if "j \<noteq> i" "get_task j db = Some t" for j t
    using assms that by (cases "j = mid") (auto simp: merged_from_def)
  ultimately show ?thesis using assms by (auto simp: settled_def merged_from_def)
qed

definition mark_row :: "string \<Rightarrow> task \<Rightarrow> task" where
  "mark_row now t = (succeed_row now t)\<lparr>t_finished_at := coalesce (t_finished_at t) now\<rparr>"

lemma plain_mark: "plain_update (mark_row now)"
  by (rule plain_updateI) (simp_all add: mark_row_def shape_ok_def task_refs_ok_def succeed_row_def)

lemma mark_row_sel [simp]:
  "t_id (mark_row now t) = t_id t" "t_status (mark_row now t) = StatusSucceeded"
  "t_merge_of (mark_row now t) = t_merge_of t" "t_worktree_branch (mark_row now t) = t_worktree_branch t"
  "t_merge_skipped (mark_row now t) = t_merge_skipped t"
  by (simp_all add: mark_row_def succeed_row_def)

lemma MarkTask_effect:
  assumes "schema_ok db" and "get_task i db = Some cur"
    and "t_status cur \<in> {StatusClaimed, StatusRunning}" "t_perm cur = PermFull" "t_merge_of cur = None"
      "t_worktree_branch cur \<noteq> []"
  shows "\<exists>db1. MarkTaskSucceededAwaitingMerge now i db = Inr (db1, True) \<and> row_set i (mark_row now cur) db db1"
proof -
  have "\<exists>db1. update_tasks (\<lambda>t. t_id t = i \<and> t_status t \<in> {StatusClaimed, StatusRunning} \<and> t_perm t = PermFull \<and>
      t_merge_of t = None \<and> t_worktree_branch t \<noteq> []) (mark_row now) db = Inr (db1, 1) \<and>
      row_set i (mark_row now cur) db db1"
    using assms(1,2) _ plain_mark by (rule update_row) (use assms(3-) in simp)
  then show ?thesis unfolding MarkTaskSucceededAwaitingMerge_def mark_row_def [symmetric] by auto
qed

lemma settled_keep:
  assumes good: "schema_ok db" and row: "get_task (t_id tk) db = Some cur" and pos: "0 < t_id tk"
    and cur: "t_status cur \<in> {StatusClaimed, StatusRunning}" "t_perm cur = PermFull" "t_merge_of cur = None" "t_worktree_branch cur \<noteq> []"
    and snap: "\<And>t. t_id t = t_id tk \<Longrightarrow> snapshot v t"
  shows "\<exists>db'. keepCompletedSourceForMergeReconciliation v now tk db = (db', True) \<and>
    settled (t_id tk) StatusSucceeded db db'"
proof -
  obtain db1 where mark: "MarkTaskSucceededAwaitingMerge now (t_id tk) db = Inr (db1, True)"
    and set1: "row_set (t_id tk) (mark_row now cur) db db1"
    using MarkTask_effect [OF good row] cur by auto
  then have ok: "schema_ok db1"
    and get1: "\<And>j. get_task j db1 = (if j = t_id tk then Some (mark_row now cur) else get_task j db)"
    by (simp_all add: row_set_def)
  let ?db' = "reconcileMergeTasks v now db1"
  have cid: "t_id cur = t_id tk" using row by (rule get_task_id)
  have keep: "keepCompletedSourceForMergeReconciliation v now tk db = (?db', True)"
    using mark row cur by (auto simp: keepCompletedSourceForMergeReconciliation_def)
  have g: "grows db1 ?db'" using ok by (rule reconcile_grows)
  have row': "get_task (t_id tk) ?db' = Some (mark_row now cur)" using growsD(2) [OF g] get1 by simp
  have others: "get_task j ?db' = Some t" if "j \<noteq> t_id tk" "get_task j db = Some t" for j t
    using growsD(2) [OF g] get1 that by simp
  have "HasMergeTaskForSource (t_id tk) ?db'" if "\<not> t_merge_skipped cur"
    using reconcile_covers [OF ok, of "mark_row now cur" v now] that pos snap cid cur get1
    by (simp add: awaits_merge_def)
  then have "settled (t_id tk) StatusSucceeded db ?db'"
    using growsD(1) [OF g] row' others by (auto simp: settled_def)
  with keep show ?thesis by blast
qed

lemma settled_source:
  assumes good: "schema_ok db" and row: "get_task (t_id tk) db = Some cur" and pos: "0 < t_id tk"
    and cur: "t_status cur \<in> {StatusClaimed, StatusRunning}" "t_perm cur = PermFull" "t_merge_of cur = None" "t_worktree_branch cur \<noteq> []"
    and snap: "\<And>t. t_id t = t_id tk \<Longrightarrow> snapshot v t = snapshot v tk"
  shows "settled (t_id tk) (if snapshot v tk then StatusSucceeded else StatusFailed) db (settle_source v now tk code db)"
proof (cases "snapshot v tk")
  case False
  then show ?thesis using settled_fail_exit [OF good row] by (simp add: settle_source_def)
next
  case True
  show ?thesis
  proof (cases "branch_changed v tk = Some False")
    case skip: True
    have "settled (t_id tk) StatusSucceeded db (upd (t_id tk) [(ColStatus, AStr ''succeeded''),
        (ColFinishedAt, AStr now), (ColExitCode, AInt 0), (ColMergeSkipped, ABool True)] now db)"
      using good row by (rule settled_upd) (simp_all add: edit_simps)
    with True skip show ?thesis by (simp add: settle_source_def)
  next
    case merge: False
    show ?thesis
    proof (cases "CompleteTaskAndCreateMerge now (t_id tk) (NewMergeTask (merge_text v) tk) db")
      case (Inr r)
      obtain db' mid where r: "r = (db', mid)" by (cases r)
      from finish_with_merge_effect [OF good plain_succeed _ Inr [unfolded r CompleteTaskAndCreateMerge_def]]
      obtain s where "merged_from (t_id tk) s (succeed_row now s) mid db db'" by auto
      then have "settled (t_id tk) StatusSucceeded db db'" by (rule settled_merged)
      with True merge Inr r show ?thesis by (simp add: settle_source_def)
    next
      case (Inl e)
      from True snap have "\<And>t. t_id t = t_id tk \<Longrightarrow> snapshot v t" by blast
      from settled_keep [OF good row pos cur this] obtain db' where
        "keepCompletedSourceForMergeReconciliation v now tk db = (db', True)"
        "settled (t_id tk) StatusSucceeded db db'" by blast
      with True merge Inl show ?thesis by (simp add: settle_source_def)
    qed
  qed
qed

text \<open>The status a result settles a running task in.\<close>

definition outcome :: "env \<Rightarrow> task \<Rightarrow> run_err \<Rightarrow> bool \<Rightarrow> status" where
  "outcome v tk err canceled =
     (if err \<noteq> NoErr then (if canceled \<or> err = Canceled then StatusCancelled else StatusFailed)
      else if t_merge_of tk = None then
        (if t_perm tk = PermReview then StatusAwaitingReview
         else if t_worktree_branch tk \<noteq> [] \<and> \<not> snapshot v tk then StatusFailed else StatusSucceeded)
      else if t_worktree_branch tk \<noteq> [] \<and> \<not> merge_main v tk then StatusFailed else StatusSucceeded)"

lemma finishRun_settled:
  assumes "schema_ok db" and "get_task (t_id tk) db = Some cur" and "0 < t_id tk"
    and "t_status cur \<in> {StatusClaimed, StatusRunning}" and "t_perm cur = t_perm tk" and "t_perm tk \<in> {PermFull, PermReview}"
    and "t_merge_of cur = t_merge_of tk" and "t_worktree_branch cur = t_worktree_branch tk"
    and "\<And>t. t_id t = t_id tk \<Longrightarrow> snapshot v t = snapshot v tk"
    and err: "err \<noteq> Stopping"
  shows "settled (t_id tk) (outcome v tk err canceled) db (finishRun v now tk code err canceled db)"
proof -
  note upd = settled_upd [OF assms(1,2)]
  have nc: "t_status cur \<noteq> StatusCancelled" using assms(4) by auto
  let ?fin = "finishRun v now tk code err canceled db"
  consider "err \<noteq> NoErr" | "err = NoErr" "t_merge_of tk = None" "t_perm tk = PermReview"
    | "err = NoErr" "t_merge_of tk = None" "t_perm tk = PermFull" "t_worktree_branch tk \<noteq> []"
    | src where "err = NoErr" "t_merge_of tk = Some src" "t_worktree_branch tk \<noteq> []" "\<not> merge_main v tk"
    | "err = NoErr" "t_merge_of tk = None" "t_perm tk = PermFull" "t_worktree_branch tk = []"
    | src where "err = NoErr" "t_merge_of tk = Some src" "t_worktree_branch tk = [] \<or> merge_main v tk"
    using assms(6) by (cases "t_merge_of tk") auto
  then show "settled (t_id tk) (outcome v tk err canceled) db ?fin"
  proof cases
    case 1
    have "settled (t_id tk) StatusCancelled db (upd (t_id tk) [(ColStatus, AStr ''cancelled''),
        (ColFinishedAt, AStr now), (ColError, AStr (say v FTerminated))] now db)"
      by (rule upd) (simp_all add: edit_simps)
    with 1 err assms(2) nc show ?thesis
      using settled_fail_exit [OF assms(1,2)] by (simp add: finishRun_def outcome_def)
  next
    case 2
    have "settled (t_id tk) StatusAwaitingReview db (upd (t_id tk) [(ColStatus, AStr ''awaiting_review''),
        (ColFinishedAt, AStr now), (ColExitCode, AInt 0), (ColReviewRounds, AInt (t_review_rounds tk + 1))] now db)"
      by (rule upd) (simp_all add: edit_simps)
    with 2 assms(2) nc show ?thesis by (simp add: finishRun_def outcome_def)
  next
    case 3
    have "?fin = settle_source v now tk code db"
      unfolding finishRun_def 3(1) using 3(2-4) assms(2) nc by simp
    moreover have "settled (t_id tk) (if snapshot v tk then StatusSucceeded else StatusFailed) db (settle_source v now tk code db)"
    proof (rule settled_source [OF assms(1-4)])
      show "t_perm cur = PermFull" "t_merge_of cur = None" "t_worktree_branch cur \<noteq> []"
        using 3(2-4) assms(5,7,8) by simp_all
      show "\<And>t. t_id t = t_id tk \<Longrightarrow> snapshot v t = snapshot v tk" by (rule assms(9))
    qed
    moreover have "outcome v tk err canceled = (if snapshot v tk then StatusSucceeded else StatusFailed)"
      using 3 by (simp add: outcome_def)
    ultimately show ?thesis by (simp only:)
  next
    case 4
    with assms(2) nc show ?thesis
      using settled_fail_exit [OF assms(1,2)] by (simp add: finishRun_def outcome_def)
  next
    case 5
    have "settled (t_id tk) StatusSucceeded db (upd (t_id tk) [(ColStatus, AStr ''succeeded''),
        (ColFinishedAt, AStr now), (ColExitCode, AInt 0)] now db)"
      by (rule upd) (simp_all add: edit_simps 5 assms(8))
    with 5 assms(2) nc show ?thesis by (simp add: finishRun_def outcome_def)
  next
    case 6
    have "settled (t_id tk) StatusSucceeded db (upd (t_id tk) [(ColStatus, AStr ''succeeded''),
        (ColFinishedAt, AStr now), (ColExitCode, AInt 0)] now db)"
      by (rule upd) (use 6 in \<open>simp_all add: edit_simps assms(7)\<close>)
    moreover have "?fin = upd (t_id tk) [(ColStatus, AStr ''succeeded''), (ColFinishedAt, AStr now),
        (ColExitCode, AInt 0)] now db"
      using 6 assms(2) nc by (cases "merge_main v tk") (simp_all add: finishRun_def)
    moreover have "outcome v tk err canceled = StatusSucceeded"
      using 6 by (cases "merge_main v tk") (simp_all add: outcome_def)
    ultimately show ?thesis by simp
  qed
qed



section \<open>The start of an execution\<close>

definition start_row :: "string \<Rightarrow> task \<Rightarrow> task" where
  "start_row now t = t\<lparr>t_status := StatusRunning, t_started_at := Some now, t_updated_at := now,
     t_revision := t_revision t + 1\<rparr>"

lemma plain_start: "plain_update (start_row now)"
  by (rule plain_updateI) (simp_all add: start_row_def shape_ok_def task_refs_ok_def)

lemma start_row_sel [simp]: "t_status (start_row now t) = StatusRunning" "t_merge_of (start_row now t) = t_merge_of t"
  "t_worktree_branch (start_row now t) = t_worktree_branch t"
  by (simp_all add: start_row_def)

lemma StartTask_row:
  assumes "schema_ok db" and "get_task i db = Some cur" and "t_status cur = StatusClaimed"
  shows "\<exists>db1. StartTask i now db = Inr (db1, True) \<and> row_set i (start_row now cur) db db1"
  using update_row [OF assms(1,2), of "\<lambda>t. t_status t = StatusClaimed" "start_row now"] plain_start assms(3)
  unfolding StartTask_def start_row_def [symmetric] by auto

lemma Offset_row:
  assumes "schema_ok db" and "get_task i db = Some cur"
  shows "\<exists>db1. UpdateTmuxLogOffset i off db = Inr db1 \<and> row_set i (cur\<lparr>t_tmux_log_offset := off\<rparr>) db db1"
proof -
  have "plain_update (\<lambda>t. t\<lparr>t_tmux_log_offset := off\<rparr>)"
    by (rule plain_updateI) (simp_all add: shape_ok_def task_refs_ok_def)
  from update_row [OF assms _ this, of "\<lambda>_. True"] show ?thesis by (auto simp: UpdateTmuxLogOffset_def)
qed

lemma TerminalSize_row:
  assumes "schema_ok db" and "get_task i db = Some cur"
  shows "\<exists>db1. UpdateTerminalSize i c r db = Inr db1 \<and>
    row_set i (cur\<lparr>t_terminal_cols := c, t_terminal_rows := r\<rparr>) db db1"
proof -
  have "plain_update (\<lambda>t. t\<lparr>t_terminal_cols := c, t_terminal_rows := r\<rparr>)"
    by (rule plain_updateI) (simp_all add: shape_ok_def task_refs_ok_def)
  from update_row [OF assms _ this, of "\<lambda>_. True"] show ?thesis by (auto simp: UpdateTerminalSize_def)
qed

text \<open>
  The last part either gives up with the task failed or hands over a running task and a request
  for the directory it was given.
\<close>

definition handed_over :: "string \<Rightarrow> int \<Rightarrow> db \<Rightarrow> db \<Rightarrow> bool" where
  "handed_over branch i db db' \<longleftrightarrow> (\<exists>r. row_set i r db db' \<and> t_status r = StatusRunning \<and> t_worktree_branch r = branch)"

lemma start_runtime_effect:
  assumes good: "schema_ok db" and row: "get_task (t_id tk) db = Some cur" and run: "t_status cur = StatusRunning"
  shows "case start_runtime v now agent git dir tk db of
      Inl db' \<Rightarrow> settled (t_id tk) StatusFailed db db'
    | Inr (db', tk', rq) \<Rightarrow> handed_over (t_worktree_branch cur) (t_id tk) db db' \<and> rq_dir rq = dir \<and> t_id tk' = t_id tk"
proof -
  note fails = settled_fail_task [OF good row]
  obtain db1 where off: "UpdateTmuxLogOffset (t_id tk) 0 db = Inr db1"
    "row_set (t_id tk) (cur\<lparr>t_tmux_log_offset := 0\<rparr>) db db1"
    using Offset_row [OF good row] by blast
  then have ok1: "schema_ok db1" "get_task (t_id tk) db1 = Some (cur\<lparr>t_tmux_log_offset := 0\<rparr>)"
    by (simp_all add: row_set_def)
  have fail1: "settled (t_id tk) StatusFailed db (fail_task v now (t_id tk) f db1)" for f
    by (rule settled_after [OF off(2) settled_fail_task [OF ok1]])
  obtain db2 where size: "UpdateTerminalSize (t_id tk) interactiveTerminalColumns interactiveTerminalRows db1 = Inr db2"
    "row_set (t_id tk) (cur\<lparr>t_tmux_log_offset := 0, t_terminal_cols := interactiveTerminalColumns,
       t_terminal_rows := interactiveTerminalRows\<rparr>) db1 db2"
    using TerminalSize_row [OF ok1] by auto
  have "handed_over (t_worktree_branch cur) (t_id tk) db db1"
    using off(2) run by (auto simp: handed_over_def)
  moreover have "handed_over (t_worktree_branch cur) (t_id tk) db db2"
    using row_set_trans [OF off(2) size(2)] run by (auto simp: handed_over_def)
  ultimately show ?thesis
    using fails fail1 off(1) size(1) by (simp add: start_runtime_def Let_def build_request_def)
qed

lemma branch_row:
  assumes "schema_ok db" and "get_task i db = Some cur"
  shows "\<exists>r. row_set i r db (upd i [(ColWorktreeBranch, AStr b), (ColBaseCommit, AStr c)] now db) \<and>
    t_status r = t_status cur \<and> t_worktree_branch r = b \<and> t_merge_of r = t_merge_of cur"
  using upd_plain [OF assms(1), of "[(ColWorktreeBranch, AStr b), (ColBaseCommit, AStr c)]" i now] assms(2)
  by (simp add: row_set_def edit_simps)

lemma start_after:
  assumes set: "row_set (t_id tk) r db db2" and run: "t_status r = StatusRunning"
  shows "case start_runtime v now agent git dir tk db2 of
      Inl db' \<Rightarrow> settled (t_id tk) StatusFailed db db'
    | Inr (db', tk', rq) \<Rightarrow> handed_over (t_worktree_branch r) (t_id tk) db db' \<and> rq_dir rq = dir"
proof -
  have row: "schema_ok db2" "get_task (t_id tk) db2 = Some r" using set by (simp_all add: row_set_def)
  note eff = start_runtime_effect [OF row run, where v = v and now = now and agent = agent and git = git and dir = dir]
  show ?thesis
  proof (cases "start_runtime v now agent git dir tk db2")
    case (Inl db')
    with eff settled_after [OF set] show ?thesis by simp
  next
    case (Inr x)
    with eff row_set_trans [OF set] show ?thesis by (cases x) (auto simp: handed_over_def)
  qed
qed

lemma succeed_fields:
  assumes set: "row_set i r db db2" and merge: "t_merge_of r \<noteq> None"
  shows "settled i StatusSucceeded db (upd i [(ColStatus, AStr ''succeeded''), (ColFinishedAt, AStr now),
    (ColExitCode, AInt 0)] now db2)"
proof (rule settled_after [OF set settled_upd])
  show "schema_ok db2" "get_task i db2 = Some r" using set by (simp_all add: row_set_def)
qed (use merge in \<open>simp_all add: edit_simps\<close>)

lemma merge_after:
  assumes set: "row_set (t_id tk) r db db2" and run: "t_status r = StatusRunning" and merge: "t_merge_of r \<noteq> None"
  shows "case merge_prepare v now agent git dir tk src db2 of
      Inl db' \<Rightarrow> settled (t_id tk) StatusFailed db db' \<or> settled (t_id tk) StatusSucceeded db db'
    | Inr (db', tk', rq) \<Rightarrow> handed_over (t_worktree_branch r) (t_id tk) db db' \<and> rq_dir rq = dir \<and>
        main_dirty v (t_project_dir tk) = Some False \<and> get_task src db2 \<noteq> None"
proof -
  have row: "schema_ok db2" "get_task (t_id tk) db2 = Some r" using set by (simp_all add: row_set_def)
  note fails = settled_after [OF set settled_fail_task [OF row]] settled_after [OF set settled_fail_exit [OF row]]
  note wins = succeed_fields [OF set merge, of now]
  note eff = start_after [OF set run, where v = v and now = now and agent = agent and git = git and dir = dir]
  show ?thesis
    unfolding merge_prepare_def using fails wins eff
    by (auto split: option.split bool.split sum.splits)
qed

text \<open>
  C16. A claimed task is either settled at once or handed to a runtime while it is running.
  A task of a Git project is handed over only with a worktree branch of its own, recorded in the
  row, and in the directory of that worktree; a merge task only when the main worktree is clean
  and its source exists. Giving up marks the task failed, and only a merge task whose
  integration has no conflict succeeds without a runtime.
\<close>

theorem runTask_isolated:
  assumes "schema_ok db" and "get_task (t_id tk) db = Some cur" and "t_status cur = StatusClaimed"
    and "t_merge_of cur = t_merge_of tk"
  shows "case runTask v now tk db of
      Inl db' \<Rightarrow> settled (t_id tk) StatusFailed db db' \<or>
        settled (t_id tk) StatusSucceeded db db' \<and> t_merge_of tk \<noteq> None
    | Inr (db', tk', rq) \<Rightarrow>
        (\<exists>b. handed_over b (t_id tk) db db' \<and>
          (is_git v (t_project_dir tk) \<longrightarrow> b = ensure_branch v tk \<and> b \<noteq> [] \<and> rq_dir rq = ensure_dir v tk)) \<and>
        dir_exists v (t_project_dir tk) \<and>
        (\<forall>s. t_merge_of tk = Some s \<longrightarrow> main_dirty v (t_project_dir tk) = Some False \<and> get_task s db' \<noteq> None)"
proof -
  let ?i = "t_id tk" and ?b = "ensure_branch v tk"
  obtain db1 where start: "StartTask ?i now db = Inr (db1, True)" "row_set ?i (start_row now cur) db db1"
    using StartTask_row [OF assms(1-3)] by blast
  then have row1: "schema_ok db1" "get_task ?i db1 = Some (start_row now cur)" by (simp_all add: row_set_def)
  have fail1: "settled ?i StatusFailed db (fail_task v now ?i f db1)" for f
    by (rule settled_after [OF start(2) settled_fail_task [OF row1]])
  let ?tk2 = "if ?b \<noteq> [] then tk\<lparr>t_worktree_branch := ?b, t_base_commit := ensure_base v tk\<rparr> else tk"
  let ?db2 = "if ?b \<noteq> [] then upd ?i [(ColWorktreeBranch, AStr ?b), (ColBaseCommit, AStr (ensure_base v tk))] now db1
    else db1"
  obtain r where r: "row_set ?i r db ?db2" "t_status r = StatusRunning" "t_merge_of r = t_merge_of tk"
    "?b \<noteq> [] \<longrightarrow> t_worktree_branch r = ?b"
  proof (cases "?b = []")
    case True
    with start(2) assms(4) that show ?thesis by auto
  next
    case False
    with branch_row [OF row1, of ?b "ensure_base v tk" now] row_set_trans [OF start(2)] assms(4) that
    show ?thesis by auto
  qed
  define tk2 where "tk2 = ?tk2"
  define db2 where "db2 = ?db2"
  have tk2: "t_id tk2 = ?i" "t_project_dir tk2 = t_project_dir tk" "t_merge_of tk2 = t_merge_of tk"
    by (simp_all add: tk2_def)
  have r2: "row_set (t_id tk2) r db db2" using r(1) by (simp add: db2_def tk2)
  let ?rest = "\<lambda>agent. case t_merge_of tk of
      None \<Rightarrow> start_runtime v now agent (is_git v (t_project_dir tk)) (ensure_dir v tk) tk2 db2
    | Some src \<Rightarrow> merge_prepare v now agent (is_git v (t_project_dir tk)) (ensure_dir v tk) tk2 src db2"
  let ?ok = "\<lambda>res. case res of
      Inl db' \<Rightarrow> settled ?i StatusFailed db db' \<or> settled ?i StatusSucceeded db db' \<and> t_merge_of tk \<noteq> None
    | Inr (db', tk', rq) \<Rightarrow>
        (\<exists>b. handed_over b ?i db db' \<and>
          (is_git v (t_project_dir tk) \<longrightarrow> b = ?b \<and> b \<noteq> [] \<and> rq_dir rq = ensure_dir v tk)) \<and>
        dir_exists v (t_project_dir tk) \<and>
        (\<forall>s. t_merge_of tk = Some s \<longrightarrow> main_dirty v (t_project_dir tk) = Some False \<and> get_task s db' \<noteq> None)"
  have failed: "?ok (Inl (fail_task v now ?i f db1))" for f using fail1 by simp
  have rest: "?ok (?rest agent)" if "dir_exists v (t_project_dir tk)" "is_git v (t_project_dir tk) \<longrightarrow> ?b \<noteq> []" for agent
  proof (cases "t_merge_of tk")
    case None
    let ?res = "start_runtime v now agent (is_git v (t_project_dir tk)) (ensure_dir v tk) tk2 db2"
    note eff = start_after [OF r2 r(2), where v = v and now = now and agent = agent and
        git = "is_git v (t_project_dir tk)" and dir = "ensure_dir v tk", unfolded tk2]
    have "?ok ?res"
    proof (cases ?res)
      case (Inr x)
      with eff that r(4) None show ?thesis by (cases x) auto
    qed (use eff in simp)
    with None show ?thesis by simp
  next
    case (Some src)
    let ?res = "merge_prepare v now agent (is_git v (t_project_dir tk)) (ensure_dir v tk) tk2 src db2"
    have "t_merge_of r \<noteq> None" using Some r(3) by simp
    note eff = merge_after [OF r2 r(2) this, where v = v and now = now and agent = agent and
        git = "is_git v (t_project_dir tk)" and dir = "ensure_dir v tk" and src = src, unfolded tk2]
    have "?ok ?res"
    proof (cases ?res)
      case (Inr x)
      obtain db' tk' rq where x: "x = (db', tk', rq)" by (cases x)
      with eff Inr have e: "handed_over (t_worktree_branch r) ?i db db'" "rq_dir rq = ensure_dir v tk"
        "main_dirty v (t_project_dir tk) = Some False" "get_task src db2 \<noteq> None" by simp_all
      have "get_task src db' \<noteq> None"
        using e(1,4) r2 by (cases "src = ?i") (auto simp: handed_over_def row_set_def tk2)
      with e that r(4) Some Inr x show ?thesis by auto
    qed (use eff Some in auto)
    with Some show ?thesis by simp
  qed
  have "runTask v now tk db =
     (if t_project_dir tk = [] then Inl (fail_task v now ?i FNoProjectDir db1)
      else if \<not> dir_exists v (t_project_dir tk) then Inl (fail_task v now ?i FDirMissing db1)
      else case (case t_role_id tk of None \<Rightarrow> None | Some a \<Rightarrow> get_role_row a db1) of
          None \<Rightarrow> Inl (fail_task v now ?i FRoleMissing db1)
        | Some agent \<Rightarrow>
            if \<not> runtime_known v (a_runtime_id agent) then Inl (fail_task v now ?i FRuntimeUnknown db1)
            else if is_git v (t_project_dir tk) \<and> \<not> ensure_ok v tk then Inl (fail_task v now ?i FWorkspace db1)
            else if is_git v (t_project_dir tk) \<and> ?b = [] then Inl (fail_task v now ?i FNoIsolation db1)
            else ?rest agent)"
    unfolding runTask_def start(1) tk2_def db2_def
    by (cases "?b = []"; cases "is_git v (t_project_dir tk)"; cases "ensure_ok v tk")
      (simp_all add: Let_def split: option.split)
  then show ?thesis
    using failed rest by (simp split: option.split)
qed

definition demo_claimed :: db where
  "demo_claimed = demo_project_db [(demo_in 1 1 1 StatusClaimed)\<lparr>t_project_dir := ''/p''\<rparr>]"

theorem runTask_isolated_witness:
  "case runTask demo_env ''t1'' (hd (tasks demo_claimed)) demo_claimed of
     Inl _ \<Rightarrow> False
   | Inr (db', tk', rq) \<Rightarrow> handed_over ''b'' 1 demo_claimed db' \<and> rq_dir rq = ''/w''"
proof -
  let ?tk = "hd (tasks demo_claimed)"
  have ok: "schema_ok demo_claimed" by code_simp
  have row: "get_task (t_id ?tk) demo_claimed = Some ?tk"
    by (simp add: demo_claimed_def demo_project_db_def demo_tasks_def get_task_def)
  have tk: "t_id ?tk = 1" "t_status ?tk = StatusClaimed" by code_simp+
  have "case runTask demo_env ''t1'' ?tk demo_claimed of Inl _ \<Rightarrow> False | Inr _ \<Rightarrow> True" by code_simp
  then obtain db' tk' rq where r: "runTask demo_env ''t1'' ?tk demo_claimed = Inr (db', tk', rq)"
    by (auto split: sum.splits)
  from runTask_isolated [OF ok row tk(2) refl, of demo_env "''t1''"] tk(1)
  show ?thesis unfolding r by simp
qed

section \<open>What the agent is told\<close>

text \<open>The instructions of the role stand before the prompt of the task.\<close>

definition full_prompt :: "role \<Rightarrow> string \<Rightarrow> string" where
  "full_prompt agent prompt =
     (let instr = trim_space (rcf_instructions (a_role_config agent)) in
      if instr \<noteq> [] then instr @ blank_line @ prompt else prompt)"

lemma start_runtime_prompt:
  "start_runtime v now agent git dir tk db = Inr (db', tk', rq) \<Longrightarrow> rq_prompt rq = full_prompt agent (taskPrompt tk)"
  by (auto simp: start_runtime_def Let_def build_request_def full_prompt_def split: if_splits sum.splits)

lemma merge_prepare_prompt:
  "merge_prepare v now agent git dir tk src db = Inr (db', tk', rq) \<Longrightarrow> rq_prompt rq = full_prompt agent (taskPrompt tk)"
  by (auto simp: merge_prepare_def split: if_splits option.splits bool.splits dest: start_runtime_prompt)

lemma taskPrompt_branch [simp]:
  "taskPrompt (tk\<lparr>t_worktree_branch := b, t_base_commit := c\<rparr>) = taskPrompt tk"
  by (simp add: taskPrompt_def)

lemma runTask_prompt:
  assumes "runTask v now tk db = Inr (db', tk', rq)"
  shows "\<exists>agent. rq_prompt rq = full_prompt agent (taskPrompt tk)"
  using assms unfolding runTask_def
  by (auto simp: Let_def split: if_split_asm sum.split_asm option.split_asm prod.split_asm bool.split_asm
      dest!: start_runtime_prompt merge_prepare_prompt)

lemma queue_member: "t \<in> set (ListQueuedTasks db) \<Longrightarrow> \<exists>r\<in>set (tasks db). t = brief r"
proof -
  assume "t \<in> set (ListQueuedTasks db)"
  then have "t \<in> set (queue_rows db)"
    unfolding ListQueuedTasks_def Let_def by (simp add: mset_eq_setD [OF mset_slice_stable])
  then show ?thesis by (auto simp: queue_rows_def by_age_def)
qed

text \<open>
  The request of a task started from the queue carries at most the first 400 characters of
  its body: the rows of the queue are the brief ones, and \<^verbatim>\<open>runTask\<close> builds the prompt from
  the row it was handed.
\<close>

theorem dispatched_prompt_truncated:
  assumes "dispatch now e db = (e', db', started)" and "schema_ok db" and "nonneg e"
    and "t \<in> set started" and "runTask v now' t db2 = Inr (db3, tk', rq)"
  shows "\<exists>row agent. get_task (t_id t) db = Some row \<and>
    rq_prompt rq = full_prompt agent (taskPrompt (row\<lparr>t_body := utf8_take 400 (t_body row)\<rparr>))"
proof -
  have "t \<in> set (ListQueuedTasks db)" using dispatch_effect [OF assms(1-3)] assms(4) by blast
  then obtain r where r: "r \<in> set (tasks db)" "t = brief r" by (auto dest: queue_member)
  then have "get_task (t_id t) db = Some r" using get_task_distinct [OF assms(2) r(1)] by (simp add: brief_def)
  with runTask_prompt [OF assms(5)] r(2) show ?thesis by (auto simp: brief_def)
qed

definition demo_queued :: db where
  "demo_queued = demo_project_db [(demo_in 1 1 1 StatusQueued)\<lparr>t_project_dir := ''/p'', t_body := ''xyz''\<rparr>]"

theorem dispatched_prompt_truncated_witness:
  "case dispatch ''t1'' no_slots demo_queued of (e', db', started) \<Rightarrow>
     (case runTask demo_env ''t1'' (hd started) db' of
        Inl _ \<Rightarrow> False
      | Inr (db3, tk', rq) \<Rightarrow> \<exists>row agent. get_task 1 demo_queued = Some row \<and>
          rq_prompt rq = full_prompt agent (taskPrompt (row\<lparr>t_body := utf8_take 400 (t_body row)\<rparr>)))"
proof -
  have ok: "schema_ok demo_queued" by code_simp
  have nn: "nonneg no_slots" by (simp add: nonneg_def no_slots_def)
  obtain e' db' started where d: "dispatch ''t1'' no_slots demo_queued = (e', db', started)"
    by (cases "dispatch ''t1'' no_slots demo_queued") auto
  have "case dispatch ''t1'' no_slots demo_queued of (e', db', started) \<Rightarrow> map t_id started = [1] \<and>
      (case runTask demo_env ''t1'' (hd started) db' of Inl _ \<Rightarrow> False | Inr _ \<Rightarrow> True)" by code_simp
  then obtain t db3 tk' rq where t: "started = [t]" "t_id t = 1"
    and run: "runTask demo_env ''t1'' t db' = Inr (db3, tk', rq)"
    by (auto simp: d split: sum.splits)
  from dispatched_prompt_truncated [OF d ok nn _ run] t show ?thesis by (simp add: d run)
qed

text \<open>A task whose body has 500 letters: its agent does not get the instruction that was stored.\<close>

definition demo_letters :: "nat \<Rightarrow> task" where
  "demo_letters n = (demo_in 1 1 1 StatusQueued)\<lparr>t_project_dir := ''/p'', t_body := replicate n CHR ''x''\<rparr>"

lemma utf8_take_letters: "utf8_take n (replicate m CHR ''x'') = replicate (min n m) CHR ''x''"
proof (induction n arbitrary: m)
  case (Suc n)
  have "\<not> continuation CHR ''x''" by code_simp
  then have "takeWhile continuation (replicate k CHR ''x'') = [] \<and>
      dropWhile continuation (replicate k CHR ''x'') = replicate k CHR ''x''" for k by (cases k) auto
  with Suc show ?case by (cases m) auto
qed simp

lemma trim_letters: "trim_space (replicate m CHR ''x'') = replicate m CHR ''x''"
proof -
  have "cut_first space_runes (replicate m CHR ''x'') = None"
    by (cases m) (simp_all add: cut_first_def space_runes_def has_prefix_def find_None_iff)
  moreover have "cut_first (map rev space_runes) (replicate m CHR ''x'') = None"
    by (cases m) (simp_all add: cut_first_def space_runes_def has_prefix_def find_None_iff)
  ultimately show ?thesis by (simp add: trim_space_def cut_all_None)
qed

lemma long_body_lost: "400 < n \<Longrightarrow> taskPrompt (brief (demo_letters n)) \<noteq> taskPrompt (demo_letters n)"
proof -
  assume "400 < n"
  moreover have "trim_space ''t'' = ''t''" by code_simp
  ultimately show ?thesis
    by (auto simp: taskPrompt_def brief_def demo_letters_def demo_in_def demo_task_def utf8_take_letters trim_letters Let_def)
qed

end
