(* ===== verification/Exec_Recovery.thy ===== *)
theory Exec_Recovery
  imports Exec_Run_Laws
begin

text \<open>
  Recovery after a restart (\<^verbatim>\<open>recoverInterrupted\<close> of executor.go): every execution the
  database still calls claimed or running is either watched again, with its slots restored, or
  settled.
\<close>

section \<open>One execution\<close>

definition in_progress :: "task \<Rightarrow> bool" where
  "in_progress t \<longleftrightarrow> t_status t \<in> {StatusClaimed, StatusRunning}"

definition regular :: "task \<Rightarrow> bool" where
  "regular t \<longleftrightarrow> 0 < t_id t \<and> t_perm t \<in> {PermFull, PermReview}"

definition same_snapshots :: "env \<Rightarrow> bool" where
  "same_snapshots v \<longleftrightarrow> (\<forall>t u. t_id t = t_id u \<longrightarrow> snapshot v t = snapshot v u)"

lemma brief_sel [simp]:
  "t_id (brief t) = t_id t" "t_status (brief t) = t_status t" "t_perm (brief t) = t_perm t"
  "t_merge_of (brief t) = t_merge_of t" "t_worktree_branch (brief t) = t_worktree_branch t"
  "t_role_id (brief t) = t_role_id t" "t_project_id (brief t) = t_project_id t"
  "t_workflow_run_id (brief t) = t_workflow_run_id t"
  by (simp_all add: brief_def)

lemma outcome_settled: "outcome v tk err canceled \<notin> {StatusClaimed, StatusRunning}"
  by (simp add: outcome_def)

text \<open>Taking over one execution: watched and untouched, or settled.\<close>

definition taken :: "env \<Rightarrow> string \<Rightarrow> (task \<Rightarrow> observation option) \<Rightarrow> task \<Rightarrow> bool" where
  "taken v now poll tk \<longleftrightarrow> (case poll tk of None \<Rightarrow> False | Some ob \<Rightarrow> \<not> ob_done ob \<and> ob_alive ob \<and> t_role_id tk \<noteq> None)"

lemma recover_one_taken:
  "taken v now poll tk \<Longrightarrow> recover_one v now poll tk (e, w, db) = (restore e tk, w @ [tk], db)"
  by (auto simp: recover_one_def taken_def split: option.splits)

lemma recover_one_settles:
  assumes "\<not> taken v now poll tk" and good: "schema_ok db" and row: "get_task (t_id tk) db = Some cur"
    and tk: "tk = brief cur" "in_progress cur" "regular cur" and snap: "same_snapshots v"
  shows "\<exists>db'. recover_one v now poll tk (e, w, db) = (e, w, db') \<and>
    (\<exists>st. st \<notin> {StatusClaimed, StatusRunning} \<and> settled (t_id tk) st db db')"
proof -
  have lost: "settled (t_id tk) StatusFailed db (markInterrupted v now tk db)"
    unfolding markInterrupted_def using good row by (rule settled_fail_task)
  have fin: "settled (t_id tk) (outcome v tk (exitError code) False) db
      (finishRun v now tk code (exitError code) False db)" for code
  proof (rule finishRun_settled [OF good row])
    show "\<And>t. t_id t = t_id tk \<Longrightarrow> snapshot v t = snapshot v tk" using snap unfolding same_snapshots_def by blast
    show "exitError code \<noteq> Stopping" by (simp add: exitError_def)
    show "0 < t_id tk" "t_perm tk \<in> {PermFull, PermReview}" using tk(3) by (simp_all add: tk(1) regular_def)
    show "t_status cur \<in> {StatusClaimed, StatusRunning}" using tk(2) by (simp add: in_progress_def)
    show "t_perm cur = t_perm tk" "t_merge_of cur = t_merge_of tk" "t_worktree_branch cur = t_worktree_branch tk"
      by (simp_all add: tk(1))
  qed
  show ?thesis
  proof (cases "poll tk")
    case (Some ob)
    then show ?thesis
      using assms(1) lost fin [of "ob_exit ob"] outcome_settled [of v tk "exitError (ob_exit ob)" False]
      by (cases "ob_done ob") (auto simp: recover_one_def taken_def)
  qed (use lost in \<open>auto simp: recover_one_def\<close>)
qed

section \<open>All of them\<close>

definition recovered :: "(task \<Rightarrow> bool) \<Rightarrow> task list \<Rightarrow> db \<Rightarrow> db \<Rightarrow> bool" where
  "recovered tk ts db db' \<longleftrightarrow> schema_ok db' \<and>
     (\<forall>t\<in>set ts. if tk t then get_task (t_id t) db' = get_task (t_id t) db
        else \<exists>r. get_task (t_id t) db' = Some r \<and> \<not> in_progress r) \<and>
     (\<forall>j u. j \<notin> t_id ` set ts \<and> get_task j db = Some u \<longrightarrow> get_task j db' = Some u)"

lemma recover_fold:
  assumes "schema_ok db" and "same_snapshots v" and "distinct (map t_id ts)"
    and "\<forall>t\<in>set ts. \<exists>u. get_task (t_id t) db = Some u \<and> t = brief u \<and> in_progress u \<and> regular u"
  shows "\<exists>db'. fold (recover_one v now poll) ts (e, w, db) =
      (foldl restore e (filter (taken v now poll) ts), w @ filter (taken v now poll) ts, db') \<and>
    recovered (taken v now poll) ts db db'"
  using assms
proof (induction ts arbitrary: e w db)
  case Nil
  then show ?case by (simp add: recovered_def)
next
  case (Cons t ts)
  obtain u where u: "get_task (t_id t) db = Some u" "t = brief u" "in_progress u" "regular u"
    using Cons.prems(4) by auto
  have dist: "distinct (map t_id ts)" and fresh: "t_id t \<notin> t_id ` set ts" using Cons.prems(3) by auto
  show ?case
  proof (cases "taken v now poll t")
    case True
    note one = recover_one_taken [OF True, of e w db]
    obtain db' where "fold (recover_one v now poll) ts (restore e t, w @ [t], db) =
        (foldl restore (restore e t) (filter (taken v now poll) ts), (w @ [t]) @ filter (taken v now poll) ts, db')"
      and rec: "recovered (taken v now poll) ts db db'"
      using Cons.IH [OF Cons.prems(1,2) dist, of "restore e t" "w @ [t]"] Cons.prems(4) by auto
    moreover have "get_task (t_id t) db' = get_task (t_id t) db" using rec fresh u(1) by (auto simp: recovered_def)
    then have "recovered (taken v now poll) (t # ts) db db'" using rec True by (auto simp: recovered_def)
    ultimately show ?thesis using one True by auto
  next
    case False
    obtain db1 st where one: "recover_one v now poll t (e, w, db) = (e, w, db1)"
      and st: "st \<notin> {StatusClaimed, StatusRunning}" and set1: "settled (t_id t) st db db1"
      using recover_one_settles [OF False Cons.prems(1) u Cons.prems(2), of e w] by blast
    have ok1: "schema_ok db1" and keep: "\<And>j x. j \<noteq> t_id t \<Longrightarrow> get_task j db = Some x \<Longrightarrow> get_task j db1 = Some x"
      using set1 by (auto simp: settled_def)
    have rest: "\<exists>u. get_task (t_id y) db1 = Some u \<and> y = brief u \<and> in_progress u \<and> regular u" if "y \<in> set ts" for y
      using Cons.prems(4) that fresh keep [of "t_id y"] by (metis image_eqI list.set_intros(2))
    obtain db' where fold1: "fold (recover_one v now poll) ts (e, w, db1) =
        (foldl restore e (filter (taken v now poll) ts), w @ filter (taken v now poll) ts, db')"
      and rec: "recovered (taken v now poll) ts db1 db'"
      using Cons.IH [OF ok1 Cons.prems(2) dist, of e w] rest by blast
    have "\<exists>r. get_task (t_id t) db' = Some r \<and> \<not> in_progress r"
      using rec fresh set1 st by (auto simp: recovered_def settled_def in_progress_def)
    moreover have "get_task (t_id y) db' = get_task (t_id y) db" if "y \<in> set ts" "taken v now poll y" for y
      using rec that rest [OF that(1)] keep [of "t_id y"] Cons.prems(4) fresh
      by (simp add: recovered_def) (metis image_eqI)
    ultimately have "recovered (taken v now poll) (t # ts) db db'"
      using rec False keep by (auto simp: recovered_def)
    with fold1 one False show ?thesis by auto
  qed
qed

lemma ListRunning_iff:
  "schema_ok db \<Longrightarrow> (t \<in> set (ListRunningTasks db)) = (\<exists>u. get_task (t_id t) db = Some u \<and> t = brief u \<and> in_progress u)"
  by (auto simp: ListRunningTasks_def in_progress_def get_task_distinct dest: get_task_mem)

lemma ListRunning_distinct: "schema_ok db \<Longrightarrow> distinct (map t_id (ListRunningTasks db))"
  by (auto simp: ListRunningTasks_def comp_def distinct_map_filter dest: schema_ok_distinct)

text \<open>
  C17. A restart leaves no execution behind: afterwards every task the database called claimed
  or running is either watched again, unchanged and with its role, project and run slots held,
  or no longer in progress; tasks that were not in progress are as they were.
\<close>

theorem recoverInterrupted_complete:
  assumes "schema_ok db" and "\<forall>t\<in>set (tasks db). regular t" and "same_snapshots v"
    and "recoverInterrupted v now poll no_slots db = (e', watched, db')"
  shows "(\<forall>i t. get_task i db = Some t \<longrightarrow>
      (if \<not> in_progress t then get_task i db' = Some t
       else if brief t \<in> set watched then get_task i db' = Some t \<and> t_role_id t \<noteq> None
       else \<exists>r. get_task i db' = Some r \<and> \<not> in_progress r)) \<and>
    (\<forall>k. held (active e') k = num t_role_id k watched \<and> held (activeProj e') k = num t_project_id k watched \<and>
      held (activeRuns e') k = num t_workflow_run_id k watched)"
proof -
  let ?ts = "ListRunningTasks db"
  have rows: "\<forall>t\<in>set ?ts. \<exists>u. get_task (t_id t) db = Some u \<and> t = brief u \<and> in_progress u \<and> regular u"
    using ListRunning_iff [OF assms(1)] assms(2) by (meson get_task_mem)
  obtain d where fold: "fold (recover_one v now poll) ?ts (no_slots, [], db) =
      (foldl restore no_slots (filter (taken v now poll) ?ts), [] @ filter (taken v now poll) ?ts, d)"
    and rec: "recovered (taken v now poll) ?ts db d"
    using recover_fold [OF assms(1,3) ListRunning_distinct [OF assms(1)] rows] by blast
  then have res: "e' = foldl restore no_slots watched" "watched = filter (taken v now poll) ?ts" "db' = d"
    using assms(4) unfolding recoverInterrupted_def fold by auto
  have "if \<not> in_progress t then get_task i db' = Some t
       else if brief t \<in> set watched then get_task i db' = Some t \<and> t_role_id t \<noteq> None
       else \<exists>r. get_task i db' = Some r \<and> \<not> in_progress r" if t: "get_task i db = Some t" for i t
  proof (cases "in_progress t")
    case True
    have i: "t_id t = i" using t by (rule get_task_id)
    then have mem: "brief t \<in> set ?ts" using ListRunning_iff [OF assms(1), of "brief t"] t True by auto
    have role: "taken v now poll (brief t) \<Longrightarrow> t_role_id t \<noteq> None"
      by (auto simp: taken_def split: option.splits)
    have "if taken v now poll (brief t) then get_task i db' = Some t
        else \<exists>r. get_task i db' = Some r \<and> \<not> in_progress r"
      using rec mem t i res(3) unfolding recovered_def by (metis brief_sel(1))
    then show ?thesis using True mem role by (simp add: res(2))
  next
    case False
    have "i \<notin> t_id ` set ?ts" using ListRunning_iff [OF assms(1)] t False by (auto simp: image_iff)
    then show ?thesis using False rec t res(3) by (simp add: recovered_def)
  qed
  moreover have "held (active e') k = num t_role_id k watched \<and> held (activeProj e') k = num t_project_id k watched \<and>
      held (activeRuns e') k = num t_workflow_run_id k watched" for k
    using restore_all [of no_slots watched k] by (simp add: res(1) no_slots_def)
  ultimately show ?thesis by blast
qed

text \<open>Task 1 is still alive in its window, task 2 is not.\<close>

definition demo_two :: db where
  "demo_two = demo_project_db [demo_in 1 1 1 StatusRunning, demo_in 2 1 2 StatusRunning]"

definition demo_poll :: "task \<Rightarrow> observation option" where
  "demo_poll t = Some \<lparr>ob_done = False, ob_alive = (t_id t = 1), ob_exit = 0\<rparr>"

theorem recoverInterrupted_complete_witness:
  "case recoverInterrupted demo_env ''t1'' demo_poll no_slots demo_two of (e', watched, db') \<Rightarrow>
     map t_id watched = [1] \<and> held (active e') 1 = 1 \<and> held (activeProj e') 2 = 0 \<and>
     (\<exists>r. get_task 2 db' = Some r \<and> \<not> in_progress r)"
proof -
  have ok: "schema_ok demo_two" by code_simp
  have reg: "\<forall>t\<in>set (tasks demo_two). regular t"
    by (simp add: demo_two_def demo_project_db_def demo_tasks_def demo_in_def demo_task_def regular_def)
  have snap: "same_snapshots demo_env" by (simp add: same_snapshots_def)
  obtain e' watched db' where r: "recoverInterrupted demo_env ''t1'' demo_poll no_slots demo_two = (e', watched, db')"
    by (cases "recoverInterrupted demo_env ''t1'' demo_poll no_slots demo_two") auto
  have "case recoverInterrupted demo_env ''t1'' demo_poll no_slots demo_two of (e', watched, db') \<Rightarrow>
      map t_id watched = [1] \<and> map t_role_id watched = [Some 1] \<and> map t_project_id watched = [Some 1]" by code_simp
  then obtain w where w: "watched = [w]" "t_id w = 1" "t_role_id w = Some 1" "t_project_id w = Some 1" by (auto simp: r)
  have t2: "get_task 2 demo_two = Some (demo_in 2 1 2 StatusRunning)"
    by (simp add: demo_two_def demo_project_db_def demo_tasks_def demo_in_def demo_task_def get_task_def)
  have "in_progress (demo_in 2 1 2 StatusRunning)" "brief (demo_in 2 1 2 StatusRunning) \<noteq> w"
    using w(2) by (auto simp: in_progress_def demo_in_def demo_task_def)
  with recoverInterrupted_complete [OF ok reg snap r] t2 w show ?thesis by (auto simp: r)
qed

end
