(* ===== verification/Tmux_Output.thy ===== *)
theory Tmux_Output
  imports Paihuo_Prelude
begin

text \<open>
  \<^verbatim>\<open>readOutput\<close> of exec/tmux.go: turning the file a runtime appends to into log entries,
  by lines for batch tasks and by chunks of bytes for interactive ones. A file is its content at
  the time of the call; offsets are the natural numbers earlier calls returned.
\<close>

section \<open>Lines\<close>

definition nl :: char where "nl = CHR 0x0A"
definition cr :: char where "cr = CHR 0x0D"

definition trim_cr :: "string \<Rightarrow> string" where
  "trim_cr s = (if s \<noteq> [] \<and> last s = cr then butlast s else s)"

lemma dropWhile_shorter: "dropWhile P s = c # rest \<Longrightarrow> length rest < length s"
  by (metis length_Cons length_dropWhile_le less_eq_Suc_le)

text \<open>The loop over \<^verbatim>\<open>ReadString('\n')\<close>: the lines and the bytes they took.\<close>

function read_lines :: "bool \<Rightarrow> string \<Rightarrow> string list \<times> nat" where
  "read_lines flush s =
    (let line = takeWhile (\<lambda>c. c \<noteq> nl) s in
     case dropWhile (\<lambda>c. c \<noteq> nl) s of
       [] \<Rightarrow> if flush \<and> s \<noteq> [] then ([trim_cr s], length s) else ([], 0)
     | _ # rest \<Rightarrow> (let (ls, n) = read_lines flush rest in (trim_cr line # ls, length line + 1 + n)))"
  by pat_completeness auto
termination
  by (relation "measure (\<lambda>(flush, s). length s)") (auto dest: dropWhile_shorter)

declare read_lines.simps [simp del]

section \<open>UTF-8\<close>

definition byte_in :: "nat \<Rightarrow> nat \<Rightarrow> char \<Rightarrow> bool" where
  "byte_in lo hi c \<longleftrightarrow> lo \<le> (of_char c :: nat) \<and> (of_char c :: nat) \<le> hi"

abbreviation cont :: "char \<Rightarrow> bool" where "cont \<equiv> byte_in 0x80 0xBF"

text \<open>The number of bytes of the first character, as Go's \<^verbatim>\<open>utf8\<close> package accepts it.\<close>

definition lead_spec :: "char \<Rightarrow> (nat \<times> nat \<times> nat) option" where
  "lead_spec c =
     (if byte_in 0 0x7F c then Some (1, 0, 0)
      else if byte_in 0xC2 0xDF c then Some (2, 0x80, 0xBF)
      else if byte_in 0xE0 0xE0 c then Some (3, 0xA0, 0xBF)
      else if byte_in 0xED 0xED c then Some (3, 0x80, 0x9F)
      else if byte_in 0xE1 0xEF c then Some (3, 0x80, 0xBF)
      else if byte_in 0xF0 0xF0 c then Some (4, 0x90, 0xBF)
      else if byte_in 0xF4 0xF4 c then Some (4, 0x80, 0x8F)
      else if byte_in 0xF1 0xF3 c then Some (4, 0x80, 0xBF)
      else None)"

definition utf8_size :: "string \<Rightarrow> nat option" where
  "utf8_size s =
     (case s of
        [] \<Rightarrow> None
      | c # cs \<Rightarrow>
          (case lead_spec c of
             None \<Rightarrow> None
           | Some (n, lo, hi) \<Rightarrow>
               if length (c # cs) < n then None
               else if n = 1 then Some 1
               else if byte_in lo hi (cs ! 0) \<and> list_all cont (take (n - 2) (drop 1 cs)) then Some n else None))"

lemma lead_spec_range: "lead_spec c = Some (n, lo, hi) \<Longrightarrow> 1 \<le> n \<and> n \<le> 4"
  by (auto simp: lead_spec_def split: if_splits)

lemma utf8_size_range: "utf8_size s = Some n \<Longrightarrow> 1 \<le> n \<and> n \<le> 4 \<and> n \<le> length s"
  by (auto simp: utf8_size_def split: list.splits option.splits if_splits dest: lead_spec_range)

function utf8_valid :: "string \<Rightarrow> bool" where
  "utf8_valid s \<longleftrightarrow> s = [] \<or> (case utf8_size s of None \<Rightarrow> False | Some n \<Rightarrow> utf8_valid (drop n s))"
  by pat_completeness auto
termination
  by (relation "measure length") (auto dest: utf8_size_range)

declare utf8_valid.simps [simp del]

definition rune_error :: string where "rune_error = [CHR 0xEF, CHR 0xBF, CHR 0xBD]"

text \<open>\<^verbatim>\<open>strings.ToValidUTF8\<close>: a run of invalid bytes becomes one replacement.\<close>

function to_valid :: "bool \<Rightarrow> string \<Rightarrow> string" where
  "to_valid bad s =
    (if s = [] then []
     else case utf8_size s of
         None \<Rightarrow> (if bad then [] else rune_error) @ to_valid True (drop 1 s)
       | Some n \<Rightarrow> take n s @ to_valid False (drop n s))"
  by pat_completeness auto
termination
  by (relation "measure (\<lambda>(bad, s). length s)") (auto dest: utf8_size_range)

declare to_valid.simps [simp del]

section \<open>readOutput\<close>

definition interactive_limit :: nat where "interactive_limit = 256 * 1024"

text \<open>At most three bytes are left for the next round.\<close>

definition cut_places :: "string \<Rightarrow> nat list" where
  "cut_places d = filter (\<lambda>k. k \<le> length d \<and> utf8_valid (take (length d - k) d)) [1, 2, 3]"

definition valid_prefix :: "string \<Rightarrow> nat option" where
  "valid_prefix d =
     (case cut_places d of [] \<Rightarrow> None | k # _ \<Rightarrow> Some (length d - k))"

definition read_chunk :: "bool \<Rightarrow> string \<Rightarrow> string list \<times> nat" where
  "read_chunk flush rest =
     (let d = take interactive_limit rest in
      if d = [] then ([], 0)
      else let (consume, content) =
          (if utf8_valid d then (length d, d)
           else case valid_prefix d of
               Some p \<Rightarrow> if flush then (length d, to_valid False d) else (p, take p d)
             | None \<Rightarrow> (length d, to_valid False d))
        in if consume = 0 then ([], 0) else ([content], consume))"

text \<open>\<open>None\<close>: the file does not exist.\<close>

definition readOutput :: "string option \<Rightarrow> nat \<Rightarrow> bool \<Rightarrow> bool \<Rightarrow> string list \<times> nat" where
  "readOutput file offset flushTail interactive =
     (case file of
        None \<Rightarrow> ([], offset)
      | Some s \<Rightarrow>
          let off = (if length s < offset then 0 else offset);
              (ls, n) = (if interactive then read_chunk flushTail (drop off s) else read_lines flushTail (drop off s))
          in (ls, off + n))"

text \<open>One poll after the other on a growing file, none of them the last.\<close>

fun follow :: "bool \<Rightarrow> string list \<Rightarrow> nat \<Rightarrow> string list \<times> nat" where
  "follow interactive [] off = ([], off)"
| "follow interactive (s # ss) off =
    (let (ls, off1) = readOutput (Some s) off False interactive; (rest, off2) = follow interactive ss off1
     in (ls @ rest, off2))"

section \<open>Reading in pieces\<close>

text \<open>
  The contract of a reader that is called again and again: on any beginning of the text still to
  come it takes a piece that leaves an acceptable rest, and what it returns together with the
  meaning of the rest is the meaning of the whole.
\<close>

text \<open>The calls see the first \<open>m\<close> bytes of the text, for the \<open>m\<close> of the list.\<close>

fun read_pieces :: "(string \<Rightarrow> string list \<times> nat) \<Rightarrow> string \<Rightarrow> nat list \<Rightarrow> nat \<Rightarrow> string list \<times> nat" where
  "read_pieces piece w [] off = ([], off)"
| "read_pieces piece w (m # ms) off =
    (let (ls, n) = piece (drop off (take m w)); (rest, off2) = read_pieces piece w ms (off + n) in (ls @ rest, off2))"

locale piecewise =
  fixes piece :: "string \<Rightarrow> string list \<times> nat" and ok :: "string \<Rightarrow> bool"
    and out :: "string list \<Rightarrow> 'b list" and meaning :: "string \<Rightarrow> 'b list"
  assumes out_Nil: "out [] = []" and out_append: "out (a @ b) = out a @ out b"
    and piece: "ok w \<Longrightarrow> piece (take m w) = (ls, n) \<Longrightarrow>
      n \<le> length (take m w) \<and> ok (drop n w) \<and> meaning w = out ls @ meaning (drop n w)"
begin

lemma run_complete:
  assumes "off \<le> length w" and "ok (drop off w)" and "read_pieces piece w ms off = (ls, off')"
  shows "off' \<le> length w \<and> off \<le> off' \<and> ok (drop off' w) \<and> meaning (drop off w) = out ls @ meaning (drop off' w)"
  using assms
proof (induction ms arbitrary: off ls)
  case Nil
  then show ?case by (simp add: out_Nil)
next
  case (Cons m ms)
  obtain l n where l: "piece (drop off (take m w)) = (l, n)" by (cases "piece (drop off (take m w))")
  obtain r o2 where r: "read_pieces piece w ms (off + n) = (r, o2)"
    by (cases "read_pieces piece w ms (off + n)")
  have res: "ls = l @ r" "off' = o2" using Cons.prems(3) l r by auto
  have "piece (take (m - off) (drop off w)) = (l, n)" using l by (simp add: drop_take)
  from piece [OF Cons.prems(2) this]
  have n: "n \<le> length (drop off w)" "ok (drop (off + n) w)" "meaning (drop off w) = out l @ meaning (drop (off + n) w)"
    by (auto simp: add.commute)
  then have "off + n \<le> length w" using Cons.prems(1) by simp
  from Cons.IH [OF this n(2) r [folded res(2)]] n(3) res show ?case by (auto simp: out_append)
qed

end

section \<open>Batch output\<close>

lemma read_lines_append:
  "read_lines False d = (ls, n) \<Longrightarrow>
     n \<le> length d \<and> fst (read_lines True (d @ x)) = ls @ fst (read_lines True (drop n (d @ x)))"
proof (induction d arbitrary: ls n rule: length_induct)
  case (1 d)
  show ?case
  proof (cases "dropWhile (\<lambda>c. c \<noteq> nl) d")
    case Nil
    then have "read_lines False d = ([], 0)" by (subst read_lines.simps) (simp only: Let_def list.case simp_thms if_False)
    with 1(2) show ?thesis by simp
  next
    case (Cons c rest)
    obtain l k where l: "read_lines False rest = (l, k)" by (cases "read_lines False rest")
    have "read_lines False d = (trim_cr (takeWhile (\<lambda>c. c \<noteq> nl) d) # l, length (takeWhile (\<lambda>c. c \<noteq> nl) d) + 1 + k)"
      using Cons l by (subst read_lines.simps) (simp add: Let_def)
    then have res: "ls = trim_cr (takeWhile (\<lambda>c. c \<noteq> nl) d) # l" "n = length (takeWhile (\<lambda>c. c \<noteq> nl) d) + 1 + k"
      using 1(2) by simp_all
    have d: "d = takeWhile (\<lambda>c. c \<noteq> nl) d @ c # rest"
      using takeWhile_dropWhile_id [of "\<lambda>c. c \<noteq> nl" d] unfolding Cons by (rule sym)
    have "set d \<inter> {y. \<not> y \<noteq> nl} \<noteq> {}"
    proof
      assume "set d \<inter> {y. \<not> y \<noteq> nl} = {}"
      then have "dropWhile (\<lambda>c. c \<noteq> nl) d = []" unfolding dropWhile_eq_Nil_conv by blast
      then show False using Cons by simp
    qed
    then obtain y where y: "y \<in> set d" "\<not> y \<noteq> nl" by blast
    have app: "dropWhile (\<lambda>c. c \<noteq> nl) (d @ x) = c # (rest @ x)" "takeWhile (\<lambda>c. c \<noteq> nl) (d @ x) = takeWhile (\<lambda>c. c \<noteq> nl) d"
      using dropWhile_append1 [of y d "\<lambda>c. c \<noteq> nl" x, OF y] takeWhile_append1 [of y d "\<lambda>c. c \<noteq> nl" x, OF y]
      unfolding Cons append_Cons .
    have "length rest < length d" using Cons by (rule dropWhile_shorter)
    with 1(1) l have IH: "k \<le> length rest" "fst (read_lines True (rest @ x)) = l @ fst (read_lines True (drop k (rest @ x)))"
      by auto
    have "drop n (d @ x) = drop k (rest @ x)"
      by (subst d) (simp add: res(2))
    moreover have "n \<le> length d" using IH(1) by (subst d) (simp add: res(2))
    moreover have "fst (read_lines True (d @ x)) = trim_cr (takeWhile (\<lambda>c. c \<noteq> nl) d) # fst (read_lines True (rest @ x))"
      using app by (subst read_lines.simps) (simp add: Let_def split: prod.split)
    ultimately show ?thesis using IH(2) res(1) by simp
  qed
qed

interpretation batch: piecewise "read_lines False" "\<lambda>_. True" "\<lambda>ls. ls" "\<lambda>w. fst (read_lines True w)"
proof unfold_locales
  fix w m ls n
  assume "read_lines False (take m w) = (ls, n)"
  from read_lines_append [OF this, of "drop m w"]
  show "n \<le> length (take m w) \<and> True \<and> fst (read_lines True w) = ls @ fst (read_lines True (drop n w))" by simp
qed simp_all

section \<open>Interactive output\<close>

lemma utf8_size_take: "utf8_size (take m s) = Some k \<Longrightarrow> utf8_size s = Some k"
proof -
  assume a: "utf8_size (take m s) = Some k"
  have k: "k \<le> length (take m s)" using utf8_size_range [OF a] by simp
  show ?thesis
  proof (cases s)
    case (Cons c cs)
    then obtain m' where m: "m = Suc m'" using a by (cases m) (auto simp: utf8_size_def)
    with a Cons obtain n lo hi where lead: "lead_spec c = Some (n, lo, hi)"
      by (auto simp: utf8_size_def split: option.splits)
    have n: "n = k" "k \<le> Suc m'" using a Cons m lead k by (auto simp: utf8_size_def split: if_splits)
    have "take (k - 2) (drop 1 (take m' cs)) = take (k - 2) (drop 1 cs)" using n(2) by (simp add: drop_take min_def)
    moreover have "2 \<le> k \<Longrightarrow> take m' cs ! 0 = cs ! 0" using n(2) by simp
    ultimately show ?thesis
      using a Cons m lead n lead_spec_range [OF lead] by (auto simp: utf8_size_def split: if_splits)
  qed (use a in \<open>simp add: utf8_size_def\<close>)
qed

lemma utf8_size_ext: "utf8_size s = Some k \<Longrightarrow> k \<le> m \<Longrightarrow> utf8_size (take m s) = Some k"
proof -
  assume a: "utf8_size s = Some k" and m: "k \<le> m"
  note r = utf8_size_range [OF a]
  then obtain c cs where s: "s = c # cs" by (cases s) auto
  obtain m' where m': "m = Suc m'" using r m by (cases m) auto
  obtain n lo hi where lead: "lead_spec c = Some (n, lo, hi)"
    using a s by (auto simp: utf8_size_def split: option.splits)
  have n: "n = k" using a s lead by (auto simp: utf8_size_def split: if_splits)
  have "take (k - 2) (drop 1 (take m' cs)) = take (k - 2) (drop 1 cs)" using m m' by (simp add: drop_take min_def)
  moreover have "2 \<le> k \<Longrightarrow> take m' cs ! 0 = cs ! 0" using m m' by simp
  ultimately show ?thesis
    using a s m' lead n r m lead_spec_range [OF lead] by (auto simp: utf8_size_def split: if_splits)
qed

lemma utf8_valid_Nil [simp]: "utf8_valid []"
  by (simp add: utf8_valid.simps)

lemma utf8_valid_size:
  "s \<noteq> [] \<Longrightarrow> utf8_valid s \<Longrightarrow> \<exists>k. utf8_size s = Some k \<and> utf8_valid (drop k s)"
  by (subst (asm) utf8_valid.simps) (auto split: option.splits)

lemma utf8_valid_step: "utf8_size s = Some k \<Longrightarrow> utf8_valid s = utf8_valid (drop k s)"
  by (subst utf8_valid.simps) (use utf8_size_range [of s k] in auto)

lemma utf8_valid_induct [consumes 1, case_names stop char]:
  assumes "utf8_valid s" and "P []"
    and step: "\<And>s k. utf8_size s = Some k \<Longrightarrow> utf8_valid (drop k s) \<Longrightarrow> P (drop k s) \<Longrightarrow> P s"
  shows "P s"
  using assms(1)
proof (induction s rule: length_induct)
  case (1 s)
  show ?case
  proof (cases "s = []")
    case False
    with 1(2) obtain k where k: "utf8_size s = Some k" "utf8_valid (drop k s)" using utf8_valid_size by blast
    moreover have "length (drop k s) < length s" using utf8_size_range [OF k(1)] unfolding length_drop by linarith
    ultimately show ?thesis using 1(1) step by blast
  qed (use assms(2) in simp)
qed

lemma utf8_valid_drop: "utf8_valid s \<Longrightarrow> utf8_valid (take m s) \<Longrightarrow> utf8_valid (drop m s)"
proof (induction s arbitrary: m rule: utf8_valid_induct)
  case (char s k)
  show ?case
  proof (cases "take m s = []")
    case False
    with char(4) obtain k' where k': "utf8_size (take m s) = Some k'" "utf8_valid (drop k' (take m s))"
      using utf8_valid_size by blast
    have eq: "k' = k" using utf8_size_take [OF k'(1)] char(1) by simp
    have r: "k \<le> m" using utf8_size_range [OF k'(1)] eq by simp
    have "utf8_valid (take (m - k) (drop k s))" using k'(2) eq by (simp add: drop_take)
    from char(3) [OF this] r show ?thesis by simp
  next
    case True
    then have "drop m s = s" by auto
    then show ?thesis using char(1,2) utf8_valid_step by simp
  qed
qed simp

text \<open>At most three bytes behind any position of a valid text a character begins.\<close>

lemma utf8_valid_near: "utf8_valid s \<Longrightarrow> m \<le> length s \<Longrightarrow> \<exists>j\<le>3. j \<le> m \<and> utf8_valid (take (m - j) s)"
proof (induction s arbitrary: m rule: utf8_valid_induct)
  case (char s k)
  note r = utf8_size_range [OF char(1)]
  show ?case
  proof (cases "m < k")
    case True
    with r show ?thesis by (intro exI [of _ m]) simp
  next
    case False
    have "m - k \<le> length (drop k s)" using char(4) by simp
    from char(3) [OF this] obtain j where j: "j \<le> 3" "j \<le> m - k" "utf8_valid (take (m - k - j) (drop k s))" by blast
    have "utf8_size (take (m - j) s) = Some k" using utf8_size_ext [OF char(1)] j(2) False by simp
    then have "utf8_valid (take (m - j) s) = utf8_valid (drop k (take (m - j) s))" by (rule utf8_valid_step)
    also have "m - j - k = m - k - j" by simp
    then have "drop k (take (m - j) s) = take (m - k - j) (drop k s)" by (simp add: drop_take)
    finally show ?thesis using j by (intro exI [of _ j]) auto
  qed
qed simp

lemma valid_prefix_Some: "valid_prefix d = Some p \<Longrightarrow> p \<le> length d \<and> utf8_valid (take p d)"
proof -
  assume "valid_prefix d = Some p"
  then obtain k ks where k: "cut_places d = k # ks" "p = length d - k"
    by (auto simp: valid_prefix_def split: list.splits)
  have "k \<in> set (cut_places d)" by (simp add: k)
  then have "utf8_valid (take (length d - k) d)" unfolding cut_places_def set_filter by blast
  then show ?thesis by (simp add: k)
qed

lemma valid_prefix_exists:
  assumes "utf8_valid w" and "d = take m w" and "\<not> utf8_valid d"
  shows "\<exists>p. valid_prefix d = Some p"
proof -
  have "length d \<le> length w" using assms(2) by simp
  from utf8_valid_near [OF assms(1) this] obtain j where j: "j \<le> 3" "j \<le> length d" "utf8_valid (take (length d - j) w)" by blast
  have "take (length d - j) w = take (length d - j) d" using assms(2) by simp
  with j(3) assms(3) have "j \<noteq> 0" by (metis diff_zero take_all order_refl)
  then have "j \<in> {1, 2, 3}" using j(1) by auto
  moreover have "utf8_valid (take (length d - j) d)" using j(3) \<open>take (length d - j) w = take (length d - j) d\<close> by simp
  ultimately have "j \<in> set (cut_places d)" unfolding cut_places_def set_filter using j(2) by simp
  then have "cut_places d \<noteq> []" by auto
  then show ?thesis by (cases "cut_places d") (simp_all add: valid_prefix_def)
qed

interpretation chunks: piecewise "read_chunk False" utf8_valid concat "\<lambda>w. w"
proof unfold_locales
  fix w m ls n
  assume ok: "utf8_valid w" and run: "read_chunk False (take m w) = (ls, n)"
  let ?d = "take interactive_limit (take m w)"
  let ?m = "min interactive_limit m"
  have d: "?d = take ?m w" by simp
  show "n \<le> length (take m w) \<and> utf8_valid (drop n w) \<and> w = concat ls @ drop n w"
  proof (cases "utf8_valid ?d")
    case True
    moreover have "take (length ?d) w = ?d" by (simp add: min_def)
    ultimately have "utf8_valid (drop (length ?d) w)" using utf8_valid_drop [OF ok, of "length ?d"] by simp
    with run ok True show ?thesis by (auto simp: read_chunk_def Let_def min_def split: if_splits)
  next
    case False
    then obtain p where p: "valid_prefix ?d = Some p" using valid_prefix_exists [OF ok d] by blast
    note vp = valid_prefix_Some [OF p]
    have tp: "take p ?d = take p w" using vp by simp
    then have "utf8_valid (drop p w)" using utf8_valid_drop [OF ok, of p] vp by simp
    with run ok False p vp tp show ?thesis by (auto simp: read_chunk_def Let_def split: if_splits)
  qed
qed simp_all

section \<open>Nothing is lost, nothing is read twice\<close>

text \<open>Polls that saw ever longer beginnings of a text are the pieces of the contract.\<close>

lemma follow_pieces:
  assumes "sorted ms" and "\<forall>m\<in>set ms. off \<le> length (take m w)"
    and reader: "\<And>f s off. off \<le> length s \<Longrightarrow> readOutput (Some s) off f interactive =
      (case piece f (drop off s) of (ls, n) \<Rightarrow> (ls, off + n))"
    and bound: "\<And>d. snd (piece False d) \<le> length d"
  shows "follow interactive (map (\<lambda>m. take m w) ms) off = read_pieces (piece False) w ms off"
  using assms(1,2)
proof (induction ms arbitrary: off)
  case (Cons m ms)
  let ?p = "piece False (drop off (take m w))"
  have off: "off \<le> length (take m w)" using Cons.prems(2) by simp
  then have "off + snd ?p \<le> length (take m w)" using bound [of "drop off (take m w)"] unfolding length_drop by linarith
  then have "\<forall>x\<in>set ms. off + snd ?p \<le> length (take x w)" using Cons.prems(1) by auto
  with Cons have "follow interactive (map (\<lambda>m. take m w) ms) (off + snd ?p) = read_pieces (piece False) w ms (off + snd ?p)"
    by simp
  moreover obtain l n where "?p = (l, n)" by (rule prod.exhaust)
  ultimately show ?case using reader [OF off, of False] by simp
qed simp

lemma readOutput_batch:
  "off \<le> length s \<Longrightarrow> readOutput (Some s) off f False = (case read_lines f (drop off s) of (ls, n) \<Rightarrow> (ls, off + n))"
  by (simp add: readOutput_def Let_def)

lemma readOutput_interactive:
  "off \<le> length s \<Longrightarrow> readOutput (Some s) off f True = (case read_chunk f (drop off s) of (ls, n) \<Rightarrow> (ls, off + n))"
  by (simp add: readOutput_def Let_def)

lemma read_lines_bound: "snd (read_lines False d) \<le> length d"
  using read_lines_append [of d "fst (read_lines False d)" "snd (read_lines False d)" "[]"] by simp

lemma read_chunk_bound: "snd (read_chunk f d) \<le> length d"
  by (auto simp: read_chunk_def Let_def split: option.split dest!: valid_prefix_Some)

lemma read_chunk_flush:
  "utf8_valid d \<Longrightarrow> length d \<le> interactive_limit \<Longrightarrow> read_chunk True d = (if d = [] then ([], 0) else ([d], length d))"
  by (simp add: read_chunk_def)



text \<open>
  The last poll of an interactive execution is one call: what a longer backlog has beyond one
  block is never read.
\<close>

lemma interactive_backlog_lost:
  "off + interactive_limit < length s \<Longrightarrow> snd (readOutput (Some s) off True True) < length s"
  using read_chunk_bound [of True "take interactive_limit (drop off s)"]
  by (auto simp: readOutput_interactive split: prod.split)
    (simp add: read_chunk_def Let_def split: if_splits option.splits)

end
