(* ===== verification/Exec_Wait.thy ===== *)
theory Exec_Wait
  imports Exec_Run Tmux_Output
begin

text \<open>
  Observing a running execution: \<^verbatim>\<open>poll\<close> of exec/tmux.go and the loop \<^verbatim>\<open>waitTmux\<close>
  of exec/executor.go that ends with the result of the execution. What tmux, systemd and the file
  system answer during a poll is a \<open>probe\<close>; a turn of the loop has its own clock reading.
\<close>

section \<open>Polling\<close>

datatype agentServiceState =
  agentServiceUnknown | agentServiceActivating | agentServiceActive | agentServiceDeactivating | agentServiceInactive

definition isExecutingOrFinalizing :: "agentServiceState \<Rightarrow> bool" where
  "isExecutingOrFinalizing s \<longleftrightarrow> s \<in> {agentServiceActivating, agentServiceActive, agentServiceDeactivating}"

text \<open>\<open>unit\<close>: the recorded unit, \<open>answer\<close>: what systemctl prints; \<open>None\<close> when there is none.\<close>

definition agentServiceState_of :: "string \<Rightarrow> string option \<Rightarrow> string option \<Rightarrow> agentServiceState" where
  "agentServiceState_of unit_name unit answer =
     (case unit of
        None \<Rightarrow> agentServiceUnknown
      | Some u \<Rightarrow>
          if trim_space u = [] \<or> trim_space u \<noteq> unit_name then agentServiceUnknown
          else (case answer of
              None \<Rightarrow> agentServiceUnknown
            | Some a0 \<Rightarrow> let a = trim_space a0 in
                if a = ''activating'' then agentServiceActivating
                else if a = ''active'' then agentServiceActive
                else if a = ''deactivating'' then agentServiceDeactivating
                else if a = ''inactive'' \<or> a = ''failed'' then agentServiceInactive
                else agentServiceUnknown))"

datatype code_file = NoFile | BadFile | CodeFile int

text \<open>The agent's own exit code goes before the pane's; \<open>None\<close> is a file that does not parse.\<close>

definition exitCode :: "code_file \<Rightarrow> code_file \<Rightarrow> int option option" where
  "exitCode agent_file pane_file =
     (case agent_file of
        BadFile \<Rightarrow> None
      | CodeFile c \<Rightarrow> Some (Some c)
      | NoFile \<Rightarrow> (case pane_file of BadFile \<Rightarrow> None | CodeFile c \<Rightarrow> Some (Some c) | NoFile \<Rightarrow> Some None))"

record probe =
  codes :: "code_file \<times> code_file"
  window :: bool
  pane_dead :: "bool option"
  window_again :: bool
  codes_again :: "code_file \<times> code_file"
  agent_size :: "int option option"
  service :: agentServiceState
  out_file :: "string option"

record tmuxObservation =
  o_lines :: "string list"
  o_offset :: nat
  o_alive :: bool
  o_done :: bool
  o_exit :: int
  o_detached :: bool
  o_state :: agentServiceState
  o_size :: int
  o_awaiting :: bool

text \<open>Whether the window exists and whether the pane has ended; \<open>None\<close> is an error.\<close>

definition pane_state :: "probe \<Rightarrow> (bool \<times> bool) option" where
  "pane_state p =
     (if \<not> window p then Some (False, True)
      else case pane_dead p of
          Some dead \<Rightarrow> Some (True, dead)
        | None \<Rightarrow> if window_again p then None else Some (False, True))"

text \<open>\<^verbatim>\<open>poll\<close> once the exit code is known.\<close>

definition observe :: "probe \<Rightarrow> nat \<Rightarrow> bool \<Rightarrow> bool \<times> bool \<Rightarrow> int option \<Rightarrow> int option \<Rightarrow> tmuxObservation" where
  "observe p offset interactive pane code sz =
     (let fin = (code \<noteq> None); detached = (sz \<noteq> None);
          paneEnded = (snd pane \<or> fin \<and> detached);
          state = (if \<not> fin \<and> detached \<and> snd pane then service p else agentServiceUnknown);
          lost = (\<not> fin \<and> detached \<and> snd pane);
          (ls, off) = readOutput (out_file p) offset fin interactive in
      \<lparr>o_lines = ls, o_offset = off,
       o_alive = (lost \<or> fst pane \<and> \<not> (fin \<and> detached) \<and> \<not> paneEnded),
       o_done = fin, o_exit = (case code of None \<Rightarrow> 0 | Some c \<Rightarrow> c),
       o_detached = detached, o_state = state, o_size = (case sz of None \<Rightarrow> 0 | Some n \<Rightarrow> n),
       o_awaiting = (lost \<and> state \<in> {agentServiceDeactivating, agentServiceInactive})\<rparr>)"

definition poll :: "probe \<Rightarrow> nat \<Rightarrow> bool \<Rightarrow> tmuxObservation option" where
  "poll p offset interactive =
     (case exitCode (fst (codes p)) (snd (codes p)) of
        None \<Rightarrow> None
      | Some code1 \<Rightarrow>
          (case pane_state p of
             None \<Rightarrow> None
           | Some pane \<Rightarrow>
               (case (if snd pane \<and> code1 = None then exitCode (fst (codes_again p)) (snd (codes_again p)) else Some code1) of
                  None \<Rightarrow> None
                | Some code \<Rightarrow>
                    (case agent_size p of
                       None \<Rightarrow> None
                     | Some sz \<Rightarrow> Some (observe p offset interactive pane code sz)))))"

section \<open>Waiting\<close>

record waitTmuxTimingConfig =
  detachedResultSettleTimeout :: int
  detachedUnknownQuietTimeout :: int

text \<open>In milliseconds.\<close>

definition defaultWaitTmuxTiming :: waitTmuxTimingConfig where
  "defaultWaitTmuxTiming =
     \<lparr>detachedResultSettleTimeout = 15 * 1000, detachedUnknownQuietTimeout = 15 * 60 * 1000\<rparr>"

text \<open>
  One turn: the two contexts, the poll and whether its output could be stored, the clock, and
  the second poll after the grace period, which only a turn with a dead window makes.
\<close>

record turn =
  task_canceled :: bool
  service_stopping :: bool
  obs :: "tmuxObservation option"
  synced :: bool
  clock :: int
  obs_again :: "tmuxObservation option"
  synced_again :: bool

record wait_state =
  awaitingResultSince :: "int option"
  unknownQuietSince :: "int option"
  lastAgentOutputSize :: int

definition wait_start :: wait_state where
  "wait_start = \<lparr>awaitingResultSince = None, unknownQuietSince = None, lastAgentOutputSize = -1\<rparr>"

type_synonym wait_result = "wait_state + (int \<times> run_err)"

definition lost_window :: wait_result where
  "lost_window = Inr (-1, RunErr FWindowLost)"

text \<open>A timer that starts at its first turn and again when there was output.\<close>

definition since :: "int option \<Rightarrow> bool \<Rightarrow> int \<Rightarrow> int" where
  "since started progressed now = (case started of None \<Rightarrow> now | Some s \<Rightarrow> if progressed then now else s)"

definition judge :: "waitTmuxTimingConfig \<Rightarrow> turn \<Rightarrow> tmuxObservation \<Rightarrow> wait_state \<Rightarrow> wait_result" where
  "judge cfg t ob st =
     (let progressed = (o_detached ob \<and> o_size ob > lastAgentOutputSize st);
          st1 = st\<lparr>lastAgentOutputSize := (if progressed then o_size ob else lastAgentOutputSize st)\<rparr> in
      if o_awaiting ob then
        (let s = since (awaitingResultSince st) progressed (clock t) in
         if clock t - s < detachedResultSettleTimeout cfg
         then Inl (st1\<lparr>awaitingResultSince := Some s, unknownQuietSince := None\<rparr>)
         else lost_window)
      else if o_detached ob \<and> o_state ob = agentServiceUnknown \<and> o_alive ob then
        (let s = since (unknownQuietSince st) progressed (clock t) in
         if clock t - s < detachedUnknownQuietTimeout cfg
         then Inl (st1\<lparr>awaitingResultSince := None, unknownQuietSince := Some s\<rparr>)
         else lost_window)
      else
        (let st2 = st1\<lparr>awaitingResultSince := None, unknownQuietSince := None\<rparr> in
         if o_alive ob then Inl st2
         else case obs_again t of
             None \<Rightarrow> Inr (-1, RunErr FPoll)
           | Some ob2 \<Rightarrow>
               if \<not> synced_again t then Inr (-1, RunErr FPoll)
               else if o_done ob2 then Inr (o_exit ob2, exitError (o_exit ob2))
               else if o_alive ob2 then Inl st2
               else lost_window))"

definition wait_turn :: "waitTmuxTimingConfig \<Rightarrow> turn \<Rightarrow> wait_state \<Rightarrow> wait_result" where
  "wait_turn cfg t st =
     (if task_canceled t then Inr (-1, Canceled)
      else if service_stopping t then Inr (-1, Stopping)
      else case obs t of
          None \<Rightarrow> Inr (-1, RunErr FPoll)
        | Some ob \<Rightarrow>
            if \<not> synced t then Inr (-1, RunErr FPoll)
            else if o_done ob then Inr (o_exit ob, exitError (o_exit ob))
            else judge cfg t ob st)"

text \<open>The loop over the turns it takes; \<open>None\<close>: it is still waiting after them.\<close>

fun waitTmux :: "waitTmuxTimingConfig \<Rightarrow> turn list \<Rightarrow> wait_state \<Rightarrow> (int \<times> run_err) option" where
  "waitTmux cfg [] st = None"
| "waitTmux cfg (t # ts) st =
    (case wait_turn cfg t st of Inl st' \<Rightarrow> waitTmux cfg ts st' | Inr r \<Rightarrow> Some r)"

section \<open>A detached agent is given up only after silence\<close>

text \<open>What the polls promise: a detached agent without an exit code counts as alive.\<close>

definition polled :: "tmuxObservation \<Rightarrow> bool" where
  "polled ob \<longleftrightarrow> (\<exists>p off i. poll p off i = Some ob)"

lemma pane_state_lost: "pane_state p = Some pane \<Longrightarrow> fst pane \<or> snd pane"
  by (auto simp: pane_state_def split: if_splits option.splits)

lemma poll_observe:
  "poll p offset interactive = Some ob \<Longrightarrow>
     \<exists>pane code sz. pane_state p = Some pane \<and> ob = observe p offset interactive pane code sz"
  unfolding poll_def by (cases "pane_state p") (force split: option.splits)+

lemma observe_sel:
  "o_detached (observe p offset i pane code sz) = (sz \<noteq> None)"
  "o_done (observe p offset i pane code sz) = (code \<noteq> None)"
  "o_alive (observe p offset i pane None (Some n)) = (fst pane \<or> snd pane)"
  by (auto simp: observe_def Let_def split: prod.split)

lemma polled_alive:
  assumes "polled ob" "o_detached ob" "\<not> o_done ob"
  shows "o_alive ob"
proof -
  from assms(1) obtain p off i where "poll p off i = Some ob" by (auto simp: polled_def)
  then obtain pane code sz where ob: "pane_state p = Some pane" "ob = observe p off i pane code sz"
    using poll_observe by blast
  with assms(2,3) obtain n where "code = None" "sz = Some n" by (auto simp: observe_sel)
  with ob pane_state_lost [OF ob(1)] show ?thesis by (simp add: observe_sel)
qed

text \<open>The largest size of the agent's output in the turns.\<close>

definition size_of :: "turn \<Rightarrow> int" where
  "size_of t = (case obs t of None \<Rightarrow> -1 | Some ob \<Rightarrow> if o_detached ob then o_size ob else -1)"

definition seen :: "turn list \<Rightarrow> int" where
  "seen ts = fold (\<lambda>t m. max m (size_of t)) ts (-1)"

definition is_awaiting :: "turn \<Rightarrow> bool" where
  "is_awaiting t \<longleftrightarrow> (\<exists>ob. obs t = Some ob \<and> o_awaiting ob)"

definition is_unknown :: "turn \<Rightarrow> bool" where
  "is_unknown t \<longleftrightarrow> (\<exists>ob. obs t = Some ob \<and> \<not> o_awaiting ob \<and> o_detached ob \<and>
     o_state ob = agentServiceUnknown \<and> o_alive ob)"

text \<open>The turns end with a stretch of one kind, begun at \<open>s\<close>, without new output since.\<close>

definition quiet_since :: "(turn \<Rightarrow> bool) \<Rightarrow> turn list \<Rightarrow> int \<Rightarrow> bool" where
  "quiet_since kind ts s \<longleftrightarrow> (\<exists>pre t0 later. ts = pre @ t0 # later \<and> clock t0 = s \<and>
     (\<forall>t\<in>set (t0 # later). kind t) \<and> (\<forall>t\<in>set later. size_of t \<le> seen (pre @ [t0])))"

lemma seen_snoc [simp]: "seen (ts @ [t]) = max (seen ts) (size_of t)"
  by (simp add: seen_def)

lemma seen_append: "seen ts \<le> seen (ts @ us)"
  by (induction us rule: rev_induct) (simp_all flip: append_assoc)

lemma quiet_new: "kind t \<Longrightarrow> quiet_since kind (ts @ [t]) (clock t)"
  unfolding quiet_since_def by (intro exI [of _ ts] exI [of _ t] exI [of _ "[]"]) simp

lemma quiet_more:
  assumes "quiet_since kind ts s" and "kind t" and "size_of t \<le> seen ts"
  shows "quiet_since kind (ts @ [t]) s"
proof -
  from assms(1) obtain pre t0 later where q: "ts = pre @ t0 # later" "clock t0 = s"
    "\<forall>u\<in>set (t0 # later). kind u" "\<forall>u\<in>set later. size_of u \<le> seen (pre @ [t0])"
    by (auto simp: quiet_since_def)
  have "seen (pre @ t0 # us) \<le> seen (pre @ [t0])" if "\<forall>u\<in>set us. size_of u \<le> seen (pre @ [t0])" for us
    using that
  proof (induction us rule: rev_induct)
    case (snoc u us)
    then show ?case using seen_snoc [of "pre @ t0 # us" u] by simp
  qed simp
  then have "size_of t \<le> seen (pre @ [t0])" using q assms(3) by fastforce
  then show ?thesis
    unfolding quiet_since_def using q assms(2)
    by (intro exI [of _ pre] exI [of _ t0] exI [of _ "later @ [t]"]) auto
qed

definition wait_inv :: "turn list \<Rightarrow> wait_state \<Rightarrow> bool" where
  "wait_inv ts st \<longleftrightarrow> lastAgentOutputSize st = seen ts \<and>
     (\<forall>s. awaitingResultSince st = Some s \<longrightarrow> quiet_since is_awaiting ts s) \<and>
     (\<forall>s. unknownQuietSince st = Some s \<longrightarrow> quiet_since is_unknown ts s)"

lemma wait_inv_start: "wait_inv [] wait_start"
  by (simp add: wait_inv_def wait_start_def seen_def)

text \<open>Why the window was declared lost in turn \<open>t\<close>, after the turns \<open>ts\<close>.\<close>

definition lost_because :: "waitTmuxTimingConfig \<Rightarrow> turn list \<Rightarrow> turn \<Rightarrow> bool" where
  "lost_because cfg ts t \<longleftrightarrow>
     (\<exists>s. quiet_since is_awaiting (ts @ [t]) s \<and> detachedResultSettleTimeout cfg \<le> clock t - s) \<or>
     (\<exists>s. quiet_since is_unknown (ts @ [t]) s \<and> detachedUnknownQuietTimeout cfg \<le> clock t - s) \<or>
     (\<exists>ob ob2. obs t = Some ob \<and> \<not> o_done ob \<and> \<not> o_alive ob \<and> \<not> is_awaiting t \<and>
        obs_again t = Some ob2 \<and> \<not> o_done ob2 \<and> \<not> o_alive ob2)"

lemma since_quiet:
  assumes "\<forall>s. started = Some s \<longrightarrow> quiet_since kind ts s" and "kind t"
    and "progressed \<longleftrightarrow> size_of t > seen ts"
  shows "quiet_since kind (ts @ [t]) (since started progressed (clock t))"
  using assms quiet_new [of kind t ts] quiet_more [of kind ts _ t]
  by (auto simp: since_def split: option.split)

lemma seen_ge: "-1 \<le> seen ts"
  by (induction ts rule: rev_induct) (simp_all, simp add: seen_def)

lemma exitError_lost [simp]: "exitError c \<noteq> RunErr FWindowLost"
  by (simp add: exitError_def)

lemma judge_inv:
  assumes inv: "wait_inv ts st" and ob: "obs t = Some ob" "\<not> o_done ob"
  shows "case judge cfg t ob st of
      Inl st' \<Rightarrow> wait_inv (ts @ [t]) st'
    | Inr (c, e) \<Rightarrow> e = RunErr FWindowLost \<longrightarrow> lost_because cfg ts t"
proof -
  let ?prog = "o_detached ob \<and> o_size ob > lastAgentOutputSize st"
  have last: "lastAgentOutputSize st = seen ts" and inv_a: "\<forall>s. awaitingResultSince st = Some s \<longrightarrow> quiet_since is_awaiting ts s"
    and inv_u: "\<forall>s. unknownQuietSince st = Some s \<longrightarrow> quiet_since is_unknown ts s" using inv by (simp_all add: wait_inv_def)
  have prog: "?prog \<longleftrightarrow> size_of t > seen ts" using seen_ge [of ts] ob(1) last by (auto simp: size_of_def)
  have size: "(if ?prog then o_size ob else lastAgentOutputSize st) = seen (ts @ [t])"
    using prog last ob(1) by (auto simp: size_of_def)
  consider (awaiting) "o_awaiting ob" | (unknown) "\<not> o_awaiting ob" "o_detached ob \<and> o_state ob = agentServiceUnknown \<and> o_alive ob"
    | (other) "\<not> o_awaiting ob" "\<not> (o_detached ob \<and> o_state ob = agentServiceUnknown \<and> o_alive ob)" by blast
  then show ?thesis
  proof cases
    case awaiting
    let ?s = "since (awaitingResultSince st) ?prog (clock t)"
    have "is_awaiting t" using awaiting ob(1) by (simp add: is_awaiting_def)
    then have q: "quiet_since is_awaiting (ts @ [t]) ?s" using since_quiet [OF inv_a _ prog] by blast
    show ?thesis
    proof (cases "clock t - ?s < detachedResultSettleTimeout cfg")
      case True
      with awaiting q size show ?thesis by (simp add: judge_def Let_def wait_inv_def)
    next
      case False
      with q have "lost_because cfg ts t" unfolding lost_because_def by (intro disjI1 exI [of _ ?s]) simp
      with awaiting False show ?thesis by (simp add: judge_def Let_def lost_window_def)
    qed
  next
    case unknown
    let ?s = "since (unknownQuietSince st) ?prog (clock t)"
    have "is_unknown t" using unknown ob(1) by (simp add: is_unknown_def)
    then have q: "quiet_since is_unknown (ts @ [t]) ?s" using since_quiet [OF inv_u _ prog] by blast
    show ?thesis
    proof (cases "clock t - ?s < detachedUnknownQuietTimeout cfg")
      case True
      with unknown q size show ?thesis by (simp add: judge_def Let_def wait_inv_def)
    next
      case False
      with q have "lost_because cfg ts t" unfolding lost_because_def by (intro disjI2 disjI1 exI [of _ ?s]) simp
      with unknown False show ?thesis by (simp add: judge_def Let_def lost_window_def)
    qed
  next
    case other
    have na: "\<not> is_awaiting t" using other(1) ob(1) by (simp add: is_awaiting_def)
    have inv': "wait_inv (ts @ [t]) (st\<lparr>lastAgentOutputSize := seen (ts @ [t]), awaitingResultSince := None, unknownQuietSince := None\<rparr>)"
      by (simp add: wait_inv_def)
    have eq: "judge cfg t ob st = (if o_alive ob then Inl (st\<lparr>lastAgentOutputSize := seen (ts @ [t]), awaitingResultSince := None, unknownQuietSince := None\<rparr>)
        else case obs_again t of
            None \<Rightarrow> Inr (-1, RunErr FPoll)
          | Some ob2 \<Rightarrow>
              if \<not> synced_again t then Inr (-1, RunErr FPoll)
              else if o_done ob2 then Inr (o_exit ob2, exitError (o_exit ob2))
              else if o_alive ob2 then Inl (st\<lparr>lastAgentOutputSize := seen (ts @ [t]), awaitingResultSince := None, unknownQuietSince := None\<rparr>)
              else lost_window)"
      unfolding judge_def Let_def size [symmetric] using other by (simp only: if_False if_True)
    have "lost_because cfg ts t" if "\<not> o_alive ob" "obs_again t = Some ob2" "\<not> o_done ob2" "\<not> o_alive ob2" for ob2
      unfolding lost_because_def using that na ob by blast
    then show ?thesis unfolding eq using inv' by (auto simp: lost_window_def split: option.split)
  qed
qed

lemma wait_turn_inv:
  assumes "wait_inv ts st"
  shows "case wait_turn cfg t st of
      Inl st' \<Rightarrow> wait_inv (ts @ [t]) st'
    | Inr (c, e) \<Rightarrow> e = RunErr FWindowLost \<longrightarrow> lost_because cfg ts t"
  using judge_inv [OF assms, where cfg = cfg and t = t] by (auto simp: wait_turn_def split: option.split)

lemma waitTmux_lost:
  "wait_inv ts0 st \<Longrightarrow> waitTmux cfg ts st = Some (c, RunErr FWindowLost) \<Longrightarrow>
     \<exists>pre t rest. ts = pre @ t # rest \<and> lost_because cfg (ts0 @ pre) t"
proof (induction ts arbitrary: ts0 st)
  case (Cons t ts)
  show ?case
  proof (cases "wait_turn cfg t st")
    case (Inl st')
    with wait_turn_inv [OF Cons.prems(1), where cfg = cfg and t = t] have "wait_inv (ts0 @ [t]) st'" by simp
    from Cons.IH [OF this] Inl Cons.prems(2) obtain pre u rest where "ts = pre @ u # rest" "lost_because cfg ((ts0 @ [t]) @ pre) u"
      by auto
    then show ?thesis by (intro exI [of _ "t # pre"]) auto
  next
    case (Inr r)
    with wait_turn_inv [OF Cons.prems(1), where cfg = cfg and t = t] Cons.prems(2) have "lost_because cfg ts0 t" by auto
    then show ?thesis by (intro exI [of _ "[]"]) auto
  qed
qed simp

text \<open>
  C20. An execution whose agent runs in a service of its own is declared lost only after
  silence: its service had ended or was ending for the settle timeout, or could not be asked for
  the quiet timeout, and in all that time its output did not grow. Otherwise the execution had
  no such agent and its window was found dead, without an exit code, before and after the grace
  period.
\<close>

theorem waitTmux_patient:
  assumes "waitTmux cfg ts wait_start = Some (c, RunErr FWindowLost)"
    and "\<forall>t\<in>set ts. \<forall>ob. obs t = Some ob \<longrightarrow> polled ob"
  shows "\<exists>pre t rest. ts = pre @ t # rest \<and>
    ((\<exists>s. quiet_since is_awaiting (pre @ [t]) s \<and> detachedResultSettleTimeout cfg \<le> clock t - s) \<or>
     (\<exists>s. quiet_since is_unknown (pre @ [t]) s \<and> detachedUnknownQuietTimeout cfg \<le> clock t - s) \<or>
     (\<exists>ob ob2. obs t = Some ob \<and> \<not> o_detached ob \<and> \<not> o_done ob \<and> \<not> o_alive ob \<and>
        obs_again t = Some ob2 \<and> \<not> o_done ob2 \<and> \<not> o_alive ob2))"
proof -
  from waitTmux_lost [OF wait_inv_start assms(1)] obtain pre t rest where
    t: "ts = pre @ t # rest" and why: "lost_because cfg pre t" by auto
  have "polled ob" if "obs t = Some ob" for ob using assms(2) t that by simp
  then have "\<not> o_detached ob" if "obs t = Some ob" "\<not> o_done ob" "\<not> o_alive ob" for ob
    using polled_alive that by blast
  with t why show ?thesis unfolding lost_because_def by blast
qed

text \<open>The service has ended, no exit code appears and nothing more is written.\<close>

definition demo_probe :: probe where
  "demo_probe = \<lparr>codes = (NoFile, NoFile), window = False, pane_dead = None, window_again = False,
     codes_again = (NoFile, NoFile), agent_size = Some (Some 5), service = agentServiceInactive,
     out_file = Some []\<rparr>"

definition demo_turn :: "int \<Rightarrow> turn" where
  "demo_turn now = \<lparr>task_canceled = False, service_stopping = False, obs = poll demo_probe 0 False, synced = True,
     clock = now, obs_again = None, synced_again = True\<rparr>"

lemma read_lines_Nil [simp]: "read_lines f [] = ([], 0)"
  by (simp add: read_lines.simps)

lemma demo_turn_obs:
  "obs (demo_turn now) = Some \<lparr>o_lines = [], o_offset = 0, o_alive = True, o_done = False, o_exit = 0, o_detached = True,
     o_state = agentServiceInactive, o_size = 5, o_awaiting = True\<rparr>"
  by (simp add: demo_turn_def demo_probe_def poll_def pane_state_def exitCode_def observe_def readOutput_def Let_def)

lemma demo_turn_awaiting [simp]:
  "is_awaiting (demo_turn now)" "size_of (demo_turn now) = 5" "clock (demo_turn now) = now"
  "obs_again (demo_turn now) = None"
  by (simp_all add: is_awaiting_def size_of_def demo_turn_obs) (simp_all add: demo_turn_def)

theorem waitTmux_patient_witness:
  "waitTmux defaultWaitTmuxTiming [demo_turn 0, demo_turn 15000] wait_start = Some (-1, RunErr FWindowLost) \<and>
   (\<exists>pre t rest. [demo_turn 0, demo_turn 15000] = pre @ t # rest \<and>
      (\<exists>s. quiet_since is_awaiting (pre @ [t]) s \<and> 15000 \<le> clock t - s))"
proof -
  have flags: "\<not> task_canceled (demo_turn n)" "\<not> service_stopping (demo_turn n)" "synced (demo_turn n)" for n
    by (simp_all add: demo_turn_def)
  have lost: "waitTmux defaultWaitTmuxTiming [demo_turn 0, demo_turn 15000] wait_start = Some (-1, RunErr FWindowLost)"
    by (simp add: flags demo_turn_obs wait_turn_def judge_def Let_def wait_start_def since_def
        defaultWaitTmuxTiming_def lost_window_def)
  have "\<forall>t\<in>set [demo_turn 0, demo_turn 15000]. \<forall>ob. obs t = Some ob \<longrightarrow> polled ob"
    by (auto simp: demo_turn_def polled_def)
  from waitTmux_patient [OF lost this] obtain pre t rest where t: "[demo_turn 0, demo_turn 15000] = pre @ t # rest"
    and why: "(\<exists>s. quiet_since is_awaiting (pre @ [t]) s \<and> detachedResultSettleTimeout defaultWaitTmuxTiming \<le> clock t - s) \<or>
     (\<exists>s. quiet_since is_unknown (pre @ [t]) s \<and> detachedUnknownQuietTimeout defaultWaitTmuxTiming \<le> clock t - s) \<or>
     (\<exists>ob ob2. obs t = Some ob \<and> \<not> o_detached ob \<and> \<not> o_done ob \<and> \<not> o_alive ob \<and>
        obs_again t = Some ob2 \<and> \<not> o_done ob2 \<and> \<not> o_alive ob2)" by blast
  have "t \<in> set [demo_turn 0, demo_turn 15000]" unfolding t by simp
  then have aw: "is_awaiting t" "obs_again t = None" by auto
  have "\<not> quiet_since is_unknown (pre @ [t]) s" for s
  proof
    assume "quiet_since is_unknown (pre @ [t]) s"
    then obtain p u l where "pre @ [t] = p @ u # l" "\<forall>x\<in>set (u # l). is_unknown x" unfolding quiet_since_def by blast
    moreover from this(1) have "t \<in> set (u # l)" by (cases l rule: rev_cases) auto
    ultimately show False using aw(1) by (auto simp: is_awaiting_def is_unknown_def)
  qed
  with why aw have "\<exists>s. quiet_since is_awaiting (pre @ [t]) s \<and> 15000 \<le> clock t - s"
    by (auto simp: defaultWaitTmuxTiming_def)
  with lost t show ?thesis by blast
qed

section \<open>The wait ends\<close>

lemma awaiting_turn:
  assumes "wait_turn cfg t st = Inl st'" and "is_awaiting t" and "-1 \<le> lastAgentOutputSize st"
  shows "awaitingResultSince st' = Some (since (awaitingResultSince st) (size_of t > lastAgentOutputSize st) (clock t)) \<and>
    clock t - since (awaitingResultSince st) (size_of t > lastAgentOutputSize st) (clock t) < detachedResultSettleTimeout cfg \<and>
    lastAgentOutputSize st' = max (lastAgentOutputSize st) (size_of t)"
proof -
  obtain ob where ob: "obs t = Some ob" "o_awaiting ob" using assms(2) by (auto simp: is_awaiting_def)
  then have prog: "(o_detached ob \<and> o_size ob > lastAgentOutputSize st) = (size_of t > lastAgentOutputSize st)"
    using assms(3) by (auto simp: size_of_def)
  have "judge cfg t ob st = Inl st'" using assms(1) ob by (auto simp: wait_turn_def split: if_splits)
  then show ?thesis
    using ob prog by (auto simp: judge_def Let_def lost_window_def size_of_def split: if_splits)
qed

lemma awaiting_run:
  "waitTmux cfg us st = None \<Longrightarrow> us \<noteq> [] \<Longrightarrow> -1 \<le> lastAgentOutputSize st \<Longrightarrow>
   \<forall>u\<in>set us. is_awaiting u \<and> size_of u \<le> lastAgentOutputSize st \<Longrightarrow> awaitingResultSince st = Some a \<Longrightarrow>
   clock (last us) - a < detachedResultSettleTimeout cfg"
proof (induction us arbitrary: st)
  case (Cons u us)
  from Cons.prems(1) obtain st' where t: "wait_turn cfg u st = Inl st'" "waitTmux cfg us st' = None"
    by (auto split: sum.splits)
  have st': "awaitingResultSince st' = Some a" "clock u - a < detachedResultSettleTimeout cfg"
    "lastAgentOutputSize st' = lastAgentOutputSize st"
    using awaiting_turn [OF t(1) _ Cons.prems(3)] Cons.prems(4,5) by (auto simp: since_def)
  then show ?case using Cons.IH [OF t(2)] Cons.prems(3,4) by (cases us) auto
qed simp

lemma waitTmux_prefix:
  "wait_inv ts0 st \<Longrightarrow> waitTmux cfg (xs @ ys) st = None \<Longrightarrow> \<exists>st'. wait_inv (ts0 @ xs) st' \<and> waitTmux cfg ys st' = None"
proof (induction xs arbitrary: ts0 st)
  case (Cons x xs)
  then obtain st' where st': "wait_turn cfg x st = Inl st'" "waitTmux cfg (xs @ ys) st' = None"
    by (auto split: sum.splits)
  with wait_turn_inv [OF Cons.prems(1), where cfg = cfg and t = x] have "wait_inv (ts0 @ [x]) st'" by simp
  from Cons.IH [OF this st'(2)] show ?case by simp
qed auto

text \<open>
  The wait for a result always ends: once the agent's service has ended and its output has
  not grown for the settle timeout, the loop has returned, whatever came before.
\<close>

theorem waitTmux_gives_up:
  assumes "quiet_since is_awaiting ts s" and "sorted (map clock ts)"
    and "detachedResultSettleTimeout cfg \<le> clock (last ts) - s"
  shows "\<exists>r. waitTmux cfg ts wait_start = Some r"
proof (rule ccontr)
  assume "\<not> ?thesis"
  then have none: "waitTmux cfg ts wait_start = None" by (cases "waitTmux cfg ts wait_start") blast+
  obtain pre t0 later where q: "ts = pre @ t0 # later" "clock t0 = s" "\<forall>t\<in>set (t0 # later). is_awaiting t"
    "\<forall>t\<in>set later. size_of t \<le> seen (pre @ [t0])" using assms(1) by (auto simp: quiet_since_def)
  obtain st where st: "wait_inv pre st" "waitTmux cfg (t0 # later) st = None"
    using waitTmux_prefix [OF wait_inv_start, of cfg pre "t0 # later"] none q(1) by auto
  obtain st1 where st1: "wait_turn cfg t0 st = Inl st1" "waitTmux cfg later st1 = None"
    using st(2) by (auto split: sum.splits)
  have last: "lastAgentOutputSize st = seen pre" using st(1) by (simp add: wait_inv_def)
  define a where "a = since (awaitingResultSince st) (size_of t0 > lastAgentOutputSize st) (clock t0)"
  have a: "awaitingResultSince st1 = Some a" "clock t0 - a < detachedResultSettleTimeout cfg"
    "lastAgentOutputSize st1 = seen (pre @ [t0])"
    using awaiting_turn [OF st1(1)] q(3) seen_ge [of pre] last by (simp_all add: a_def)
  have le: "a \<le> s"
  proof -
    have "x \<le> clock t0" if "awaitingResultSince st = Some x" for x
    proof -
      have "quiet_since is_awaiting pre x" using st(1) that by (simp add: wait_inv_def)
      then obtain p u l where "pre = p @ u # l" "clock u = x" unfolding quiet_since_def by blast
      then have "u \<in> set pre" "clock u = x" by simp_all
      then show ?thesis using assms(2) q(1) by (auto simp: sorted_append)
    qed
    then show ?thesis using q(2) by (auto simp: a_def since_def split: option.split)
  qed
  have "clock (last ts) - a < detachedResultSettleTimeout cfg"
  proof (cases "later = []")
    case True
    with a q(1) show ?thesis by simp
  next
    case False
    from awaiting_run [OF st1(2) False _ _ a(1)] a(3) q(3,4) seen_ge [of "pre @ [t0]"] False q(1)
    show ?thesis by simp
  qed
  with assms(3) le show False by simp
qed

theorem waitTmux_gives_up_witness:
  "\<exists>r. waitTmux defaultWaitTmuxTiming [demo_turn 0, demo_turn 9000, demo_turn 15000] wait_start = Some r"
proof (rule waitTmux_gives_up)
  show "quiet_since is_awaiting [demo_turn 0, demo_turn 9000, demo_turn 15000] 0"
    unfolding quiet_since_def
    by (intro exI [of _ "[]"] exI [of _ "demo_turn 0"] exI [of _ "[demo_turn 9000, demo_turn 15000]"])
      (simp add: seen_def)
qed (simp_all add: defaultWaitTmuxTiming_def)

end
