(* ===== verification/Tmux_Shell.thy ===== *)
theory Tmux_Shell
  imports Store_Model
begin

text \<open>
  The texts exec/tmux.go hands to a POSIX shell: single-quoted words, the environment of an
  agent, the wrapper scripts. \<open>sh_word\<close> reads one word back with the quoting rules of POSIX sh
  (2.2 Quoting): everything between single quotes is literal, a double-quoted part is literal as
  long as it has none of the characters that are special in it.
\<close>

section \<open>Quoting\<close>

definition quote_char :: char where "quote_char = CHR 0x27"
definition dquote_char :: char where "dquote_char = CHR 0x22"

text \<open>\<^verbatim>\<open>strings.ReplaceAll(s, "'", "'\"'\"'")\<close>.\<close>

fun escape_quotes :: "string \<Rightarrow> string" where
  "escape_quotes [] = []"
| "escape_quotes (c # s) =
    (if c = quote_char then [quote_char, dquote_char, quote_char, dquote_char, quote_char] else [c]) @ escape_quotes s"

definition shQuote :: "string \<Rightarrow> string" where
  "shQuote s = quote_char # escape_quotes s @ [quote_char]"

definition sh_blank :: "char \<Rightarrow> bool" where
  "sh_blank c \<longleftrightarrow> c = CHR '' '' \<or> c = CHR 0x09 \<or> c = CHR 0x0A"

datatype quoting = Plain | Single | Double

text \<open>
  \<open>None\<close>: an unfinished quotation, or a character whose meaning the reader leaves to the shell.
  An unquoted word ends at a blank.
\<close>

definition sh_special :: "char \<Rightarrow> bool" where
  "sh_special c \<longleftrightarrow> c \<in> set ''|&;<>()$`*?[]#~%!{}'' \<or> c = CHR 0x5C"

fun sh_word :: "quoting \<Rightarrow> string \<Rightarrow> (string \<times> string) option" where
  "sh_word Plain [] = Some ([], [])"
| "sh_word Single [] = None"
| "sh_word Double [] = None"
| "sh_word Plain (c # s) =
    (if c = quote_char then sh_word Single s
     else if c = dquote_char then sh_word Double s
     else if sh_blank c then Some ([], c # s)
     else if sh_special c then None
     else map_option (\<lambda>(w, r). (c # w, r)) (sh_word Plain s))"
| "sh_word Single (c # s) =
    (if c = quote_char then sh_word Plain s else map_option (\<lambda>(w, r). (c # w, r)) (sh_word Single s))"
| "sh_word Double (c # s) =
    (if c = dquote_char then sh_word Plain s
     else if c = CHR ''$'' \<or> c = CHR 0x60 \<or> c = CHR 0x5C then None
     else map_option (\<lambda>(w, r). (c # w, r)) (sh_word Double s))"

lemma sh_word_shorter: "sh_word q s = Some (w, r) \<Longrightarrow> length r \<le> length s"
  by (induction q s arbitrary: w r rule: sh_word.induct) (fastforce split: if_splits)+

text \<open>The words of a command line.\<close>

function sh_words :: "string \<Rightarrow> string list option" where
  "sh_words [] = Some []"
| "sh_words (c # s) =
    (if sh_blank c then sh_words s
     else case sh_word Plain (c # s) of
         None \<Rightarrow> None
       | Some (w, r) \<Rightarrow> if length r < length (c # s) then map_option ((#) w) (sh_words r) else None)"
  by pat_completeness auto
termination
  by (relation "measure length") auto

section \<open>Command lines\<close>

fun join :: "string \<Rightarrow> string list \<Rightarrow> string" where
  "join sep [] = []"
| "join sep [x] = x"
| "join sep (x # y # xs) = x @ sep @ join sep (y # xs)"

text \<open>The part of \<^verbatim>\<open>writeScript\<close> that renders the command of the runtime.\<close>

definition invocation :: "string \<Rightarrow> string list \<Rightarrow> string" where
  "invocation bin args = join '' '' (map shQuote (bin # args))"

text \<open>With a process group of its own: \<^verbatim>\<open>setsid --wait --\<close> before it.\<close>

definition isolated_invocation :: "string \<Rightarrow> string \<Rightarrow> string list \<Rightarrow> string" where
  "isolated_invocation setsid bin args = shQuote setsid @ '' --wait -- '' @ invocation bin args"

definition wrapper_script :: "string \<Rightarrow> string" where
  "wrapper_script realBinary =
     ''#!/bin/sh'' @ [CHR 0x0A] @ ''exec '' @ shQuote realBinary @ '' -f '' @ shQuote ''/dev/null'' @
     [CHR '' '', dquote_char] @ ''$@'' @ [dquote_char, CHR 0x0A]"

lemma sh_word_escaped:
  "sh_word Single (escape_quotes s @ quote_char # r) = map_option (\<lambda>(w, r). (s @ w, r)) (sh_word Plain r)"
proof (induction s)
  case Nil
  show ?case by (cases "sh_word Plain r") auto
next
  case (Cons c s)
  show ?case
  proof (cases "c = quote_char")
    case True
    with Cons show ?thesis
      by (cases "sh_word Plain r") (auto simp: quote_char_def dquote_char_def)
  next
    case False
    with Cons show ?thesis by (cases "sh_word Plain r") auto
  qed
qed

lemma sh_word_quoted:
  "sh_word Plain (shQuote s @ r) = map_option (\<lambda>(w, r). (s @ w, r)) (sh_word Plain r)"
  by (simp add: shQuote_def sh_word_escaped)

lemma sh_word_end: "r = [] \<or> sh_blank (hd r) \<Longrightarrow> sh_word Plain r = Some ([], r)"
  by (cases r) (auto simp: sh_blank_def quote_char_def dquote_char_def)

lemma sh_words_quoted:
  assumes "r = [] \<or> sh_blank (hd r)"
  shows "sh_words (shQuote s @ r) = map_option ((#) s) (sh_words r)"
proof -
  have "sh_word Plain (shQuote s @ r) = Some (s, r)"
    unfolding sh_word_quoted sh_word_end [OF assms] by simp
  moreover have "shQuote s @ r = quote_char # (escape_quotes s @ quote_char # r)" by (simp add: shQuote_def)
  moreover have "\<not> sh_blank quote_char" by (simp add: sh_blank_def quote_char_def)
  ultimately show ?thesis by simp
qed

lemma sh_words_blank [simp]: "sh_blank c \<Longrightarrow> sh_words (c # s) = sh_words s"
  by simp

lemma sh_words_join: "sh_words (join '' '' (map shQuote xs)) = Some xs"
proof (induction xs rule: induct_list012)
  case (2 x)
  show ?case using sh_words_quoted [of "[]" x] by simp
next
  case (3 x y zs)
  have b: "sh_blank CHR '' ''" by (simp add: sh_blank_def)
  let ?r = "CHR '' '' # join '' '' (map shQuote (y # zs))"
  have "sh_words (shQuote x @ ?r) = map_option ((#) x) (sh_words ?r)"
    by (rule sh_words_quoted) (simp add: b)
  with 3(2) b show ?case by simp
qed simp

text \<open>
  C18. The command line of a task is read back as exactly its argument vector, whatever the
  arguments contain: quotes, blanks, line feeds, shell syntax. The isolated form adds the three
  words of \<^verbatim>\<open>setsid\<close> and nothing else.
\<close>

theorem invocation_roundtrip:
  "sh_words (invocation bin args) = Some (bin # args) \<and>
   sh_words (isolated_invocation setsid bin args) = Some ([setsid, ''--wait'', ''--''] @ bin # args)"
proof
  show inv: "sh_words (invocation bin args) = Some (bin # args)"
    unfolding invocation_def by (rule sh_words_join)
  have b: "sh_blank CHR '' ''" by (simp add: sh_blank_def)
  have "sh_words ('' --wait -- '' @ invocation bin args) = map_option (\<lambda>ws. ''--wait'' # ''--'' # ws) (sh_words (invocation bin args))"
    by (simp add: sh_blank_def sh_special_def quote_char_def dquote_char_def option.map_comp comp_def)
  moreover have "sh_words (shQuote setsid @ '' --wait -- '' @ invocation bin args) =
      map_option ((#) setsid) (sh_words ('' --wait -- '' @ invocation bin args))"
    by (rule sh_words_quoted) (simp add: b)
  ultimately show "sh_words (isolated_invocation setsid bin args) = Some ([setsid, ''--wait'', ''--''] @ bin # args)"
    using inv by (simp add: isolated_invocation_def)
qed

section \<open>Environments\<close>

text \<open>\<^verbatim>\<open>strings.Cut(item, "=")\<close>.\<close>

definition cut_eq :: "string \<Rightarrow> (string \<times> string) option" where
  "cut_eq item =
     (if CHR ''='' \<in> set item
      then Some (takeWhile (\<lambda>c. c \<noteq> CHR ''='') item, drop 1 (dropWhile (\<lambda>c. c \<noteq> CHR ''='') item))
      else None)"

definition isTmuxInternalEnv :: "string \<Rightarrow> bool" where
  "isTmuxInternalEnv key \<longleftrightarrow> key = ''TMUX'' \<or> key = ''TMUX_PANE''"

definition env_letter :: "char \<Rightarrow> bool" where
  "env_letter c \<longleftrightarrow> (CHR ''A'' \<le> c \<and> c \<le> CHR ''Z'') \<or> c = CHR ''_'' \<or> (CHR ''a'' \<le> c \<and> c \<le> CHR ''z'')"

definition isShellEnvKey :: "string \<Rightarrow> bool" where
  "isShellEnvKey key \<longleftrightarrow>
     (case key of
        [] \<Rightarrow> False
      | c # cs \<Rightarrow> env_letter c \<and> list_all (\<lambda>d. (CHR ''0'' \<le> d \<and> d \<le> CHR ''9'') \<or> env_letter d) cs)"

definition isTaskDerivedEnvKey :: "string \<Rightarrow> bool" where
  "isTaskDerivedEnvKey key \<longleftrightarrow>
     key \<in> {''PWD'', ''OLDPWD'', ''SHLVL'', ''_'', ''MANAGERPID'', ''INVOCATION_ID'', ''JOURNAL_STREAM'',
       ''MEMORY_PRESSURE_WATCH'', ''MEMORY_PRESSURE_WRITE'', ''SYSTEMD_EXEC_PID''}"

definition taskNestedTmuxSkipEnv :: string where
  "taskNestedTmuxSkipEnv = ''PAIHUO_SKIP_NESTED_TMUX_TESTS''"

definition taskShellEnvironment :: "string \<Rightarrow> string list \<Rightarrow> string list" where
  "taskShellEnvironment shellInitPath env =
     filter (\<lambda>item. case cut_eq item of None \<Rightarrow> True
        | Some (key, _) \<Rightarrow> key \<noteq> ''BASH_ENV'' \<and> key \<noteq> taskNestedTmuxSkipEnv) env @
     [''BASH_ENV='' @ shellInitPath, taskNestedTmuxSkipEnv @ ''=1'']"

text \<open>The loop of \<^verbatim>\<open>writeAgentLaunchFiles\<close>: \<open>Inl\<close> a name the service cannot take.\<close>

fun env_exports :: "string list \<Rightarrow> string + string" where
  "env_exports [] = Inr []"
| "env_exports (item # env) =
    (case cut_eq item of
       None \<Rightarrow> env_exports env
     | Some (key, val) \<Rightarrow>
         if isTmuxInternalEnv key \<or> isTaskDerivedEnvKey key then env_exports env
         else if \<not> isShellEnvKey key then Inl key
         else (case env_exports env of
             Inl e \<Rightarrow> Inl e
           | Inr rest \<Rightarrow> Inr (''export '' @ key @ ''='' @ shQuote val @ [CHR 0x0A] @ rest)))"

text \<open>What the agent is meant to see: the variables that are not tied to the old process.\<close>

definition passed_on :: "string list \<Rightarrow> (string \<times> string) list" where
  "passed_on env = filter (\<lambda>(key, _). \<not> isTmuxInternalEnv key \<and> \<not> isTaskDerivedEnvKey key) (List.map_filter cut_eq env)"

definition key_char :: "char \<Rightarrow> bool" where
  "key_char c \<longleftrightarrow> (CHR ''0'' \<le> c \<and> c \<le> CHR ''9'') \<or> env_letter c"

lemma key_char_plain: "key_char c \<Longrightarrow> c \<noteq> quote_char \<and> c \<noteq> dquote_char \<and> \<not> sh_blank c \<and> \<not> sh_special c"
  by (auto simp: key_char_def env_letter_def quote_char_def dquote_char_def sh_blank_def sh_special_def)

lemma shell_key_chars: "isShellEnvKey key \<Longrightarrow> key \<noteq> [] \<and> list_all key_char key"
  by (cases key) (auto simp: isShellEnvKey_def key_char_def list_all_iff)

lemma sh_word_key:
  "list_all key_char key \<Longrightarrow> sh_word Plain (key @ CHR ''='' # r) = map_option (\<lambda>(w, r). (key @ CHR ''='' # w, r)) (sh_word Plain r)"
proof (induction key)
  case Nil
  show ?case
    by (cases "sh_word Plain r") (auto simp: quote_char_def dquote_char_def sh_blank_def sh_special_def)
next
  case (Cons c key)
  then show ?case using key_char_plain [of c] by (cases "sh_word Plain r") auto
qed

lemma sh_words_export:
  assumes "isShellEnvKey key"
  shows "sh_words (''export '' @ key @ ''='' @ shQuote val @ [CHR 0x0A] @ rest) =
    map_option (\<lambda>ws. ''export'' # (key @ ''='' @ val) # ws) (sh_words rest)"
proof -
  let ?tail = "CHR 0x0A # rest"
  have nl: "sh_blank CHR 0x0A" by (simp add: sh_blank_def)
  have "sh_word Plain (shQuote val @ ?tail) = Some (val, ?tail)"
    unfolding sh_word_quoted using sh_word_end [of ?tail] nl by simp
  then have word: "sh_word Plain (key @ CHR ''='' # shQuote val @ ?tail) = Some (key @ CHR ''='' # val, ?tail)"
    using shell_key_chars [OF assms] by (simp add: sh_word_key)
  obtain c cs where key: "key = c # cs" "\<not> sh_blank c"
    using shell_key_chars [OF assms] key_char_plain by (cases key) auto
  have "sh_words (key @ CHR ''='' # shQuote val @ ?tail) = map_option ((#) (key @ CHR ''='' # val)) (sh_words rest)"
    using word key nl by simp
  then show ?thesis
    by (simp add: sh_blank_def sh_special_def quote_char_def dquote_char_def option.map_comp comp_def)
qed

text \<open>
  The environment file of an agent exports exactly the variables that are meant for it,
  each with its value unchanged whatever it contains; it is refused exactly when one of those
  variables has a name the shell cannot take.
\<close>

theorem env_exports_roundtrip:
  "case env_exports env of
     Inl key \<Rightarrow> key \<in> fst ` set (passed_on env) \<and> \<not> isShellEnvKey key
   | Inr text \<Rightarrow> (\<forall>key\<in>fst ` set (passed_on env). isShellEnvKey key) \<and>
       sh_words text = Some (concat (map (\<lambda>(key, val). [''export'', key @ ''='' @ val]) (passed_on env)))"
proof (induction env)
  case Nil
  show ?case by (simp add: passed_on_def List.map_filter_def)
next
  case (Cons item env)
  show ?case
  proof (cases "cut_eq item")
    case None
    then have "passed_on (item # env) = passed_on env" by (simp add: passed_on_def List.map_filter_def)
    with Cons None show ?thesis by (cases "env_exports env") simp_all
  next
    case (Some kv)
    obtain key val where kv: "kv = (key, val)" by (cases kv)
    show ?thesis
    proof (cases "isTmuxInternalEnv key \<or> isTaskDerivedEnvKey key")
      case True
      then have "passed_on (item # env) = passed_on env"
        using Some kv by (auto simp: passed_on_def List.map_filter_def)
      with Cons True Some kv show ?thesis by (cases "env_exports env") simp_all
    next
      case False
      then have passed: "passed_on (item # env) = (key, val) # passed_on env"
        using Some kv by (simp add: passed_on_def List.map_filter_def)
      show ?thesis
        using False Some kv passed Cons sh_words_export [of key val]
        by (cases "isShellEnvKey key"; cases "env_exports env") auto
    qed
  qed
qed

text \<open>A value with a quote and a line feed is passed on, the multiplexer's variable is not.\<close>

theorem env_exports_roundtrip_witness:
  "case env_exports [''A=it'' @ [quote_char, CHR 0x0A] @ ''s'', ''TMUX=x''] of
     Inl _ \<Rightarrow> False
   | Inr text \<Rightarrow> sh_words text = Some [''export'', ''A=it'' @ [quote_char, CHR 0x0A] @ ''s'']"
proof -
  let ?env = "[''A=it'' @ [quote_char, CHR 0x0A] @ ''s'', ''TMUX=x'']"
  have "\<exists>text. env_exports ?env = Inr text"
    by (simp add: cut_eq_def isTmuxInternalEnv_def isTaskDerivedEnvKey_def isShellEnvKey_def env_letter_def)
  moreover have "passed_on ?env = [(''A'', ''it'' @ [quote_char, CHR 0x0A] @ ''s'')]"
    by (simp add: passed_on_def List.map_filter_def cut_eq_def isTmuxInternalEnv_def isTaskDerivedEnvKey_def)
  ultimately show ?thesis using env_exports_roundtrip [of ?env] by auto
qed

end
