(* ===== verification/Store_Logs.thy ===== *)
theory Store_Logs
  imports Revision_Laws
begin

text \<open>
  logs_events.go: the log lines of a task and the pages a reader asks for, newest first. Rows
  with equal \<^verbatim>\<open>seq\<close> come in the order of the index, modelled by the stable sort.
\<close>

section \<open>Appending\<close>

definition task_logs :: "int \<Rightarrow> db \<Rightarrow> task_log list" where
  "task_logs tid db = filter (\<lambda>g. g_task_id g = tid) (logs db)"

text \<open>The two statements of \<^verbatim>\<open>AppendLog\<close>: reading the next number, inserting the row.\<close>

definition next_log_seq :: "int \<Rightarrow> db \<Rightarrow> int" where
  "next_log_seq tid db = max_or_zero (map g_seq (task_logs tid db)) + 1"

definition insert_log :: "task_log \<Rightarrow> db \<Rightarrow> store_error + (db \<times> task_log)" where
  "insert_log l db =
     (let i = next_id (log_seq db) (map g_id (logs db)); row = l\<lparr>g_id := i\<rparr> in
      rbind (exec_stmt (db\<lparr>logs := logs db @ [row], log_seq := i\<rparr>)) (\<lambda>db'. Inr (db', row)))"

definition AppendLog :: "string \<Rightarrow> task_log \<Rightarrow> db \<Rightarrow> store_error + (db \<times> task_log)" where
  "AppendLog now l db =
     insert_log (l\<lparr>g_created_at := (if g_created_at l = [] then now else g_created_at l),
       g_seq := next_log_seq (g_task_id l) db\<rparr>) db"

section \<open>Reading\<close>

definition ListLogs :: "int \<Rightarrow> db \<Rightarrow> task_log list" where
  "ListLogs tid db = sort_key g_seq (task_logs tid db)"

definition page_limit :: "int \<Rightarrow> nat" where
  "page_limit limit = (let l = (if limit \<le> 0 then 200 else limit) in nat (if l > 500 then 500 else l))"

definition ListLogsPage :: "int \<Rightarrow> int \<Rightarrow> int \<Rightarrow> db \<Rightarrow> task_log list \<times> bool \<times> nat" where
  "ListLogsPage tid beforeSeq limit db =
     (let lim = page_limit limit;
          rows = (if beforeSeq > 0 then filter (\<lambda>g. g_seq g < beforeSeq) (task_logs tid db) else task_logs tid db);
          got = take (lim + 1) (rev (sort_key g_seq rows))
      in (rev (take lim got), lim < length got, length (task_logs tid db)))"

text \<open>A reader that asks for older and older pages until there are no more.\<close>

fun read_back :: "nat \<Rightarrow> int \<Rightarrow> int \<Rightarrow> int \<Rightarrow> db \<Rightarrow> task_log list" where
  "read_back 0 tid before limit db = []"
| "read_back (Suc n) tid before limit db =
    (case ListLogsPage tid before limit db of
       (page, hasMore, cnt) \<Rightarrow> if hasMore then read_back n tid (g_seq (hd page)) limit db @ page else page)"

section \<open>The numbers of a task's lines\<close>

text \<open>No two lines of a task share a number, and numbers are positive.\<close>

definition numbered :: "db \<Rightarrow> bool" where
  "numbered db \<longleftrightarrow> distinct (map (\<lambda>g. (g_task_id g, g_seq g)) (logs db)) \<and> (\<forall>g\<in>set (logs db). 0 < g_seq g)"

lemma numbered_task: "numbered db \<Longrightarrow> distinct (map g_seq (task_logs tid db))"
proof -
  assume "numbered db"
  then have "distinct (map (\<lambda>g. (g_task_id g, g_seq g)) (task_logs tid db))"
    by (simp add: numbered_def task_logs_def distinct_map_filter)
  then have "distinct (task_logs tid db)" "inj_on (\<lambda>g. (g_task_id g, g_seq g)) (set (task_logs tid db))"
    by (auto simp: distinct_map)
  then show ?thesis by (auto simp: distinct_map inj_on_def task_logs_def)
qed

lemma next_log_seq_gt: "g \<in> set (task_logs tid db) \<Longrightarrow> g_seq g < next_log_seq tid db"
  using max_or_zero_ge [of "g_seq g" "map g_seq (task_logs tid db)"] by (auto simp: next_log_seq_def)

lemma AppendLog_result:
  "AppendLog now l db = Inr (db', row) \<Longrightarrow> schema_ok db' \<and> logs db' = logs db @ [row] \<and>
     g_task_id row = g_task_id l \<and> g_content row = g_content l \<and> g_seq row = next_log_seq (g_task_id l) db"
  by (auto simp: AppendLog_def insert_log_def Let_def result_simps)

lemma sort_key_snoc_max:
  assumes "\<forall>y\<in>set xs. f y \<le> f x"
  shows "sort_key f (xs @ [x]) = sort_key f xs @ [x]"
proof (rule properties_for_sort_key)
  show "mset (sort_key f xs @ [x]) = mset (xs @ [x])" by simp
  show "sorted (map f (sort_key f xs @ [x]))" using assms by (auto simp: sorted_append)
  show "filter (\<lambda>y. f k = f y) (sort_key f xs @ [x]) = filter (\<lambda>y. f k = f y) (xs @ [x])" for k
  proof -
    have "(\<lambda>y. f k = f y) = (\<lambda>y. f y = f k)" by auto
    then show ?thesis by (simp only: filter_append sort_key_stable)
  qed
qed

lemma next_log_seq_pos: "numbered db \<Longrightarrow> 0 < next_log_seq tid db"
proof (cases "task_logs tid db")
  case Nil
  then show ?thesis by (simp add: next_log_seq_def max_or_zero_def)
next
  case (Cons g gs)
  assume "numbered db"
  moreover have "g \<in> set (task_logs tid db)" by (simp add: Cons)
  ultimately show ?thesis using next_log_seq_gt [of g tid db] by (force simp: numbered_def task_logs_def)
qed

lemma AppendLog_appends:
  assumes "numbered db" and "AppendLog now l db = Inr (db', row)"
  shows "numbered db' \<and> ListLogs (g_task_id l) db' = ListLogs (g_task_id l) db @ [row] \<and> g_content row = g_content l \<and>
    (\<forall>tid. tid \<noteq> g_task_id l \<longrightarrow> ListLogs tid db' = ListLogs tid db)"
proof -
  note res = AppendLog_result [OF assms(2)]
  have mine: "task_logs (g_task_id l) db' = task_logs (g_task_id l) db @ [row]"
    and other: "\<And>tid. tid \<noteq> g_task_id l \<Longrightarrow> task_logs tid db' = task_logs tid db"
    using res by (auto simp: task_logs_def)
  have gt: "\<forall>g\<in>set (task_logs (g_task_id l) db). g_seq g < g_seq row" using res next_log_seq_gt by auto
  have "0 < g_seq row" using res next_log_seq_pos [OF assms(1)] by simp
  moreover have "(g_task_id row, g_seq row) \<notin> (\<lambda>g. (g_task_id g, g_seq g)) ` set (logs db)"
    using gt res by (auto simp: task_logs_def)
  ultimately have "numbered db'" using assms(1) res by (auto simp: numbered_def)
  moreover have "ListLogs (g_task_id l) db' = ListLogs (g_task_id l) db @ [row]"
    unfolding ListLogs_def mine using gt by (intro sort_key_snoc_max) auto
  ultimately show ?thesis using res other by (simp add: ListLogs_def)
qed

section \<open>Pages\<close>

definition before :: "int \<Rightarrow> task_log list \<Rightarrow> task_log list" where
  "before b xs = (if b > 0 then filter (\<lambda>g. g_seq g < b) xs else xs)"

lemma page_limit_pos: "0 < page_limit limit"
  by (simp add: page_limit_def Let_def)

lemma page_of:
  "ListLogsPage tid b limit db =
     (let F = before b (ListLogs tid db); lim = page_limit limit in
      (drop (length F - lim) F, lim < length F, length (task_logs tid db)))"
proof -
  have F: "sort_key g_seq (if b > 0 then filter (\<lambda>g. g_seq g < b) (task_logs tid db) else task_logs tid db) =
      before b (ListLogs tid db)"
    by (simp add: before_def ListLogs_def filter_sort)
  have "rev (take lim (take (lim + 1) (rev xs))) = drop (length xs - lim) xs" for lim and xs :: "task_log list"
    by (simp add: rev_take min_def del: take_rev)
  then show ?thesis
    unfolding ListLogsPage_def Let_def F by (simp add: min_def)
qed

lemma before_page:
  assumes "sorted_wrt (\<lambda>x y. g_seq x < g_seq y) L" and "\<forall>g\<in>set L. 0 < g_seq g"
    and "F = before b L" and "k < length F"
  shows "before (g_seq (F ! k)) L = take k F"
proof -
  have sF: "sorted_wrt (\<lambda>x y. g_seq x < g_seq y) F" using assms(1,3) by (simp add: before_def sorted_wrt_filter)
  have sub: "set F \<subseteq> set L" using assms(3) by (auto simp: before_def)
  have pos: "0 < g_seq (F ! k)" using assms(2,4) sub nth_mem by blast
  have "b > 0 \<Longrightarrow> g_seq (F ! k) < b" using assms(3,4) nth_mem [of k F] by (auto simp: before_def)
  then have "before (g_seq (F ! k)) L = filter (\<lambda>g. g_seq g < g_seq (F ! k)) F"
    using pos assms(3) by (auto simp: before_def intro!: filter_cong)
  also have "... = filter (\<lambda>g. g_seq g < g_seq (F ! k)) (take k F @ F ! k # drop (Suc k) F)"
    by (simp only: id_take_nth_drop [OF assms(4), symmetric])
  also have "filter (\<lambda>g. g_seq g < g_seq (F ! k)) (take k F @ F ! k # drop (Suc k) F) = take k F"
  proof -
    have split: "sorted_wrt (\<lambda>x y. g_seq x < g_seq y) (take k F @ F ! k # drop (Suc k) F)"
      using sF id_take_nth_drop [OF assms(4)] by simp
    then have "filter (\<lambda>g. g_seq g < g_seq (F ! k)) (take k F) = take k F"
      "filter (\<lambda>g. g_seq g < g_seq (F ! k)) (drop (Suc k) F) = []"
      by (auto simp: sorted_wrt_append filter_id_conv filter_empty_conv)
    then show ?thesis by simp
  qed
  finally show ?thesis .
qed

lemma read_back_all:
  assumes "sorted_wrt (\<lambda>x y. g_seq x < g_seq y) (ListLogs tid db)" and "\<forall>g\<in>set (ListLogs tid db). 0 < g_seq g"
    and "length (before b (ListLogs tid db)) < n"
  shows "read_back n tid b limit db = before b (ListLogs tid db)"
  using assms(3)
proof (induction n arbitrary: b)
  case (Suc n)
  let ?F = "before b (ListLogs tid db)" and ?lim = "page_limit limit"
  let ?k = "length ?F - ?lim"
  show ?case
  proof (cases "?lim < length ?F")
    case True
    then have k: "?k < length ?F" using page_limit_pos [of limit] by linarith
    then have hd: "hd (drop ?k ?F) = ?F ! ?k" by (simp add: hd_drop_conv_nth)
    have next_before: "before (g_seq (?F ! ?k)) (ListLogs tid db) = take ?k ?F"
      by (rule before_page [OF assms(1,2) refl k])
    have "read_back n tid (g_seq (?F ! ?k)) limit db = take ?k ?F"
      using Suc.IH [of "g_seq (?F ! ?k)"] Suc.prems k by (simp add: next_before)
    with True hd show ?thesis by (simp add: page_of Let_def)
  next
    case False
    then show ?thesis by (simp add: page_of Let_def)
  qed
qed simp

lemma read_back_complete:
  assumes "numbered db" and "length (task_logs tid db) < n"
  shows "read_back n tid 0 limit db = ListLogs tid db"
proof -
  have "sorted (map g_seq (ListLogs tid db))" by (simp add: ListLogs_def)
  moreover have "distinct (map g_seq (ListLogs tid db))"
    using numbered_task [OF assms(1), of tid] by (simp add: ListLogs_def distinct_map)
  ultimately have "sorted_wrt (\<lambda>x y. g_seq x < g_seq y) (ListLogs tid db)"
    by (simp add: sorted_wrt_map [symmetric] strict_sorted_iff)
  moreover have "\<forall>g\<in>set (ListLogs tid db). 0 < g_seq g"
    using assms(1) by (auto simp: ListLogs_def task_logs_def numbered_def)
  moreover have "before 0 (ListLogs tid db) = ListLogs tid db" by (simp add: before_def)
  ultimately show ?thesis using read_back_all [of tid db 0 n limit] assms(2) by (simp add: ListLogs_def)
qed

text \<open>
  A log is never lost or shuffled between the writer and the pages of the reader: after a
  line is appended, reading the log backwards page by page, with any page size, gives the lines
  read before followed by the new one; the logs of other tasks read as before, and the numbers
  of a task's lines stay pairwise different.
\<close>

theorem AppendLog_read_back:
  assumes "numbered db" and "AppendLog now l db = Inr (db', row)" and "length (logs db') < n"
  shows "numbered db' \<and> g_content row = g_content l \<and>
    read_back n tid 0 limit db' =
      read_back n tid 0 limit' db @ (if tid = g_task_id l then [row] else [])"
proof -
  have fuel: "length (task_logs tid db') < n" "length (task_logs tid db) < n"
    using assms(3) AppendLog_result [OF assms(2)] length_filter_le [of "\<lambda>g. g_task_id g = tid" "logs db'"]
      length_filter_le [of "\<lambda>g. g_task_id g = tid" "logs db"]
    by (simp_all add: task_logs_def)
  note app = AppendLog_appends [OF assms(1,2)]
  then have "read_back n tid 0 limit db' = ListLogs tid db'" using fuel(1) by (intro read_back_complete) auto
  moreover have "read_back n tid 0 limit' db = ListLogs tid db" using assms(1) fuel(2) by (rule read_back_complete)
  ultimately show ?thesis using app by auto
qed

section \<open>Examples\<close>

definition demo_line :: "int \<Rightarrow> int \<Rightarrow> string \<Rightarrow> task_log" where
  "demo_line i q c = \<lparr>g_id = i, g_task_id = 1, g_seq = q, g_stream = ''stdout'', g_content = c, g_created_at = ''t''\<rparr>"

definition demo_logs :: "task_log list \<Rightarrow> db" where
  "demo_logs ls = (demo_tasks [demo_task 1 StatusRunning])\<lparr>logs := ls, log_seq := int (length ls)\<rparr>"

theorem AppendLog_read_back_witness:
  "\<exists>db' row. AppendLog ''t'' (demo_line 0 0 ''b'') (demo_logs [demo_line 1 1 ''a'']) = Inr (db', row) \<and>
     read_back 9 1 0 1 db' = read_back 9 1 0 1 (demo_logs [demo_line 1 1 ''a'']) @ [row]"
proof -
  let ?db = "demo_logs [demo_line 1 1 ''a'']" and ?l = "demo_line 0 0 ''b''"
  have num: "numbered ?db" by (simp add: numbered_def demo_logs_def demo_line_def)
  have "(case AppendLog ''t'' ?l ?db of Inl e \<Rightarrow> False | Inr (d, r) \<Rightarrow> length (logs d) < 9)" by code_simp
  then obtain d r where app: "AppendLog ''t'' ?l ?db = Inr (d, r)" and fuel: "length (logs d) < 9"
    by (auto split: sum.splits)
  from AppendLog_read_back [OF num app fuel, of 1 1 1] app show ?thesis by (auto simp: demo_line_def)
qed

text \<open>
  \<^verbatim>\<open>AppendLog\<close> reads the next number and inserts the row in two statements outside a
  transaction, and the index on \<^verbatim>\<open>(task_id, seq)\<close> is not unique. Two writers that
  both read before either inserts give their lines the same number, and a reader whose page
  ends between the two never sees the other line.
\<close>

definition race_append :: "task_log \<Rightarrow> task_log \<Rightarrow> db \<Rightarrow> store_error + db" where
  "race_append l1 l2 db =
     (let q1 = next_log_seq (g_task_id l1) db; q2 = next_log_seq (g_task_id l2) db in
      rbind (insert_log (l1\<lparr>g_seq := q1\<rparr>) db) (\<lambda>(db1, _).
      rbind (insert_log (l2\<lparr>g_seq := q2\<rparr>) db1) (\<lambda>(db2, _). Inr db2)))"

lemma racing_lines_lost:
  "\<exists>db'. race_append (demo_line 0 0 ''b'') (demo_line 0 0 ''c'') (demo_logs [demo_line 1 1 ''a'']) = Inr db' \<and>
     map g_content (ListLogs 1 db') = [''a'', ''b'', ''c''] \<and>
     map g_content (read_back 9 1 0 1 db') = [''a'', ''c'']"
proof -
  have "(case race_append (demo_line 0 0 ''b'') (demo_line 0 0 ''c'') (demo_logs [demo_line 1 1 ''a'']) of
      Inl e \<Rightarrow> False | Inr d \<Rightarrow> map g_content (ListLogs 1 d) = [''a'', ''b'', ''c''] \<and>
        map g_content (read_back 9 1 0 1 d) = [''a'', ''c''])"
    by code_simp
  then show ?thesis by (auto split: sum.splits)
qed

end
