(* ===== verification/Server_Events.thy ===== *)
theory Server_Events
  imports Paihuo_Prelude
begin

text \<open>
  The event stream: the table \<^verbatim>\<open>event_log\<close> (store/logs_events.go), its publisher
  with live fan-out (events/stream.go) and one connection of a client that follows it
  (server/event_handlers.go). Publishers persist an event before they take the lock under
  which it is broadcast, so several publishers and the connection interleave: a run is a
  sequence of atomic actions, each an executable function of the state.
\<close>

section \<open>Payloads and rows\<close>

text \<open>
  What \<^verbatim>\<open>encoding/json\<close> makes of a payload: a value it can encode, an error text as a
  JSON string, the object that reports a decoding error, or a value (or stored text) that is
  refused with an error.
\<close>

datatype payload = JsonValue string | JsonText string | JsonDecodeError string | NotJson string

record event =
  e_seq :: int
  e_type :: string
  e_task_id :: int
  e_role_id :: int
  e_payload :: payload
  e_created_at :: string

record event_row =
  l_seq :: int
  l_type :: string
  l_task_id :: "int option"
  l_role_id :: "int option"
  l_payload :: payload
  l_created_at :: string

record event_log =
  el_rows :: "event_row list"
  el_last :: int

definition nullif0 :: "int \<Rightarrow> int option" where
  "nullif0 i = (if i = 0 then None else Some i)"

definition coalesce0 :: "int option \<Rightarrow> int" where
  "coalesce0 x = (case x of None \<Rightarrow> 0 | Some i \<Rightarrow> i)"

lemma coalesce0_nullif0 [simp]: "coalesce0 (nullif0 i) = i"
  by (simp add: coalesce0_def nullif0_def)

section \<open>The table (store/logs_events.go)\<close>

definition AppendEvent :: "string \<Rightarrow> event \<Rightarrow> event_log \<Rightarrow> event_log \<times> event" where
  "AppendEvent now e el =
     (let q = max (el_last el) (max_or_zero (map l_seq (el_rows el))) + 1;
          row = \<lparr>l_seq = q, l_type = e_type e, l_task_id = nullif0 (e_task_id e),
                 l_role_id = nullif0 (e_role_id e), l_payload = e_payload e, l_created_at = now\<rparr>
      in (\<lparr>el_rows = el_rows el @ [row], el_last = q\<rparr>, e\<lparr>e_seq := q, e_created_at := now\<rparr>))"

definition event_limit :: "int \<Rightarrow> nat" where
  "event_limit limit = (if limit \<le> 0 \<or> limit > 1000 then 500 else nat limit)"

definition ListEventsAfter :: "int \<Rightarrow> int \<Rightarrow> event_log \<Rightarrow> event_row list" where
  "ListEventsAfter after limit el =
     take (event_limit limit) (sort_key l_seq (filter (\<lambda>r. l_seq r > after) (el_rows el)))"

section \<open>The stream (events/stream.go)\<close>

text \<open>
  \<open>es_store\<close> is \<^verbatim>\<open>nil\<close> in isolated tests; a subscriber is a channel with a buffer of 256.
\<close>

record event_stream =
  es_store :: "event_log option"
  es_subs :: "(nat \<times> event list) list"
  es_memory :: "event list"
  es_next_seq :: int

definition Subscribe :: "nat \<Rightarrow> event_stream \<Rightarrow> event_stream" where
  "Subscribe c st = st\<lparr>es_subs := (c, []) # es_subs st\<rparr>"

definition Unsubscribe :: "nat \<Rightarrow> event_stream \<Rightarrow> event_stream" where
  "Unsubscribe c st = st\<lparr>es_subs := filter (\<lambda>(i, b). i \<noteq> c) (es_subs st)\<rparr>"

text \<open>The first half of \<^verbatim>\<open>Publish\<close>, outside the lock: encoding and persisting.\<close>

definition encodable :: "event \<Rightarrow> event" where
  "encodable e =
     (case e_payload e of
        NotJson err \<Rightarrow> \<lparr>e_seq = 0, e_type = ''error'', e_task_id = 0, e_role_id = 0,
                        e_payload = JsonText err, e_created_at = []\<rparr>
      | _ \<Rightarrow> e)"

definition publish_persist :: "string \<Rightarrow> event \<Rightarrow> event_stream \<Rightarrow> event_stream \<times> event" where
  "publish_persist now e st =
     (case es_store st of
        None \<Rightarrow> (st, encodable e)
      | Some el \<Rightarrow> (case AppendEvent now (encodable e) el of (el', e') \<Rightarrow> (st\<lparr>es_store := Some el'\<rparr>, e')))"

text \<open>The second half, under the lock: the sequence of the memory stream and the fan-out.\<close>

definition sub_buffer :: nat where "sub_buffer = 256"

definition fan_out :: "event \<Rightarrow> (nat \<times> event list) list \<Rightarrow> (nat \<times> event list) list" where
  "fan_out e subs = map (\<lambda>(i, b). (i, if length b < sub_buffer then b @ [e] else b)) subs"

definition trim_memory :: "event list \<Rightarrow> event list" where
  "trim_memory m = (if length m > 2000 then drop (length m - 1000) m else m)"

definition publish_broadcast :: "string \<Rightarrow> event \<Rightarrow> event_stream \<Rightarrow> event_stream" where
  "publish_broadcast now e st =
     (if e_seq e = 0 then
        (let q = es_next_seq st + 1;
             e' = e\<lparr>e_seq := q, e_created_at := (if e_created_at e = [] then now else e_created_at e)\<rparr>
         in st\<lparr>es_next_seq := q, es_memory := trim_memory (es_memory st @ [e']),
               es_subs := fan_out e' (es_subs st)\<rparr>)
      else st\<lparr>es_subs := fan_out e (es_subs st)\<rparr>)"

definition Publish :: "string \<Rightarrow> event \<Rightarrow> event_stream \<Rightarrow> event_stream" where
  "Publish now e st = (case publish_persist now e st of (st', e') \<Rightarrow> publish_broadcast now e' st')"

definition event_of_row :: "event_row \<Rightarrow> event" where
  "event_of_row r = \<lparr>e_seq = l_seq r, e_type = l_type r, e_task_id = coalesce0 (l_task_id r),
     e_role_id = coalesce0 (l_role_id r),
     e_payload = (case l_payload r of NotJson err \<Rightarrow> JsonDecodeError err | p \<Rightarrow> p),
     e_created_at = l_created_at r\<rparr>"

definition History :: "int \<Rightarrow> int \<Rightarrow> event_stream \<Rightarrow> event list" where
  "History q limit st =
     (let lim = int (event_limit limit) in
      (case es_store st of
         Some el \<Rightarrow> map event_of_row (ListEventsAfter q lim el)
       | None \<Rightarrow> take (nat lim) (filter (\<lambda>e. e_seq e > q) (es_memory st))))"

section \<open>A connection (server/event_handlers.go)\<close>

text \<open>\<^verbatim>\<open>strconv.ParseInt(s, 10, 64)\<close>: the value and whether there was no error.\<close>

definition digit_value :: "char \<Rightarrow> int" where
  "digit_value c = int (of_char c) - 48"

definition is_digit :: "char \<Rightarrow> bool" where
  "is_digit c \<longleftrightarrow> 0 \<le> digit_value c \<and> digit_value c \<le> 9"

definition unsigned_digits :: "string \<Rightarrow> int option" where
  "unsigned_digits s =
     (if s \<noteq> [] \<and> list_all is_digit s then Some (foldl (\<lambda>n c. 10 * n + digit_value c) 0 s) else None)"

definition ParseInt :: "string \<Rightarrow> int \<times> bool" where
  "ParseInt s =
     (let neg = has_prefix s ''-''; ds = (if neg \<or> has_prefix s ''+'' then tl s else s) in
      (case unsigned_digits ds of
         None \<Rightarrow> (0, False)
       | Some n \<Rightarrow>
           if neg then (if n > 2 ^ 63 then (- (2 ^ 63), False) else (- n, True))
           else (if n \<ge> 2 ^ 63 then (2 ^ 63 - 1, False) else (n, True))))"

text \<open>Where the client wants to go on: the header \<^verbatim>\<open>Last-Event-ID\<close> and the query \<^verbatim>\<open>after\<close>.\<close>

definition sse_after :: "string \<Rightarrow> string \<Rightarrow> int" where
  "sse_after header query =
     (let a = (if header \<noteq> [] then fst (ParseInt header) else 0) in
      if query \<noteq> [] then (case ParseInt query of (v, ok) \<Rightarrow> if ok \<and> v > a then v else a) else a)"

datatype phase = Connecting | Subscribed | Following | Closed

record conn =
  c_phase :: phase
  c_last :: int
  c_sent :: "event list"

definition backlog_page :: int where "backlog_page = 1000"

definition sse_backlog :: "event_stream \<Rightarrow> conn \<Rightarrow> conn" where
  "sse_backlog st k =
     (let bs = History (c_last k) backlog_page st in
      k\<lparr>c_phase := Following, c_sent := c_sent k @ bs,
         c_last := (if bs = [] then c_last k else e_seq (last bs))\<rparr>)"

definition sse_receive :: "event \<Rightarrow> conn \<Rightarrow> conn" where
  "sse_receive e k = (if e_seq e \<le> c_last k then k else k\<lparr>c_sent := c_sent k @ [e], c_last := e_seq e\<rparr>)"

section \<open>Publishers and a connection together\<close>

text \<open>
  \<open>w_in_flight\<close> holds the events that are persisted and wait for the lock. The connection
  uses the channel number 0.
\<close>

record world =
  w_stream :: event_stream
  w_in_flight :: "event list"
  w_conn :: conn

datatype action =
    Persist string event    \<comment> \<open>a publisher inserts the row of its event\<close>
  | Broadcast nat           \<comment> \<open>a waiting publisher gets the lock\<close>
  | Attach                  \<comment> \<open>the connection subscribes\<close>
  | Catch_up                \<comment> \<open>the connection sends the backlog\<close>
  | Receive                 \<comment> \<open>the connection takes an event from its channel\<close>
  | Detach                  \<comment> \<open>the client is gone or the server stops\<close>

definition chan :: "world \<Rightarrow> event list" where
  "chan w = (case map_of (es_subs (w_stream w)) 0 of None \<Rightarrow> [] | Some b \<Rightarrow> b)"

definition pop_chan :: "event_stream \<Rightarrow> event_stream" where
  "pop_chan st = st\<lparr>es_subs := map (\<lambda>(i, b). (i, if i = 0 then tl b else b)) (es_subs st)\<rparr>"

fun sse_do :: "action \<Rightarrow> world \<Rightarrow> world option" where
  "sse_do (Persist now e) w =
     (case publish_persist now e (w_stream w) of
        (st, e') \<Rightarrow> Some (w\<lparr>w_stream := st, w_in_flight := w_in_flight w @ [e']\<rparr>))"
| "sse_do (Broadcast i) w =
     (if i < length (w_in_flight w) then
        Some (w\<lparr>w_stream := publish_broadcast [] (w_in_flight w ! i) (w_stream w),
                w_in_flight := take i (w_in_flight w) @ drop (Suc i) (w_in_flight w)\<rparr>)
      else None)"
| "sse_do Attach w =
     (if c_phase (w_conn w) = Connecting then
        Some (w\<lparr>w_stream := Subscribe 0 (w_stream w), w_conn := (w_conn w)\<lparr>c_phase := Subscribed\<rparr>\<rparr>)
      else None)"
| "sse_do Catch_up w =
     (if c_phase (w_conn w) = Subscribed then Some (w\<lparr>w_conn := sse_backlog (w_stream w) (w_conn w)\<rparr>) else None)"
| "sse_do Receive w =
     (if c_phase (w_conn w) = Following \<and> chan w \<noteq> [] then
        Some (w\<lparr>w_stream := pop_chan (w_stream w), w_conn := sse_receive (hd (chan w)) (w_conn w)\<rparr>)
      else None)"
| "sse_do Detach w =
     (if c_phase (w_conn w) \<in> {Subscribed, Following} then
        Some (w\<lparr>w_stream := Unsubscribe 0 (w_stream w), w_conn := (w_conn w)\<lparr>c_phase := Closed\<rparr>\<rparr>)
      else None)"

text \<open>A connection opens on any persistent stream; the runs whose actions all satisfy \<open>ok\<close>.\<close>

definition log_valid :: "event_log \<Rightarrow> bool" where
  "log_valid el \<longleftrightarrow> sorted_wrt (<) (map l_seq (el_rows el)) \<and> (\<forall>r\<in>set (el_rows el). 0 < l_seq r \<and> l_seq r \<le> el_last el) \<and>
     0 \<le> el_last el"

definition opened :: "int \<Rightarrow> event_log \<Rightarrow> world" where
  "opened after el = \<lparr>w_stream = \<lparr>es_store = Some el, es_subs = [], es_memory = [], es_next_seq = 0\<rparr>, w_in_flight = [],
     w_conn = \<lparr>c_phase = Connecting, c_last = after, c_sent = []\<rparr>\<rparr>"

inductive sse_run :: "(action \<Rightarrow> world \<Rightarrow> bool) \<Rightarrow> int \<Rightarrow> event_log \<Rightarrow> world \<Rightarrow> bool"
  for ok and after and el where
  begins: "log_valid el \<Longrightarrow> sse_run ok after el (opened after el)"
| acts: "sse_run ok after el w \<Longrightarrow> ok a w \<Longrightarrow> sse_do a w = Some w' \<Longrightarrow> sse_run ok after el w'"

fun sse_acts :: "action list \<Rightarrow> world \<Rightarrow> world option" where
  "sse_acts [] w = Some w"
| "sse_acts (a # as) w = (case sse_do a w of None \<Rightarrow> None | Some w' \<Rightarrow> sse_acts as w')"

lemma sse_acts_run:
  "sse_run (\<lambda>_ _. True) after el w \<Longrightarrow> sse_acts as w = Some w' \<Longrightarrow> sse_run (\<lambda>_ _. True) after el w'"
  by (induction as arbitrary: w) (auto split: option.splits intro: sse_run.acts)

section \<open>Persisting and reading back\<close>

definition events_of :: "event_log \<Rightarrow> event list" where
  "events_of el = map event_of_row (el_rows el)"

abbreviation ascending :: "event list \<Rightarrow> bool" where
  "ascending es \<equiv> sorted_wrt (\<lambda>x y. e_seq x < e_seq y) es"

lemma e_seq_row [simp]: "e_seq (event_of_row r) = l_seq r"
  by (simp add: event_of_row_def)

lemma log_valid_ascending: "log_valid el \<Longrightarrow> ascending (events_of el)"
  by (simp add: log_valid_def events_of_def sorted_wrt_map)

lemma log_valid_bounds: "log_valid el \<Longrightarrow> e \<in> set (events_of el) \<Longrightarrow> 0 < e_seq e \<and> e_seq e \<le> el_last el"
  by (auto simp: log_valid_def events_of_def)

lemma log_valid_top: "log_valid el \<Longrightarrow> max (el_last el) (max_or_zero (map l_seq (el_rows el))) = el_last el"
proof -
  assume "log_valid el"
  then have "max_or_zero (map l_seq (el_rows el)) \<le> el_last el"
    by (auto simp: log_valid_def max_or_zero_def)
  then show ?thesis by (simp add: max_def)
qed

lemma AppendEvent_row:
  assumes "log_valid el" and "AppendEvent now (encodable e) el = (el', e')"
  shows "log_valid el' \<and> events_of el' = events_of el @ [e'] \<and> e_seq e' = el_last el + 1 \<and> el_last el' = el_last el + 1"
proof -
  have payload: "(case e_payload (encodable e) of NotJson err \<Rightarrow> JsonDecodeError err | p \<Rightarrow> p) = e_payload (encodable e)"
    by (simp add: encodable_def split: payload.splits)
  have "log_valid el'"
    using assms log_valid_top [OF assms(1)]
    by (force simp: AppendEvent_def Let_def log_valid_def sorted_wrt_append)
  moreover have "events_of el' = events_of el @ [e']"
    using assms(2) payload by (auto simp: AppendEvent_def Let_def events_of_def event_of_row_def)
  ultimately show ?thesis
    using assms(2) log_valid_top [OF assms(1)] by (auto simp: AppendEvent_def Let_def)
qed

lemma History_backlog:
  assumes "log_valid el" and "es_store st = Some el"
  shows "History q backlog_page st = take 1000 (filter (\<lambda>e. e_seq e > q) (events_of el))"
proof -
  have lim: "event_limit backlog_page = 1000" "event_limit 1000 = 1000"
    by (simp_all add: event_limit_def backlog_page_def)
  have "sorted_wrt (\<lambda>x y. l_seq x < l_seq y) (filter (\<lambda>r. l_seq r > q) (el_rows el))"
    using assms(1) by (simp add: log_valid_def sorted_wrt_map sorted_wrt_filter)
  then have "sorted (map l_seq (filter (\<lambda>r. l_seq r > q) (el_rows el)))"
    by (simp add: sorted_wrt_map sorted_wrt_mono_rel [of _ "\<lambda>x y. l_seq x < l_seq y"])
  then have "sort_key l_seq (filter (\<lambda>r. l_seq r > q) (el_rows el)) = filter (\<lambda>r. l_seq r > q) (el_rows el)"
    by (rule sort_key_id_if_sorted)
  then show ?thesis
    using assms(2) by (simp add: History_def ListEventsAfter_def lim events_of_def take_map filter_map comp_def)
qed

section \<open>The channel of the connection\<close>

lemma map_of_map_values: "map_of (map (\<lambda>(i, b). (i, f i b)) xs) k = map_option (f k) (map_of xs k)"
  by (induction xs) auto

definition store_of :: "world \<Rightarrow> event_log" where
  "store_of w = the (es_store (w_stream w))"

lemma chan_fan_out:
  "chan (w\<lparr>w_stream := (w_stream w)\<lparr>es_subs := fan_out e (es_subs (w_stream w))\<rparr>\<rparr>) =
     (if map_of (es_subs (w_stream w)) 0 = None then []
      else if length (chan w) < sub_buffer then chan w @ [e] else chan w)"
  by (simp add: chan_def fan_out_def map_of_map_values split: option.splits)

lemma chan_pop: "chan (w\<lparr>w_stream := pop_chan (w_stream w)\<rparr>) = tl (chan w)"
proof -
  have "map_of (map (\<lambda>(i, b). (i, if i = 0 then tl b else b)) (es_subs (w_stream w))) 0 = map_option tl (map_of (es_subs (w_stream w)) 0)"
    by (subst map_of_map_values) simp
  then show ?thesis by (simp add: chan_def pop_chan_def split: option.splits)
qed

lemma chan_subscribe: "chan (w\<lparr>w_stream := Subscribe 0 (w_stream w)\<rparr>) = []"
  by (simp add: chan_def Subscribe_def)

lemma chan_unsubscribe: "chan (w\<lparr>w_stream := Unsubscribe 0 (w_stream w)\<rparr>) = []"
proof -
  have "map_of (filter (\<lambda>(i, b). i \<noteq> (0::nat)) xs) 0 = (None :: event list option)" for xs
    by (induction xs) auto
  then show ?thesis by (simp add: chan_def Unsubscribe_def)
qed

section \<open>What every run keeps\<close>

definition sound :: "int \<Rightarrow> world \<Rightarrow> bool" where
  "sound after w \<longleftrightarrow>
     es_store (w_stream w) = Some (store_of w) \<and> log_valid (store_of w) \<and>
     set (w_in_flight w) \<union> set (chan w) \<union> set (c_sent (w_conn w)) \<subseteq> set (events_of (store_of w)) \<and>
     ascending (c_sent (w_conn w)) \<and> (\<forall>e\<in>set (c_sent (w_conn w)). after < e_seq e \<and> e_seq e \<le> c_last (w_conn w)) \<and>
     (c_last (w_conn w) = after \<or> c_last (w_conn w) \<in> e_seq ` set (c_sent (w_conn w))) \<and>
     (c_phase (w_conn w) \<in> {Connecting, Subscribed} \<longrightarrow> c_sent (w_conn w) = [] \<and> c_last (w_conn w) = after)"

lemma sound_opened: "log_valid el \<Longrightarrow> sound after (opened after el)"
  by (simp add: sound_def opened_def store_of_def chan_def)

lemma broadcast_persisted:
  "e_seq e \<noteq> 0 \<Longrightarrow> publish_broadcast now e st = st\<lparr>es_subs := fan_out e (es_subs st)\<rparr>"
  by (simp add: publish_broadcast_def)

lemma store_of_simps [simp]:
  "store_of (w\<lparr>w_conn := k\<rparr>) = store_of w"
  "store_of (w\<lparr>w_in_flight := f\<rparr>) = store_of w"
  "store_of (w\<lparr>w_stream := (w_stream w)\<lparr>es_subs := s\<rparr>\<rparr>) = store_of w"
  "store_of (w\<lparr>w_stream := st\<rparr>) = the (es_store st)"
  by (simp_all add: store_of_def)

lemma chan_simps [simp]:
  "chan (w\<lparr>w_conn := k\<rparr>) = chan w"
  "chan (w\<lparr>w_in_flight := f\<rparr>) = chan w"
  "chan (w\<lparr>w_stream := (w_stream w)\<lparr>es_store := s\<rparr>\<rparr>) = chan w"
  by (simp_all add: chan_def)

lemma persist_world:
  assumes "sound after w" and "sse_do (Persist now e) w = Some w'"
  obtains e' where "w_in_flight w' = w_in_flight w @ [e']" and "chan w' = chan w" and "w_conn w' = w_conn w"
    and "es_subs (w_stream w') = es_subs (w_stream w)" and "es_store (w_stream w') = Some (store_of w')"
    and "log_valid (store_of w')" and "events_of (store_of w') = events_of (store_of w) @ [e']"
    and "e_seq e' = el_last (store_of w) + 1"
proof -
  obtain el' e' where app: "AppendEvent now (encodable e) (store_of w) = (el', e')" by fastforce
  have st: "es_store (w_stream w) = Some (store_of w)" and val: "log_valid (store_of w)"
    using assms(1) by (simp_all add: sound_def)
  then have "w' = w\<lparr>w_stream := (w_stream w)\<lparr>es_store := Some el'\<rparr>, w_in_flight := w_in_flight w @ [e']\<rparr>"
    using assms(2) app by (simp add: publish_persist_def)
  moreover note AppendEvent_row [OF val app]
  ultimately show thesis by (intro that [of e']) simp_all
qed

lemma broadcast_world:
  assumes "sound after w" and "sse_do (Broadcast i) w = Some w'"
  shows "i < length (w_in_flight w) \<and> w_conn w' = w_conn w \<and> es_store (w_stream w') = es_store (w_stream w) \<and>
     w_in_flight w' = take i (w_in_flight w) @ drop (Suc i) (w_in_flight w) \<and>
     (map_of (es_subs (w_stream w')) 0 = None) = (map_of (es_subs (w_stream w)) 0 = None) \<and>
     chan w' = (if map_of (es_subs (w_stream w)) 0 = None then []
       else if length (chan w) < sub_buffer then chan w @ [w_in_flight w ! i] else chan w)"
proof -
  have i: "i < length (w_in_flight w)" using assms(2) by (simp split: if_splits)
  then have "w_in_flight w ! i \<in> set (events_of (store_of w))"
    using assms(1) nth_mem by (auto simp: sound_def)
  then have "0 < e_seq (w_in_flight w ! i)" using assms(1) log_valid_bounds by (auto simp: sound_def)
  then have "w' = w\<lparr>w_stream := (w_stream w)\<lparr>es_subs := fan_out (w_in_flight w ! i) (es_subs (w_stream w))\<rparr>,
      w_in_flight := take i (w_in_flight w) @ drop (Suc i) (w_in_flight w)\<rparr>"
    using assms(2) i by (simp add: broadcast_persisted)
  then show ?thesis using i by (simp add: chan_fan_out) (simp add: fan_out_def map_of_map_values)
qed

lemma conn_world:
  assumes "sse_do a w = Some w'" and "a \<in> {Attach, Catch_up, Receive, Detach}"
  shows "w_in_flight w' = w_in_flight w \<and> es_store (w_stream w') = es_store (w_stream w)"
  using assms by (auto simp: Subscribe_def Unsubscribe_def pop_chan_def split: if_splits)

lemma ascending_last: "ascending es \<Longrightarrow> e \<in> set es \<Longrightarrow> e_seq e \<le> e_seq (last es)"
  by (induction es) (auto simp: less_imp_le)

lemma sound_receive:
  assumes "sound after w" and "c_phase (w_conn w) = Following" and "e \<in> set (events_of (store_of w))"
    and "store_of w' = store_of w" and "es_store (w_stream w') = es_store (w_stream w)"
    and "w_in_flight w' = w_in_flight w" and "set (chan w') \<subseteq> set (chan w)" and "w_conn w' = sse_receive e (w_conn w)"
  shows "sound after w'"
proof (cases "e_seq e \<le> c_last (w_conn w)")
  case True
  then show ?thesis using assms by (auto simp: sound_def sse_receive_def)
next
  case False
  then have "after < e_seq e" using assms(1) by (auto simp: sound_def)
  moreover have "\<And>x. x \<in> set (c_sent (w_conn w)) \<Longrightarrow> e_seq x < e_seq e" using False assms(1) by (force simp: sound_def)
  ultimately show ?thesis using assms False by (auto simp: sound_def sse_receive_def sorted_wrt_append less_imp_le)
qed

lemma sound_catch_up:
  assumes "sound after w" and "ascending bs" and "set bs \<subseteq> {e \<in> set (events_of (store_of w)). after < e_seq e}"
    and "w_stream w' = w_stream w" and "w_in_flight w' = w_in_flight w"
    and "w_conn w' = (w_conn w)\<lparr>c_phase := Following, c_sent := bs, c_last := (if bs = [] then after else e_seq (last bs))\<rparr>"
  shows "sound after w'"
proof -
  have "store_of w' = store_of w" "chan w' = chan w" using assms(4) by (simp_all add: store_of_def chan_def)
  moreover have "\<And>e. e \<in> set bs \<Longrightarrow> e_seq e \<le> e_seq (last bs)" using assms(2) by (rule ascending_last)
  ultimately show ?thesis using assms by (cases "bs = []") (auto simp: sound_def)
qed

lemma sound_step:
  assumes "sound after w" and "sse_do a w = Some w'"
  shows "sound after w'"
proof (cases a)
  case (Persist now e)
  from persist_world [OF assms(1) assms(2) [unfolded Persist]] obtain e' where
    e': "w_in_flight w' = w_in_flight w @ [e']" "chan w' = chan w" "w_conn w' = w_conn w"
      "es_store (w_stream w') = Some (store_of w')" "log_valid (store_of w')"
      "events_of (store_of w') = events_of (store_of w) @ [e']" by metis
  have "set (w_in_flight w) \<union> set (chan w) \<union> set (c_sent (w_conn w)) \<subseteq> set (events_of (store_of w))"
    using assms(1) by (simp add: sound_def)
  then have "set (w_in_flight w') \<union> set (chan w') \<union> set (c_sent (w_conn w')) \<subseteq> set (events_of (store_of w'))"
    using e' by auto
  then show ?thesis using assms(1) e'(3-5) by (simp add: sound_def)
next
  case (Broadcast i)
  note b = broadcast_world [OF assms(1) assms(2) [unfolded Broadcast]]
  then have "store_of w' = store_of w" by (simp add: store_of_def)
  moreover have "set (w_in_flight w') \<subseteq> set (w_in_flight w)"
    using b by (auto dest: in_set_takeD in_set_dropD)
  moreover have "set (chan w') \<subseteq> set (chan w) \<union> set (w_in_flight w)" using b by auto
  ultimately show ?thesis using assms(1) b by (auto simp: sound_def)
next
  case Attach
  then have "chan w' = []" "c_sent (w_conn w') = c_sent (w_conn w)" "c_last (w_conn w') = c_last (w_conn w)"
    "c_phase (w_conn w) = Connecting" "c_phase (w_conn w') = Subscribed"
    using assms(2) by (auto simp: chan_subscribe split: if_splits)
  then show ?thesis using assms conn_world [OF assms(2)] Attach by (simp add: sound_def store_of_def)
next
  case Catch_up
  let ?bs = "take 1000 (filter (\<lambda>e. e_seq e > after) (events_of (store_of w)))"
  have ph: "c_phase (w_conn w) = Subscribed" and w': "w' = w\<lparr>w_conn := sse_backlog (w_stream w) (w_conn w)\<rparr>"
    using assms(2) Catch_up by (simp_all split: if_splits)
  have none: "c_sent (w_conn w) = []" "c_last (w_conn w) = after" using assms(1) ph by (simp_all add: sound_def)
  have hist: "History after backlog_page (w_stream w) = ?bs"
    using assms(1) by (intro History_backlog) (simp_all add: sound_def)
  have asc: "ascending ?bs"
    using assms(1) by (auto simp: sound_def intro!: sorted_wrt_take sorted_wrt_filter log_valid_ascending)
  have sub: "set ?bs \<subseteq> {e \<in> set (events_of (store_of w)). after < e_seq e}" by (auto dest: in_set_takeD)
  have "w_conn w' = (w_conn w)\<lparr>c_phase := Following, c_sent := ?bs,
      c_last := (if ?bs = [] then after else e_seq (last ?bs))\<rparr>"
    unfolding w' sse_backlog_def none hist Let_def by simp
  then show ?thesis by (intro sound_catch_up [OF assms(1) asc sub]) (simp_all add: w')
next
  case Receive
  have ph: "c_phase (w_conn w) = Following" and ne: "chan w \<noteq> []"
    and w': "w' = w\<lparr>w_stream := pop_chan (w_stream w), w_conn := sse_receive (hd (chan w)) (w_conn w)\<rparr>"
    using assms(2) Receive by (simp_all split: if_splits)
  have pop: "set (chan w') \<subseteq> set (chan w)"
    using w' chan_pop [of w] ne by (auto intro: list.set_sel(2))
  have "set (chan w) \<subseteq> set (events_of (store_of w))" using assms(1) by (simp add: sound_def)
  then have mem: "hd (chan w) \<in> set (events_of (store_of w))" using ne by (simp add: subset_iff)
  have same: "es_store (w_stream w') = es_store (w_stream w)" "w_in_flight w' = w_in_flight w"
    using conn_world [OF assms(2)] Receive by simp_all
  then have "store_of w' = store_of w" by (simp add: store_of_def)
  moreover have "w_conn w' = sse_receive (hd (chan w)) (w_conn w)" using w' by simp
  ultimately show ?thesis using sound_receive [OF assms(1) ph mem] same pop by blast
next
  case Detach
  then have "chan w' = []" "c_sent (w_conn w') = c_sent (w_conn w)" "c_last (w_conn w') = c_last (w_conn w)"
    "c_phase (w_conn w') = Closed"
    using assms(2) by (auto simp: chan_unsubscribe split: if_splits)
  then show ?thesis using assms conn_world [OF assms(2)] Detach by (simp add: sound_def store_of_def)
qed

lemma sound_run: "sse_run ok after el w \<Longrightarrow> sound after w"
  by (induction rule: sse_run.induct) (auto intro: sound_opened sound_step)

section \<open>Runs in which nothing can be lost\<close>

text \<open>
  An orderly run: the waiting publishers broadcast in the order of their rows, the channel has
  room, and no more than a page of events is newer than the place where the client goes on.
\<close>

fun orderly :: "int \<Rightarrow> action \<Rightarrow> world \<Rightarrow> bool" where
  "orderly after (Broadcast i) w = (i = 0 \<and> length (chan w) < sub_buffer)"
| "orderly after Catch_up w = (length (filter (\<lambda>e. after < e_seq e) (events_of (store_of w))) \<le> nat backlog_page)"
| "orderly after a w = True"

definition exact :: "int \<Rightarrow> world \<Rightarrow> bool" where
  "exact after w \<longleftrightarrow>
     (\<exists>pre. events_of (store_of w) = pre @ chan w @ w_in_flight w) \<and>
     (map_of (es_subs (w_stream w)) 0 = None) = (c_phase (w_conn w) \<in> {Connecting, Closed}) \<and>
     (c_phase (w_conn w) = Following \<longrightarrow>
        c_sent (w_conn w) @ filter (\<lambda>e. c_last (w_conn w) < e_seq e) (chan w @ w_in_flight w) =
        filter (\<lambda>e. after < e_seq e) (events_of (store_of w)))"

lemma exact_no_chan: "exact after w \<Longrightarrow> c_phase (w_conn w) \<in> {Connecting, Closed} \<Longrightarrow> chan w = []"
  by (simp add: exact_def chan_def)

lemma exact_persist:
  assumes "sound after w" and "exact after w" and "sse_do (Persist now e) w = Some w'"
  shows "exact after w'"
proof -
  obtain e' where e': "w_in_flight w' = w_in_flight w @ [e']" "chan w' = chan w" "w_conn w' = w_conn w"
      "es_subs (w_stream w') = es_subs (w_stream w)" "events_of (store_of w') = events_of (store_of w) @ [e']"
      "e_seq e' = el_last (store_of w) + 1"
    using persist_world [OF assms(1,3)] by metis
  have "(c_last (w_conn w) < e_seq e') = (after < e_seq e')"
  proof -
    have "c_last (w_conn w) = after \<or> (\<exists>x\<in>set (events_of (store_of w)). c_last (w_conn w) = e_seq x \<and> after < e_seq x)"
      using assms(1) by (auto simp: sound_def)
    then show ?thesis using log_valid_bounds assms(1) e'(6) by (fastforce simp: sound_def)
  qed
  then show ?thesis using assms(2) e' by (auto simp: exact_def)
qed

lemma exact_broadcast:
  assumes "sound after w" and "exact after w" and "sse_do (Broadcast i) w = Some w'" and "orderly after (Broadcast i) w"
  shows "exact after w'"
proof -
  note b = broadcast_world [OF assms(1,3)]
  then obtain e f where f: "w_in_flight w = e # f" using assms(4) by (cases "w_in_flight w") auto
  have st: "store_of w' = store_of w" using b by (simp add: store_of_def)
  show ?thesis
  proof (cases "map_of (es_subs (w_stream w)) 0 = None")
    case True
    then have "chan w = []" by (simp add: chan_def)
    with True show ?thesis using assms(2,4) b f st by (auto simp: exact_def)
  next
    case False
    then show ?thesis using assms(2,4) b f st by (auto simp: exact_def)
  qed
qed

lemma exact_catch_up:
  assumes "sound after w" and "exact after w" and "sse_do Catch_up w = Some w'" and "orderly after Catch_up w"
  shows "exact after w'"
proof -
  let ?new = "filter (\<lambda>e. after < e_seq e) (events_of (store_of w))"
  have ph: "c_phase (w_conn w) = Subscribed" and w': "w' = w\<lparr>w_conn := sse_backlog (w_stream w) (w_conn w)\<rparr>"
    using assms(3) by (simp_all split: if_splits)
  have none: "c_sent (w_conn w) = []" "c_last (w_conn w) = after" using assms(1) ph by (simp_all add: sound_def)
  have "History after backlog_page (w_stream w) = take 1000 ?new"
    using assms(1) by (intro History_backlog) (simp_all add: sound_def)
  also have "... = ?new" using assms(4) by (simp add: backlog_page_def)
  finally have hist: "History after backlog_page (w_stream w) = ?new" .
  have conn: "w_conn w' = (w_conn w)\<lparr>c_phase := Following, c_sent := ?new,
      c_last := (if ?new = [] then after else e_seq (last ?new))\<rparr>"
    unfolding w' sse_backlog_def none hist Let_def by simp
  have asc: "ascending ?new"
    using assms(1) by (auto simp: sound_def intro!: sorted_wrt_filter log_valid_ascending)
  have "e_seq e \<le> c_last (w_conn w')" if "e \<in> set (events_of (store_of w))" for e
  proof (cases "?new = []")
    case True
    then show ?thesis using that by (auto simp: conn filter_empty_conv not_less)
  next
    case False
    then have "c_last (w_conn w') = e_seq (last ?new)" unfolding conn by simp
    moreover have "last ?new \<in> set ?new" using False by (rule last_in_set)
    ultimately show ?thesis
      using that ascending_last [OF asc, of e] by (cases "after < e_seq e") auto
  qed
  moreover have "set (chan w @ w_in_flight w) \<subseteq> set (events_of (store_of w))" using assms(1) by (simp add: sound_def)
  ultimately have "filter (\<lambda>e. c_last (w_conn w') < e_seq e) (chan w @ w_in_flight w) = []"
    by (fastforce simp: filter_empty_conv)
  then show ?thesis
    using assms(2) ph by (simp add: exact_def w') (simp add: conn [unfolded w', simplified])
qed

lemma exact_receive:
  assumes "sound after w" and "exact after w" and "sse_do Receive w = Some w'"
  shows "exact after w'"
proof -
  have ph: "c_phase (w_conn w) = Following" and ne: "chan w \<noteq> []"
    and w': "w' = w\<lparr>w_stream := pop_chan (w_stream w), w_conn := sse_receive (hd (chan w)) (w_conn w)\<rparr>"
    using assms(3) by (simp_all split: if_splits)
  obtain e c where c: "chan w = e # c" using ne by (cases "chan w") auto
  have "chan w' = c" using w' chan_pop [of w] c by simp
  moreover have same: "store_of w' = store_of w" "w_in_flight w' = w_in_flight w"
    using conn_world [OF assms(3)] by (simp_all add: store_of_def)
  moreover have "(map_of (es_subs (w_stream w')) 0 = None) = (map_of (es_subs (w_stream w)) 0 = None)"
    by (simp add: w' pop_chan_def map_of_map_values)
  moreover have conn: "w_conn w' = sse_receive e (w_conn w)" using w' c by simp
  moreover have "\<forall>x\<in>set (c @ w_in_flight w). e_seq e < e_seq x"
  proof -
    obtain pre where "events_of (store_of w) = pre @ (e # c) @ w_in_flight w" using assms(2) c by (auto simp: exact_def)
    moreover have "ascending (events_of (store_of w))" using assms(1) by (simp add: sound_def log_valid_ascending)
    ultimately show ?thesis by (auto simp: sorted_wrt_append)
  qed
  then have "\<not> e_seq e \<le> c_last (w_conn w) \<Longrightarrow>
      filter (\<lambda>x. c_last (w_conn w) < e_seq x) (c @ w_in_flight w) = filter (\<lambda>x. e_seq e < e_seq x) (c @ w_in_flight w)"
    by (intro filter_cong) (auto simp: not_le intro: less_trans)
  ultimately show ?thesis
    using assms(2) ph c by (auto simp: exact_def sse_receive_def simp del: filter_append)
qed

lemma exact_step:
  assumes "sound after w" and "exact after w" and "sse_do a w = Some w'" and "orderly after a w"
  shows "exact after w'"
proof (cases a)
  case (Persist now e)
  then show ?thesis using assms exact_persist by blast
next
  case (Broadcast i)
  then show ?thesis using assms exact_broadcast by blast
next
  case Attach
  then have "chan w = []" using assms exact_no_chan by (auto split: if_splits)
  moreover have "chan w' = []" using assms(3) Attach by (auto simp: chan_subscribe split: if_splits)
  ultimately show ?thesis using assms Attach by (auto simp: exact_def Subscribe_def store_of_def split: if_splits)
next
  case Catch_up
  then show ?thesis using assms exact_catch_up by blast
next
  case Receive
  then show ?thesis using assms exact_receive by blast
next
  case Detach
  have "map_of (filter (\<lambda>(i, b). i \<noteq> (0::nat)) xs) 0 = (None :: event list option)" for xs
    by (induction xs) auto
  moreover obtain pre where "events_of (store_of w) = (pre @ chan w) @ w_in_flight w"
    using assms(2) by (auto simp: exact_def)
  moreover have "chan w' = []" using assms(3) Detach by (auto simp: chan_unsubscribe split: if_splits)
  ultimately show ?thesis
    using assms Detach by (auto simp: exact_def Unsubscribe_def store_of_def split: if_splits)
qed

lemma exact_opened: "exact after (opened after el)"
  by (simp add: exact_def opened_def store_of_def chan_def)

lemma exact_run:
  assumes "\<And>a v. ok a v \<Longrightarrow> orderly after a v"
  shows "sse_run ok after el w \<Longrightarrow> exact after w"
proof (induction rule: sse_run.induct)
  case begins
  show ?case by (rule exact_opened)
next
  case (acts w a w')
  then show ?case using assms sound_run by (blast intro: exact_step)
qed

text \<open>
  C21. A client that follows the stream gets events it has not seen, in the order of their
  numbers and each at most once, whatever the interleaving of publishers and connection. If
  the broadcasts keep the order of the rows, the channel has room and the backlog fits a page,
  it gets all of them: what was sent, followed by what is still on its way, is exactly the
  list of the events after the place where the client went on.
\<close>

theorem sse_follows_log:
  assumes "sse_run ok after el w"
  shows "ascending (c_sent (w_conn w)) \<and>
    (\<forall>e\<in>set (c_sent (w_conn w)). after < e_seq e \<and> e \<in> set (events_of (store_of w))) \<and>
    ((\<forall>a v. ok a v \<longrightarrow> orderly after a v) \<and> c_phase (w_conn w) = Following \<longrightarrow>
       c_sent (w_conn w) @ filter (\<lambda>e. c_last (w_conn w) < e_seq e) (chan w @ w_in_flight w) =
       filter (\<lambda>e. after < e_seq e) (events_of (store_of w)))"
proof (intro conjI impI)
  note inv = sound_run [OF assms]
  then show "ascending (c_sent (w_conn w))" by (simp add: sound_def)
  show "\<forall>e\<in>set (c_sent (w_conn w)). after < e_seq e \<and> e \<in> set (events_of (store_of w))"
    using inv by (auto simp: sound_def)
  assume "(\<forall>a v. ok a v \<longrightarrow> orderly after a v) \<and> c_phase (w_conn w) = Following"
  moreover from this have "exact after w" using assms exact_run by blast
  ultimately show "c_sent (w_conn w) @ filter (\<lambda>e. c_last (w_conn w) < e_seq e) (chan w @ w_in_flight w) =
       filter (\<lambda>e. after < e_seq e) (events_of (store_of w))"
    by (simp add: exact_def)
qed

section \<open>Examples\<close>

definition demo_event :: "string \<Rightarrow> event" where
  "demo_event x = \<lparr>e_seq = 0, e_type = ''log'', e_task_id = 1, e_role_id = 0, e_payload = JsonValue x, e_created_at = []\<rparr>"

definition demo_rows :: "nat \<Rightarrow> event_log" where
  "demo_rows n = \<lparr>el_rows = map (\<lambda>i. \<lparr>l_seq = int i + 1, l_type = ''log'', l_task_id = Some 1, l_role_id = None,
       l_payload = JsonValue ''1'', l_created_at = ''t''\<rparr>) [0..<n], el_last = int n\<rparr>"

lemma demo_rows_valid: "log_valid (demo_rows n)"
proof -
  have "sorted_wrt (\<lambda>x y. int x + 1 \<le> int y) [0..<n]"
    by (rule sorted_wrt_mono_rel [OF _ sorted_wrt_upt]) auto
  then show ?thesis by (auto simp: log_valid_def demo_rows_def sorted_wrt_map)
qed

definition demo_follow :: "action list" where
  "demo_follow = [Attach, Persist ''t'' (demo_event ''2''), Catch_up, Broadcast 0, Persist ''t'' (demo_event ''3''), Broadcast 0,
     Receive, Receive]"

fun all_ok :: "(action \<Rightarrow> world \<Rightarrow> bool) \<Rightarrow> action list \<Rightarrow> world \<Rightarrow> bool" where
  "all_ok ok [] w = True"
| "all_ok ok (a # as) w = (ok a w \<and> (case sse_do a w of None \<Rightarrow> False | Some w' \<Rightarrow> all_ok ok as w'))"

lemma all_ok_run:
  "sse_run ok after el w \<Longrightarrow> all_ok ok as w \<Longrightarrow> \<exists>w'. sse_acts as w = Some w' \<and> sse_run ok after el w'"
  by (induction as arbitrary: w) (auto split: option.splits intro: sse_run.acts)

theorem sse_follows_log_witness:
  "\<exists>w. sse_acts demo_follow (opened 0 (demo_rows 1)) = Some w \<and> chan w = [] \<and> w_in_flight w = [] \<and>
     c_sent (w_conn w) = filter (\<lambda>e. 0 < e_seq e) (events_of (store_of w)) \<and> map e_seq (c_sent (w_conn w)) = [1, 2, 3]"
proof -
  have "all_ok (orderly 0) demo_follow (opened 0 (demo_rows 1))" by code_simp
  then obtain w where w: "sse_acts demo_follow (opened 0 (demo_rows 1)) = Some w" and run: "sse_run (orderly 0) 0 (demo_rows 1) w"
    using all_ok_run [OF sse_run.begins [OF demo_rows_valid]] by blast
  have "(case sse_acts demo_follow (opened 0 (demo_rows 1)) of None \<Rightarrow> False
     | Some w \<Rightarrow> chan w = [] \<and> w_in_flight w = [] \<and> map e_seq (c_sent (w_conn w)) = [1, 2, 3] \<and> c_phase (w_conn w) = Following)"
    by code_simp
  then have "chan w = [] \<and> w_in_flight w = [] \<and> map e_seq (c_sent (w_conn w)) = [1, 2, 3] \<and> c_phase (w_conn w) = Following"
    unfolding w option.case .
  moreover from this have "c_sent (w_conn w) @ filter (\<lambda>e. c_last (w_conn w) < e_seq e) (chan w @ w_in_flight w) =
      filter (\<lambda>e. 0 < e_seq e) (events_of (store_of w))"
    using sse_follows_log [OF run] by blast
  ultimately show ?thesis using w by (metis append_Nil2 filter.simps(1) self_append_conv)
qed

text \<open>
  The comment of \<^verbatim>\<open>EventStream\<close> promises that a subscriber that missed notifications
  recovers with the last number it saw. It does not: once a later event was sent, the number
  has passed the lost one. Two publishers that get the lock in the other order are enough,
\<close>

lemma overtaken_event_lost:
  "case sse_acts [Attach, Catch_up, Persist ''t'' (demo_event ''1''), Persist ''t'' (demo_event ''2''),
       Broadcast 1, Broadcast 0, Receive, Receive] (opened 0 (demo_rows 0)) of None \<Rightarrow> False
   | Some w \<Rightarrow> map e_seq (events_of (store_of w)) = [1, 2] \<and> map e_seq (c_sent (w_conn w)) = [2] \<and>
       History (c_last (w_conn w)) 1000 (w_stream w) = []"
  by code_simp

text \<open>
  and so is a client that was away for more than a page of events: what is neither sent nor on
  its way when the backlog has been sent is never sent.
\<close>

definition missed :: "event \<Rightarrow> world \<Rightarrow> bool" where
  "missed x w \<longleftrightarrow> sound 0 w \<and> c_phase (w_conn w) \<in> {Following, Closed} \<and> x \<in> set (events_of (store_of w)) \<and>
     x \<notin> set (chan w) \<union> set (w_in_flight w) \<union> set (c_sent (w_conn w))"

lemma missed_step:
  assumes "missed x w" and "sse_do a w = Some w'"
  shows "missed x w'"
proof -
  have snd: "sound 0 w" using assms(1) by (simp add: missed_def)
  note snd' = sound_step [OF snd assms(2)]
  show ?thesis
  proof (cases a)
    case (Persist now e)
    obtain e' where e': "w_in_flight w' = w_in_flight w @ [e']" "chan w' = chan w" "w_conn w' = w_conn w"
        "events_of (store_of w') = events_of (store_of w) @ [e']" "e_seq e' = el_last (store_of w) + 1"
      using persist_world [OF snd assms(2) [unfolded Persist]] by metis
    then have "e' \<noteq> x" using assms(1) log_valid_bounds [of "store_of w" x] snd by (auto simp: missed_def sound_def)
    then show ?thesis using assms(1) e' snd' by (simp add: missed_def)
  next
    case (Broadcast i)
    note b = broadcast_world [OF snd assms(2) [unfolded Broadcast]]
    then have "store_of w' = store_of w" by (simp add: store_of_def)
    moreover have "x \<notin> set (w_in_flight w')" using b assms(1) by (auto simp: missed_def dest: in_set_takeD in_set_dropD)
    moreover have "w_in_flight w ! i \<noteq> x" using b assms(1) nth_mem by (auto simp: missed_def)
    ultimately show ?thesis using assms(1) b snd' by (auto simp: missed_def)
  next
    case Receive
    have ne: "chan w \<noteq> []" and w': "w' = w\<lparr>w_stream := pop_chan (w_stream w), w_conn := sse_receive (hd (chan w)) (w_conn w)\<rparr>"
      using assms(2) Receive by (simp_all split: if_splits)
    have "set (chan w') \<subseteq> set (chan w)" using w' chan_pop [of w] ne by (auto intro: list.set_sel(2))
    moreover have "hd (chan w) \<noteq> x" using ne assms(1) list.set_sel(1) by (auto simp: missed_def)
    moreover have "w_conn w' = sse_receive (hd (chan w)) (w_conn w)" using w' by simp
    moreover have "store_of w' = store_of w" "w_in_flight w' = w_in_flight w"
      using conn_world [OF assms(2)] Receive by (simp_all add: store_of_def)
    ultimately show ?thesis using assms(1) snd' by (auto simp: missed_def sse_receive_def)
  next
    case Detach
    then have "chan w' = []" using assms(2) by (auto simp: chan_unsubscribe split: if_splits)
    moreover have "store_of w' = store_of w" "w_in_flight w' = w_in_flight w"
      using conn_world [OF assms(2)] Detach by (simp_all add: store_of_def)
    ultimately show ?thesis using assms Detach snd' by (auto simp: missed_def split: if_splits)
  qed (use assms in \<open>auto simp: missed_def split: if_splits\<close>)
qed

lemma missed_stays: "missed x w \<Longrightarrow> sse_acts as w = Some w' \<Longrightarrow> missed x w'"
  by (induction as arbitrary: w) (auto split: option.splits intro: missed_step)

lemma ascending_not_before:
  assumes "ascending es" and "k < length es"
  shows "es ! k \<notin> set (take k es)"
proof
  assume "es ! k \<in> set (take k es)"
  then obtain i where "i < k" "es ! i = es ! k" by (auto simp: in_set_conv_nth)
  with sorted_wrt_nth_less [OF assms(1), of i k] assms(2) show False by simp
qed

lemma backlog_gap_lost:
  assumes "log_valid el" and "1000 < length (events_of el)" and "sse_acts as (opened 0 el) = Some w"
    and "as = Attach # Catch_up # later"
  shows "events_of el ! 1000 \<notin> set (c_sent (w_conn w))"
proof -
  let ?x = "events_of el ! 1000" and ?es = "events_of el"
  have "filter (\<lambda>e. 0 < e_seq e) ?es = ?es" using log_valid_bounds [OF assms(1)] by (simp add: filter_id_conv)
  then have hist: "History 0 backlog_page st = take 1000 ?es" if "es_store st = Some el" for st
    using History_backlog [OF assms(1) that, of 0] by simp
  obtain w1 where w1: "sse_acts [Attach, Catch_up] (opened 0 el) = Some w1" "sse_acts later w1 = Some w"
    using assms(3,4) by (auto split: option.splits)
  have "sound 0 w1"
    using sound_run [OF sse_acts_run [OF sse_run.begins [OF assms(1)] w1(1)]] .
  moreover have "c_phase (w_conn w1) = Following" "store_of w1 = el" "chan w1 = []" "w_in_flight w1 = []"
    "c_sent (w_conn w1) = take 1000 ?es"
    using w1(1) hist [of "Subscribe 0 (w_stream (opened 0 el))"]
    by (auto simp: opened_def Subscribe_def sse_backlog_def Let_def store_of_def chan_def)
  moreover have "?x \<notin> set (take 1000 ?es)"
    by (rule ascending_not_before [OF log_valid_ascending [OF assms(1)] assms(2)])
  moreover have "?x \<in> set ?es" using assms(2) by (rule nth_mem)
  ultimately have "missed ?x w1" unfolding missed_def by (metis Un_iff empty_iff empty_set insert_iff)
  from missed_stays [OF this w1(2)] show ?thesis unfolding missed_def by blast
qed

end
