(* ===== verification/Server_Idempotency.thy ===== *)
theory Server_Idempotency
  imports Paihuo_Prelude
begin

text \<open>
  Idempotent requests: the table \<^verbatim>\<open>idempotency_records\<close> (store/idempotency.go) and the
  middleware that elects one request per key, method and path as the owner and replays its
  response to the others (server/idempotency.go). The handler behind it is a parameter: it
  gets the request and the state of the server and answers with the calls it makes on the
  response writer. Requests interleave and the server may crash at any point.
\<close>

section \<open>The table (store/idempotency.go)\<close>

record idem_record =
  i_key :: string
  i_method :: string
  i_path :: string
  i_status :: int
  i_body :: string
  i_created_at :: string

type_synonym idem_id = "string \<times> string \<times> string"

definition record_id :: "idem_record \<Rightarrow> idem_id" where
  "record_id r = (i_key r, i_method r, i_path r)"

text \<open>\<^verbatim>\<open>INSERT OR IGNORE\<close> and, when a row is there already, the \<^verbatim>\<open>SELECT\<close> of it.\<close>

definition ReserveIdempotency :: "string \<Rightarrow> idem_id \<Rightarrow> idem_record list \<Rightarrow> idem_record list \<times> idem_record \<times> bool" where
  "ReserveIdempotency now i rows =
     (case find (\<lambda>r. record_id r = i) rows of
        None \<Rightarrow> (case i of (k, m, p) \<Rightarrow>
          (let r = \<lparr>i_key = k, i_method = m, i_path = p, i_status = 0, i_body = [], i_created_at = now\<rparr>
           in (rows @ [r], r, True)))
      | Some r \<Rightarrow> (rows, r, False))"

definition CompleteIdempotency :: "idem_id \<Rightarrow> int \<Rightarrow> string \<Rightarrow> idem_record list \<Rightarrow> idem_record list" where
  "CompleteIdempotency i st body rows =
     upd_where (\<lambda>r. record_id r = i \<and> i_status r = 0) (\<lambda>r. r\<lparr>i_status := st, i_body := body\<rparr>) rows"

section \<open>The middleware (server/idempotency.go)\<close>

record http_request =
  q_method :: string
  q_path :: string
  q_key :: string
  q_body :: string

definition isMutation :: "string \<Rightarrow> bool" where
  "isMutation m \<longleftrightarrow> m = ''POST'' \<or> m = ''PUT'' \<or> m = ''PATCH'' \<or> m = ''DELETE''"

definition key_byte :: "char \<Rightarrow> bool" where
  "key_byte c \<longleftrightarrow> c \<in> set ''._:-'' \<or> (CHR ''0'' \<le> c \<and> c \<le> CHR ''9'') \<or> (CHR ''A'' \<le> c \<and> c \<le> CHR ''Z'') \<or>
     (CHR ''a'' \<le> c \<and> c \<le> CHR ''z'')"

definition idempotencyKeyPattern :: "string \<Rightarrow> bool" where
  "idempotencyKeyPattern s \<longleftrightarrow> list_all key_byte s \<and> 8 \<le> length s \<and> length s \<le> 128"

text \<open>The calls of a handler on its response writer, what the client gets, what is captured.\<close>

datatype write_op = WriteHeader int | Write string

fun sent_status :: "write_op list \<Rightarrow> int" where
  "sent_status [] = 200"
| "sent_status (WriteHeader n # ops) = n"
| "sent_status (Write d # ops) = 200"

fun sent_body :: "write_op list \<Rightarrow> string" where
  "sent_body [] = []"
| "sent_body (WriteHeader n # ops) = sent_body ops"
| "sent_body (Write d # ops) = d @ sent_body ops"

record responseCapture =
  cp_status :: int
  cp_body :: string

definition capture_limit :: int where "capture_limit = 2097152"

fun capture_op :: "write_op \<Rightarrow> responseCapture \<Rightarrow> responseCapture" where
  "capture_op (WriteHeader n) c = c\<lparr>cp_status := n\<rparr>"
| "capture_op (Write d) c =
     (if int (length (cp_body c) + length d) \<le> capture_limit then c\<lparr>cp_body := cp_body c @ d\<rparr> else c)"

definition captured :: "write_op list \<Rightarrow> responseCapture" where
  "captured ops = fold capture_op ops \<lparr>cp_status = 200, cp_body = []\<rparr>"

datatype decision =
    Forward               \<comment> \<open>not subject to the middleware\<close>
  | Refuse_Key            \<comment> \<open>400: the key is malformed\<close>
  | Still_Running         \<comment> \<open>409: the owner has not finished\<close>
  | Replay int string     \<comment> \<open>the recorded response\<close>
  | Own                   \<comment> \<open>this request is the owner\<close>

definition request_id :: "http_request \<Rightarrow> idem_id" where
  "request_id q = (trim_space (q_key q), q_method q, q_path q)"

definition withIdempotency :: "string \<Rightarrow> http_request \<Rightarrow> idem_record list \<Rightarrow> idem_record list \<times> decision" where
  "withIdempotency now q rows =
     (if \<not> has_prefix (q_path q) ''/api/v1/'' \<or> \<not> isMutation (q_method q) then (rows, Forward)
      else if trim_space (q_key q) = [] then (rows, Forward)
      else if \<not> idempotencyKeyPattern (trim_space (q_key q)) then (rows, Refuse_Key)
      else (case ReserveIdempotency now (request_id q) rows of
              (rows', r, owner) \<Rightarrow>
                (rows', if owner then Own else if i_status r = 0 then Still_Running else Replay (i_status r) (i_body r))))"

section \<open>Requests that interleave\<close>

text \<open>
  \<open>s_running\<close> holds the owners that were elected and not yet recorded, with the calls of
  their handler once it has run; \<open>s_runs\<close> lists all runs of handlers of owners and
  \<open>s_answers\<close> all decisions, for the statement of the properties.
\<close>

record 's site =
  s_world :: 's
  s_rows :: "idem_record list"
  s_running :: "(http_request \<times> write_op list option) list"
  s_runs :: "(http_request \<times> write_op list) list"
  s_answers :: "(http_request \<times> decision) list"

datatype site_act =
    Arrive string http_request  \<comment> \<open>a request reaches the middleware\<close>
  | Serve nat                   \<comment> \<open>the handler of an owner runs\<close>
  | Settle nat                  \<comment> \<open>the response of an owner is recorded\<close>
  | Panic nat                   \<comment> \<open>the handler of an owner panics; net/http recovers\<close>
  | Crash                       \<comment> \<open>the process ends and is started again\<close>

fun site_do :: "(http_request \<Rightarrow> 's \<Rightarrow> write_op list \<times> 's) \<Rightarrow> site_act \<Rightarrow> 's site \<Rightarrow> 's site option" where
  "site_do handler (Arrive now q) s =
     (case withIdempotency now q (s_rows s) of
        (rows, d) \<Rightarrow>
          Some (s\<lparr>s_rows := rows, s_answers := s_answers s @ [(q, d)],
                  s_running := (if d = Own then s_running s @ [(q, None)] else s_running s),
                  s_world := (if d = Forward then snd (handler q (s_world s)) else s_world s)\<rparr>))"
| "site_do handler (Serve i) s =
     (if i < length (s_running s) \<and> snd (s_running s ! i) = None then
        (let q = fst (s_running s ! i); (ops, w) = handler q (s_world s) in
         Some (s\<lparr>s_world := w, s_running := (s_running s)[i := (q, Some ops)], s_runs := s_runs s @ [(q, ops)]\<rparr>))
      else None)"
| "site_do handler (Settle i) s =
     (if i < length (s_running s) then
        (case s_running s ! i of
           (q, Some ops) \<Rightarrow>
             Some (s\<lparr>s_rows := CompleteIdempotency (request_id q) (cp_status (captured ops)) (cp_body (captured ops)) (s_rows s),
                     s_running := take i (s_running s) @ drop (Suc i) (s_running s)\<rparr>)
         | (q, None) \<Rightarrow> None)
      else None)"
| "site_do handler (Panic i) s =
     (if i < length (s_running s) then Some (s\<lparr>s_running := take i (s_running s) @ drop (Suc i) (s_running s)\<rparr>) else None)"
| "site_do handler Crash s = Some (s\<lparr>s_running := []\<rparr>)"

definition fresh_site :: "'s \<Rightarrow> 's site" where
  "fresh_site w = \<lparr>s_world = w, s_rows = [], s_running = [], s_runs = [], s_answers = []\<rparr>"

fun site_acts :: "(http_request \<Rightarrow> 's \<Rightarrow> write_op list \<times> 's) \<Rightarrow> site_act list \<Rightarrow> 's site \<Rightarrow> 's site option" where
  "site_acts handler [] s = Some s"
| "site_acts handler (a # as) s = (case site_do handler a s of None \<Rightarrow> None | Some s' \<Rightarrow> site_acts handler as s')"

section \<open>What is captured\<close>

text \<open>A handler that sends its status first and at most 2 MiB is captured as it is sent.\<close>

definition plain_writes :: "write_op list \<Rightarrow> bool" where
  "plain_writes ops \<longleftrightarrow> (\<forall>op\<in>set ops. case op of Write d \<Rightarrow> True | WriteHeader n \<Rightarrow> False)"

definition tidy :: "write_op list \<Rightarrow> bool" where
  "tidy ops \<longleftrightarrow> int (length (sent_body ops)) \<le> capture_limit \<and>
     (case ops of [] \<Rightarrow> True | WriteHeader n # ops' \<Rightarrow> plain_writes ops' | Write d # ops' \<Rightarrow> plain_writes ops')"

lemma fold_plain_writes:
  "plain_writes ops \<Longrightarrow> int (length (cp_body c) + length (sent_body ops)) \<le> capture_limit \<Longrightarrow>
   fold capture_op ops c = c\<lparr>cp_body := cp_body c @ sent_body ops\<rparr>"
proof (induction ops arbitrary: c)
  case (Cons op ops)
  then show ?case by (cases op) (auto simp: plain_writes_def)
qed simp

lemma captured_tidy:
  assumes "tidy ops"
  shows "cp_status (captured ops) = sent_status ops \<and> cp_body (captured ops) = sent_body ops"
proof (cases ops)
  case Nil
  then show ?thesis by (simp add: captured_def)
next
  case (Cons op rest)
  then show ?thesis
    using assms fold_plain_writes [of rest "capture_op op \<lparr>cp_status = 200, cp_body = []\<rparr>"]
    by (cases op) (auto simp: captured_def tidy_def)
qed

text \<open>
  A response of more than 2 MiB loses the chunks that do not fit, also in the middle: the
  replay is not the response the first client got.
\<close>

lemma long_response_garbled:
  assumes "int (length a + length c) \<le> capture_limit" and "capture_limit < int (length a + length b)" and "b \<noteq> []"
  shows "sent_body [Write a, Write b, Write c] = a @ b @ c \<and> cp_body (captured [Write a, Write b, Write c]) = a @ c"
  using assms by (simp add: captured_def)

section \<open>The decisions\<close>

lemma withIdempotency_own:
  assumes "withIdempotency now q rows = (rows', Own)"
  obtains r where "rows' = rows @ [r]" and "record_id r = request_id q" and "i_status r = 0"
    and "request_id q \<notin> record_id ` set rows"
proof -
  have "find (\<lambda>r. record_id r = request_id q) rows = None"
    using assms by (auto simp: withIdempotency_def ReserveIdempotency_def split: if_splits option.splits)
  then have new: "request_id q \<notin> record_id ` set rows" by (auto simp: find_None_iff)
  show thesis
    using assms new
    by (intro that [of "\<lparr>i_key = fst (request_id q), i_method = fst (snd (request_id q)), i_path = snd (snd (request_id q)),
        i_status = 0, i_body = [], i_created_at = now\<rparr>"])
      (auto simp: withIdempotency_def ReserveIdempotency_def record_id_def request_id_def Let_def split: if_splits option.splits)
qed

lemma withIdempotency_other:
  "withIdempotency now q rows = (rows', d) \<Longrightarrow> d \<noteq> Own \<Longrightarrow> rows' = rows"
  by (auto simp: withIdempotency_def ReserveIdempotency_def Let_def split: if_splits option.splits prod.splits)

lemma withIdempotency_replay:
  assumes "withIdempotency now q rows = (rows', Replay st b)"
  shows "\<exists>r\<in>set rows. record_id r = request_id q \<and> i_status r = st \<and> i_body r = b \<and> st \<noteq> 0"
proof -
  have "find (\<lambda>r. record_id r = request_id q) rows \<noteq> None"
    using assms by (auto simp: withIdempotency_def ReserveIdempotency_def Let_def split: if_splits prod.splits option.splits)
  then obtain r where r: "find (\<lambda>r. record_id r = request_id q) rows = Some r" by blast
  then have "r \<in> set rows" "record_id r = request_id q" by (auto simp: find_Some_iff)
  moreover have "i_status r = st \<and> i_body r = b \<and> st \<noteq> 0"
    using assms r by (auto simp: withIdempotency_def ReserveIdempotency_def split: if_splits)
  ultimately show ?thesis by blast
qed

lemma Complete_ids [simp]: "map record_id (CompleteIdempotency i st b rows) = map record_id rows"
  unfolding CompleteIdempotency_def by (rule map_upd_where) (simp add: record_id_def)

lemma Complete_ids_set [simp]: "record_id ` set (CompleteIdempotency i st b rows) = record_id ` set rows"
  by (metis Complete_ids list.set_map)

lemma Complete_mem:
  "r \<in> set (CompleteIdempotency i st b rows) \<Longrightarrow>
     r \<in> set rows \<and> (record_id r = i \<longrightarrow> i_status r \<noteq> 0) \<or> (record_id r = i \<and> i_status r = st \<and> i_body r = b)"
  by (auto simp: CompleteIdempotency_def set_upd_where record_id_def)

lemma Complete_keeps:
  "r \<in> set rows \<Longrightarrow> record_id r \<noteq> i \<Longrightarrow> r \<in> set (CompleteIdempotency i st b rows)"
  by (force simp: CompleteIdempotency_def set_upd_where)

section \<open>At most one run per key\<close>

definition rows_of_runs :: "'s site \<Rightarrow> bool" where
  "rows_of_runs s \<longleftrightarrow> distinct (map record_id (s_rows s)) \<and> distinct (map (request_id \<circ> fst) (s_runs s)) \<and>
     (\<forall>(q, ops)\<in>set (s_runs s). request_id q \<in> record_id ` set (s_rows s)) \<and>
     (\<forall>r\<in>set (s_rows s). i_status r \<noteq> 0 \<longrightarrow> (\<exists>(q, ops)\<in>set (s_runs s). request_id q = record_id r \<and>
        i_status r = cp_status (captured ops) \<and> i_body r = cp_body (captured ops)))"

definition owner_ok :: "idem_record list \<Rightarrow> (http_request \<times> write_op list) list \<Rightarrow> http_request \<times> write_op list option \<Rightarrow> bool" where
  "owner_ok rows runs p \<longleftrightarrow> (\<exists>r\<in>set rows. record_id r = request_id (fst p) \<and> i_status r = 0) \<and>
     (snd p = None \<longrightarrow> request_id (fst p) \<notin> (request_id \<circ> fst) ` set runs) \<and>
     (\<forall>ops. snd p = Some ops \<longrightarrow> (fst p, ops) \<in> set runs)"

definition owners_ok :: "'s site \<Rightarrow> bool" where
  "owners_ok s \<longleftrightarrow> distinct (map (request_id \<circ> fst) (s_running s)) \<and>
     (\<forall>p\<in>set (s_running s). owner_ok (s_rows s) (s_runs s) p)"

definition replays_ok :: "'s site \<Rightarrow> bool" where
  "replays_ok s \<longleftrightarrow> (\<forall>(q, d)\<in>set (s_answers s). case d of
       Replay st b \<Rightarrow> (\<exists>(q', ops)\<in>set (s_runs s). request_id q' = request_id q \<and>
          st = cp_status (captured ops) \<and> b = cp_body (captured ops))
     | _ \<Rightarrow> True)"

definition site_inv :: "'s site \<Rightarrow> bool" where
  "site_inv s \<longleftrightarrow> rows_of_runs s \<and> owners_ok s \<and> replays_ok s"

lemma replays_more_runs:
  "replays_ok s \<Longrightarrow> set (s_runs s) \<subseteq> set (s_runs s') \<Longrightarrow> s_answers s' = s_answers s \<Longrightarrow> replays_ok s'"
  unfolding replays_ok_def by (fastforce split: decision.splits)

lemma inv_arrive:
  assumes "site_inv s" and "site_do handler (Arrive now q) s = Some s'"
  shows "site_inv s'"
proof -
  obtain rows d where wi: "withIdempotency now q (s_rows s) = (rows, d)" by fastforce
  have s': "s' = s\<lparr>s_rows := rows, s_answers := s_answers s @ [(q, d)],
      s_running := (if d = Own then s_running s @ [(q, None)] else s_running s),
      s_world := (if d = Forward then snd (handler q (s_world s)) else s_world s)\<rparr>"
    using assms(2) wi by simp
  show ?thesis
  proof (cases "d = Own")
    case True
    obtain r where r: "rows = s_rows s @ [r]" "record_id r = request_id q" "i_status r = 0"
        "request_id q \<notin> record_id ` set (s_rows s)"
      using wi True withIdempotency_own by blast
    have "rows_of_runs s'" using assms(1) r s' by (auto simp: site_inv_def rows_of_runs_def)
    moreover have "owners_ok s'"
    proof -
      have "request_id q \<notin> (request_id \<circ> fst) ` set (s_runs s)"
        using assms(1) r(4) by (force simp: site_inv_def rows_of_runs_def)
      moreover have "request_id q \<notin> (request_id \<circ> fst) ` set (s_running s)"
      proof
        assume "request_id q \<in> (request_id \<circ> fst) ` set (s_running s)"
        then obtain p where "p \<in> set (s_running s)" "request_id (fst p) = request_id q" by auto
        then have "owner_ok (s_rows s) (s_runs s) p" using assms(1) by (simp add: site_inv_def owners_ok_def)
        then have "request_id (fst p) \<in> record_id ` set (s_rows s)" by (auto simp: owner_ok_def intro: rev_image_eqI)
        with \<open>request_id (fst p) = request_id q\<close> r(4) show False by simp
      qed
      moreover have "owner_ok (s_rows s') (s_runs s') p" if "p \<in> set (s_running s)" for p
      proof -
        have "owner_ok (s_rows s) (s_runs s) p" using that assms(1) by (simp add: site_inv_def owners_ok_def)
        then show ?thesis by (auto simp: owner_ok_def s' r(1))
      qed
      moreover have "s_running s' = s_running s @ [(q, None)]" "s_rows s' = s_rows s @ [r]" "s_runs s' = s_runs s"
        using s' True r(1) by simp_all
      moreover have "distinct (map (request_id \<circ> fst) (s_running s))" using assms(1) by (simp add: site_inv_def owners_ok_def)
      moreover have "\<exists>x\<in>set (s_rows s @ [r]). record_id x = request_id q \<and> i_status x = 0"
        using r(2,3) by (intro bexI [of _ r]) simp_all
      ultimately show ?thesis unfolding owners_ok_def by (auto simp: owner_ok_def)
    qed
    moreover have "replays_ok s'" using assms(1) s' True by (simp add: site_inv_def replays_ok_def)
    ultimately show ?thesis by (simp add: site_inv_def)
  next
    case False
    then have rows: "rows = s_rows s" using wi withIdempotency_other by blast
    have "replays_ok s'"
    proof (cases d)
      case (Replay st b)
      then obtain r where "r \<in> set (s_rows s)" "record_id r = request_id q" "i_status r = st" "i_body r = b" "st \<noteq> 0"
        using wi withIdempotency_replay by blast
      then obtain q' ops where "(q', ops) \<in> set (s_runs s)" "request_id q' = request_id q"
          "st = cp_status (captured ops)" "b = cp_body (captured ops)"
        using assms(1) by (fastforce simp: site_inv_def rows_of_runs_def)
      then show ?thesis using assms(1) s' Replay by (auto simp: site_inv_def replays_ok_def)
    qed (use assms(1) s' in \<open>auto simp: site_inv_def replays_ok_def\<close>)
    then show ?thesis using assms(1) s' rows False by (simp add: site_inv_def rows_of_runs_def owners_ok_def)
  qed
qed

lemma inv_serve:
  assumes "site_inv s" and "site_do handler (Serve i) s = Some s'"
  shows "site_inv s'"
proof -
  obtain q ops w where i: "i < length (s_running s)" "s_running s ! i = (q, None)"
      and h: "handler q (s_world s) = (ops, w)"
      and s': "s' = s\<lparr>s_world := w, s_running := (s_running s)[i := (q, Some ops)], s_runs := s_runs s @ [(q, ops)]\<rparr>"
    using assms(2) by (cases "s_running s ! i") (auto simp: Let_def split: if_splits prod.splits)
  have own: "owner_ok (s_rows s) (s_runs s) (q, None)"
    using assms(1) i nth_mem by (fastforce simp: site_inv_def owners_ok_def)
  then have new: "request_id q \<notin> (request_id \<circ> fst) ` set (s_runs s)" by (simp add: owner_ok_def)
  have ids: "map (request_id \<circ> fst) ((s_running s)[i := (q, Some ops)]) = map (request_id \<circ> fst) (s_running s)"
    using i by (metis (no_types, lifting) comp_apply fst_conv list_update_id map_update)
  have "request_id q \<in> record_id ` set (s_rows s)" using own by (auto simp: owner_ok_def image_iff intro: sym)
  then have "rows_of_runs s'"
    using assms(1) new by (auto simp: site_inv_def rows_of_runs_def s')
  moreover have "owner_ok (s_rows s') (s_runs s') p" if "p \<in> set (s_running s')" for p
  proof -
    from that obtain j where j: "j < length (s_running s)" "p = (if j = i then (q, Some ops) else s_running s ! j)"
      using s' by (auto simp: in_set_conv_nth nth_list_update split: if_splits)
    show ?thesis
    proof (cases "j = i")
      case True
      then show ?thesis using j own s' by (auto simp: owner_ok_def)
    next
      case False
      then have "request_id (fst (s_running s ! j)) \<noteq> request_id q"
        using assms(1) i j(1) nth_eq_iff_index_eq [of "map (request_id \<circ> fst) (s_running s)" i j]
        by (auto simp: site_inv_def owners_ok_def)
      moreover have "owner_ok (s_rows s) (s_runs s) (s_running s ! j)"
        using assms(1) j(1) nth_mem by (auto simp: site_inv_def owners_ok_def)
      ultimately show ?thesis using j(2) False s' by (auto simp: owner_ok_def)
    qed
  qed
  moreover have "distinct (map (request_id \<circ> fst) (s_running s'))"
    using assms(1) ids s' by (simp add: site_inv_def owners_ok_def)
  moreover have "replays_ok s'"
    using assms(1) replays_more_runs [of s s'] by (simp add: site_inv_def s' subset_insertI)
  ultimately show ?thesis by (simp add: site_inv_def owners_ok_def)
qed

lemma inv_settle:
  assumes "site_inv s" and "site_do handler (Settle i) s = Some s'"
  shows "site_inv s'"
proof -
  obtain q ops where i: "i < length (s_running s)" "s_running s ! i = (q, Some ops)"
      and s': "s' = s\<lparr>s_rows := CompleteIdempotency (request_id q) (cp_status (captured ops)) (cp_body (captured ops)) (s_rows s),
                     s_running := take i (s_running s) @ drop (Suc i) (s_running s)\<rparr>"
    using assms(2) by (auto split: if_splits prod.splits option.splits)
  let ?id = "request_id q" and ?c = "captured ops"
  have mem: "(q, Some ops) \<in> set (s_running s)" using i nth_mem by metis
  then have run: "(q, ops) \<in> set (s_runs s)"
    using assms(1) by (fastforce simp: site_inv_def owners_ok_def owner_ok_def)
  have "rows_of_runs s'"
  proof -
    have "\<exists>(p, os)\<in>set (s_runs s). request_id p = record_id r \<and> i_status r = cp_status (captured os) \<and> i_body r = cp_body (captured os)"
      if "r \<in> set (CompleteIdempotency ?id (cp_status ?c) (cp_body ?c) (s_rows s))" "i_status r \<noteq> 0" for r
      using Complete_mem [OF that(1)]
    proof
      assume "r \<in> set (s_rows s) \<and> (record_id r = ?id \<longrightarrow> i_status r \<noteq> 0)"
      then show ?thesis using assms(1) that(2) by (auto simp: site_inv_def rows_of_runs_def)
    next
      assume "record_id r = ?id \<and> i_status r = cp_status ?c \<and> i_body r = cp_body ?c"
      then show ?thesis using run by auto
    qed
    then show ?thesis using assms(1) s' by (auto simp: site_inv_def rows_of_runs_def)
  qed
  moreover have "owners_ok s'"
  proof -
    have split: "s_running s = take i (s_running s) @ (q, Some ops) # drop (Suc i) (s_running s)"
      using id_take_nth_drop [OF i(1)] i(2) by simp
    have "distinct (map (request_id \<circ> fst) (take i (s_running s) @ (q, Some ops) # drop (Suc i) (s_running s)))"
      using assms(1) split by (simp add: site_inv_def owners_ok_def)
    then have dist: "distinct (map (request_id \<circ> fst) (s_running s'))" and
      other: "\<And>p. p \<in> set (s_running s') \<Longrightarrow> request_id (fst p) \<noteq> ?id"
      using s' by (auto simp: image_iff)
    have "owner_ok (s_rows s') (s_runs s') p" if "p \<in> set (s_running s')" for p
    proof -
      have "p \<in> set (s_running s)" using that s' by (auto dest: in_set_takeD in_set_dropD)
      then have ok: "owner_ok (s_rows s) (s_runs s) p" using assms(1) by (auto simp: site_inv_def owners_ok_def)
      then obtain r where "r \<in> set (s_rows s)" "record_id r = request_id (fst p)" "i_status r = 0" by (auto simp: owner_ok_def)
      moreover from this other [OF that] have "r \<in> set (s_rows s')" using s' Complete_keeps by auto
      ultimately show ?thesis using ok s' by (auto simp: owner_ok_def)
    qed
    with dist show ?thesis by (simp add: owners_ok_def)
  qed
  moreover have "replays_ok s'"
    using assms(1) replays_more_runs [of s s'] by (simp add: site_inv_def s')
  ultimately show ?thesis by (simp add: site_inv_def)
qed

lemma removed_sub: "set (take i xs @ drop (Suc i) xs) \<subseteq> set xs"
  by (auto dest: in_set_takeD in_set_dropD)

lemma distinct_removed: "distinct (map f xs) \<Longrightarrow> distinct (map f (take i xs @ drop (Suc i) xs))"
  by (simp add: take_map [symmetric] drop_map [symmetric] set_take_disj_set_drop_if_distinct)

lemma inv_panic:
  assumes "site_inv s" and "site_do handler (Panic i) s = Some s'"
  shows "site_inv s'"
proof -
  have s': "s' = s\<lparr>s_running := take i (s_running s) @ drop (Suc i) (s_running s)\<rparr>"
    using assms(2) by (simp split: if_splits)
  have "set (s_running s') \<subseteq> set (s_running s)" using s' by (auto dest: in_set_takeD in_set_dropD)
  moreover have "distinct (map (request_id \<circ> fst) (s_running s'))"
  proof -
    have "distinct (map (request_id \<circ> fst) (s_running s))" using assms(1) by (simp add: site_inv_def owners_ok_def)
    from distinct_removed [OF this, of i] show ?thesis unfolding s' by simp
  qed
  ultimately have "owners_ok s'"
    using assms(1) by (auto simp: s' site_inv_def owners_ok_def)
  then show ?thesis
    using assms(1) replays_more_runs [of s s'] by (simp add: site_inv_def rows_of_runs_def s')
qed

lemma inv_step: "site_inv s \<Longrightarrow> site_do handler a s = Some s' \<Longrightarrow> site_inv s'"
proof (cases a)
  case Crash
  assume "site_inv s" "site_do handler a s = Some s'"
  moreover from this Crash have s': "s' = s\<lparr>s_running := []\<rparr>" by simp
  ultimately show ?thesis
    using replays_more_runs [of s s'] by (simp add: site_inv_def rows_of_runs_def owners_ok_def)
qed (use inv_arrive inv_serve inv_settle inv_panic in blast)+

lemma inv_fresh: "site_inv (fresh_site w)"
  by (simp add: site_inv_def rows_of_runs_def owners_ok_def replays_ok_def fresh_site_def)

lemma inv_acts: "site_inv s \<Longrightarrow> site_acts handler as s = Some s' \<Longrightarrow> site_inv s'"
  by (induction as arbitrary: s) (auto split: option.splits intro: inv_step)


section \<open>Examples\<close>

definition demo_request :: http_request where
  "demo_request = \<lparr>q_method = ''POST'', q_path = ''/api/v1/tasks'', q_key = '' key-0001'', q_body = ''{}''\<rparr>"

definition demo_handler :: "http_request \<Rightarrow> nat \<Rightarrow> write_op list \<times> nat" where
  "demo_handler q n = ([WriteHeader 201, Write ''ok''], Suc n)"

definition demo_acts :: "site_act list" where
  "demo_acts = [Arrive ''t1'' demo_request, Arrive ''t2'' demo_request, Serve 0, Settle 0, Arrive ''t3'' demo_request]"


text \<open>
  The comment of \<^verbatim>\<open>ReserveIdempotency\<close> says that the status zero means that the owner
  is still executing. When the process ends or the handler panics between the reservation and
  the record, nobody is executing and nothing ever removes the row: every retry is refused.
\<close>

definition orphaned :: "idem_id \<Rightarrow> 's site \<Rightarrow> bool" where
  "orphaned i s \<longleftrightarrow> site_inv s \<and> (\<exists>r\<in>set (s_rows s). record_id r = i \<and> i_status r = 0) \<and> i \<notin> (request_id \<circ> fst) ` set (s_running s)"

lemma orphan_found:
  assumes "orphaned i s"
  obtains r where "find (\<lambda>r. record_id r = i) (s_rows s) = Some r" and "i_status r = 0"
proof -
  obtain r where r: "r \<in> set (s_rows s)" "record_id r = i" "i_status r = 0" using assms by (auto simp: orphaned_def)
  have "distinct (map record_id (s_rows s))" using assms by (simp add: orphaned_def site_inv_def rows_of_runs_def)
  then have "find (\<lambda>x. record_id x = record_id r) rs = Some r" if "rs = s_rows s" for rs
    using r(1) unfolding that [symmetric] by (induction rs) (auto simp: rev_image_eqI)
  then show thesis using r by (intro that [of r]) simp_all
qed

lemma orphan_refused:
  assumes "orphaned (request_id q) s" and "has_prefix (q_path q) ''/api/v1/''" and "isMutation (q_method q)"
    and "idempotencyKeyPattern (trim_space (q_key q))"
  shows "withIdempotency now q (s_rows s) = (s_rows s, Still_Running)"
proof -
  obtain r where "find (\<lambda>r. record_id r = request_id q) (s_rows s) = Some r" "i_status r = 0"
    using orphan_found [OF assms(1)] by blast
  moreover have "trim_space (q_key q) \<noteq> []" using assms(4) by (auto simp: idempotencyKeyPattern_def)
  ultimately show ?thesis
    using assms(2-4) by (simp add: withIdempotency_def ReserveIdempotency_def split: option.splits)
qed

lemma orphaned_step:
  assumes "orphaned i s" and "site_do handler a s = Some s'"
  shows "orphaned i s'"
proof -
  have inv: "site_inv s'" using assms inv_step by (auto simp: orphaned_def)
  obtain r where r: "r \<in> set (s_rows s)" "record_id r = i" "i_status r = 0" using assms(1) by (auto simp: orphaned_def)
  have out: "i \<notin> (request_id \<circ> fst) ` set (s_running s)" using assms(1) by (simp add: orphaned_def)
  have "r \<in> set (s_rows s') \<and> i \<notin> (request_id \<circ> fst) ` set (s_running s')"
  proof (cases a)
    case (Arrive now q)
    obtain rows d where wi: "withIdempotency now q (s_rows s) = (rows, d)" by fastforce
    show ?thesis
    proof (cases "d = Own")
      case True
      then obtain x where x: "rows = s_rows s @ [x]" "request_id q \<notin> record_id ` set (s_rows s)"
        using wi withIdempotency_own by blast
      moreover have "i \<in> record_id ` set (s_rows s)" using r(1,2) by (metis imageI)
      moreover from this x(2) have "i \<noteq> request_id q" by blast
      ultimately show ?thesis using r(1) out assms(2) Arrive wi True by auto
    next
      case False
      then have "rows = s_rows s" using wi withIdempotency_other by blast
      then show ?thesis using r(1) out assms(2) Arrive wi False by auto
    qed
  next
    case (Serve j)
    then obtain q ops where j: "j < length (s_running s)" "s_running s ! j = (q, None)"
        "s_running s' = (s_running s)[j := (q, Some ops)]" "s_rows s' = s_rows s"
      using assms(2) by (cases "s_running s ! j") (auto simp: Let_def split: if_splits prod.splits)
    have "(q, None) \<in> set (s_running s)" using j(1,2) nth_mem by metis
    then have "request_id q \<noteq> i" using out by force
    then show ?thesis using r(1) out j set_update_subset_insert [of "s_running s" j "(q, Some ops)"] by auto
  next
    case (Settle j)
    then obtain q ops where j: "j < length (s_running s)" "s_running s ! j = (q, Some ops)"
        "s_running s' = take j (s_running s) @ drop (Suc j) (s_running s)"
        "s_rows s' = CompleteIdempotency (request_id q) (cp_status (captured ops)) (cp_body (captured ops)) (s_rows s)"
      using assms(2) by (auto split: if_splits prod.splits option.splits)
    have "(q, Some ops) \<in> set (s_running s)" using j(1,2) nth_mem by metis
    then have "request_id q \<noteq> i" using out by force
    then have "r \<in> set (s_rows s')" using r j(4) Complete_keeps by auto
    then show ?thesis using out j(3) by (auto dest: in_set_takeD in_set_dropD)
  next
    case (Panic j)
    then have "s_rows s' = s_rows s" "set (s_running s') \<subseteq> set (s_running s)"
      using assms(2) removed_sub [of j "s_running s"] by (auto split: if_splits)
    moreover from this(2) have "i \<notin> (request_id \<circ> fst) ` set (s_running s')" using out by blast
    ultimately show ?thesis using r(1) by simp
  qed (use assms(2) r(1) in auto)
  with inv r show ?thesis by (auto simp: orphaned_def)
qed

text \<open>A retry after a crash is refused for ever, although no owner is executing.\<close>

lemma orphaned_stays: "orphaned i s \<Longrightarrow> site_acts handler as s = Some s' \<Longrightarrow> orphaned i s'"
  by (induction as arbitrary: s) (auto split: option.splits intro: orphaned_step)

lemma retry_refused_for_ever:
  assumes "site_acts handler [Arrive now q, Crash] (fresh_site w) = Some s" and "site_acts handler as s = Some s'"
    and "has_prefix (q_path q) ''/api/v1/''" and "isMutation (q_method q)" and "idempotencyKeyPattern (trim_space (q_key q))"
  shows "withIdempotency now' q (s_rows s') = (s_rows s', Still_Running)"
proof -
  have "trim_space (q_key q) \<noteq> []" using assms(5) by (auto simp: idempotencyKeyPattern_def)
  then obtain x where "withIdempotency now q [] = ([x], Own)" "record_id x = request_id q" "i_status x = 0"
    using assms(3-5) by (auto simp: withIdempotency_def ReserveIdempotency_def record_id_def request_id_def Let_def)
  then have "s_rows s = [x]" "s_running s = []" using assms(1) by (auto simp: fresh_site_def)
  then have "orphaned (request_id q) s"
    using \<open>record_id x = request_id q\<close> \<open>i_status x = 0\<close> inv_acts [OF inv_fresh assms(1)] by (simp add: orphaned_def)
  then show ?thesis using orphaned_stays [OF _ assms(2)] assms(3-5) orphan_refused by blast
qed

end
