(* ===== verification/Session_Manager.thy ===== *)
theory Session_Manager
  imports Exec_Slots Store_Merge Reorder_Laws
begin

text \<open>
  \<^verbatim>\<open>internal/session\<close>: the life cycle of a session (session.go, manager.go) and
  \<^verbatim>\<open>CreateSessionTask\<close> (store/sessions.go). The state is the database, the slots shared
  with the executor and the ids that have a channel, the keys of \<^verbatim>\<open>Manager.procs\<close>. What
  the operating system, Git and the runtimes answer is the parameter \<open>session_env\<close>; each
  operation reads the clock once. An operation returns the state it leaves, also when it fails.
  Dereferencing a missing role is the error \<open>NilRole\<close>, the panic of the code.
\<close>

section \<open>The state machine (session.go)\<close>

definition validTargets :: "status \<Rightarrow> status list" where
  "validTargets st = (case st of
     SessionStatusCreated \<Rightarrow> [SessionStatusActive, SessionStatusDeleted]
   | SessionStatusActive \<Rightarrow> [SessionStatusSuspended, SessionStatusDelivered, SessionStatusDeleted]
   | SessionStatusSuspended \<Rightarrow> [SessionStatusActive, SessionStatusDelivered, SessionStatusDeleted]
   | SessionStatusDelivered \<Rightarrow> [SessionStatusDeleted]
   | _ \<Rightarrow> [])"

definition CanTransition :: "status \<Rightarrow> status \<Rightarrow> bool" where
  "CanTransition a b \<longleftrightarrow> b \<in> set (validTargets a)"

datatype session_error =
    ErrSessionNotFound
  | ErrInvalidTransition status status
  | ErrPerm
  | ErrRoleDisabled
  | ErrRoleFull
  | ErrNoSessionRuntime
  | ErrChannel
  | ErrWorkspace
  | ErrNoProject
  | ErrSnapshot
  | ErrNotRunning status
  | ErrSuspended
  | ErrClosed status
  | ErrStore store_error
  | ErrMerge store_error
  | NilRole

section \<open>State and environment\<close>

record manager =
  m_db :: db
  m_ex :: executor
  m_procs :: "int list"

record session_env =
  sv_now :: string
  sv_runtime :: "string \<Rightarrow> bool"
  sv_worktree :: "string \<Rightarrow> string \<Rightarrow> int \<Rightarrow> (string \<times> string \<times> string) option"
  sv_mkdir :: "int \<Rightarrow> bool"
  sv_session_dir :: "int \<Rightarrow> string"
  sv_channel :: "SessionTask \<Rightarrow> role \<Rightarrow> string \<Rightarrow> bool"
  sv_snapshot :: "task \<Rightarrow> bool"
  sv_deliver_body :: "SessionTask \<Rightarrow> role \<Rightarrow> string \<Rightarrow> string"
  sv_merge_text :: "task \<Rightarrow> string \<times> string"

type_synonym 'a outcome = "manager \<times> (session_error + 'a)"

text \<open>The zero value of Go's \<^verbatim>\<open>store.Task\<close>.\<close>

definition zero_task :: task where
  "zero_task = \<lparr>t_id = 0, t_type = TaskTypeOther [], t_title = [], t_body = [], t_status = StatusOther [],
     t_perm = PermOther [], t_run_mode = RunModeOther [], t_concurrent = False, t_role_id = None, t_project_id = None,
     t_project_dir = [], t_parent_id = None, t_depends_on = None, t_dependency_mode = DependencyOther [],
     t_block_on_failure = False, t_schedule_id = None, t_error = [], t_exit_code = None, t_review_note = [],
     t_review_rounds = 0, t_tmux_log_offset = 0, t_worktree_branch = [], t_base_commit = [], t_resume_of = None,
     t_merge_of = None, t_merge_skipped = False, t_sort_order = 0, t_terminal_cols = 0, t_terminal_rows = 0,
     t_session_id = None, t_workflow_run_id = None, t_parent_session_id = None, t_parent_task_id = None, t_cron = [],
     t_enabled = False, t_last_run_at = None, t_next_run_at = None, t_worktree_path = [], t_session_dir = [],
     t_last_message_at = [], t_message_count = 0, t_suspended_at = None, t_delivered_at = None, t_spec = SpecEmpty,
     t_violations = [], t_spec_hash = [], t_external_key = [], t_revision = 0, t_created_at = [], t_started_at = None,
     t_finished_at = None, t_updated_at = []\<rparr>"

section \<open>Loading\<close>

definition loadSession :: "int \<Rightarrow> db \<Rightarrow> (task \<times> SessionTask) option" where
  "loadSession i db =
     (case GetSessionTask i db of
        None \<Rightarrow> None
      | Some t \<Rightarrow> map_option (\<lambda>ss. (t, ss)) (AsSession t))"

definition projectDirOf :: "project option \<Rightarrow> string" where
  "projectDirOf p = (case p of None \<Rightarrow> [] | Some q \<Rightarrow> p_project_dir q)"

definition projectNameOf :: "project option \<Rightarrow> string" where
  "projectNameOf p = (case p of None \<Rightarrow> [] | Some q \<Rightarrow> p_name q)"

definition project_of :: "SessionTask \<Rightarrow> db \<Rightarrow> project option" where
  "project_of ss db = (case ss_project_id ss of None \<Rightarrow> None | Some p \<Rightarrow> get_project p db)"

definition projectDir :: "SessionTask \<Rightarrow> db \<Rightarrow> string" where
  "projectDir ss db = projectDirOf (project_of ss db)"

definition projectName :: "SessionTask \<Rightarrow> db \<Rightarrow> string" where
  "projectName ss db = projectNameOf (project_of ss db)"

definition session_runtime :: "session_env \<Rightarrow> role \<Rightarrow> bool" where
  "session_runtime v a \<longleftrightarrow> sv_runtime v (a_runtime_id a) \<or> a_runtime_id a = ''dsh''"

section \<open>Creation\<close>

definition validateCreate :: "session_env \<Rightarrow> role \<Rightarrow> session_error + unit" where
  "validateCreate v a =
     (if \<not> a_enabled a then Inl ErrRoleDisabled else if \<not> session_runtime v a then Inl ErrNoSessionRuntime else Inr ())"

definition CreateSessionTask :: "string \<Rightarrow> task \<Rightarrow> db \<Rightarrow> store_error + (db \<times> int)" where
  "CreateSessionTask now ss db =
     (let ss = (if t_type ss = TaskTypeOther [] then ss\<lparr>t_type := TaskTypeSession\<rparr> else ss) in
      if AsSession ss = None then Inl (Err MsgTargetNotTask)
      else CreateTask now (if t_status ss = StatusOther [] then ss\<lparr>t_status := SessionStatusCreated\<rparr> else ss) db)"

definition session_perm :: "string \<Rightarrow> perm" where
  "session_perm p = perm_of (if p = [] then ''full'' else p)"

text \<open>\<^verbatim>\<open>UpdateTask\<close> and the state after it.\<close>

definition store_update :: "session_env \<Rightarrow> int \<Rightarrow> fields \<Rightarrow> manager \<Rightarrow> unit outcome" where
  "store_update v i fs m =
     (case UpdateTask i fs (sv_now v) (m_db m) of Inl e \<Rightarrow> (m, Inl (ErrStore e)) | Inr db \<Rightarrow> (m\<lparr>m_db := db\<rparr>, Inr ()))"

text \<open>The checks before the record is created.\<close>

definition create_admit :: "session_env \<Rightarrow> int option \<Rightarrow> int \<Rightarrow> string \<Rightarrow> db \<Rightarrow> session_error + (role \<times> project option)" where
  "create_admit v projectID roleID perm db =
     (if session_perm perm \<notin> {PermFull, PermReview} then Inl ErrPerm
      else case get_role_row roleID db of
        None \<Rightarrow> Inl (ErrStore ErrNoRows)
      | Some a \<Rightarrow>
      let project = (case projectID of None \<Rightarrow> None | Some p \<Rightarrow> get_project p db) in
      if projectID \<noteq> None \<and> project = None then Inl (ErrStore ErrNoRows)
      else case validateCreate v a of Inl e \<Rightarrow> Inl e | Inr _ \<Rightarrow> Inr (a, project))"

text \<open>The workspace of the new session, whose path holds its id.\<close>

definition create_workspace :: "session_env \<Rightarrow> project option \<Rightarrow> int \<Rightarrow> manager \<Rightarrow> task outcome" where
  "create_workspace v project i m =
     (if GetSessionTask i (m_db m) = None then (m, Inl ErrSessionNotFound)
      else case sv_worktree v (projectDirOf project) (projectNameOf project) i of
        None \<Rightarrow> (m, Inl ErrWorkspace)
      | Some (dir, branch, base) \<Rightarrow>
      if \<not> sv_mkdir v i then (m, Inl ErrWorkspace)
      else case store_update v i [(ColWorktreePath, AStr dir), (ColWorktreeBranch, AStr branch), (ColBaseCommit, AStr base),
          (ColSessionDir, AStr (sv_session_dir v i)), (ColUpdatedAt, AStr (sv_now v))] m of
        (m2, Inl e) \<Rightarrow> (m2, Inl e)
      | (m2, Inr _) \<Rightarrow> (case loadSession i (m_db m2) of None \<Rightarrow> (m2, Inl ErrSessionNotFound) | Some (t, _) \<Rightarrow> (m2, Inr t)))"

definition Create :: "session_env \<Rightarrow> int option \<Rightarrow> int \<Rightarrow> string \<Rightarrow> manager \<Rightarrow> task outcome" where
  "Create v projectID roleID perm m =
     (case create_admit v projectID roleID perm (m_db m) of
        Inl e \<Rightarrow> (m, Inl e)
      | Inr (a, project) \<Rightarrow>
      case CreateSessionTask (sv_now v) (zero_task\<lparr>t_project_id := projectID, t_role_id := Some roleID, t_title := a_name a,
          t_status := SessionStatusCreated, t_perm := session_perm perm\<rparr>) (m_db m) of
        Inl e \<Rightarrow> (m, Inl (ErrStore e))
      | Inr (db1, i) \<Rightarrow> create_workspace v project i (m\<lparr>m_db := db1\<rparr>))"

section \<open>Channels\<close>

definition stopChannel :: "int \<Rightarrow> manager \<Rightarrow> manager" where
  "stopChannel i m = m\<lparr>m_procs := removeAll i (m_procs m)\<rparr>"

definition openChannel :: "int \<Rightarrow> manager \<Rightarrow> manager" where
  "openChannel i m = m\<lparr>m_procs := i # removeAll i (m_procs m)\<rparr>"

definition release_slot :: "int \<Rightarrow> manager \<Rightarrow> manager" where
  "release_slot r m = m\<lparr>m_ex := releaseRoleSlot r (m_ex m)\<rparr>"

text \<open>\<^verbatim>\<open>if agent, err := GetRole(*ss.RoleID); err == nil\<close> followed by the release.\<close>

definition release_role :: "int \<Rightarrow> manager \<Rightarrow> manager" where
  "release_role r m = (case get_role_row r (m_db m) of None \<Rightarrow> m | Some a \<Rightarrow> release_slot (a_id a) m)"

section \<open>Start\<close>

text \<open>The checks up to the slot, and the rest; the manager holds no lock between them.\<close>

definition start_admit :: "session_env \<Rightarrow> int \<Rightarrow> manager \<Rightarrow> (SessionTask \<times> role) outcome" where
  "start_admit v i m =
     (case loadSession i (m_db m) of
        None \<Rightarrow> (m, Inl ErrSessionNotFound)
      | Some (t, ss) \<Rightarrow>
      if \<not> CanTransition (ss_status ss) SessionStatusActive then (m, Inl (ErrInvalidTransition (ss_status ss) SessionStatusActive))
      else case ss_role_id ss of
        None \<Rightarrow> (m, Inl NilRole)
      | Some r \<Rightarrow>
      case get_role_row r (m_db m) of
        None \<Rightarrow> (m, Inl (ErrStore ErrNoRows))
      | Some a \<Rightarrow>
      if \<not> a_enabled a then (m, Inl ErrRoleDisabled)
      else case reserveRoleSlot (ConcurrencyLimit a) (a_id a) (m_ex m) of
        (ex, ok) \<Rightarrow> (m\<lparr>m_ex := ex\<rparr>, if ok then Inr (ss, a) else Inl ErrRoleFull))"

definition start_run :: "session_env \<Rightarrow> int \<Rightarrow> SessionTask \<Rightarrow> role \<Rightarrow> manager \<Rightarrow> unit outcome" where
  "start_run v i ss a m =
     (let dir = (if ss_worktree_path ss = [] then projectDir ss (m_db m) else ss_worktree_path ss) in
      if \<not> session_runtime v a then (release_slot (a_id a) m, Inl ErrNoSessionRuntime)
      else if \<not> sv_channel v ss a dir then (release_slot (a_id a) m, Inl ErrChannel)
      else case store_update v i [(ColStatus, AStr ''active''), (ColStartedAt, AStr (sv_now v)), (ColUpdatedAt, AStr (sv_now v))]
             (openChannel (ss_id ss) m) of
        (m2, Inl e) \<Rightarrow> (stopChannel i m2, Inl e)
      | (m2, Inr _) \<Rightarrow> (m2, Inr ()))"

definition Start :: "session_env \<Rightarrow> int \<Rightarrow> manager \<Rightarrow> unit outcome" where
  "Start v i m =
     (case start_admit v i m of (m1, Inl e) \<Rightarrow> (m1, Inl e) | (m1, Inr (ss, a)) \<Rightarrow> start_run v i ss a m1)"

section \<open>Suspend, Delete and the exit of a channel\<close>

definition suspend_fields :: "session_env \<Rightarrow> fields" where
  "suspend_fields v = [(ColStatus, AStr ''suspended''), (ColSuspendedAt, AStr (sv_now v)), (ColUpdatedAt, AStr (sv_now v))]"

definition Suspend :: "session_env \<Rightarrow> int \<Rightarrow> manager \<Rightarrow> unit outcome" where
  "Suspend v i m =
     (case loadSession i (m_db m) of
        None \<Rightarrow> (m, Inl ErrSessionNotFound)
      | Some (t, ss) \<Rightarrow>
      if \<not> CanTransition (ss_status ss) SessionStatusSuspended
      then (m, Inl (ErrInvalidTransition (ss_status ss) SessionStatusSuspended))
      else case ss_role_id ss of
        None \<Rightarrow> (stopChannel i m, Inl NilRole)
      | Some r \<Rightarrow> store_update v i (suspend_fields v) (release_role r (stopChannel i m)))"

definition Delete :: "session_env \<Rightarrow> int \<Rightarrow> manager \<Rightarrow> unit outcome" where
  "Delete v i m =
     (case loadSession i (m_db m) of
        None \<Rightarrow> (m, Inl ErrSessionNotFound)
      | Some (t, ss) \<Rightarrow>
      if \<not> CanTransition (ss_status ss) SessionStatusDeleted
      then (m, Inl (ErrInvalidTransition (ss_status ss) SessionStatusDeleted))
      else case ss_role_id ss of
        None \<Rightarrow> (stopChannel i m, Inl NilRole)
      | Some r \<Rightarrow> store_update v i [(ColStatus, AStr ''deleted''), (ColUpdatedAt, AStr (sv_now v))] (release_role r (stopChannel i m)))"

definition handleExit :: "session_env \<Rightarrow> int \<Rightarrow> manager \<Rightarrow> unit outcome" where
  "handleExit v i m =
     (if i \<notin> set (m_procs m) then (m, Inr ())
      else let m1 = stopChannel i m in
      case loadSession i (m_db m1) of
        None \<Rightarrow> (m1, Inr ())
      | Some (t, ss) \<Rightarrow>
      if ss_status ss \<noteq> SessionStatusActive then (m1, Inr ())
      else case store_update v i (suspend_fields v) m1 of
        (m2, Inl e) \<Rightarrow> (m2, Inr ())
      | (m2, Inr _) \<Rightarrow> (case ss_role_id ss of None \<Rightarrow> (m2, Inl NilRole) | Some r \<Rightarrow> (release_role r m2, Inr ())))"

section \<open>Delivery\<close>

text \<open>The text of the error column is a fixed one here; the code writes the error it got.\<close>

definition fail_delivery :: "session_env \<Rightarrow> int \<Rightarrow> manager \<Rightarrow> manager" where
  "fail_delivery v taskID m =
     fst (store_update v taskID [(ColStatus, AStr ''failed''), (ColFinishedAt, AStr (sv_now v)), (ColError, AStr ''delivery'')] m)"

definition delivery_task :: "session_env \<Rightarrow> SessionTask \<Rightarrow> role \<Rightarrow> string \<Rightarrow> string \<Rightarrow> perm \<Rightarrow> db \<Rightarrow> task" where
  "delivery_task v ss a title body p db =
     (let tk = zero_task\<lparr>t_title := title, t_body := (if body = [] then sv_deliver_body v ss a (projectName ss db) else body),
            t_status := StatusQueued, t_perm := p, t_run_mode := RunModeBatch, t_role_id := Some (a_id a),
            t_project_id := ss_project_id ss, t_project_dir := projectDir ss db, t_session_id := Some (ss_id ss),
            t_worktree_branch := ss_worktree_branch ss, t_base_commit := ss_base_commit ss\<rparr> in
      if p = PermReview then tk\<lparr>t_status := StatusAwaitingReview, t_review_rounds := 1, t_finished_at := Some (sv_now v), t_exit_code := Some 0\<rparr>
      else if p = PermFull \<and> ss_worktree_branch ss = [] then tk\<lparr>t_status := StatusSucceeded, t_finished_at := Some (sv_now v)\<rparr>
      else tk)"

text \<open>Snapshot of the worktree and, for full permission, completion with the merge task.\<close>

definition settle_delivery :: "session_env \<Rightarrow> SessionTask \<Rightarrow> perm \<Rightarrow> int \<Rightarrow> manager \<Rightarrow> unit outcome" where
  "settle_delivery v ss p taskID m =
     (if ss_worktree_branch ss = [] then (m, Inr ())
      else case get_task taskID (m_db m) of
        None \<Rightarrow> (m, Inl (ErrStore ErrNoRows))
      | Some created \<Rightarrow>
      if \<not> sv_snapshot v created then (fail_delivery v taskID m, Inl ErrSnapshot)
      else if p \<noteq> PermFull then (m, Inr ())
      else case DeliverTaskAndCreateMerge (sv_now v) taskID (NewMergeTask (sv_merge_text v) created) (m_db m) of
        Inl e \<Rightarrow> (fail_delivery v taskID m, Inl (ErrMerge e))
      | Inr (db, mergeID) \<Rightarrow> (m\<lparr>m_db := db\<rparr>, Inr ()))"

definition Deliver :: "session_env \<Rightarrow> int \<Rightarrow> string \<Rightarrow> string \<Rightarrow> string \<Rightarrow> manager \<Rightarrow> task outcome" where
  "Deliver v i title body perm m =
     (case loadSession i (m_db m) of
        None \<Rightarrow> (m, Inl ErrSessionNotFound)
      | Some (t, ss) \<Rightarrow>
      if \<not> CanTransition (ss_status ss) SessionStatusDelivered
      then (m, Inl (ErrInvalidTransition (ss_status ss) SessionStatusDelivered))
      else case ss_role_id ss of
        None \<Rightarrow> (m, Inl NilRole)
      | Some r \<Rightarrow>
      case get_role_row r (m_db m) of
        None \<Rightarrow> (m, Inl (ErrStore ErrNoRows))
      | Some a \<Rightarrow>
      let p = session_perm perm in
      if p \<notin> {PermFull, PermReview} then (m, Inl ErrPerm)
      else if ss_project_id ss = None then (m, Inl ErrNoProject)
      else let m1 = release_slot (a_id a) (stopChannel i m) in
      case CreateTask (sv_now v) (delivery_task v ss a title body p (m_db m1)) (m_db m1) of
        Inl e \<Rightarrow> (m1, Inl (ErrStore e))
      | Inr (db2, taskID) \<Rightarrow>
      case settle_delivery v ss p taskID (m1\<lparr>m_db := db2\<rparr>) of
        (m3, Inl e) \<Rightarrow> (m3, Inl e)
      | (m3, Inr _) \<Rightarrow>
      case store_update v i [(ColStatus, AStr ''delivered''), (ColDeliveredAt, AStr (sv_now v)), (ColUpdatedAt, AStr (sv_now v))] m3 of
        (m4, Inl e) \<Rightarrow> (m4, Inl e)
      | (m4, Inr _) \<Rightarrow> (case get_task taskID (m_db m4) of None \<Rightarrow> (m4, Inl (ErrStore ErrNoRows)) | Some tk \<Rightarrow> (m4, Inr tk)))"

section \<open>Commands, recovery and the end of the service\<close>

definition activeProc :: "int \<Rightarrow> manager \<Rightarrow> session_error + unit" where
  "activeProc i m =
     (if i \<in> set (m_procs m) then Inr ()
      else case loadSession i (m_db m) of
        None \<Rightarrow> Inl ErrSessionNotFound
      | Some (t, ss) \<Rightarrow> if ss_status ss = SessionStatusSuspended then Inl ErrSuspended else Inl (ErrNotRunning (ss_status ss)))"

definition autoStart :: "session_env \<Rightarrow> int \<Rightarrow> manager \<Rightarrow> unit outcome" where
  "autoStart v i m =
     (case loadSession i (m_db m) of
        None \<Rightarrow> (m, Inl ErrSessionNotFound)
      | Some (t, ss) \<Rightarrow>
      if ss_status ss = SessionStatusActive then (m, Inl (ErrNotRunning (ss_status ss)))
      else if ss_status ss \<noteq> SessionStatusCreated \<and> ss_status ss \<noteq> SessionStatusSuspended then (m, Inl (ErrClosed (ss_status ss)))
      else Start v i m)"

text \<open>\<^verbatim>\<open>Prompt\<close> up to the command it sends: the session has a channel, or is started.\<close>

definition Prompt :: "session_env \<Rightarrow> int \<Rightarrow> manager \<Rightarrow> unit outcome" where
  "Prompt v i m =
     (case activeProc i m of
        Inr _ \<Rightarrow> (m, Inr ())
      | Inl _ \<Rightarrow> (case autoStart v i m of (m1, Inl e) \<Rightarrow> (m1, Inl e) | (m1, Inr _) \<Rightarrow> (m1, activeProc i m1)))"

text \<open>\<^verbatim>\<open>message_end\<close>: the time of the message and one more message.\<close>

definition increment :: "int \<Rightarrow> db \<Rightarrow> int" where
  "increment i db = (case loadSession i db of None \<Rightarrow> 0 | Some (t, ss) \<Rightarrow> ss_message_count ss + 1)"

definition message_end :: "session_env \<Rightarrow> int \<Rightarrow> string \<Rightarrow> manager \<Rightarrow> manager" where
  "message_end v i ts m =
     fst (store_update v i [(ColLastMessageAt, AStr ts), (ColMessageCount, AInt (increment i (m_db m))),
       (ColUpdatedAt, AStr (sv_now v))] m)"

definition recover_session :: "session_env \<Rightarrow> task \<Rightarrow> manager \<Rightarrow> manager" where
  "recover_session v t m =
     (case AsSession t of None \<Rightarrow> m | Some ss \<Rightarrow> fst (store_update v (ss_id ss) (suspend_fields v) m))"

definition Recover :: "session_env \<Rightarrow> manager \<Rightarrow> manager" where
  "Recover v m = fold (recover_session v) (ListSessionTasks None None ''active'' True (m_db m)) m"

definition Stop :: "manager \<Rightarrow> manager" where
  "Stop m = m\<lparr>m_procs := []\<rparr>"

text \<open>One round of the idle monitor over the channels without events for the idle time.\<close>

definition suspend_idle :: "session_env \<Rightarrow> int \<Rightarrow> manager \<Rightarrow> manager" where
  "suspend_idle v i m =
     (case loadSession i (m_db m) of
        None \<Rightarrow> m
      | Some (t, ss) \<Rightarrow> if ss_status ss \<noteq> SessionStatusActive then m else fst (Suspend v i m))"

definition idle_round :: "session_env \<Rightarrow> (int \<Rightarrow> bool) \<Rightarrow> manager \<Rightarrow> manager" where
  "idle_round v idle m = fold (suspend_idle v) (filter idle (m_procs m)) m"

section \<open>The timeline\<close>

text \<open>
  The window of \<^verbatim>\<open>Transcript\<close> over the ids of the entries: before a cursor, or the end.
\<close>

definition transcript_window :: "int \<Rightarrow> string \<Rightarrow> ('e \<Rightarrow> string) \<Rightarrow> 'e list \<Rightarrow> 'e list" where
  "transcript_window limit before eid es =
     (if before \<noteq> [] then
        (case find (\<lambda>(k, e). eid e = before) (List.enumerate 0 es) of
           None \<Rightarrow> []
         | Some (start, _) \<Rightarrow>
             if limit > 0 then drop (nat (max 0 (int start - limit))) (take start es) else es)
      else if limit > 0 \<and> int (length es) > limit then drop (length es - nat limit) es
      else es)"

end
