(* ===== verification/Decimal_Text.thy ===== *)
theory Decimal_Text
  imports Paihuo_Prelude
begin

text \<open>
  Decimal texts of integers: \<^verbatim>\<open>strconv.FormatInt(n, 10)\<close>, the verb \<^verbatim>\<open>%d\<close> of
  \<^verbatim>\<open>fmt\<close>, and \<^verbatim>\<open>strconv.ParseInt(s, 10, 64)\<close> with its bounds. Parsing reads back
  what formatting wrote, for every value of an \<^verbatim>\<open>int64\<close>.
\<close>

definition digit_char :: "nat \<Rightarrow> char" where
  "digit_char n = char_of (48 + n)"

definition digit_value :: "char \<Rightarrow> nat option" where
  "digit_value c = (let k = (of_char c :: nat) in if 48 \<le> k \<and> k \<le> 57 then Some (k - 48) else None)"

fun format_nat :: "nat \<Rightarrow> string" where
  "format_nat n = (if n < 10 then [digit_char n] else format_nat (n div 10) @ [digit_char (n mod 10)])"

declare format_nat.simps [simp del]

definition FormatInt :: "int \<Rightarrow> string" where
  "FormatInt i = (if i < 0 then CHR ''-'' # format_nat (nat (- i)) else format_nat (nat i))"

fun parse_digits :: "nat \<Rightarrow> string \<Rightarrow> nat option" where
  "parse_digits acc [] = Some acc"
| "parse_digits acc (c # cs) =
     (case digit_value c of None \<Rightarrow> None | Some d \<Rightarrow> parse_digits (10 * acc + d) cs)"

definition parse_nat :: "string \<Rightarrow> nat option" where
  "parse_nat s = (if s = [] then None else parse_digits 0 s)"

definition max_int64 :: int where "max_int64 = 9223372036854775807"

text \<open>An optional sign, at least one digit, and a value of 64 bits.\<close>

definition ParseInt :: "string \<Rightarrow> int option" where
  "ParseInt s =
     (case s of
        [] \<Rightarrow> None
      | c # cs \<Rightarrow>
          let neg = c = CHR ''-''; body = (if c = CHR ''-'' \<or> c = CHR ''+'' then cs else s) in
          case parse_nat body of
            None \<Rightarrow> None
          | Some n \<Rightarrow>
              if neg then (if int n \<le> max_int64 + 1 then Some (- int n) else None)
              else if int n \<le> max_int64 then Some (int n) else None)"

section \<open>Reading back\<close>

lemma digit_char_value [simp]: "n < 10 \<Longrightarrow> digit_value (digit_char n) = Some n"
  by (simp add: digit_value_def digit_char_def Let_def)

lemma format_nat_nonempty [simp]: "format_nat n \<noteq> []"
  by (subst format_nat.simps) simp

lemma parse_digits_append:
  "parse_digits acc (xs @ ys) = (case parse_digits acc xs of None \<Rightarrow> None | Some m \<Rightarrow> parse_digits m ys)"
  by (induction xs arbitrary: acc) (simp_all split: option.splits)

lemma parse_format_nat: "parse_digits 0 (format_nat n) = Some n"
proof (induction n rule: format_nat.induct)
  case (1 n)
  then show ?case by (subst format_nat.simps) (simp add: parse_digits_append)
qed

lemma format_nat_digits: "c \<in> set (format_nat n) \<Longrightarrow> digit_value c \<noteq> None"
proof (induction n rule: format_nat.induct)
  case (1 n)
  then show ?case by (subst (asm) format_nat.simps) (auto split: if_splits)
qed

lemma no_digits [simp]: "digit_value (CHR ''-'') = None" "digit_value (CHR ''+'') = None" "digit_value (CHR ''.'') = None"
  by (simp_all add: digit_value_def)

lemma format_nat_no_sign [simp]: "CHR ''-'' \<notin> set (format_nat n)" "CHR ''+'' \<notin> set (format_nat n)" "CHR ''.'' \<notin> set (format_nat n)"
  using format_nat_digits no_digits by metis+

lemma ParseInt_FormatInt:
  assumes "- max_int64 - 1 \<le> i" and "i \<le> max_int64"
  shows "ParseInt (FormatInt i) = Some i"
proof (cases "i < 0")
  case True
  then show ?thesis using assms by (simp add: FormatInt_def ParseInt_def parse_nat_def parse_format_nat Let_def)
next
  case False
  obtain c cs where f: "format_nat (nat i) = c # cs" using format_nat_nonempty by (metis neq_Nil_conv)
  then have "c \<noteq> CHR ''-''" "c \<noteq> CHR ''+''" using format_nat_no_sign [of "nat i"] by auto
  moreover have "parse_digits 0 (c # cs) = Some (nat i)" using parse_format_nat [of "nat i"] f by simp
  ultimately show ?thesis
    using False assms f by (simp add: FormatInt_def ParseInt_def parse_nat_def Let_def del: parse_digits.simps)
qed

lemma FormatInt_nonempty [simp]: "FormatInt i \<noteq> []"
  by (simp add: FormatInt_def)

lemma FormatInt_no_dot [simp]: "CHR ''.'' \<notin> set (FormatInt i)"
  by (simp add: FormatInt_def)

end
