(* ===== verification/Task_Lifecycle.thy ===== *)
theory Task_Lifecycle
  imports Session_Manager Store_Delete Store_Logs Exec_Run Decimal_Text
begin

text \<open>
  \<^verbatim>\<open>internal/application\<close>: the use cases of a task (task_lifecycle.go,
  task_transitions.go, task_delete.go, task_errors.go) and the mapping of their errors to HTTP
  (server/task_lifecycle_error.go). The state is that of the session manager, which holds the
  database, and the ids whose execution was told to stop, whose resources were cleaned up and
  whose runtime session was reset. Git and the file system are in \<open>life_env\<close>. The executor
  and the session manager are present, as in the server; waking the executor, reloading the
  schedules and published events leave no trace in the state.
\<close>

section \<open>Errors (task_errors.go)\<close>

datatype TaskErrorKind =
    TaskErrorInvalid | TaskErrorNotFound | TaskErrorConflict | TaskErrorRevisionConflict | TaskErrorInternal

datatype life_msg =
    NoTitle | BadPerm | BadRunMode | NoSuchProject | NoSuchRole | RoleOff | NotInteractive | NeedsRole
  | DependencyNeedsProject | DependencyNeedsTarget | BadDependencyMode
  | NotAllowed status status | OnlyStatus | SourceNoRole | SourceNoProject | SnapshotFailed
  | SourceIsMerging | MergeIsDone | NotFinished | StatusChanged | TaskMissing | IsMergeTask
  | StrongDependent int int | CleanupFailed int | FromStore store_error | FromSession session_error

datatype TaskLifecycleError = TaskLifecycleError (err_kind: TaskErrorKind) (err_msg: life_msg)

text \<open>The status code of an error (task_lifecycle_error.go).\<close>

definition writeTaskLifecycleError :: "TaskLifecycleError \<Rightarrow> int" where
  "writeTaskLifecycleError e = (case err_kind e of
     TaskErrorInvalid \<Rightarrow> 400 | TaskErrorNotFound \<Rightarrow> 404 | TaskErrorConflict \<Rightarrow> 409
   | TaskErrorRevisionConflict \<Rightarrow> 409 | TaskErrorInternal \<Rightarrow> 500)"

definition transitionStoreError :: "store_error \<Rightarrow> TaskErrorKind \<Rightarrow> TaskLifecycleError" where
  "transitionStoreError e fallback =
     (case e of
        ErrRevisionConflict \<Rightarrow> TaskLifecycleError TaskErrorRevisionConflict (FromStore e)
      | ErrDependencyUpdate _ \<Rightarrow> TaskLifecycleError TaskErrorInvalid (FromStore e)
      | _ \<Rightarrow> TaskLifecycleError fallback (FromStore e))"

section \<open>State and environment\<close>

record life =
  l_man :: manager
  l_cancelled :: "int list"
  l_cleaned :: "int list"
  l_reset :: "int list"

type_synonym 'a action = "life \<times> (TaskLifecycleError + 'a)"

abbreviation l_db :: "life \<Rightarrow> db" where "l_db l \<equiv> m_db (l_man l)"

definition set_db :: "db \<Rightarrow> life \<Rightarrow> life" where
  "set_db d l = l\<lparr>l_man := (l_man l)\<lparr>m_db := d\<rparr>\<rparr>"

datatype life_log = LogDelivered | LogMergeCreated int | LogResumed

record life_env =
  lv_session :: session_env
  lv_rng :: "int list \<Rightarrow> int list"
  lv_fuel :: nat
  lv_changes :: "string \<Rightarrow> task \<Rightarrow> bool option"
  lv_cleanup :: "task \<Rightarrow> bool"
  lv_interactive :: "string \<Rightarrow> bool"
  lv_sprint :: "any \<Rightarrow> string"
  lv_clock :: string
  lv_say :: "life_log \<Rightarrow> string"

abbreviation lv_now :: "life_env \<Rightarrow> string" where "lv_now v \<equiv> sv_now (lv_session v)"

text \<open>\<^verbatim>\<open>appendLog\<close>: a failure is ignored.\<close>

definition appendLog :: "life_env \<Rightarrow> int \<Rightarrow> life_log \<Rightarrow> life \<Rightarrow> life" where
  "appendLog v i content l =
     (case AppendLog (lv_now v) \<lparr>g_id = 0, g_task_id = i, g_seq = 0, g_stream = ''sys'',
          g_content = lv_say v content, g_created_at = []\<rparr> (l_db l) of
        Inl e \<Rightarrow> l
      | Inr (d, g) \<Rightarrow> set_db d l)"

text \<open>\<^verbatim>\<open>Executor.CancelTask\<close>, \<^verbatim>\<open>ResetTaskSession\<close>, \<^verbatim>\<open>CleanupTaskResources\<close>.\<close>

definition CancelTask :: "int \<Rightarrow> life \<Rightarrow> life" where
  "CancelTask i l = l\<lparr>l_cancelled := l_cancelled l @ [i]\<rparr>"

definition ResetTaskSession :: "int \<Rightarrow> life \<Rightarrow> life" where
  "ResetTaskSession i l = l\<lparr>l_reset := l_reset l @ [i]\<rparr>"

definition CleanupTaskResources :: "life_env \<Rightarrow> task \<Rightarrow> life \<Rightarrow> life \<times> bool" where
  "CleanupTaskResources v t l =
     (let l1 = CancelTask (t_id t) l in
      if lv_cleanup v t then (l1\<lparr>l_cleaned := l_cleaned l1 @ [t_id t]\<rparr>, True) else (l1, False))"

text \<open>The \<^verbatim>\<open>GetTask\<close> at the end of an operation.\<close>

definition reread :: "TaskErrorKind \<Rightarrow> int \<Rightarrow> life \<Rightarrow> task action" where
  "reread kind i l =
     (case get_task i (l_db l) of
        None \<Rightarrow> (l, Inl (TaskLifecycleError kind (FromStore ErrNoRows)))
      | Some t \<Rightarrow> (l, Inr t))"

section \<open>Creation (task_lifecycle.go)\<close>

record CreateTaskRequest =
  c_title :: string
  c_body :: string
  c_role_id :: "int option"
  c_project_id :: "int option"
  c_external_key :: string
  c_perm :: string
  c_run_mode :: string
  c_concurrent :: bool
  c_dependency_mode :: string
  c_depends_on :: "int option"
  c_block_on_failure :: bool
  c_parent_id :: "int option"
  c_resume_of :: "int option"
  c_parent_session_id :: "int option"
  c_parent_task_id :: "int option"
  c_cron :: string
  c_enabled :: bool

definition normalizeDependency :: "task \<Rightarrow> TaskLifecycleError + task" where
  "normalizeDependency t =
     (let t = (if t_dependency_mode t = DependencyOther []
               then t\<lparr>t_dependency_mode := (if t_project_id t = None then DependencyNone else DependencyWeak)\<rparr>
               else t) in
      case t_dependency_mode t of
        DependencyNone \<Rightarrow> Inr (t\<lparr>t_depends_on := None\<rparr>)
      | DependencyWeak \<Rightarrow>
          if t_project_id t = None then Inl (TaskLifecycleError TaskErrorInvalid DependencyNeedsProject)
          else Inr (t\<lparr>t_depends_on := None\<rparr>)
      | DependencyStrong \<Rightarrow>
          if t_project_id t = None then Inl (TaskLifecycleError TaskErrorInvalid DependencyNeedsProject)
          else (case t_depends_on t of
              None \<Rightarrow> Inl (TaskLifecycleError TaskErrorInvalid DependencyNeedsTarget)
            | Some d \<Rightarrow> if d < 1 then Inl (TaskLifecycleError TaskErrorInvalid DependencyNeedsTarget) else Inr t)
      | DependencyOther _ \<Rightarrow> Inl (TaskLifecycleError TaskErrorInvalid BadDependencyMode))"

definition requested_task :: "CreateTaskRequest \<Rightarrow> perm \<Rightarrow> run_mode \<Rightarrow> string \<Rightarrow> task" where
  "requested_task q p rm dir =
     zero_task\<lparr>t_title := trim_space (c_title q), t_body := c_body q, t_status := StatusQueued, t_perm := p,
       t_run_mode := rm, t_concurrent := c_concurrent q, t_role_id := c_role_id q, t_project_id := c_project_id q,
       t_parent_id := c_parent_id q, t_resume_of := c_resume_of q, t_external_key := c_external_key q,
       t_dependency_mode := dependency_mode_of (c_dependency_mode q), t_depends_on := c_depends_on q,
       t_block_on_failure := c_block_on_failure q, t_parent_session_id := c_parent_session_id q,
       t_parent_task_id := c_parent_task_id q, t_cron := c_cron q, t_enabled := c_enabled q,
       t_project_dir := dir\<rparr>"

definition create_role_ok :: "life_env \<Rightarrow> CreateTaskRequest \<Rightarrow> run_mode \<Rightarrow> db \<Rightarrow> TaskLifecycleError + unit" where
  "create_role_ok v q rm d =
     (case c_role_id q of
        None \<Rightarrow> rguard (rm \<noteq> RunModeInteractive) (TaskLifecycleError TaskErrorInvalid NeedsRole)
      | Some r \<Rightarrow>
          (case get_role_row r d of
             None \<Rightarrow> Inl (TaskLifecycleError TaskErrorInvalid NoSuchRole)
           | Some a \<Rightarrow>
               if \<not> a_enabled a then Inl (TaskLifecycleError TaskErrorInvalid RoleOff)
               else rguard (\<not> (rm = RunModeInteractive \<and> c_resume_of q = None \<and> \<not> lv_interactive v (a_runtime_id a)))
                 (TaskLifecycleError TaskErrorInvalid NotInteractive)))"

text \<open>Everything before the insert: the task that is inserted.\<close>

definition create_plan :: "life_env \<Rightarrow> CreateTaskRequest \<Rightarrow> db \<Rightarrow> TaskLifecycleError + task" where
  "create_plan v q d =
     (let p = session_perm (c_perm q);
          rm = run_mode_of (if c_run_mode q = [] then ''batch'' else c_run_mode q) in
      if trim_space (c_title q) = [] then Inl (TaskLifecycleError TaskErrorInvalid NoTitle)
      else if p \<notin> {PermFull, PermReview} then Inl (TaskLifecycleError TaskErrorInvalid BadPerm)
      else if rm \<notin> {RunModeBatch, RunModeInteractive} then Inl (TaskLifecycleError TaskErrorInvalid BadRunMode)
      else rbind (case c_project_id q of
               None \<Rightarrow> Inr []
             | Some pid \<Rightarrow> (case get_project pid d of
                   None \<Rightarrow> Inl (TaskLifecycleError TaskErrorInvalid NoSuchProject)
                 | Some pr \<Rightarrow> Inr (p_project_dir pr))) (\<lambda>dir.
           rbind (create_role_ok v q rm d) (\<lambda>_. normalizeDependency (requested_task q p rm dir))))"

definition create_task :: "life_env \<Rightarrow> CreateTaskRequest \<Rightarrow> life \<Rightarrow> task action" where
  "create_task v q l =
     (case create_plan v q (l_db l) of
        Inl e \<Rightarrow> (l, Inl e)
      | Inr t \<Rightarrow>
          (case CreateTaskWithProjectDependency (lv_now v) t (l_db l) of
             Inl e \<Rightarrow> (l, Inl (TaskLifecycleError TaskErrorInvalid (FromStore e)))
           | Inr (d, i) \<Rightarrow> reread TaskErrorInvalid i (set_db d l)))"

section \<open>Transitions (task_transitions.go)\<close>

definition manualTaskTransitions :: "status \<Rightarrow> status list" where
  "manualTaskTransitions st = (case st of
     StatusQueued \<Rightarrow> [StatusCancelled] | StatusClaimed \<Rightarrow> [StatusCancelled] | StatusRunning \<Rightarrow> [StatusCancelled]
   | StatusAwaitingReview \<Rightarrow> [StatusQueued, StatusSucceeded, StatusCancelled]
   | StatusSucceeded \<Rightarrow> [StatusQueued] | StatusFailed \<Rightarrow> [StatusQueued] | StatusCancelled \<Rightarrow> [StatusQueued]
   | _ \<Rightarrow> [])"

definition canTransitionTask :: "status \<Rightarrow> status \<Rightarrow> bool" where
  "canTransitionTask a b \<longleftrightarrow> b \<in> set (manualTaskTransitions a)"

definition taskAtRevision :: "int \<Rightarrow> int \<Rightarrow> db \<Rightarrow> TaskLifecycleError + task" where
  "taskAtRevision i expected d =
     (case get_task i d of
        None \<Rightarrow> Inl (TaskLifecycleError TaskErrorNotFound TaskMissing)
      | Some t \<Rightarrow>
          if t_revision t \<noteq> expected
          then Inl (TaskLifecycleError TaskErrorRevisionConflict (FromStore ErrRevisionConflict)) else Inr t)"

definition sourceHasOrNeedsMerge :: "task \<Rightarrow> db \<Rightarrow> bool" where
  "sourceHasOrNeedsMerge t d =
     (if t_merge_of t \<noteq> None then False
      else if t_worktree_branch t \<noteq> [] then True else HasMergeTaskForSource (t_id t) d)"

definition validateRequeue :: "task \<Rightarrow> db \<Rightarrow> TaskLifecycleError + unit" where
  "validateRequeue t d =
     (if t_status t = StatusSucceeded \<and> t_merge_of t = None \<and> sourceHasOrNeedsMerge t d
      then Inl (TaskLifecycleError TaskErrorConflict SourceIsMerging)
      else if t_status t = StatusSucceeded \<and> t_merge_of t \<noteq> None
      then Inl (TaskLifecycleError TaskErrorConflict MergeIsDone)
      else Inr ())"

definition ValidateTransition :: "int \<Rightarrow> int \<Rightarrow> status \<Rightarrow> db \<Rightarrow> TaskLifecycleError + unit" where
  "ValidateTransition i expected target d =
     rbind (taskAtRevision i expected d) (\<lambda>t.
       if \<not> canTransitionTask (t_status t) target
       then Inl (TaskLifecycleError TaskErrorInvalid (NotAllowed (t_status t) target))
       else if target = StatusQueued then validateRequeue t d else Inr ())"

record TaskTransitionRequest =
  tr_status :: status
  tr_fields :: fields
  tr_dependency_changed :: bool

text \<open>Assignment to a key of the map and its deletion.\<close>

definition put_field :: "column \<Rightarrow> any \<Rightarrow> fields \<Rightarrow> fields" where
  "put_field c a fs = filter (\<lambda>(k, _). k \<noteq> c) fs @ [(c, a)]"

definition drop_field :: "column \<Rightarrow> fields \<Rightarrow> fields" where
  "drop_field c fs = filter (\<lambda>(k, _). k \<noteq> c) fs"

definition updateTransition :: "life_env \<Rightarrow> int \<Rightarrow> int \<Rightarrow> TaskTransitionRequest \<Rightarrow> life \<Rightarrow> task action" where
  "updateTransition v i expected q l =
     (case (if tr_dependency_changed q then UpdateTaskAtRevision (lv_rng v) i expected (tr_fields q) (lv_now v) (l_db l)
            else UpdateAtRevision ResTask i expected (tr_fields q) (lv_now v) (l_db l)) of
        Inl e \<Rightarrow> (l, Inl (transitionStoreError e TaskErrorInternal))
      | Inr d \<Rightarrow> reread TaskErrorInternal i (set_db d l))"

definition approve :: "life_env \<Rightarrow> task \<Rightarrow> int \<Rightarrow> life \<Rightarrow> task action" where
  "approve v source expected l =
     (if t_role_id source = None then (l, Inl (TaskLifecycleError TaskErrorInvalid SourceNoRole))
      else if trim_space (t_project_dir source) = [] then (l, Inl (TaskLifecycleError TaskErrorInvalid SourceNoProject))
      else if t_worktree_branch source \<noteq> [] \<and> \<not> sv_snapshot (lv_session v) source
      then (l, Inl (TaskLifecycleError TaskErrorConflict SnapshotFailed))
      else if lv_changes v (t_project_dir source) source = Some False then
        (case ApproveTaskDeliver (lv_now v) (t_id source) expected (l_db l) of
           Inl e \<Rightarrow> (l, Inl (transitionStoreError e TaskErrorConflict))
         | Inr d \<Rightarrow>
             reread TaskErrorInternal (t_id source)
               (appendLog v (t_id source) LogDelivered (fst (CleanupTaskResources v source (set_db d l)))))
      else
        (case ApproveTaskAndCreateMerge (lv_now v) (t_id source) expected
                (NewMergeTask (sv_merge_text (lv_session v)) source) (l_db l) of
           Inl e \<Rightarrow> (l, Inl (transitionStoreError e TaskErrorConflict))
         | Inr (d, mergeID) \<Rightarrow>
             (case reread TaskErrorInternal (t_id source) (appendLog v (t_id source) (LogMergeCreated mergeID) (set_db d l)) of
                (l1, Inl e) \<Rightarrow> (l1, Inl e)
              | (l1, Inr approved) \<Rightarrow>
                  (case reread TaskErrorInternal mergeID l1 of
                     (l2, Inl e) \<Rightarrow> (l2, Inl e)
                   | (l2, Inr m) \<Rightarrow> (l2, Inr approved)))))"

text \<open>The heading of a review note; the clock is the local time to the minute.\<close>

definition review_note_text :: "int \<Rightarrow> string \<Rightarrow> string \<Rightarrow> string" where
  "review_note_text rounds clock note =
     [CHR 0xE3, CHR 0x80, CHR 0x90, CHR 0xE4, CHR 0xBF, CHR 0xAE, CHR 0xE6, CHR 0x94, CHR 0xB9,
      CHR 0xE6, CHR 0x84, CHR 0x8F, CHR 0xE8, CHR 0xA7, CHR 0x81, CHR '' '', CHR 0xE7, CHR 0xAC, CHR 0xAC, CHR '' '']
     @ FormatInt rounds @ [CHR '' '', CHR 0xE8, CHR 0xBD, CHR 0xAE, CHR '' ''] @ clock
     @ [CHR 0xE3, CHR 0x80, CHR 0x91] @ note"

definition Sprint :: "life_env \<Rightarrow> any \<Rightarrow> string" where
  "Sprint v a = (case a of AStr s \<Rightarrow> s | ANil \<Rightarrow> ''<nil>'' | _ \<Rightarrow> lv_sprint v a)"

definition requeue_fields :: "life_env \<Rightarrow> task \<Rightarrow> fields \<Rightarrow> fields" where
  "requeue_fields v source fs =
     (let set1 = put_field ColExitCode ANil (put_field ColError (AStr []) (put_field ColFinishedAt ANil
            (put_field ColStartedAt ANil (put_field ColStatus (AStr ''queued'') fs)))) in
      if t_status source \<noteq> StatusAwaitingReview then set1
      else drop_field ColReviewNote
        (case map_of set1 ColReviewNote of
           None \<Rightarrow> set1
         | Some note \<Rightarrow>
             let trimmed = trim_space (Sprint v note) in
             if trimmed = [] then set1
             else put_field ColBody (AStr ((if t_body source = [] then [] else t_body source @ blank_line)
                    @ review_note_text (t_review_rounds source) (lv_clock v) trimmed)) set1))"

definition requeue :: "life_env \<Rightarrow> task \<Rightarrow> int \<Rightarrow> TaskTransitionRequest \<Rightarrow> life \<Rightarrow> task action" where
  "requeue v source expected q l =
     (case validateRequeue source (l_db l) of
        Inl e \<Rightarrow> (l, Inl e)
      | Inr _ \<Rightarrow>
          updateTransition v (t_id source) expected (q\<lparr>tr_fields := requeue_fields v source (tr_fields q)\<rparr>)
            (if t_status source = StatusAwaitingReview then ResetTaskSession (t_id source) l else l))"

definition cancel :: "life_env \<Rightarrow> task \<Rightarrow> int \<Rightarrow> TaskTransitionRequest \<Rightarrow> life \<Rightarrow> task action" where
  "cancel v source expected q l =
     updateTransition v (t_id source) expected
       (q\<lparr>tr_fields := put_field ColStatus (AStr ''cancelled'') (tr_fields q)\<rparr>) (CancelTask (t_id source) l)"

definition Transition :: "life_env \<Rightarrow> int \<Rightarrow> int \<Rightarrow> TaskTransitionRequest \<Rightarrow> life \<Rightarrow> task action" where
  "Transition v i expected q l =
     (case taskAtRevision i expected (l_db l) of
        Inl e \<Rightarrow> (l, Inl e)
      | Inr source \<Rightarrow>
      let refuse = (l, Inl (TaskLifecycleError TaskErrorInvalid (NotAllowed (t_status source) (tr_status q)))) in
      if \<not> canTransitionTask (t_status source) (tr_status q) then refuse
      else case tr_status q of
        StatusSucceeded \<Rightarrow>
          if length (tr_fields q) \<noteq> 1 then (l, Inl (TaskLifecycleError TaskErrorInvalid OnlyStatus))
          else approve v source expected l
      | StatusQueued \<Rightarrow> requeue v source expected q l
      | StatusCancelled \<Rightarrow> cancel v source expected q l
      | _ \<Rightarrow> refuse)"

definition guarded :: "int \<Rightarrow> int \<Rightarrow> status \<Rightarrow> (task \<Rightarrow> task action) \<Rightarrow> life \<Rightarrow> task action" where
  "guarded i expected target act l =
     (case taskAtRevision i expected (l_db l) of
        Inl e \<Rightarrow> (l, Inl e)
      | Inr source \<Rightarrow>
          if \<not> canTransitionTask (t_status source) target
          then (l, Inl (TaskLifecycleError TaskErrorInvalid (NotAllowed (t_status source) target)))
          else act source)"

definition Approve :: "life_env \<Rightarrow> int \<Rightarrow> int \<Rightarrow> life \<Rightarrow> task action" where
  "Approve v i expected l = guarded i expected StatusSucceeded (\<lambda>t. approve v t expected l) l"

definition Requeue :: "life_env \<Rightarrow> int \<Rightarrow> int \<Rightarrow> TaskTransitionRequest \<Rightarrow> life \<Rightarrow> task action" where
  "Requeue v i expected q l =
     guarded i expected StatusQueued (\<lambda>t. requeue v t expected (q\<lparr>tr_status := StatusQueued\<rparr>) l) l"

definition Cancel :: "life_env \<Rightarrow> int \<Rightarrow> int \<Rightarrow> TaskTransitionRequest \<Rightarrow> life \<Rightarrow> task action" where
  "Cancel v i expected q l =
     guarded i expected StatusCancelled (\<lambda>t. cancel v t expected (q\<lparr>tr_status := StatusCancelled\<rparr>) l) l"

definition terminalTaskStatus :: "status \<Rightarrow> bool" where
  "terminalTaskStatus st \<longleftrightarrow> st \<in> {StatusSucceeded, StatusFailed, StatusCancelled}"

definition Resume :: "life_env \<Rightarrow> int \<Rightarrow> int \<Rightarrow> life \<Rightarrow> task action" where
  "Resume v i expected l =
     (case taskAtRevision i expected (l_db l) of
        Inl e \<Rightarrow> (l, Inl e)
      | Inr source \<Rightarrow>
      if t_role_id source = None then (l, Inl (TaskLifecycleError TaskErrorInvalid SourceNoRole))
      else if \<not> terminalTaskStatus (t_status source) then (l, Inl (TaskLifecycleError TaskErrorConflict NotFinished))
      else if t_status source = StatusSucceeded \<and> t_merge_of source = None \<and> sourceHasOrNeedsMerge source (l_db l)
      then (l, Inl (TaskLifecycleError TaskErrorConflict SourceIsMerging))
      else if t_status source = StatusSucceeded \<and> t_merge_of source \<noteq> None
      then (l, Inl (TaskLifecycleError TaskErrorConflict MergeIsDone))
      else case ResumeTask i expected (lv_now v) (l_db l) of
        Inl e \<Rightarrow> (l, Inl (transitionStoreError e TaskErrorInternal))
      | Inr (d, resumed) \<Rightarrow>
          if \<not> resumed then (set_db d l, Inl (TaskLifecycleError TaskErrorConflict StatusChanged))
          else reread TaskErrorInternal i (appendLog v i LogResumed (set_db d l)))"

section \<open>Deletion (task_delete.go)\<close>

text \<open>The first strong dependent outside the tree, with the task it depends on.\<close>

fun strong_dependent :: "int list \<Rightarrow> task list \<Rightarrow> db \<Rightarrow> (int \<times> int) option" where
  "strong_dependent deleting [] d = None"
| "strong_dependent deleting (t # ts) d =
     (case find (\<lambda>u. t_id u \<notin> set deleting \<and> t_dependency_mode u = DependencyStrong) (ListTaskDependents (t_id t) d) of
        Some u \<Rightarrow> Some (t_id u, t_id t)
      | None \<Rightarrow> strong_dependent deleting ts d)"

text \<open>The errors a deletion leaves on the cancelled rows, in UTF-8.\<close>

definition deleted_text :: string where
  "deleted_text =
     [CHR 0xE4, CHR 0xBB, CHR 0xBB, CHR 0xE5, CHR 0x8A, CHR 0xA1, CHR 0xE5, CHR 0xB7, CHR 0xB2,
      CHR 0xE5, CHR 0x88, CHR 0xA0, CHR 0xE9, CHR 0x99, CHR 0xA4]"

definition parent_deleted_text :: string where
  "parent_deleted_text =
     [CHR 0xE7, CHR 0x88, CHR 0xB6, CHR 0xE4, CHR 0xBB, CHR 0xBB, CHR 0xE5, CHR 0x8A, CHR 0xA1,
      CHR 0xE5, CHR 0xB7, CHR 0xB2, CHR 0xE5, CHR 0x88, CHR 0xA0, CHR 0xE9, CHR 0x99, CHR 0xA4]"

definition deletion_fields :: "life_env \<Rightarrow> string \<Rightarrow> fields" where
  "deletion_fields v msg = [(ColStatus, AStr ''cancelled''), (ColFinishedAt, AStr (lv_now v)), (ColError, AStr msg)]"

text \<open>Cancelling the rest of the tree, cleaning up, deleting the sessions: each stops at an error.\<close>

fun cancel_rest :: "life_env \<Rightarrow> int \<Rightarrow> task list \<Rightarrow> life \<Rightarrow> unit action" where
  "cancel_rest v i [] l = (l, Inr ())"
| "cancel_rest v i (t # ts) l =
     (if t_id t = i then cancel_rest v i ts l
      else case UpdateTask (t_id t) (deletion_fields v parent_deleted_text) (lv_now v) (l_db l) of
        Inl e \<Rightarrow> (l, Inl (TaskLifecycleError TaskErrorInternal (FromStore e)))
      | Inr d \<Rightarrow> cancel_rest v i ts (set_db d l))"

fun cleanup_tree :: "life_env \<Rightarrow> task list \<Rightarrow> life \<Rightarrow> unit action" where
  "cleanup_tree v [] l = (l, Inr ())"
| "cleanup_tree v (t # ts) l =
     (case CleanupTaskResources v t l of
        (l1, False) \<Rightarrow> (l1, Inl (TaskLifecycleError TaskErrorConflict (CleanupFailed (t_id t))))
      | (l1, True) \<Rightarrow> cleanup_tree v ts l1)"

fun delete_sessions :: "life_env \<Rightarrow> int list \<Rightarrow> life \<Rightarrow> unit action" where
  "delete_sessions v [] l = (l, Inr ())"
| "delete_sessions v (s # ss) l =
     (case Session_Manager.Delete (lv_session v) s (l_man l) of
        (m, Inl e) \<Rightarrow> (l\<lparr>l_man := m\<rparr>, Inl (TaskLifecycleError TaskErrorInternal (FromSession e)))
      | (m, Inr _) \<Rightarrow> delete_sessions v ss (l\<lparr>l_man := m\<rparr>))"

text \<open>
  \<^verbatim>\<open>TaskLifecycle.Delete\<close>. \<open>None\<close> is a recursion of the store that does not end
  within \<open>lv_fuel\<close> levels.
\<close>

definition delete_checked :: "life_env \<Rightarrow> int \<Rightarrow> int \<Rightarrow> task list \<Rightarrow> life \<Rightarrow> unit action option" where
  "delete_checked v i expected tree l =
     (case UpdateAtRevision ResTask i expected (deletion_fields v deleted_text) (lv_now v) (l_db l) of
        Inl e \<Rightarrow> Some (l, Inl (transitionStoreError e TaskErrorInternal))
      | Inr d \<Rightarrow>
      case cancel_rest v i tree (set_db d l) of
        (l1, Inl e) \<Rightarrow> Some (l1, Inl e)
      | (l1, Inr _) \<Rightarrow>
      case cleanup_tree v tree l1 of
        (l2, Inl e) \<Rightarrow> Some (l2, Inl e)
      | (l2, Inr _) \<Rightarrow>
      let deliveredSessions = ListSessionsForTask i (l_db l2) in
      case DeleteTask (lv_fuel v) (lv_rng v) i (lv_now v) (l_db l2) of
        None \<Rightarrow> None
      | Some (Inl e) \<Rightarrow>
          Some (l2, Inl (case e of
             ErrTaskDependency dependent source \<Rightarrow> TaskLifecycleError TaskErrorConflict (StrongDependent dependent source)
           | ErrNoRows \<Rightarrow> TaskLifecycleError TaskErrorNotFound TaskMissing
           | _ \<Rightarrow> TaskLifecycleError TaskErrorInternal (FromStore e)))
      | Some (Inr d2) \<Rightarrow> Some (delete_sessions v deliveredSessions (set_db d2 l2)))"

definition delete_task :: "life_env \<Rightarrow> int \<Rightarrow> int \<Rightarrow> life \<Rightarrow> unit action option" where
  "delete_task v i expected l =
     (case taskAtRevision i expected (l_db l) of
        Inl e \<Rightarrow> Some (l, Inl e)
      | Inr target \<Rightarrow>
      if t_merge_of target \<noteq> None then Some (l, Inl (TaskLifecycleError TaskErrorConflict IsMergeTask))
      else case ListTaskDeletionOrder (lv_fuel v) i (l_db l) of
        None \<Rightarrow> None
      | Some tree \<Rightarrow>
      case strong_dependent (map t_id tree) tree (l_db l) of
        Some (dependent, source) \<Rightarrow> Some (l, Inl (TaskLifecycleError TaskErrorConflict (StrongDependent dependent source)))
      | None \<Rightarrow> delete_checked v i expected tree l)"

end
