(* ===== verification/Session_Laws.thy ===== *)
theory Session_Laws
  imports Session_Manager
begin

text \<open>
  What the operations of the session manager keep: a session moves along the transitions of
  session.go, is delivered at most once, and the slots of the roles are those of the sessions
  that have a channel.
\<close>

section \<open>Rows after an operation\<close>

text \<open>All rows but possibly one stay as they are.\<close>

definition kept :: "int \<Rightarrow> db \<Rightarrow> db \<Rightarrow> bool" where
  "kept i db db' \<longleftrightarrow> schema_ok db' \<and> (\<forall>j t. j \<noteq> i \<and> get_task j db = Some t \<longrightarrow> get_task j db' = Some t)"

lemma kept_refl: "schema_ok db \<Longrightarrow> kept i db db"
  by (simp add: kept_def)

lemma kept_trans: "kept i a b \<Longrightarrow> kept i b c \<Longrightarrow> kept i a c"
  by (simp add: kept_def)

text \<open>Updates of the columns of a session.\<close>

lemma no_project_UpdateTask:
  "map_of fs ColProjectId = None \<Longrightarrow> UpdateTask i fs now db = updateOne i fs now db"
  by (simp add: UpdateTask_def)

lemma updateOne_rows:
  assumes "updateOne i fs now db = Inr db'" and "fs \<noteq> []" and "schema_ok db"
  shows "schema_ok db' \<and> roles db' = roles db \<and> (\<forall>t. get_task i db = Some t \<longrightarrow> edit_task fs now t \<noteq> None) \<and>
    (\<forall>j. get_task j db' = (if j = i then map_option (\<lambda>t. the (edit_task fs now t)) (get_task j db) else get_task j db))"
proof -
  let ?f = "\<lambda>t. the (edit_task fs now t)"
  have ed: "\<forall>t\<in>set (tasks db). t_id t = i \<longrightarrow> edit_task fs now t \<noteq> None"
    and db': "db' = db\<lparr>tasks := upd_where (\<lambda>t. t_id t = i) ?f (tasks db)\<rparr>" and ok: "schema_ok db'"
    using assms(1,2) by (auto simp: updateOne_def edit_rows_def list_all_iff exec_stmt_def split: if_splits option.splits)
  have row: "edit_task fs now t \<noteq> None" if "get_task i db = Some t" for t
    using that ed by (auto dest: get_task_mem get_task_id)
  have "get_task j db' = (if j = i then map_option ?f (get_task j db) else get_task j db)" for j
  proof -
    have "sel t_id j (upd_where (\<lambda>t. t_id t = i) ?f xs) =
        (if j = i then map_option ?f (sel t_id j xs) else sel t_id j xs)"
      if "\<forall>t\<in>set xs. t_id t = i \<longrightarrow> edit_task fs now t \<noteq> None" for xs
      using that by (induction xs) (auto dest: edit_task_frame)
    then show ?thesis using ed by (simp add: db' get_task_def)
  qed
  then show ?thesis using ok row by (simp add: db')
qed

lemma store_update_cases:
  assumes "store_update v i fs m = (m', r)" and "map_of fs ColProjectId = None" and "fs \<noteq> []" and "schema_ok (m_db m)"
  shows "m_ex m' = m_ex m \<and> m_procs m' = m_procs m \<and> kept i (m_db m) (m_db m') \<and>
    (case r of Inl e \<Rightarrow> m' = m
     | Inr _ \<Rightarrow> (\<forall>t. get_task i (m_db m) = Some t \<longrightarrow>
         (\<exists>t'. edit_task fs (sv_now v) t = Some t' \<and> get_task i (m_db m') = Some t')))"
proof (cases "UpdateTask i fs (sv_now v) (m_db m)")
  case (Inl e)
  then show ?thesis using assms by (auto simp: store_update_def kept_refl)
next
  case (Inr db)
  then have m': "m' = m\<lparr>m_db := db\<rparr>" "r = Inr ()" using assms(1) by (simp_all add: store_update_def)
  note rows = updateOne_rows [OF _ assms(3,4), of i "sv_now v" db]
  have "updateOne i fs (sv_now v) (m_db m) = Inr db" using Inr assms(2) by (simp add: no_project_UpdateTask)
  then show ?thesis using rows by (auto simp: m' kept_def)
qed

text \<open>The columns of the life cycle always fit a session row.\<close>

definition session_col :: "column \<times> any \<Rightarrow> bool" where
  "session_col x \<longleftrightarrow> fst x \<in> {ColStatus, ColStartedAt, ColSuspendedAt, ColDeliveredAt, ColUpdatedAt} \<and> (\<exists>s. snd x = AStr s)"

definition life :: "task \<Rightarrow> task \<Rightarrow> bool" where
  "life t t' \<longleftrightarrow> t_id t' = t_id t \<and> t_merge_of t' = t_merge_of t \<and> t_external_key t' = t_external_key t \<and>
     t_type t' = t_type t \<and> t_role_id t' = t_role_id t \<and> (t_type t = TaskTypeSession \<and> shape_ok t \<longrightarrow> shape_ok t') \<and>
     (\<forall>db. task_refs_ok db t' = task_refs_ok db t)"

lemma life_refl: "life t t"
  by (simp add: life_def)

lemma life_trans: "life a b \<Longrightarrow> life b c \<Longrightarrow> life a c"
  by (simp add: life_def)

lemma life_cols:
  "life t (t\<lparr>t_status := st\<rparr>)" "life t (t\<lparr>t_started_at := x\<rparr>)" "life t (t\<lparr>t_suspended_at := x\<rparr>)"
  "life t (t\<lparr>t_delivered_at := x\<rparr>)" "life t (t\<lparr>t_updated_at := s\<rparr>)" "life t (t\<lparr>t_updated_at := s, t_revision := n\<rparr>)"
  by (auto simp: life_def shape_ok_def task_refs_ok_def)

lemma session_col_edit:
  assumes "session_col (c, v)"
  shows "\<exists>t'. set_task_col c v t = Some t' \<and> life t t'"
proof -
  obtain s where v: "v = AStr s" using assms by (auto simp: session_col_def)
  have "c = ColStatus \<or> c = ColStartedAt \<or> c = ColSuspendedAt \<or> c = ColDeliveredAt \<or> c = ColUpdatedAt"
    using assms by (simp add: session_col_def)
  then show ?thesis by (elim disjE) (simp_all add: v set_task_col_def col_defs life_cols)
qed

lemma session_cols_edit:
  "list_all session_col fs \<Longrightarrow> \<exists>t'. set_cols set_task_col fs t = Some t' \<and> life t t'"
proof (induction fs arbitrary: t)
  case Nil
  then show ?case by (simp add: life_refl)
next
  case (Cons x fs)
  obtain c v where x: "x = (c, v)" by (cases x)
  obtain t1 where t1: "set_task_col c v t = Some t1" "life t t1" using Cons.prems session_col_edit [of c v t] x by auto
  obtain t2 where "set_cols set_task_col fs t1 = Some t2" "life t1 t2" using Cons.IH [of t1] Cons.prems by auto
  with t1 show ?case by (auto simp: x intro: life_trans)
qed

lemma life_edit:
  assumes "list_all session_col fs"
  shows "\<exists>t'. edit_task fs now t = Some t' \<and> life t t'"
proof -
  obtain t' where t': "set_cols set_task_col fs t = Some t'" "life t t'" using session_cols_edit [OF assms] by blast
  then show ?thesis by (auto simp: edit_task_def intro: life_trans life_cols)
qed

lemma session_update_succeeds:
  assumes good: "schema_ok (m_db m)" and row: "get_task i (m_db m) = Some t" "t_type t = TaskTypeSession"
    and fs: "list_all session_col fs" "fs \<noteq> []"
  shows "\<exists>m'. store_update v i fs m = (m', Inr ())"
proof -
  let ?db = "m_db m" and ?f = "\<lambda>t. the (edit_task fs (sv_now v) t)"
  have ed: "edit_task fs (sv_now v) u \<noteq> None" and life: "life u (?f u)" for u
    using life_edit [OF fs(1), of "sv_now v" u] by auto
  have "schema_ok (?db\<lparr>tasks := upd_where (\<lambda>t. t_id t = i) ?f (tasks ?db)\<rparr>)"
  proof (rule schema_ok_upd [OF good])
    show "keeps_keys ?f" using life by (simp add: keeps_keys_def life_def)
    fix u assume u: "u \<in> set (tasks ?db)" "t_id u = i"
    then have "get_task i ?db = Some u" using good get_task_distinct by blast
    then have "u = t" using row(1) by simp
    then show "shape_ok (?f u) \<and> task_refs_ok ?db (?f u)"
      using life [of u] schema_ok_row [OF good u(1)] row(2) by (simp add: life_def)
  qed
  moreover have "map_of fs ColProjectId = None" using fs(1) by (induction fs) (auto simp: session_col_def)
  ultimately show ?thesis
    using fs(2) ed by (simp add: store_update_def no_project_UpdateTask updateOne_def edit_rows_def exec_stmt_def list_all_iff)
qed

section \<open>Sessions move along the transitions\<close>

abbreviation session_path :: "status \<Rightarrow> status \<Rightarrow> bool" where
  "session_path \<equiv> CanTransition\<^sup>*\<^sup>*"

definition moves :: "db \<Rightarrow> db \<Rightarrow> bool" where
  "moves db db' \<longleftrightarrow> schema_ok db' \<and>
     (\<forall>j t. get_task j db = Some t \<and> t_type t = TaskTypeSession \<longrightarrow>
        (\<exists>t'. get_task j db' = Some t' \<and> t_type t' = TaskTypeSession \<and> t_role_id t' = t_role_id t \<and>
              session_path (t_status t) (t_status t')))"

lemma moves_refl: "schema_ok db \<Longrightarrow> moves db db"
  by (simp add: moves_def)

lemma moves_trans:
  assumes "moves a b" and "moves b c"
  shows "moves a c"
  unfolding moves_def
proof (intro conjI allI impI)
  show "schema_ok c" using assms(2) by (simp add: moves_def)
  fix j t assume "get_task j a = Some t \<and> t_type t = TaskTypeSession"
  then obtain t1 where t1: "get_task j b = Some t1" "t_type t1 = TaskTypeSession" "t_role_id t1 = t_role_id t"
      "session_path (t_status t) (t_status t1)" using assms(1) unfolding moves_def by blast
  then obtain t2 where "get_task j c = Some t2" "t_type t2 = TaskTypeSession" "t_role_id t2 = t_role_id t1"
      "session_path (t_status t1) (t_status t2)" using assms(2) unfolding moves_def by blast
  with t1 show "\<exists>t'. get_task j c = Some t' \<and> t_type t' = TaskTypeSession \<and> t_role_id t' = t_role_id t \<and>
      session_path (t_status t) (t_status t')"
    by (intro exI [of _ t2]) (simp add: rtranclp_trans [of CanTransition "t_status t" "t_status t1" "t_status t2"])
qed

lemma moves_kept:
  assumes "kept i db db'"
    and "\<And>t. get_task i db = Some t \<Longrightarrow> t_type t = TaskTypeSession \<Longrightarrow>
      \<exists>t'. get_task i db' = Some t' \<and> t_type t' = TaskTypeSession \<and> t_role_id t' = t_role_id t \<and>
        session_path (t_status t) (t_status t')"
  shows "moves db db'"
  unfolding moves_def
proof (intro conjI allI impI)
  show "schema_ok db'" using assms(1) by (simp add: kept_def)
  fix j t assume "get_task j db = Some t \<and> t_type t = TaskTypeSession"
  then show "\<exists>t'. get_task j db' = Some t' \<and> t_type t' = TaskTypeSession \<and> t_role_id t' = t_role_id t \<and>
      session_path (t_status t) (t_status t')"
    using assms by (cases "j = i") (auto simp: kept_def)
qed

lemma loadSession_Some:
  "loadSession i db = Some (t, ss) \<longleftrightarrow> get_task i db = Some t \<and> t_type t = TaskTypeSession \<and> AsSession t = Some ss"
  by (auto simp: loadSession_def GetSessionTask_def AsSession_def split: option.splits if_splits)

lemma loadSession_cols:
  assumes "loadSession i db = Some (t, ss)"
  shows "ss_status ss = t_status t \<and> ss_role_id ss = t_role_id t \<and> ss_id ss = i \<and> ss_message_count ss = t_message_count t"
  using assms get_task_id [of i db t] by (auto simp: loadSession_Some AsSession_def split: if_splits)

lemmas session_edit_simps = edit_task_def set_task_col_def col_defs status_of_def status_names_def

text \<open>An update whose status column the transitions allow.\<close>

lemma store_update_moves:
  assumes run: "store_update v i fs m = (m', r)" and fs: "map_of fs ColProjectId = None" "fs \<noteq> []" and ok: "schema_ok (m_db m)"
    and st: "\<And>t t'. get_task i (m_db m) = Some t \<Longrightarrow> edit_task fs (sv_now v) t = Some t' \<Longrightarrow>
      t_role_id t' = t_role_id t \<and> session_path (t_status t) (t_status t')"
  shows "moves (m_db m) (m_db m')"
proof (cases r)
  case (Inl e)
  then show ?thesis using store_update_cases [OF run fs ok] ok by (simp add: moves_refl)
next
  case (Inr u)
  note c = store_update_cases [OF run fs ok]
  show ?thesis
  proof (rule moves_kept)
    show "kept i (m_db m) (m_db m')" using c by simp
    fix t assume t: "get_task i (m_db m) = Some t" "t_type t = TaskTypeSession"
    then obtain t' where t': "edit_task fs (sv_now v) t = Some t'" "get_task i (m_db m') = Some t'" using c Inr by auto
    moreover have "t_type t' = TaskTypeSession" using edit_task_frame [OF t'(1)] t(2) by simp
    ultimately show "\<exists>t'. get_task i (m_db m') = Some t' \<and> t_type t' = TaskTypeSession \<and> t_role_id t' = t_role_id t \<and>
        session_path (t_status t) (t_status t')"
      using st [OF t(1) t'(1)] by blast
  qed
qed

text \<open>The state after a status update of a loaded session, and that it succeeds.\<close>

lemma status_update:
  assumes load: "loadSession i (m_db m) = Some (t, ss)" and ok: "schema_ok (m_db m)"
    and fs: "list_all session_col fs" "fs \<noteq> []"
    and st: "\<And>t'. edit_task fs (sv_now v) t = Some t' \<Longrightarrow> t_status t' = st" and step: "CanTransition (t_status t) st"
  shows "\<exists>m' t'. store_update v i fs m = (m', Inr ()) \<and> m_ex m' = m_ex m \<and> m_procs m' = m_procs m \<and>
    kept i (m_db m) (m_db m') \<and> moves (m_db m) (m_db m') \<and>
    get_task i (m_db m') = Some t' \<and> t_type t' = TaskTypeSession \<and> t_status t' = st \<and> t_role_id t' = t_role_id t"
proof -
  have row: "get_task i (m_db m) = Some t" "t_type t = TaskTypeSession" using load by (auto simp: loadSession_Some)
  obtain m' where run: "store_update v i fs m = (m', Inr ())" using session_update_succeeds [OF ok row fs] by blast
  have np: "map_of fs ColProjectId = None" using fs(1) by (induction fs) (auto simp: session_col_def)
  note c = store_update_cases [OF run np fs(2) ok]
  obtain t' where t': "edit_task fs (sv_now v) t = Some t'" "get_task i (m_db m') = Some t'" using c row by auto
  obtain t2 where "edit_task fs (sv_now v) t = Some t2" "life t t2" using life_edit [OF fs(1)] by blast
  with t' have life: "life t t'" by simp
  have "moves (m_db m) (m_db m')"
  proof (rule store_update_moves [OF run np fs(2) ok])
    fix u u' assume u: "get_task i (m_db m) = Some u" "edit_task fs (sv_now v) u = Some u'"
    then have "u = t" "u' = t'" using row t' by simp_all
    then show "t_role_id u' = t_role_id u \<and> session_path (t_status u) (t_status u')"
      using life st [OF t'(1)] step by (auto simp: life_def)
  qed
  then show ?thesis using run c t' life st [OF t'(1)] row(2) by (auto simp: life_def)
qed

section \<open>The slots of the channels\<close>

definition role_of :: "int \<Rightarrow> db \<Rightarrow> int option" where
  "role_of i db = (case get_task i db of None \<Rightarrow> None | Some t \<Rightarrow> t_role_id t)"

text \<open>The channels of the sessions of a role.\<close>

definition holders :: "int \<Rightarrow> manager \<Rightarrow> nat" where
  "holders r m = length (filter (\<lambda>i. role_of i (m_db m) = Some r) (m_procs m))"

text \<open>
  Only active sessions have a channel, and beside the \<open>base\<close> of the batch executions each
  channel holds one slot of its role.
\<close>

definition channels_active :: "manager \<Rightarrow> bool" where
  "channels_active m \<longleftrightarrow> schema_ok (m_db m) \<and> distinct (m_procs m) \<and>
     (\<forall>i\<in>set (m_procs m). \<exists>t. get_task i (m_db m) = Some t \<and> t_type t = TaskTypeSession \<and> t_status t = SessionStatusActive)"

definition slots_held :: "(int \<Rightarrow> int) \<Rightarrow> manager \<Rightarrow> bool" where
  "slots_held base m \<longleftrightarrow> (\<forall>r. held (active (m_ex m)) r = base r + int (holders r m))"

lemma channels_sessionD:
  "channels_active m \<Longrightarrow> i \<in> set (m_procs m) \<Longrightarrow> \<exists>t. get_task i (m_db m) = Some t \<and> t_type t = TaskTypeSession \<and> t_status t = SessionStatusActive"
  by (simp add: channels_active_def)

lemma length_filter_removeAll:
  "distinct xs \<Longrightarrow> i \<in> set xs \<Longrightarrow> length (filter P (removeAll i xs)) = length (filter P xs) - (if P i then 1 else 0)"
proof (induction xs)
  case (Cons x xs)
  show ?case
  proof (cases "x = i")
    case True
    then have "i \<notin> set xs" using Cons.prems by simp
    then show ?thesis using True by simp
  next
    case False
    then have "i \<in> set xs" "distinct xs" using Cons.prems by auto
    moreover have "P i \<Longrightarrow> 0 < length (filter P xs)" using \<open>i \<in> set xs\<close> by (auto simp: filter_empty_conv)
    ultimately show ?thesis using Cons.IH False by auto
  qed
qed simp

lemma role_row:
  assumes "schema_ok db" and "get_task i db = Some t" and "t_role_id t = Some r"
  obtains a where "get_role_row r db = Some a" and "a_id a = r"
proof -
  have "r \<in> role_ids db"
    using schema_ok_row [OF assms(1) get_task_mem [OF assms(2)]] assms(3) by (simp add: task_refs_ok_def fk_def)
  then have "get_role_row r db \<noteq> None" by (auto simp: get_role_row_def sel_None_iff role_ids_def)
  then obtain a where "get_role_row r db = Some a" by blast
  moreover from this have "a_id a = r" by (auto simp: get_role_row_def)
  ultimately show thesis by (rule that)
qed

lemma stop_frame [simp]:
  "m_db (stopChannel i m) = m_db m" "m_ex (stopChannel i m) = m_ex m" "m_procs (stopChannel i m) = removeAll i (m_procs m)"
  by (simp_all add: stopChannel_def)

lemma release_frame' [simp]: "m_db (release_role r m) = m_db m" "m_procs (release_role r m) = m_procs m"
  by (simp_all add: release_role_def release_slot_def split: option.split)

lemma channels_stop: "channels_active m \<Longrightarrow> channels_active (stopChannel i m)"
  by (simp add: channels_active_def distinct_removeAll)

lemma channels_release: "channels_active m \<Longrightarrow> channels_active (release_role r m)"
  by (simp add: channels_active_def)

lemma holders_simps: "holders k (m\<lparr>m_ex := e\<rparr>) = holders k m"
  by (simp add: holders_def)

text \<open>Closing a channel and releasing its slot.\<close>

lemma close_channel:
  assumes act: "channels_active m" and slots: "slots_held base m" and base: "\<And>r. 0 \<le> base r"
    and i: "i \<in> set (m_procs m)" and row: "get_task i (m_db m) = Some t" "t_role_id t = Some r"
  shows "slots_held base (release_role r (stopChannel i m))"
proof -
  have dist: "distinct (m_procs m)" and ok: "schema_ok (m_db m)" using act by (simp_all add: channels_active_def)
  obtain a where a: "get_role_row r (m_db m) = Some a" "a_id a = r" using role_row [OF ok row] .
  have role: "role_of i (m_db m) = Some r" using row by (simp add: role_of_def)
  have some: "0 < holders r m" using i role by (auto simp: holders_def filter_empty_conv)
  then have pos: "0 < held (active (m_ex m)) r" using slots base [of r] by (simp add: slots_held_def)
  have "holders k (stopChannel i m) = holders k m - (if k = r then 1 else 0)" for k
    using length_filter_removeAll [OF dist i] role by (simp add: holders_def)
  moreover have "release_role r (stopChannel i m) = release_slot r (stopChannel i m)"
    using a by (simp add: release_role_def)
  ultimately show ?thesis
    using slots pos some role_slots.released [OF pos]
    by (auto simp: slots_held_def release_slot_def holders_simps of_nat_diff)
qed

lemma close_unassigned:
  assumes "channels_active m" and "slots_held base m" and "role_of i (m_db m) = None"
  shows "slots_held base (stopChannel i m)"
proof -
  have "holders k (stopChannel i m) = holders k m" for k
  proof -
    have "filter (\<lambda>j. role_of j (m_db m) = Some k) (removeAll i xs) = filter (\<lambda>j. role_of j (m_db m) = Some k) xs" for xs
      using assms(3) by (induction xs) auto
    then show ?thesis by (simp add: holders_def)
  qed
  then show ?thesis using assms(2) by (simp add: slots_held_def)
qed

text \<open>An operation on the row of a session without a channel.\<close>

lemma channels_kept:
  assumes act: "channels_active m" and k: "kept i (m_db m) (m_db m')" and i: "i \<notin> set (m_procs m)" and same: "m_procs m' = m_procs m"
  shows "channels_active m'"
proof -
  have "\<exists>t. get_task j (m_db m') = Some t \<and> t_type t = TaskTypeSession \<and> t_status t = SessionStatusActive"
    if j: "j \<in> set (m_procs m)" for j
  proof -
    obtain t where "get_task j (m_db m) = Some t" "t_type t = TaskTypeSession" "t_status t = SessionStatusActive"
      using channels_sessionD [OF act j] by blast
    moreover have "j \<noteq> i" using j i by blast
    ultimately show ?thesis using k by (auto simp: kept_def)
  qed
  then show ?thesis using act k same by (simp add: channels_active_def kept_def)
qed

lemma slots_kept:
  assumes act: "channels_active m" and slots: "slots_held base m" and k: "kept i (m_db m) (m_db m')" and i: "i \<notin> set (m_procs m)"
    and same: "m_procs m' = m_procs m" "m_ex m' = m_ex m"
  shows "slots_held base m'"
proof -
  have "role_of j (m_db m') = role_of j (m_db m)" if j: "j \<in> set (m_procs m)" for j
  proof -
    obtain t where "get_task j (m_db m) = Some t" using channels_sessionD [OF act j] by blast
    moreover have "j \<noteq> i" using j i by blast
    ultimately show ?thesis using k by (simp add: kept_def role_of_def)
  qed
  then have "filter (\<lambda>j. role_of j (m_db m') = Some r) (m_procs m) = filter (\<lambda>j. role_of j (m_db m) = Some r) (m_procs m)" for r
    by (intro filter_cong) auto
  then have "holders r m' = holders r m" for r using same by (simp add: holders_def)
  then show ?thesis using slots same by (simp add: slots_held_def)
qed

section \<open>The operations\<close>

lemma status_fields:
  "list_all session_col (suspend_fields v)"
  "list_all session_col [(ColStatus, AStr s), (ColStartedAt, AStr x), (ColUpdatedAt, AStr y)]"
  "list_all session_col [(ColStatus, AStr s), (ColDeliveredAt, AStr x), (ColUpdatedAt, AStr y)]"
  "list_all session_col [(ColStatus, AStr s), (ColUpdatedAt, AStr y)]"
  by (simp_all add: session_col_def suspend_fields_def)

lemma status_written:
  "edit_task (suspend_fields v) now t = Some t' \<Longrightarrow> t_status t' = SessionStatusSuspended"
  "edit_task [(ColStatus, AStr ''active''), (ColStartedAt, AStr x), (ColUpdatedAt, AStr y)] now t = Some t' \<Longrightarrow> t_status t' = SessionStatusActive"
  "edit_task [(ColStatus, AStr ''delivered''), (ColDeliveredAt, AStr x), (ColUpdatedAt, AStr y)] now t = Some t' \<Longrightarrow> t_status t' = SessionStatusDelivered"
  "edit_task [(ColStatus, AStr ''deleted''), (ColUpdatedAt, AStr y)] now t = Some t' \<Longrightarrow> t_status t' = SessionStatusDeleted"
  by (auto simp: session_edit_simps suspend_fields_def)

text \<open>What an operation keeps, whether it succeeds or not; the slots only when \<open>c\<close>.\<close>

definition keeps :: "bool \<Rightarrow> (int \<Rightarrow> int) \<Rightarrow> manager \<Rightarrow> manager \<Rightarrow> bool" where
  "keeps c base m m' \<longleftrightarrow> channels_active m' \<and> moves (m_db m) (m_db m') \<and> (c \<longrightarrow> slots_held base m \<longrightarrow> slots_held base m')"

lemma keeps_refl: "channels_active m \<Longrightarrow> keeps c base m m"
  by (simp add: keeps_def moves_refl channels_active_def)

lemma keeps_trans: "keeps c base x y \<Longrightarrow> keeps c base y z \<Longrightarrow> keeps c base x z"
  unfolding keeps_def using moves_trans by blast

lemma keeps_same_db:
  "channels_active m' \<Longrightarrow> m_db m' = m_db m \<Longrightarrow> (c \<Longrightarrow> slots_held base m \<Longrightarrow> slots_held base m') \<Longrightarrow> keeps c base m m'"
  by (simp add: keeps_def moves_refl channels_active_def)

text \<open>A status update of a session whose channel is closed.\<close>

lemma keeps_status:
  assumes load: "loadSession i (m_db m) = Some (t, ss)" and act: "channels_active m" and i: "i \<notin> set (m_procs m)"
    and fs: "list_all session_col fs" "fs \<noteq> []" and st: "\<And>t'. edit_task fs (sv_now v) t = Some t' \<Longrightarrow> t_status t' = st"
    and step: "CanTransition (t_status t) st"
  shows "\<exists>m' t'. store_update v i fs m = (m', Inr ()) \<and> keeps c base m m' \<and> m_procs m' = m_procs m \<and> m_ex m' = m_ex m \<and>
    get_task i (m_db m') = Some t' \<and> t_type t' = TaskTypeSession \<and> t_status t' = st \<and> t_role_id t' = t_role_id t"
proof -
  have ok: "schema_ok (m_db m)" using act by (simp add: channels_active_def)
  obtain m' t' where m': "store_update v i fs m = (m', Inr ())" "m_ex m' = m_ex m" "m_procs m' = m_procs m"
      "kept i (m_db m) (m_db m')" "moves (m_db m) (m_db m')"
      and row: "get_task i (m_db m') = Some t'" "t_type t' = TaskTypeSession" "t_status t' = st" "t_role_id t' = t_role_id t"
    using status_update [OF load ok fs st step] by blast
  have "keeps c base m m'"
    unfolding keeps_def using m' channels_kept [OF act m'(4) i m'(3)] slots_kept [OF act _ m'(4) i m'(3,2)] by blast
  with m' row show ?thesis by blast
qed

text \<open>Closing the channel of a session, with the slot of its role.\<close>

lemma keeps_close:
  assumes act: "channels_active m" and base: "\<And>r. 0 \<le> base r" and row: "get_task i (m_db m) = Some t" "t_role_id t = Some r"
  shows "keeps (i \<in> set (m_procs m)) base m (release_role r (stopChannel i m))"
  using channels_release [OF channels_stop [OF act]] close_channel [OF act _ base _ row]
  by (intro keeps_same_db) simp_all

lemma keeps_stop_unassigned:
  assumes act: "channels_active m" and row: "get_task i (m_db m) = Some t" "t_role_id t = None"
  shows "keeps c base m (stopChannel i m)"
proof -
  have "role_of i (m_db m) = None" using row by (simp add: role_of_def)
  then show ?thesis using channels_stop [OF act] close_unassigned [OF act] by (intro keeps_same_db) simp_all
qed

lemma Suspend_keeps:
  assumes act: "channels_active m" and base: "\<And>r. 0 \<le> base r"
  shows "keeps (i \<in> set (m_procs m)) base m (fst (Suspend v i m))"
proof (cases "loadSession i (m_db m)")
  case None
  then show ?thesis using keeps_refl [OF act] by (simp add: Suspend_def)
next
  case (Some x)
  obtain t ss where load: "loadSession i (m_db m) = Some (t, ss)" using Some by (cases x) simp
  note cols = loadSession_cols [OF load]
  have t: "get_task i (m_db m) = Some t" "t_type t = TaskTypeSession" using load by (simp_all add: loadSession_Some)
  show ?thesis
  proof (cases "CanTransition (t_status t) SessionStatusSuspended")
    case False
    then show ?thesis using keeps_refl [OF act] load cols by (simp add: Suspend_def)
  next
    case can: True
    show ?thesis
    proof (cases "t_role_id t")
      case None
      then have "fst (Suspend v i m) = stopChannel i m" using load cols can by (simp add: Suspend_def)
      then show ?thesis using keeps_stop_unassigned [OF act t(1) None] by simp
    next
      case (Some r)
      let ?m1 = "release_role r (stopChannel i m)" and ?fs = "suspend_fields v"
      have k1: "keeps (i \<in> set (m_procs m)) base m ?m1" by (rule keeps_close [OF act base t(1) Some])
      have act1: "channels_active ?m1" using k1 by (simp add: keeps_def)
      have load1: "loadSession i (m_db ?m1) = Some (t, ss)" "i \<notin> set (m_procs ?m1)" using load by simp_all
      have st: "edit_task ?fs (sv_now v) t = Some t' \<Longrightarrow> t_status t' = SessionStatusSuspended" for t' by (rule status_written(1))
      have ne: "?fs \<noteq> []" by (simp add: suspend_fields_def)
      obtain m' where "store_update v i ?fs ?m1 = (m', Inr ())" "keeps (i \<in> set (m_procs m)) base ?m1 m'"
        using keeps_status [OF load1(1) act1 load1(2) status_fields(1) ne st can] by blast
      then show ?thesis using keeps_trans [OF k1] load cols can Some by (auto simp: Suspend_def)
    qed
  qed
qed

lemma Delete_keeps:
  assumes act: "channels_active m" and base: "\<And>r. 0 \<le> base r"
  shows "keeps (i \<in> set (m_procs m)) base m (fst (Delete v i m))"
proof (cases "loadSession i (m_db m)")
  case None
  then show ?thesis using keeps_refl [OF act] by (simp add: Delete_def)
next
  case (Some x)
  obtain t ss where load: "loadSession i (m_db m) = Some (t, ss)" using Some by (cases x) simp
  note cols = loadSession_cols [OF load]
  have t: "get_task i (m_db m) = Some t" "t_type t = TaskTypeSession" using load by (simp_all add: loadSession_Some)
  show ?thesis
  proof (cases "CanTransition (t_status t) SessionStatusDeleted")
    case False
    then show ?thesis using keeps_refl [OF act] load cols by (simp add: Delete_def)
  next
    case can: True
    show ?thesis
    proof (cases "t_role_id t")
      case None
      then have "fst (Delete v i m) = stopChannel i m" using load cols can by (simp add: Delete_def)
      then show ?thesis using keeps_stop_unassigned [OF act t(1) None] by simp
    next
      case (Some r)
      let ?m1 = "release_role r (stopChannel i m)" and ?fs = "[(ColStatus, AStr ''deleted''), (ColUpdatedAt, AStr (sv_now v))]"
      have k1: "keeps (i \<in> set (m_procs m)) base m ?m1" by (rule keeps_close [OF act base t(1) Some])
      have act1: "channels_active ?m1" using k1 by (simp add: keeps_def)
      have load1: "loadSession i (m_db ?m1) = Some (t, ss)" "i \<notin> set (m_procs ?m1)" using load by simp_all
      have st: "edit_task ?fs (sv_now v) t = Some t' \<Longrightarrow> t_status t' = SessionStatusDeleted" for t' by (rule status_written(4))
      have ne: "?fs \<noteq> []" by (simp add: suspend_fields_def)
      obtain m' where "store_update v i ?fs ?m1 = (m', Inr ())" "keeps (i \<in> set (m_procs m)) base ?m1 m'"
        using keeps_status [OF load1(1) act1 load1(2) status_fields(4) ne st can] by blast
      then show ?thesis using keeps_trans [OF k1] load cols can Some by (auto simp: Delete_def)
    qed
  qed
qed

text \<open>An operation on a row that is no session, or that keeps status and role of a session.\<close>

lemma keeps_row:
  assumes act: "channels_active m" and k: "kept k (m_db m) (m_db m')" and same: "m_procs m' = m_procs m" "m_ex m' = m_ex m"
    and row: "\<And>t. get_task k (m_db m) = Some t \<Longrightarrow> t_type t \<noteq> TaskTypeSession"
  shows "keeps c base m m'"
proof -
  have k': "k \<notin> set (m_procs m)" using channels_sessionD [OF act] row by blast
  have "moves (m_db m) (m_db m')" using k row by (intro moves_kept [of k]) auto
  then show ?thesis
    unfolding keeps_def using channels_kept [OF act k k' same(1)] slots_kept [OF act _ k k' same] by blast
qed

lemma keeps_still:
  assumes act: "channels_active m" and k: "kept k (m_db m) (m_db m')" and same: "m_procs m' = m_procs m" "m_ex m' = m_ex m"
    and row: "\<And>t. get_task k (m_db m) = Some t \<Longrightarrow>
      \<exists>t'. get_task k (m_db m') = Some t' \<and> t_type t' = t_type t \<and> t_status t' = t_status t \<and> t_role_id t' = t_role_id t"
  shows "keeps c base m m'"
proof -
  have all: "\<exists>t'. get_task j (m_db m') = Some t' \<and> t_type t' = t_type t \<and> t_status t' = t_status t \<and> t_role_id t' = t_role_id t"
    if "get_task j (m_db m) = Some t" for j t
    using that k row by (cases "j = k") (auto simp: kept_def)
  have ok: "schema_ok (m_db m')" using k by (simp add: kept_def)
  have "moves (m_db m) (m_db m')" unfolding moves_def using ok all by fastforce
  moreover have "channels_active m'"
    unfolding channels_active_def
  proof (intro conjI ballI)
    show "schema_ok (m_db m')" by (rule ok)
    show "distinct (m_procs m')" using act same by (simp add: channels_active_def)
    fix j assume "j \<in> set (m_procs m')"
    then obtain t where "get_task j (m_db m) = Some t" "t_type t = TaskTypeSession" "t_status t = SessionStatusActive"
      using channels_sessionD [OF act, of j] same by auto
    with all show "\<exists>t. get_task j (m_db m') = Some t \<and> t_type t = TaskTypeSession \<and> t_status t = SessionStatusActive" by fastforce
  qed
  moreover have "slots_held base m'" if "slots_held base m"
  proof -
    have "role_of j (m_db m') = role_of j (m_db m)" if j: "j \<in> set (m_procs m)" for j
    proof -
      obtain t where "get_task j (m_db m) = Some t" using channels_sessionD [OF act j] by blast
      with all show ?thesis by (fastforce simp: role_of_def)
    qed
    then have "filter (\<lambda>j. role_of j (m_db m') = Some r) (m_procs m) = filter (\<lambda>j. role_of j (m_db m) = Some r) (m_procs m)" for r
      by (intro filter_cong) auto
    then have "holders r m' = holders r m" for r using same by (simp add: holders_def)
    then show ?thesis using \<open>slots_held base m\<close> same by (simp add: slots_held_def)
  qed
  ultimately show ?thesis by (simp add: keeps_def)
qed

lemma handleExit_keeps:
  assumes act: "channels_active m" and base: "\<And>r. 0 \<le> base r"
  shows "keeps c base m (fst (handleExit v i m))"
proof (cases "i \<in> set (m_procs m)")
  case False
  then show ?thesis by (simp add: handleExit_def keeps_refl [OF act])
next
  case i: True
  let ?m1 = "stopChannel i m"
  obtain t where t: "get_task i (m_db m) = Some t" "t_type t = TaskTypeSession" "t_status t = SessionStatusActive"
    using channels_sessionD [OF act i] by blast
  then obtain ss where load: "loadSession i (m_db m) = Some (t, ss)" by (auto simp: loadSession_Some AsSession_def)
  note cols = loadSession_cols [OF load]
  have can: "CanTransition SessionStatusActive SessionStatusSuspended" by (simp add: CanTransition_def validTargets_def)
  have act1: "channels_active ?m1" by (rule channels_stop [OF act])
  have load1: "loadSession i (m_db ?m1) = Some (t, ss)" using load by simp
  have i1: "i \<notin> set (m_procs ?m1)" by simp
  have ne: "suspend_fields v \<noteq> []" by (simp add: suspend_fields_def)
  have can1: "CanTransition (t_status t) SessionStatusSuspended" using t(3) can by simp
  have st1: "edit_task (suspend_fields v) (sv_now v) t = Some t' \<Longrightarrow> t_status t' = SessionStatusSuspended" for t'
    by (rule status_written(1))
  obtain m2 t' where run: "store_update v i (suspend_fields v) ?m1 = (m2, Inr ())" and k2: "keeps c base ?m1 m2"
      and same: "m_procs m2 = m_procs ?m1" "m_ex m2 = m_ex ?m1" and row2: "get_task i (m_db m2) = Some t'" "t_role_id t' = t_role_id t"
    using keeps_status [OF load1 act1 i1 status_fields(1) ne st1 can1, where base = base and c = c] by blast
  have mv: "moves (m_db m) (m_db m2)" and act2: "channels_active m2" using k2 by (simp_all add: keeps_def)
  show ?thesis
  proof (cases "t_role_id t")
    case None
    then have "fst (handleExit v i m) = m2" using i load1 cols t run by (simp add: handleExit_def Let_def)
    moreover have "role_of i (m_db m) = None" using t None by (simp add: role_of_def)
    ultimately show ?thesis
      using k2 act2 mv close_unassigned [OF act] by (auto simp: keeps_def)
  next
    case (Some r)
    have "channels_active (release_role r m2)" by (rule channels_release [OF act2])
    moreover have "slots_held base (release_role r m2)" if "slots_held base m"
    proof -
      let ?mc = "release_role r ?m1"
      have held: "slots_held base ?mc" by (rule close_channel [OF act that base i t(1) Some])
      have actc: "channels_active ?mc" by (rule channels_release [OF act1])
      have kc: "kept i (m_db ?mc) (m_db m2)"
        using store_update_cases [OF run _ ne] act1 by (simp add: channels_active_def suspend_fields_def)
      obtain a where a: "get_role_row r (m_db m) = Some a" "a_id a = r"
        using role_row [OF _ t(1) Some] act by (auto simp: channels_active_def)
      obtain a2 where a2: "get_role_row r (m_db m2) = Some a2" "a_id a2 = r"
        using role_row [OF _ row2(1), of r] act2 row2(2) Some by (auto simp: channels_active_def)
      have "release_role r m2 = release_slot r m2" "?mc = release_slot r ?m1" using a a2 by (simp_all add: release_role_def)
      then have "m_procs (release_role r m2) = m_procs ?mc" "m_ex (release_role r m2) = m_ex ?mc" "m_db (release_role r m2) = m_db m2"
        using same by (simp_all add: release_slot_def)
      then show ?thesis using slots_kept [OF actc held, of i "release_role r m2"] kc by simp
    qed
    moreover have "fst (handleExit v i m) = release_role r m2"
      using i load1 cols t run Some by (simp add: handleExit_def Let_def)
    ultimately show ?thesis using mv by (simp add: keeps_def)
  qed
qed

section \<open>Starting\<close>

lemma start_admit_Inr:
  assumes "start_admit v i m = (m1, Inr (ss, a))"
  shows "\<exists>t ex. loadSession i (m_db m) = Some (t, ss) \<and> CanTransition (t_status t) SessionStatusActive \<and> t_role_id t = Some (a_id a) \<and>
    get_role_row (a_id a) (m_db m) = Some a \<and> m1 = m\<lparr>m_ex := ex\<rparr> \<and>
    held (active ex) = (held (active (m_ex m)))(a_id a := held (active (m_ex m)) (a_id a) + 1)"
proof -
  obtain t s where load: "loadSession i (m_db m) = Some (t, s)"
    using assms by (cases "loadSession i (m_db m)") (auto simp: start_admit_def)
  have can: "CanTransition (ss_status s) SessionStatusActive"
    using assms load by (auto simp: start_admit_def split: if_splits)
  obtain r where r: "ss_role_id s = Some r" using assms load can by (cases "ss_role_id s") (auto simp: start_admit_def)
  obtain b where b: "get_role_row r (m_db m) = Some b"
    using assms load can r by (cases "get_role_row r (m_db m)") (auto simp: start_admit_def)
  then have id: "a_id b = r" by (auto simp: get_role_row_def)
  obtain ex ok where res: "reserveRoleSlot (ConcurrencyLimit b) (a_id b) (m_ex m) = (ex, ok)" by fastforce
  have out: "ok" "ss = s" "a = b" "m1 = m\<lparr>m_ex := ex\<rparr>"
    using assms load can r b res by (auto simp: start_admit_def split: if_splits)
  have "held (active ex) = (held (active (m_ex m)))(a_id b := held (active (m_ex m)) (a_id b) + 1)"
    using role_slots.granted [of "ConcurrencyLimit b" "a_id b" "m_ex m" ex] res out(1) by simp
  then show ?thesis using load can r b id out loadSession_cols [OF load] by auto
qed

lemma start_admit_Inl: "start_admit v i m = (m1, Inl e) \<Longrightarrow> m_db m1 = m_db m \<and> m_procs m1 = m_procs m \<and> m_ex m1 = m_ex m"
  by (auto simp: start_admit_def split: option.splits if_splits prod.splits dest: role_slots.refused)

lemma release_back:
  assumes "held (active ex) = (held (active (m_ex m)))(r := held (active (m_ex m)) r + 1)" and "0 \<le> held (active (m_ex m)) r"
  shows "held (active (m_ex (release_slot r (m\<lparr>m_ex := ex\<rparr>)))) = held (active (m_ex m))"
  using assms role_slots.released [of ex r] by (simp add: release_slot_def)

lemma Start_keeps:
  assumes act: "channels_active m" and base: "\<And>r. 0 \<le> base r"
  shows "keeps c base m (fst (Start v i m))"
proof (cases "start_admit v i m")
  case (Pair m1 res)
  show ?thesis
  proof (cases res)
    case (Inl e)
    note same = start_admit_Inl [OF Pair [unfolded Inl]]
    then have "channels_active m1" "slots_held base m \<Longrightarrow> slots_held base m1"
      using act by (simp_all add: channels_active_def slots_held_def holders_def)
    then show ?thesis using Pair Inl same by (auto simp: Start_def intro: keeps_same_db)
  next
    case (Inr x)
    obtain ss a where x: "x = (ss, a)" by (cases x)
    obtain t ex where load: "loadSession i (m_db m) = Some (t, ss)" and can: "CanTransition (t_status t) SessionStatusActive"
        and role: "t_role_id t = Some (a_id a)" and m1: "m1 = m\<lparr>m_ex := ex\<rparr>"
        and ex: "held (active ex) = (held (active (m_ex m)))(a_id a := held (active (m_ex m)) (a_id a) + 1)"
      using start_admit_Inr [OF Pair [unfolded Inr x]] by blast
    have "t_status t \<noteq> SessionStatusActive" using can by (auto simp: CanTransition_def validTargets_def)
    then have i: "i \<notin> set (m_procs m)" using channels_sessionD [OF act, of i] load by (auto simp: loadSession_Some)
    have start: "Start v i m = start_run v i ss a m1" using Pair Inr x by (simp add: Start_def)
    have given_back: "keeps c base m (release_slot (a_id a) m1)"
    proof (rule keeps_same_db)
      show "channels_active (release_slot (a_id a) m1)" using act by (simp add: channels_active_def release_slot_def m1)
      show "m_db (release_slot (a_id a) m1) = m_db m" by (simp add: release_slot_def m1)
      assume s: "slots_held base m"
      then have "0 \<le> held (active (m_ex m)) (a_id a)" using base by (simp add: slots_held_def)
      from release_back [OF ex this] s show "slots_held base (release_slot (a_id a) m1)"
        by (simp add: slots_held_def holders_def m1 release_slot_def)
    qed
    let ?mo = "openChannel i m1" and ?fs = "[(ColStatus, AStr ''active''), (ColStartedAt, AStr (sv_now v)), (ColUpdatedAt, AStr (sv_now v))]"
    have db_o: "m_db ?mo = m_db m" "m_procs ?mo = i # m_procs m" "m_ex ?mo = ex" using i by (simp_all add: openChannel_def m1)
    have ok: "schema_ok (m_db ?mo)" using act db_o by (simp add: channels_active_def)
    have st: "edit_task ?fs (sv_now v) t = Some t' \<Longrightarrow> t_status t' = SessionStatusActive" for t' by (rule status_written(2))
    have load_o: "loadSession i (m_db ?mo) = Some (t, ss)" using load db_o by simp
    obtain m2 t' where run: "store_update v i ?fs ?mo = (m2, Inr ())" and same: "m_ex m2 = ex" "m_procs m2 = i # m_procs m"
        and k: "kept i (m_db m) (m_db m2)" and mv: "moves (m_db m) (m_db m2)"
        and row: "get_task i (m_db m2) = Some t'" "t_type t' = TaskTypeSession" "t_status t' = SessionStatusActive" "t_role_id t' = t_role_id t"
      using status_update [OF load_o ok status_fields(2) _ st can] unfolding db_o by blast
    have "channels_active (m2\<lparr>m_procs := m_procs m\<rparr>)" using channels_kept [OF act _ i, of "m2\<lparr>m_procs := m_procs m\<rparr>"] k by simp
    then have act2: "channels_active m2" using same row i by (auto simp: channels_active_def)
    have "slots_held base m2" if s: "slots_held base m"
    proof -
      have h: "slots_held base (m2\<lparr>m_procs := m_procs m, m_ex := m_ex m\<rparr>)"
        using slots_kept [OF act s _ i, of "m2\<lparr>m_procs := m_procs m, m_ex := m_ex m\<rparr>"] k by simp
      have "holders r m2 = (if r = a_id a then 1 else 0) + holders r (m2\<lparr>m_procs := m_procs m, m_ex := m_ex m\<rparr>)" for r
        using same row role by (simp add: holders_def role_of_def)
      then show ?thesis using h ex same by (simp add: slots_held_def)
    qed
    then have full: "keeps c base m m2" using act2 mv by (simp add: keeps_def)
    have "ss_id ss = i" using loadSession_cols [OF load] by simp
    then have "fst (start_run v i ss a m1) \<in> {release_slot (a_id a) m1, m2}"
      using run by (simp add: start_run_def Let_def)
    then show ?thesis using start given_back full by auto
  qed
qed

lemma Prompt_keeps:
  assumes act: "channels_active m" and base: "\<And>r. 0 \<le> base r"
  shows "keeps c base m (fst (Prompt v i m))"
proof -
  have "fst (Prompt v i m) \<in> {m, fst (Start v i m)}"
    by (auto simp: Prompt_def autoStart_def split: sum.splits option.splits prod.splits)
  then show ?thesis using Start_keeps [OF act base] keeps_refl [OF act] by auto
qed

section \<open>Creation and delivery\<close>

lemma CreateTask_kept:
  assumes "CreateTask now t db = Inr (db', i)"
  shows "kept i db db' \<and> get_task i db = None \<and>
    (\<exists>r. get_task i db' = Some r \<and> t_type r = t_type (prepareTaskForInsert now t) \<and> t_status r = t_status t)"
proof -
  obtain u where ins: "insertTask u db = Inr (db', i)" and u: "t_type u = t_type (prepareTaskForInsert now t)" "t_status u = t_status t"
    using assms by (auto simp: CreateTask_def Let_def assignNextTaskSortOrder_def split: if_splits option.splits)
  note row = insertTask_row [OF ins]
  have "get_task i db = None" using row(3) by (simp add: get_task_None)
  then show ?thesis
    using row(1,2,4) u by (auto simp: kept_def with_defaults_def)
qed

lemma prepare_type: "t_type t \<noteq> TaskTypeOther [] \<Longrightarrow> t_type (prepareTaskForInsert now t) = t_type t"
  "t_type t = TaskTypeOther [] \<Longrightarrow> t_type (prepareTaskForInsert now t) = TaskTypeTask"
  by (simp_all add: prepareTaskForInsert_def normalizeDependencyMode_def Let_def)

lemma store_update_ok: "store_update v i fs m = (m', r) \<Longrightarrow> m_procs m' = m_procs m \<and> m_ex m' = m_ex m"
  by (auto simp: store_update_def split: sum.splits)

text \<open>An update that writes neither status nor role.\<close>

lemma keeps_quiet_update:
  assumes act: "channels_active m" and run: "store_update v i fs m = (m', r)" and fs: "map_of fs ColProjectId = None" "fs \<noteq> []"
    and quiet: "\<And>t t'. edit_task fs (sv_now v) t = Some t' \<Longrightarrow> t_status t' = t_status t \<and> t_role_id t' = t_role_id t"
  shows "keeps c base m m'"
proof (cases r)
  case (Inl e)
  have "m' = m" using store_update_cases [OF run fs] act Inl by (simp add: channels_active_def)
  then show ?thesis using keeps_refl [OF act] by simp
next
  case (Inr u)
  note c = store_update_cases [OF run fs]
  have ok: "schema_ok (m_db m)" using act by (simp add: channels_active_def)
  show ?thesis
  proof (rule keeps_still [OF act])
    show "kept i (m_db m) (m_db m')" "m_procs m' = m_procs m" "m_ex m' = m_ex m" using c ok by simp_all
    fix t assume t: "get_task i (m_db m) = Some t"
    then obtain t' where t': "edit_task fs (sv_now v) t = Some t'" "get_task i (m_db m') = Some t'" using c [OF ok] Inr by auto
    then show "\<exists>t'. get_task i (m_db m') = Some t' \<and> t_type t' = t_type t \<and> t_status t' = t_status t \<and> t_role_id t' = t_role_id t"
      using quiet [OF t'(1)] edit_task_frame [OF t'(1)] by blast
  qed
qed

lemma message_end_keeps: "channels_active m \<Longrightarrow> keeps c base m (message_end v i ts m)"
proof -
  let ?fs = "[(ColLastMessageAt, AStr ts), (ColMessageCount, AInt (increment i (m_db m))), (ColUpdatedAt, AStr (sv_now v))]"
  assume act: "channels_active m"
  obtain m' r where run: "store_update v i ?fs m = (m', r)" by fastforce
  have "keeps c base m m'" by (rule keeps_quiet_update [OF act run]) (auto simp: session_edit_simps)
  then show ?thesis by (simp add: message_end_def run)
qed

lemma create_workspace_keeps:
  assumes act: "channels_active m"
  shows "keeps c base m (fst (create_workspace v project i m))"
proof -
  let ?fs = "\<lambda>dir branch base'. [(ColWorktreePath, AStr dir), (ColWorktreeBranch, AStr branch), (ColBaseCommit, AStr base'),
          (ColSessionDir, AStr (sv_session_dir v i)), (ColUpdatedAt, AStr (sv_now v))]"
  show ?thesis
  proof (cases "sv_worktree v (projectDirOf project) (projectNameOf project) i")
    case None
    then show ?thesis using keeps_refl [OF act] by (simp add: create_workspace_def)
  next
    case (Some w)
    obtain dir branch base' where w: "w = (dir, branch, base')" by (cases w)
    obtain m2 r where run: "store_update v i (?fs dir branch base') m = (m2, r)" by fastforce
    have "keeps c base m m2" by (rule keeps_quiet_update [OF act run]) (auto simp: session_edit_simps)
    moreover have "fst (create_workspace v project i m) \<in> {m, m2}"
      using Some run by (auto simp: create_workspace_def w split: sum.splits option.splits)
    ultimately show ?thesis using keeps_refl [OF act] by auto
  qed
qed

lemma CreateSessionTask_kept:
  "CreateSessionTask now t db = Inr (db1, i) \<Longrightarrow> kept i db db1 \<and> get_task i db = None"
  using CreateTask_kept by (auto simp: CreateSessionTask_def Let_def split: if_splits)

lemma Create_keeps:
  assumes act: "channels_active m"
  shows "keeps c base m (fst (Create v projectID roleID perm m))"
proof (cases "create_admit v projectID roleID perm (m_db m)")
  case (Inl e)
  then show ?thesis using keeps_refl [OF act] by (simp add: Create_def)
next
  case (Inr x)
  obtain a p where x: "x = (a, p)" by (cases x)
  let ?t = "zero_task\<lparr>t_project_id := projectID, t_role_id := Some roleID, t_title := a_name a,
          t_status := SessionStatusCreated, t_perm := session_perm perm\<rparr>"
  show ?thesis
  proof (cases "CreateSessionTask (sv_now v) ?t (m_db m)")
    case (Inl e)
    then show ?thesis using keeps_refl [OF act] \<open>create_admit v projectID roleID perm (m_db m) = Inr x\<close> by (simp add: Create_def x)
  next
    case (Inr y)
    obtain db1 i where y: "y = (db1, i)" by (cases y)
    have k1: "keeps c base m (m\<lparr>m_db := db1\<rparr>)"
      using CreateSessionTask_kept [OF Inr [unfolded y]] by (intro keeps_row [OF act, of i]) simp_all
    then have "channels_active (m\<lparr>m_db := db1\<rparr>)" by (simp add: keeps_def)
    from keeps_trans [OF k1 create_workspace_keeps [OF this]] show ?thesis
      using Inr \<open>create_admit v projectID roleID perm (m_db m) = Inr x\<close> by (simp add: Create_def x y)
  qed
qed

lemma Deliver_task_kept:
  assumes ok: "schema_ok db" and run: "DeliverTaskAndCreateMerge now k merge db = Inr (db', mid)"
    and merge: "merge = NewMergeTask text src"
  shows "kept k db db'"
proof -
  obtain m where "merge = m" by simp
  have "\<exists>s. (t_status s = StatusQueued \<and> t_perm s = PermFull \<and> t_merge_of s = None \<and> t_session_id s \<noteq> None) \<and>
      merged_from k s (succeed_row now s) mid db db'"
    using run unfolding DeliverTaskAndCreateMerge_def
    by (rule finish_with_merge_effect [OF ok plain_succeed, rotated]) (simp add: succeed_row_def)
  then obtain s where m: "merged_from k s (succeed_row now s) mid db db'" by blast
  show ?thesis unfolding kept_def
  proof (intro conjI allI impI)
    show "schema_ok db'" using m by (simp add: merged_from_def)
    fix j t assume j: "j \<noteq> k \<and> get_task j db = Some t"
    then have "j \<noteq> mid" using m by (auto simp: merged_from_def)
    then show "get_task j db' = Some t" using j m by (simp add: merged_from_def)
  qed
qed

lemma settle_delivery_kept:
  assumes ok: "schema_ok (m_db m)"
  shows "kept k (m_db m) (m_db (fst (settle_delivery v ss p k m))) \<and> m_procs (fst (settle_delivery v ss p k m)) = m_procs m \<and>
    m_ex (fst (settle_delivery v ss p k m)) = m_ex m"
proof -
  let ?fs = "[(ColStatus, AStr ''failed''), (ColFinishedAt, AStr (sv_now v)), (ColError, AStr ''delivery'')]"
  obtain m2 r where run: "store_update v k ?fs m = (m2, r)" by fastforce
  have fail: "kept k (m_db m) (m_db (fail_delivery v k m)) \<and> m_procs (fail_delivery v k m) = m_procs m \<and> m_ex (fail_delivery v k m) = m_ex m"
    using store_update_cases [OF run _ _ ok] by (simp add: fail_delivery_def run)
  show ?thesis
    using kept_refl [OF ok, of k] fail Deliver_task_kept [OF ok _ refl, of "sv_now v" k]
    by (auto simp: settle_delivery_def split: option.splits sum.splits)
qed

text \<open>
  A delivery keeps the slots of a session that has a channel, and one that succeeds leaves the
  session delivered.
\<close>

lemma Deliver_cases:
  obtains (refused) e where "Deliver v i title body perm m = (m, Inl e)"
  | (created) t ss r a p where "loadSession i (m_db m) = Some (t, ss)" and "CanTransition (t_status t) SessionStatusDelivered"
      and "t_role_id t = Some r" and "get_role_row r (m_db m) = Some a"
      and "Deliver v i title body perm m =
        (let m1 = release_role r (stopChannel i m) in
         case CreateTask (sv_now v) (delivery_task v ss a title body p (m_db m1)) (m_db m1) of
           Inl e \<Rightarrow> (m1, Inl (ErrStore e))
         | Inr (db2, taskID) \<Rightarrow>
         case settle_delivery v ss p taskID (m1\<lparr>m_db := db2\<rparr>) of
           (m3, Inl e) \<Rightarrow> (m3, Inl e)
         | (m3, Inr _) \<Rightarrow>
         case store_update v i [(ColStatus, AStr ''delivered''), (ColDeliveredAt, AStr (sv_now v)), (ColUpdatedAt, AStr (sv_now v))] m3 of
           (m4, Inl e) \<Rightarrow> (m4, Inl e)
         | (m4, Inr _) \<Rightarrow> (case get_task taskID (m_db m4) of None \<Rightarrow> (m4, Inl (ErrStore ErrNoRows)) | Some tk \<Rightarrow> (m4, Inr tk)))"
proof (cases "loadSession i (m_db m)")
  case None
  then show thesis using refused by (simp add: Deliver_def)
next
  case (Some x)
  obtain t ss where load: "loadSession i (m_db m) = Some (t, ss)" using Some by (cases x) simp
  note cols = loadSession_cols [OF load]
  show thesis
  proof (cases "CanTransition (t_status t) SessionStatusDelivered \<and> session_perm perm \<in> {PermFull, PermReview} \<and> ss_project_id ss \<noteq> None")
    case True
    show thesis
    proof (cases "t_role_id t")
      case None
      then show thesis using refused load cols True by (simp add: Deliver_def)
    next
      case (Some r)
      show thesis
      proof (cases "get_role_row r (m_db m)")
        case None
        then show thesis using refused load cols True Some by (simp add: Deliver_def)
      next
        case a: (Some a)
        then have "release_role r (stopChannel i m) = release_slot (a_id a) (stopChannel i m)" by (simp add: release_role_def)
        then show thesis using created [OF load _ Some a, of "session_perm perm"] load cols True Some a
          by (auto simp: Deliver_def Let_def)
      qed
    qed
  next
    case False
    then have "\<exists>e. Deliver v i title body perm m = (m, Inl e)" using load cols
      by (cases "CanTransition (t_status t) SessionStatusDelivered"; cases "t_role_id t";
          cases "get_role_row (the (t_role_id t)) (m_db m)") (auto simp: Deliver_def Let_def)
    then show thesis using refused by blast
  qed
qed

lemma delivery_task_type: "t_type (delivery_task v ss a title body p db) = TaskTypeOther []"
  by (simp add: delivery_task_def zero_task_def Let_def)

lemma Deliver_keeps:
  assumes act: "channels_active m" and base: "\<And>r. 0 \<le> base r"
  shows "keeps (i \<in> set (m_procs m)) base m (fst (Deliver v i title body perm m)) \<and>
    (\<forall>tk. snd (Deliver v i title body perm m) = Inr tk \<longrightarrow>
       (\<exists>t. get_task i (m_db m) = Some t \<and> t_type t = TaskTypeSession \<and> CanTransition (t_status t) SessionStatusDelivered) \<and>
       (\<exists>t. get_task i (m_db (fst (Deliver v i title body perm m))) = Some t \<and> t_type t = TaskTypeSession \<and> t_status t = SessionStatusDelivered))"
proof (cases rule: Deliver_cases [of v i title body perm m])
  case (refused e)
  then show ?thesis using keeps_refl [OF act] by simp
next
  case (created t ss r a p)
  let ?c = "i \<in> set (m_procs m)" and ?m1 = "release_role r (stopChannel i m)"
  let ?fs = "[(ColStatus, AStr ''delivered''), (ColDeliveredAt, AStr (sv_now v)), (ColUpdatedAt, AStr (sv_now v))]"
  have row: "get_task i (m_db m) = Some t" "t_type t = TaskTypeSession" using created(1) by (simp_all add: loadSession_Some)
  have k1: "keeps ?c base m ?m1" by (rule keeps_close [OF act base row(1) created(3)])
  have act1: "channels_active ?m1" using k1 by (simp add: keeps_def)
  show ?thesis
  proof (cases "CreateTask (sv_now v) (delivery_task v ss a title body p (m_db ?m1)) (m_db ?m1)")
    case (Inl e)
    then show ?thesis using created(5) k1 by (simp add: Let_def)
  next
    case (Inr y)
    obtain db2 k where ct: "CreateTask (sv_now v) (delivery_task v ss a title body p (m_db ?m1)) (m_db ?m1) = Inr (db2, k)"
      using Inr by (cases y) simp
    note new = CreateTask_kept [OF ct]
    let ?m2 = "?m1\<lparr>m_db := db2\<rparr>"
    have k2: "keeps ?c base ?m1 ?m2" using new by (intro keeps_row [OF act1, of k]) simp_all
    have act2: "channels_active ?m2" using k2 by (simp add: keeps_def)
    have ik: "i \<noteq> k" using new row(1) by auto
    obtain m3 res where st: "settle_delivery v ss p k ?m2 = (m3, res)" by fastforce
    have sk: "kept k (m_db ?m2) (m_db m3)" "m_procs m3 = m_procs ?m2" "m_ex m3 = m_ex ?m2"
      using settle_delivery_kept [of ?m2 k v ss p] act2 by (simp_all add: st channels_active_def)
    have "t_type u \<noteq> TaskTypeSession" if "get_task k (m_db ?m2) = Some u" for u
      using new that by (auto simp: prepare_type(2) delivery_task_type)
    then have k3: "keeps ?c base ?m2 m3" using sk by (intro keeps_row [OF act2, of k]) auto
    have act3: "channels_active m3" using k3 by (simp add: keeps_def)
    have k123: "keeps ?c base m m3" using keeps_trans [OF keeps_trans [OF k1 k2] k3] .
    have "get_task i db2 = Some t" using new row(1) ik by (auto simp: kept_def)
    then have "get_task i (m_db m3) = Some t" using sk(1) ik by (auto simp: kept_def)
    then have load3: "loadSession i (m_db m3) = Some (t, ss)" using created(1) by (simp add: loadSession_Some)
    have i3: "i \<notin> set (m_procs m3)" using sk(2) by simp
    have sd: "edit_task ?fs (sv_now v) t = Some t' \<Longrightarrow> t_status t' = SessionStatusDelivered" for t' by (rule status_written(3))
    obtain m4 t' where up: "store_update v i ?fs m3 = (m4, Inr ())" and k4: "keeps ?c base m3 m4"
        and fin: "get_task i (m_db m4) = Some t'" "t_type t' = TaskTypeSession" "t_status t' = SessionStatusDelivered"
      using keeps_status [OF load3 act3 i3 status_fields(3) _ sd created(2)] by blast
    have k1234: "keeps ?c base m m4" using keeps_trans [OF k123 k4] .
    show ?thesis
    proof (cases res)
      case (Inl e)
      then show ?thesis using created(5) ct st k123 by (simp add: Let_def)
    next
      case (Inr u)
      then have run: "Deliver v i title body perm m =
          (case get_task k (m_db m4) of None \<Rightarrow> (m4, Inl (ErrStore ErrNoRows)) | Some tk \<Rightarrow> (m4, Inr tk))"
        using created(5) ct st up by (simp add: Let_def)
      then have "fst (Deliver v i title body perm m) = m4" by (simp split: option.split)
      then show ?thesis using k1234 fin row created(2) by auto
    qed
  qed
qed

section \<open>Recovery and the idle monitor\<close>

lemma recover_session_frame:
  assumes "schema_ok (m_db m)"
  shows "schema_ok (m_db (recover_session v t m)) \<and> m_procs (recover_session v t m) = m_procs m \<and> m_ex (recover_session v t m) = m_ex m"
proof (cases "AsSession t")
  case None
  then show ?thesis using assms by (simp add: recover_session_def)
next
  case (Some ss)
  obtain m' r where run: "store_update v (ss_id ss) (suspend_fields v) m = (m', r)" by fastforce
  have "kept (ss_id ss) (m_db m) (m_db m') \<and> m_procs m' = m_procs m \<and> m_ex m' = m_ex m"
    using store_update_cases [OF run _ _ assms] by (simp add: suspend_fields_def)
  then show ?thesis using Some run by (simp add: recover_session_def kept_def)
qed

lemma Recover_frame:
  assumes "schema_ok (m_db m)"
  shows "schema_ok (m_db (Recover v m)) \<and> m_procs (Recover v m) = m_procs m \<and> m_ex (Recover v m) = m_ex m"
proof -
  have "schema_ok (m_db (fold (recover_session v) ts m)) \<and> m_procs (fold (recover_session v) ts m) = m_procs m \<and>
      m_ex (fold (recover_session v) ts m) = m_ex m" for ts
    using assms
  proof (induction ts arbitrary: m)
    case (Cons t ts)
    then show ?case using recover_session_frame [OF Cons.prems, of v t] by simp
  qed simp
  then show ?thesis by (simp add: Recover_def)
qed

lemma Suspend_procs: "m_procs (fst (Suspend v i m)) \<in> {m_procs m, removeAll i (m_procs m)}"
proof -
  have "m_procs (fst (store_update v i fs m1)) = m_procs m1" for fs and m1 :: manager
    using store_update_ok [of v i fs m1 "fst (store_update v i fs m1)" "snd (store_update v i fs m1)"] by simp
  then show ?thesis by (auto simp: Suspend_def split: option.split)
qed

lemma idle_fold_keeps:
  assumes base: "\<And>r. 0 \<le> base r"
  shows "distinct is \<Longrightarrow> set is \<subseteq> set (m_procs m) \<Longrightarrow> channels_active m \<Longrightarrow> keeps True base m (fold (suspend_idle v) is m)"
proof (induction "is" arbitrary: m)
  case Nil
  then show ?case by (simp add: keeps_refl)
next
  case (Cons i js)
  let ?m1 = "suspend_idle v i m"
  have i: "i \<in> set (m_procs m)" using Cons.prems(2) by simp
  have "?m1 = m \<or> ?m1 = fst (Suspend v i m)"
    by (auto simp: suspend_idle_def split: option.split)
  then have k: "keeps True base m ?m1" and p: "m_procs ?m1 \<in> {m_procs m, removeAll i (m_procs m)}"
    using Suspend_keeps [OF Cons.prems(3) base, where i = i and v = v] i keeps_refl [OF Cons.prems(3)] Suspend_procs [of v i m] by auto
  have "set js \<subseteq> set (m_procs ?m1)" using p Cons.prems(1,2) by auto
  moreover have "channels_active ?m1" using k by (simp add: keeps_def)
  ultimately have "keeps True base ?m1 (fold (suspend_idle v) js ?m1)" using Cons.IH Cons.prems(1) by simp
  then show ?case using keeps_trans [OF k] by simp
qed

lemma idle_round_keeps:
  assumes "channels_active m" and "\<And>r. 0 \<le> base r"
  shows "keeps True base m (idle_round v idle m)"
  unfolding idle_round_def using assms by (intro idle_fold_keeps) (auto simp: channels_active_def)

section \<open>Runs of the manager\<close>

datatype session_op =
    OpCreate "int option" int string
  | OpStart int
  | OpPrompt int
  | OpSuspend int
  | OpDeliver int string string string
  | OpDelete int
  | OpExit int
  | OpMessage int string
  | OpIdle "int list"

definition okay :: "'a outcome \<Rightarrow> manager \<times> bool" where
  "okay out = (fst out, case snd out of Inl _ \<Rightarrow> False | Inr _ \<Rightarrow> True)"

fun session_do :: "session_env \<Rightarrow> session_op \<Rightarrow> manager \<Rightarrow> manager \<times> bool" where
  "session_do v (OpCreate p r perm) m = okay (Create v p r perm m)"
| "session_do v (OpStart i) m = okay (Start v i m)"
| "session_do v (OpPrompt i) m = okay (Prompt v i m)"
| "session_do v (OpSuspend i) m = okay (Suspend v i m)"
| "session_do v (OpDeliver i title body perm) m = okay (Deliver v i title body perm m)"
| "session_do v (OpDelete i) m = okay (Delete v i m)"
| "session_do v (OpExit i) m = okay (handleExit v i m)"
| "session_do v (OpMessage i ts) m = (message_end v i ts m, True)"
| "session_do v (OpIdle ids) m = (idle_round v (\<lambda>i. i \<in> set ids) m, True)"

fun session_ops :: "(session_env \<times> session_op) list \<Rightarrow> manager \<Rightarrow> manager \<times> bool list" where
  "session_ops [] m = (m, [])"
| "session_ops ((v, x) # xs) m =
    (let (m1, b) = session_do v x m; (m2, bs) = session_ops xs m1 in (m2, b # bs))"

text \<open>A session that is suspended, delivered or deleted has a channel.\<close>

fun addressed :: "session_op \<Rightarrow> manager \<Rightarrow> bool" where
  "addressed (OpSuspend i) m = (i \<in> set (m_procs m))"
| "addressed (OpDeliver i title body perm) m = (i \<in> set (m_procs m))"
| "addressed (OpDelete i) m = (i \<in> set (m_procs m))"
| "addressed x m = True"

fun all_addressed :: "(session_env \<times> session_op) list \<Rightarrow> manager \<Rightarrow> bool" where
  "all_addressed [] m = True"
| "all_addressed ((v, x) # xs) m = (addressed x m \<and> all_addressed xs (fst (session_do v x m)))"

lemma keeps_weaken: "keeps True base x y \<Longrightarrow> keeps c base x y"
  by (simp add: keeps_def)

lemma session_do_keeps:
  assumes "channels_active m" and "\<And>r. 0 \<le> base r"
  shows "keeps (addressed x m) base m (fst (session_do v x m))"
proof (cases x)
  case (OpDeliver i title body perm)
  then show ?thesis using Deliver_keeps [OF assms, where i = i and v = v and title = title and body = body and perm = perm] by (simp add: okay_def)
qed (use Create_keeps [OF assms(1)] Start_keeps [OF assms] Prompt_keeps [OF assms] Suspend_keeps [OF assms] Delete_keeps [OF assms]
    handleExit_keeps [OF assms] message_end_keeps [OF assms(1)] idle_round_keeps [OF assms] in \<open>simp_all add: okay_def keeps_weaken\<close>)

lemma session_ops_keeps:
  assumes base: "\<And>r. 0 \<le> base r"
  shows "channels_active m \<Longrightarrow> keeps (all_addressed xs m) base m (fst (session_ops xs m))"
proof (induction xs m rule: session_ops.induct)
  case (1 m)
  then show ?case by (simp add: keeps_refl)
next
  case (2 v x xs m)
  let ?m1 = "fst (session_do v x m)"
  have k: "keeps (addressed x m) base m ?m1" by (rule session_do_keeps [OF 2(2) base])
  then have "channels_active ?m1" by (simp add: keeps_def)
  then have "keeps (all_addressed xs ?m1) base ?m1 (fst (session_ops xs ?m1))"
    using 2(1) [OF refl prod.collapse] by simp
  with k have "keeps (addressed x m \<and> all_addressed xs ?m1) base m (fst (session_ops xs ?m1))"
    using moves_trans by (auto simp: keeps_def)
  then show ?case by (simp add: case_prod_beta Let_def)
qed

section \<open>Slots and channels\<close>


section \<open>Deliveries\<close>

text \<open>The successful deliveries of a session.\<close>

fun delivers :: "int \<Rightarrow> session_op \<Rightarrow> bool" where
  "delivers i (OpDeliver j title body perm) = (i = j)"
| "delivers i x = False"

definition deliveries :: "int \<Rightarrow> (session_env \<times> session_op) list \<Rightarrow> bool list \<Rightarrow> nat" where
  "deliveries i xs bs = length (filter (\<lambda>((v, x), b). delivers i x \<and> b) (zip xs bs))"

definition frozen :: "int \<Rightarrow> db \<Rightarrow> bool" where
  "frozen i db \<longleftrightarrow> (\<exists>t. get_task i db = Some t \<and> t_type t = TaskTypeSession \<and> t_status t \<in> {SessionStatusDelivered, SessionStatusDeleted})"

lemma session_path_frozen:
  "session_path a b \<Longrightarrow> a \<in> {SessionStatusDelivered, SessionStatusDeleted} \<Longrightarrow> b \<in> {SessionStatusDelivered, SessionStatusDeleted}"
  by (induction rule: rtranclp_induct) (auto simp: CanTransition_def validTargets_def)

lemma frozen_moves: "moves db db' \<Longrightarrow> frozen i db \<Longrightarrow> frozen i db'"
  using session_path_frozen unfolding moves_def frozen_def by blast

lemma session_do_safe: "channels_active m \<Longrightarrow> channels_active (fst (session_do v x m)) \<and> moves (m_db m) (m_db (fst (session_do v x m)))"
  using session_do_keeps [of m "\<lambda>r. 0" x v] by (simp add: keeps_def)

lemma deliver_frozen:
  assumes "channels_active m" and "session_do v x m = (m1, b)" and "delivers i x" and b
  shows "\<not> frozen i (m_db m) \<and> frozen i (m_db m1)"
proof -
  obtain title body perm where x: "x = OpDeliver i title body perm" using assms(3) by (cases x) auto
  obtain tk where tk: "snd (Deliver v i title body perm m) = Inr tk" and m1: "m1 = fst (Deliver v i title body perm m)"
    using assms(2,4) x by (auto simp: okay_def split: sum.splits)
  have d: "(\<exists>t. get_task i (m_db m) = Some t \<and> t_type t = TaskTypeSession \<and> CanTransition (t_status t) SessionStatusDelivered) \<and>
       (\<exists>t. get_task i (m_db m1) = Some t \<and> t_type t = TaskTypeSession \<and> t_status t = SessionStatusDelivered)"
    using Deliver_keeps [OF assms(1), of "\<lambda>r. 0" i v title body perm] tk m1 by simp
  then show ?thesis by (auto simp: frozen_def CanTransition_def validTargets_def)
qed

lemma deliveries_bound:
  "channels_active m \<Longrightarrow> session_ops xs m = (m', bs) \<Longrightarrow>
     deliveries i xs bs \<le> (if frozen i (m_db m) then 0 else 1) \<and> (0 < deliveries i xs bs \<longrightarrow> frozen i (m_db m'))"
proof (induction xs arbitrary: m m' bs)
  case Nil
  then show ?case by (simp add: deliveries_def)
next
  case (Cons y ys)
  obtain v x where y: "y = (v, x)" by (cases y)
  obtain m1 b where s: "session_do v x m = (m1, b)" by fastforce
  obtain bs' where r: "session_ops ys m1 = (m', bs')" and bs: "bs = b # bs'"
    using Cons.prems(2) y s by (cases "session_ops ys m1") simp
  have act1: "channels_active m1" and mv: "moves (m_db m) (m_db m1)" using session_do_safe [OF Cons.prems(1), of v x] s by simp_all
  note IH = Cons.IH [OF act1 r]
  have n: "deliveries i (y # ys) bs = (if delivers i x \<and> b then 1 else 0) + deliveries i ys bs'"
    by (simp add: deliveries_def bs y)
  show ?case
  proof (cases "delivers i x \<and> b")
    case True
    then have "\<not> frozen i (m_db m)" "frozen i (m_db m1)" using deliver_frozen [OF Cons.prems(1) s] by simp_all
    moreover have "moves (m_db m1) (m_db m')" using session_ops_keeps [of "\<lambda>r. 0" m1 ys] act1 r by (simp add: keeps_def)
    ultimately show ?thesis using n True IH frozen_moves by auto
  next
    case False
    then show ?thesis using n IH frozen_moves [OF mv] by (auto split: if_splits)
  qed
qed


section \<open>Examples\<close>

definition demo_session_env :: session_env where
  "demo_session_env = \<lparr>sv_now = ''t'', sv_runtime = (\<lambda>x. x = ''pi''), sv_worktree = (\<lambda>d n i. Some (''/w'', ''session'', ''c0'')),
     sv_mkdir = (\<lambda>i. True), sv_session_dir = (\<lambda>i. ''/s''), sv_channel = (\<lambda>ss a d. True), sv_snapshot = (\<lambda>t. True),
     sv_deliver_body = (\<lambda>ss a p. ''body''), sv_merge_text = (\<lambda>t. (''merge'', ''text''))\<rparr>"

definition no_snapshot_env :: session_env where
  "no_snapshot_env = demo_session_env\<lparr>sv_snapshot := (\<lambda>t. False)\<rparr>"

definition demo_manager :: manager where
  "demo_manager = \<lparr>m_db = demo_project_db [], m_ex = no_slots, m_procs = []\<rparr>"

definition demo_life :: "(session_env \<times> session_op) list" where
  "demo_life = map (Pair demo_session_env) [OpCreate (Some 1) 1 ''full'', OpStart 1, OpExit 1, OpPrompt 1, OpCreate (Some 1) 1 ''full'', OpStart 2,
     OpDeliver 1 ''title'' [] ''full'', OpMessage 2 ''t2'']"

lemma demo_life_run:
  "case session_ops demo_life demo_manager of (m, bs) \<Rightarrow>
     m_procs m = [2] \<and> bs = [True, True, True, True, True, True, True, True] \<and> held (active (m_ex m)) 1 = 1 \<and>
     map t_status (tasks (m_db m)) = [SessionStatusDelivered, SessionStatusActive, StatusSucceeded, StatusQueued]"
  by code_simp

lemma demo_manager_ok: "schema_ok (m_db demo_manager)"
  by code_simp


text \<open>The first delivery fails because the snapshot does; the third is refused.\<close>

definition demo_deliveries :: "(session_env \<times> session_op) list" where
  "demo_deliveries = [(demo_session_env, OpCreate (Some 1) 1 ''full''), (demo_session_env, OpStart 1),
     (no_snapshot_env, OpDeliver 1 ''a'' [] ''full''), (demo_session_env, OpDeliver 1 ''b'' [] ''full''),
     (demo_session_env, OpDeliver 1 ''c'' [] ''full''), (demo_session_env, OpStart 1)]"


section \<open>Where the slots go wrong\<close>

text \<open>
  A session that was never started holds no slot, yet deleting it releases one of its role: a
  batch execution that fills the role's limit is no longer counted.
\<close>

lemma deleting_releases_foreign_slot:
  "case session_ops [(demo_session_env, OpCreate None 1 ''full''), (demo_session_env, OpDelete 1)]
       (demo_manager\<lparr>m_ex := restoreRoleSlot 1 (restoreRoleSlot 1 no_slots)\<rparr>) of
     (m, bs) \<Rightarrow> bs = [True, True] \<and> m_procs m = [] \<and> held (active (m_ex m)) 1 = 1"
  by code_simp

text \<open>
  The manager holds no lock between the checks of \<^verbatim>\<open>Start\<close> and its effects: two starts that
  overlap take two slots and open two channels, of which the map keeps one.
\<close>

definition overlapping_starts :: "manager \<Rightarrow> manager" where
  "overlapping_starts m =
     (case start_admit demo_session_env 1 m of
        (m1, Inr (ss1, a1)) \<Rightarrow>
          (case start_admit demo_session_env 1 m1 of
             (m2, Inr (ss2, a2)) \<Rightarrow> fst (start_run demo_session_env 1 ss2 a2 (fst (start_run demo_session_env 1 ss1 a1 m2)))
           | (m2, Inl e) \<Rightarrow> m2)
      | (m1, Inl e) \<Rightarrow> m1)"

lemma overlapping_starts_leak:
  "case overlapping_starts (fst (session_ops [(demo_session_env, OpCreate None 1 ''full'')] demo_manager)) of
     m \<Rightarrow> m_procs m = [1] \<and> held (active (m_ex m)) 1 = 2 \<and>
       (case session_ops [(demo_session_env, OpSuspend 1)] m of (m', bs) \<Rightarrow> m_procs m' = [] \<and> held (active (m_ex m')) 1 = 1)"
  by code_simp

text \<open>
  A delivery that fails after the channel was stopped leaves the session active without a
  channel: a message does not start it again, and suspending it releases a second slot.
\<close>

lemma failed_delivery_strands_session:
  "case session_ops [(demo_session_env, OpCreate (Some 1) 1 ''full''), (demo_session_env, OpStart 1), (no_snapshot_env, OpDeliver 1 ''a'' [] ''full''),
       (demo_session_env, OpPrompt 1), (demo_session_env, OpStart 1), (demo_session_env, OpSuspend 1)]
       (demo_manager\<lparr>m_ex := restoreRoleSlot 1 no_slots\<rparr>) of
     (m, bs) \<Rightarrow> bs = [True, True, False, False, False, True] \<and> m_procs m = [] \<and> held (active (m_ex m)) 1 = 0"
  by code_simp

text \<open>The comment of \<^verbatim>\<open>Delete\<close> says that a delivered session cannot be deleted; it can.\<close>

lemma delivered_session_deleted:
  "case session_ops [(demo_session_env, OpCreate (Some 1) 1 ''full''), (demo_session_env, OpStart 1), (demo_session_env, OpDeliver 1 ''a'' [] ''full''),
       (demo_session_env, OpDelete 1)] demo_manager of
     (m, bs) \<Rightarrow> bs = [True, True, True, True] \<and> map_option t_status (get_task 1 (m_db m)) = Some SessionStatusDeleted"
  by code_simp

end
