(* ===== verification/Lifecycle_Laws.thy ===== *)
theory Lifecycle_Laws
  imports Task_Lifecycle Session_Laws Delete_Laws
begin

text \<open>
  What the use cases of a task guarantee: a refused one leaves the state as it was, an accepted
  one moves one task along the table of transitions, and code that was delivered is final.
\<close>

section \<open>The status an edit writes\<close>

lemma set_task_col_status:
  "set_task_col c a t = Some t' \<Longrightarrow>
     (if c = ColStatus then \<exists>s. a = AStr s \<and> t_status t' = status_of s else t_status t' = t_status t)"
  unfolding set_task_col_def col_defs by (cases c) (auto split: any.splits)

definition sets_status :: "string \<Rightarrow> fields \<Rightarrow> bool" where
  "sets_status s fs \<longleftrightarrow> ColStatus \<in> fst ` set fs \<and> (\<forall>a. (ColStatus, a) \<in> set fs \<longrightarrow> a = AStr s)"

lemma set_cols_status:
  "set_cols set_task_col fs t = Some t' \<Longrightarrow> (\<forall>a. (ColStatus, a) \<in> set fs \<longrightarrow> a = AStr s) \<Longrightarrow>
     t_status t' = (if ColStatus \<in> fst ` set fs then status_of s else t_status t)"
proof (induction fs arbitrary: t)
  case (Cons x fs)
  obtain c a where x: "x = (c, a)" by (cases x)
  with Cons.prems obtain u where u: "set_task_col c a t = Some u" "set_cols set_task_col fs u = Some t'"
    by (auto split: option.splits)
  have "t_status u = (if c = ColStatus then status_of s else t_status t)"
    using set_task_col_status [OF u(1)] Cons.prems(2) x by (auto split: if_splits)
  with Cons.IH [OF u(2)] Cons.prems(2) x show ?case by auto
qed simp

lemma edit_task_status: "edit_task fs now t = Some t' \<Longrightarrow> sets_status s fs \<Longrightarrow> t_status t' = status_of s"
  using set_cols_status [of fs t _ s] by (fastforce simp: edit_task_def sets_status_def)

lemma edit_with_dependency_status:
  assumes "edit_with_dependency fs now mode target t = Some t'" and "sets_status s fs"
  shows "t_status t' = status_of s"
proof -
  have "sets_status s (filter (\<lambda>(c, v). c \<noteq> ColDependencyMode \<and> c \<noteq> ColDependsOn) fs)"
    using assms(2) by (force simp: sets_status_def)
  with assms(1) show ?thesis by (auto simp: edit_with_dependency_def dest: edit_task_status)
qed

lemma sets_status_put [simp]:
  "sets_status s (put_field ColStatus (AStr s) fs)"
  "c \<noteq> ColStatus \<Longrightarrow> sets_status s (put_field c a fs) = sets_status s fs"
  "c \<noteq> ColStatus \<Longrightarrow> sets_status s (drop_field c fs) = sets_status s fs"
  by (force simp: sets_status_def put_field_def drop_field_def)+

lemma requeue_fields_status [simp]: "sets_status ''queued'' (requeue_fields v t fs)"
  by (simp add: requeue_fields_def Let_def split: option.splits)

section \<open>One row moves\<close>

text \<open>Every row stays, one row may change but keeps the source it merges.\<close>

definition changes_row :: "int \<Rightarrow> db \<Rightarrow> db \<Rightarrow> bool" where
  "changes_row i d d' \<longleftrightarrow> schema_ok d' \<and> (\<forall>j u. get_task j d = Some u \<longrightarrow>
     (\<exists>u'. get_task j d' = Some u' \<and> t_merge_of u' = t_merge_of u \<and> (j \<noteq> i \<longrightarrow> u' = u)))"

lemma changes_rowI:
  assumes "schema_ok d'" and "get_task i d = Some t" and "get_task i d' = Some t'" and "t_merge_of t' = t_merge_of t"
    and "\<forall>j. j \<noteq> i \<longrightarrow> get_task j d' = get_task j d"
  shows "changes_row i d d'"
  unfolding changes_row_def
proof (intro conjI allI impI)
  fix j u assume "get_task j d = Some u"
  then show "\<exists>u'. get_task j d' = Some u' \<and> t_merge_of u' = t_merge_of u \<and> (j \<noteq> i \<longrightarrow> u' = u)"
    using assms(2-5) by (cases "j = i") auto
qed (rule assms(1))

lemma UpdateAtRevision_row:
  assumes good: "schema_ok d" and upd: "UpdateAtRevision ResTask i e fs now d = Inr d'"
  shows "\<exists>t t'. get_task i d = Some t \<and> t_revision t = e \<and> edit_task fs now t = Some t' \<and> get_task i d' = Some t' \<and>
    changes_row i d d'"
proof -
  from upd obtain ts where ts: "edit_rows (\<lambda>t. t_id t = i \<and> t_revision t = e) (edit_task fs now) (tasks d) = Some ts"
    "schema_ok (d\<lparr>tasks := ts\<rparr>)" "d' = d\<lparr>tasks := ts\<rparr>"
    "affected (\<lambda>t. t_id t = i \<and> t_revision t = e) (tasks d) = 1"
    by (auto simp: UpdateAtRevision_def Let_def result_simps split: if_splits option.splits)
  have f: "\<And>r r'. edit_task fs now r = Some r' \<Longrightarrow> t_id r' = t_id r" by (auto dest: edit_task_frame)
  from one_row_edit [OF good ts(2,1) f ts(4)] ts(2,3) show ?thesis
    by (auto intro!: changes_rowI dest: edit_task_frame)
qed

lemma write_status:
  assumes good: "schema_ok d" and st: "sets_status s fs"
    and upd: "(if dep then UpdateTaskAtRevision rng i e fs now d else UpdateAtRevision ResTask i e fs now d) = Inr d'"
  shows "\<exists>t t'. get_task i d = Some t \<and> t_revision t = e \<and> get_task i d' = Some t' \<and> t_status t' = status_of s \<and>
    changes_row i d d'"
proof (cases "dep \<and> (map_of fs ColDependencyMode \<noteq> None \<or> map_of fs ColDependsOn \<noteq> None)")
  case True
  with upd have run: "UpdateTaskAtRevision rng i e fs now d = Inr d'" by simp
  from UpdateTaskAtRevision_cases [OF good run] True obtain t t' mode target where
    t: "schema_ok d'" "get_task i d = Some t" "t_revision t = e" "edit_with_dependency fs now mode target t = Some t'"
      "get_task i d' = Some t'" "\<forall>j. j \<noteq> i \<longrightarrow> get_task j d' = get_task j d"
    by blast
  have "changes_row i d d'"
    by (rule changes_rowI [OF t(1,2,5) _ t(6)]) (rule edit_with_dependency_frame(2) [OF t(4)])
  with t edit_with_dependency_status [OF t(4) st] show ?thesis by blast
next
  case False
  with upd have "UpdateAtRevision ResTask i e fs now d = Inr d'"
    by (auto simp: UpdateTaskAtRevision_def split: if_splits)
  from UpdateAtRevision_row [OF good this] edit_task_status [OF _ st] show ?thesis by blast
qed

section \<open>Accepted and refused actions\<close>

definition sealed :: "db \<Rightarrow> task \<Rightarrow> bool" where
  "sealed d t \<longleftrightarrow> t_status t = StatusSucceeded \<and>
     (t_merge_of t \<noteq> None \<or> t_worktree_branch t \<noteq> [] \<or> HasMergeTaskForSource (t_id t) d)"

lemma validateRequeue_sealed: "validateRequeue t d = Inr () \<longleftrightarrow> \<not> sealed d t"
  by (auto simp: validateRequeue_def sealed_def sourceHasOrNeedsMerge_def)

text \<open>What an accepted action on an existing task did.\<close>

definition moved :: "db \<Rightarrow> db \<Rightarrow> task \<Rightarrow> bool" where
  "moved d d' t \<longleftrightarrow> get_task (t_id t) d' = Some t \<and> changes_row (t_id t) d d' \<and>
     (\<exists>s. get_task (t_id t) d = Some s \<and> canTransitionTask (t_status s) (t_status t) \<and> \<not> sealed d s)"

text \<open>A refused action leaves the database, the channels, the slots and the resources alone.\<close>

definition untouched :: "life \<Rightarrow> life \<Rightarrow> bool" where
  "untouched l l' \<longleftrightarrow> l_man l' = l_man l \<and> l_cleaned l' = l_cleaned l"

lemma untouched_simps [simp]:
  "untouched l l" "untouched l (CancelTask i l)" "untouched l (ResetTaskSession i l)"
  by (simp_all add: untouched_def CancelTask_def ResetTaskSession_def)

lemma l_db_simps [simp]:
  "l_db (set_db d l) = d" "l_man (CancelTask i l) = l_man l" "l_man (ResetTaskSession i l) = l_man l"
  "l_man (fst (CleanupTaskResources v t l)) = l_man l"
  by (simp_all add: set_db_def CancelTask_def ResetTaskSession_def CleanupTaskResources_def Let_def)

lemma appendLog_tasks:
  "schema_ok (l_db l) \<Longrightarrow> schema_ok (l_db (appendLog v i c l)) \<and> get_task j (l_db (appendLog v i c l)) = get_task j (l_db l)"
proof (cases "AppendLog (lv_now v) \<lparr>g_id = 0, g_task_id = i, g_seq = 0, g_stream = ''sys'',
    g_content = lv_say v c, g_created_at = []\<rparr> (l_db l)")
  case (Inr x)
  then obtain d g where x: "x = (d, g)" by (cases x)
  assume "schema_ok (l_db l)"
  have "tasks d = tasks (l_db l)"
    using Inr x by (auto simp: AppendLog_def insert_log_def Let_def result_simps)
  with Inr x AppendLog_result [of "lv_now v" _ "l_db l" d g] show ?thesis by (simp add: appendLog_def get_task_def)
qed (simp add: appendLog_def)

lemma update_other_row:
  assumes "update_tasks (\<lambda>t. t_id t = i \<and> Q t) f d = Inr (d', n)" and f: "\<And>t. t_id (f t) = t_id t" and "j \<noteq> i"
  shows "get_task j d' = get_task j d"
proof -
  have "d' = d\<lparr>tasks := upd_where (\<lambda>t. t_id t = i \<and> Q t) f (tasks d)\<rparr>" using assms(1) by (simp add: update_tasks_Inr)
  then show ?thesis using assms(3) by (cases "get_task j d") (auto simp: get_task_upd f dest: get_task_id)
qed

lemma reread_Inr: "reread k i l = (l', Inr t) \<Longrightarrow> l' = l \<and> get_task i (l_db l) = Some t"
  by (auto simp: reread_def split: option.splits)

lemma reread_Some [simp]: "get_task i (l_db l) = Some t \<Longrightarrow> reread k i l = (l, Inr t)"
  by (simp add: reread_def)

lemma updateTransition_outcome:
  assumes good: "schema_ok (l_db l)" and st: "sets_status s (tr_fields q)" and run: "updateTransition v i e q l = (l', r)"
  shows "(case r of Inl _ \<Rightarrow> l' = l
     | Inr t \<Rightarrow> get_task i (l_db l') = Some t \<and> t_status t = status_of s \<and> changes_row i (l_db l) (l_db l'))"
proof (cases "if tr_dependency_changed q then UpdateTaskAtRevision (lv_rng v) i e (tr_fields q) (lv_now v) (l_db l)
    else UpdateAtRevision ResTask i e (tr_fields q) (lv_now v) (l_db l)")
  case (Inl err)
  with run show ?thesis by (auto simp: updateTransition_def)
next
  case (Inr d)
  from write_status [OF good st Inr] obtain t' where "get_task i d = Some t'" "t_status t' = status_of s"
    "changes_row i (l_db l) d" by blast
  with run Inr show ?thesis by (auto simp: updateTransition_def)
qed

lemma status_of_simps [simp]: "status_of ''queued'' = StatusQueued" "status_of ''cancelled'' = StatusCancelled"
  by (simp_all add: status_of_def status_names_def)

lemma changes_row_get: "changes_row i d d' \<Longrightarrow> get_task i d = Some s \<Longrightarrow> get_task i d' = Some t \<Longrightarrow> moved d d' t \<longleftrightarrow>
    canTransitionTask (t_status s) (t_status t) \<and> \<not> sealed d s"
  by (auto simp: moved_def dest: get_task_id)

lemma requeue_outcome:
  assumes good: "schema_ok (l_db l)" and s: "get_task (t_id s) (l_db l) = Some s"
    and can: "canTransitionTask (t_status s) StatusQueued" and run: "requeue v s e q l = (l', r)"
  shows "(case r of Inl _ \<Rightarrow> untouched l l' \<and> l_cancelled l' = l_cancelled l
     | Inr t \<Rightarrow> t_id t = t_id s \<and> moved (l_db l) (l_db l') t)"
proof (cases "validateRequeue s (l_db l)")
  case (Inl err)
  with run show ?thesis by (auto simp: requeue_def)
next
  case (Inr u)
  define l0 where "l0 = (if t_status s = StatusAwaitingReview then ResetTaskSession (t_id s) l else l)"
  have l: "l_man l0 = l_man l" "untouched l l0" "l_cancelled l0 = l_cancelled l"
    by (simp_all add: l0_def ResetTaskSession_def untouched_def)
  have st: "sets_status ''queued'' (tr_fields (q\<lparr>tr_fields := requeue_fields v s (tr_fields q)\<rparr>))" by simp
  have "updateTransition v (t_id s) e (q\<lparr>tr_fields := requeue_fields v s (tr_fields q)\<rparr>) l0 = (l', r)"
    using run Inr by (simp add: requeue_def l0_def)
  from updateTransition_outcome [OF _ st this] good l
  have out: "case r of Inl _ \<Rightarrow> l' = l0 | Inr t \<Rightarrow> get_task (t_id s) (l_db l') = Some t \<and> t_status t = StatusQueued \<and>
      changes_row (t_id s) (l_db l) (l_db l')" by (auto split: sum.splits)
  have ns: "\<not> sealed (l_db l) s" using Inr validateRequeue_sealed [of s "l_db l"] by simp
  show ?thesis
  proof (cases r)
    case (Inl err)
    with out l show ?thesis by simp
  next
    case (Inr t)
    with out have t: "get_task (t_id s) (l_db l') = Some t" "t_status t = StatusQueued"
      "changes_row (t_id s) (l_db l) (l_db l')" by simp_all
    from changes_row_get [OF t(3) s t(1)] can ns t(2) get_task_id [OF t(1)] Inr show ?thesis by simp
  qed
qed

lemma cancel_outcome:
  assumes good: "schema_ok (l_db l)" and s: "get_task (t_id s) (l_db l) = Some s"
    and can: "canTransitionTask (t_status s) StatusCancelled" and run: "cancel v s e q l = (l', r)"
  shows "(case r of Inl _ \<Rightarrow> untouched l l' | Inr t \<Rightarrow> t_id t = t_id s \<and> moved (l_db l) (l_db l') t)"
proof -
  let ?q = "q\<lparr>tr_fields := put_field ColStatus (AStr ''cancelled'') (tr_fields q)\<rparr>"
  have st: "sets_status ''cancelled'' (tr_fields ?q)" by simp
  have "updateTransition v (t_id s) e ?q (CancelTask (t_id s) l) = (l', r)" using run by (simp add: cancel_def)
  from updateTransition_outcome [OF _ st this] good
  have out: "case r of Inl _ \<Rightarrow> l' = CancelTask (t_id s) l | Inr t \<Rightarrow> get_task (t_id s) (l_db l') = Some t \<and>
      t_status t = StatusCancelled \<and> changes_row (t_id s) (l_db l) (l_db l')" by (simp split: sum.splits)
  have ns: "\<not> sealed (l_db l) s" using can by (auto simp: sealed_def canTransitionTask_def manualTaskTransitions_def)
  show ?thesis
  proof (cases r)
    case (Inr t)
    with out have t: "get_task (t_id s) (l_db l') = Some t" "t_status t = StatusCancelled"
      "changes_row (t_id s) (l_db l) (l_db l')" by simp_all
    from changes_row_get [OF t(3) s t(1)] can ns t(2) get_task_id [OF t(1)] Inr show ?thesis by simp
  qed (use out in simp)
qed

lemma Approve_moved:
  assumes good: "schema_ok (l_db l)" and s: "get_task (t_id s) (l_db l) = Some s"
    and can: "canTransitionTask (t_status s) StatusSucceeded" and run: "approve v s e l = (l', r)"
  shows "(case r of Inl _ \<Rightarrow> untouched l l' \<and> l_cancelled l' = l_cancelled l
     | Inr t \<Rightarrow> t_id t = t_id s \<and> moved (l_db l) (l_db l') t)"
proof -
  let ?m = "NewMergeTask (sv_merge_text (lv_session v)) s"
  have ns: "\<not> sealed (l_db l) s" using can by (auto simp: sealed_def canTransitionTask_def manualTaskTransitions_def)
  consider (refused) err where "approve v s e l = (l, Inl err)"
    | (skip) d where "ApproveTaskDeliver (lv_now v) (t_id s) e (l_db l) = Inr d" and "approve v s e l =
        reread TaskErrorInternal (t_id s) (appendLog v (t_id s) LogDelivered (fst (CleanupTaskResources v s (set_db d l))))"
    | (merge) d mid where "ApproveTaskAndCreateMerge (lv_now v) (t_id s) e ?m (l_db l) = Inr (d, mid)" and "approve v s e l =
        (case reread TaskErrorInternal (t_id s) (appendLog v (t_id s) (LogMergeCreated mid) (set_db d l)) of
                (l1, Inl e) \<Rightarrow> (l1, Inl e)
              | (l1, Inr approved) \<Rightarrow>
                  (case reread TaskErrorInternal mid l1 of
                     (l2, Inl e) \<Rightarrow> (l2, Inl e)
                   | (l2, Inr m) \<Rightarrow> (l2, Inr approved)))"
    by (cases "ApproveTaskDeliver (lv_now v) (t_id s) e (l_db l)";
        cases "ApproveTaskAndCreateMerge (lv_now v) (t_id s) e ?m (l_db l)")
      (fastforce simp: approve_def split: if_splits)+
  then show ?thesis
  proof cases
    case refused
    with run show ?thesis by auto
  next
    case skip
    have upd: "update_tasks (\<lambda>t. t_id t = t_id s \<and> t_revision t = e \<and> t_status t = StatusAwaitingReview)
        (\<lambda>t. (approve_row (lv_now v) t)\<lparr>t_merge_skipped := True\<rparr>) (l_db l) = Inr (d, 1)"
      using skip(1) by (auto simp: ApproveTaskDeliver_def rbind_eq_Inr split: if_splits)
    note eff = update_at_revision [OF good plain_skip _ upd]
    let ?t = "(approve_row (lv_now v) s)\<lparr>t_merge_skipped := True\<rparr>"
    have t: "get_task (t_id s) d = Some ?t" "schema_ok d" using eff(1,5) s by auto
    have rows: "get_task j d = get_task j (l_db l)" if "j \<noteq> t_id s" for j
      by (rule update_other_row [OF upd _ that]) (simp add: approve_row_def)
    have ch: "changes_row (t_id s) (l_db l) d"
      by (rule changes_rowI [OF t(2) s t(1)]) (simp_all add: approve_row_def rows)
    let ?l = "appendLog v (t_id s) LogDelivered (fst (CleanupTaskResources v s (set_db d l)))"
    have log: "schema_ok (l_db ?l)" "\<And>j. get_task j (l_db ?l) = get_task j d"
      using appendLog_tasks [of "fst (CleanupTaskResources v s (set_db d l))"] t(2) by simp_all
    then have "changes_row (t_id s) (l_db l) (l_db ?l)" using ch by (simp add: changes_row_def)
    from changes_row_get [OF this s] log t(1) ns can
    have "moved (l_db l) (l_db ?l) ?t" by simp
    moreover have "(l', r) = (?l, Inr ?t)" using run skip(2) t(1) log(2) by simp
    ultimately show ?thesis by (simp add: approve_row_def)
  next
    case merge
    from Approve_effect [OF good merge(1)] s
    have mf: "merged_from (t_id s) s (approve_row (lv_now v) s) mid (l_db l) d" by (auto simp: merged_from_def)
    then obtain m where m: "get_task mid d = Some m" "get_task (t_id s) d = Some (approve_row (lv_now v) s)" "schema_ok d"
      "get_task mid (l_db l) = None" "\<And>j. j \<notin> {t_id s, mid} \<Longrightarrow> get_task j d = get_task j (l_db l)"
      by (auto simp: merged_from_def)
    have ch: "changes_row (t_id s) (l_db l) d"
      unfolding changes_row_def
    proof (intro conjI allI impI)
      fix j u assume u: "get_task j (l_db l) = Some u"
      show "\<exists>u'. get_task j d = Some u' \<and> t_merge_of u' = t_merge_of u \<and> (j \<noteq> t_id s \<longrightarrow> u' = u)"
        using u m(2,4,5) s by (cases "j = t_id s"; cases "j = mid") (auto simp: approve_row_def)
    qed (rule m(3))
    let ?l = "appendLog v (t_id s) (LogMergeCreated mid) (set_db d l)"
    have log: "schema_ok (l_db ?l)" "\<And>j. get_task j (l_db ?l) = get_task j d"
      using appendLog_tasks [of "set_db d l"] m(3) by simp_all
    then have "changes_row (t_id s) (l_db l) (l_db ?l)" using ch by (simp add: changes_row_def)
    from changes_row_get [OF this s] log m(2) ns can
    have "moved (l_db l) (l_db ?l) (approve_row (lv_now v) s)" by simp
    moreover have "(l', r) = (?l, Inr (approve_row (lv_now v) s))" using run merge(2) m(1,2) log(2) by simp
    ultimately show ?thesis by (simp add: approve_row_def)
  qed
qed

lemma Resume_outcome:
  assumes good: "schema_ok (l_db l)" and run: "Resume v i e l = (l', r)"
  shows "(case r of Inl _ \<Rightarrow> untouched l l' \<and> l_cancelled l' = l_cancelled l | Inr t \<Rightarrow> t_id t = i \<and> moved (l_db l) (l_db l') t)"
proof (cases "\<exists>err. Resume v i e l = (l, Inl err)")
  case True
  with run show ?thesis by auto
next
  case False
  then obtain s where s: "taskAtRevision i e (l_db l) = Inr s" "terminalTaskStatus (t_status s)"
      "\<not> sealed (l_db l) s"
    by (auto simp: Resume_def sealed_def sourceHasOrNeedsMerge_def terminalTaskStatus_def split: sum.splits if_splits)
  then have si: "get_task i (l_db l) = Some s" "t_revision s = e"
    by (auto simp: taskAtRevision_def split: option.splits if_splits)
  from False s obtain d n where res: "ResumeTask i e (lv_now v) (l_db l) = Inr (d, n)"
    by (auto simp: Resume_def sealed_def sourceHasOrNeedsMerge_def split: sum.splits if_splits prod.splits)
  let ?p = "\<lambda>t. t_id t = i \<and> t_revision t = e \<and> t_status t \<in> {StatusSucceeded, StatusFailed, StatusCancelled}"
  have "t_id s = i" using si(1) by auto
  then have one: "affected ?p (tasks (l_db l)) = 1"
    using si s(2) affected_task [OF good, of i "\<lambda>t. t_revision t = e \<and> t_status t \<in> {StatusSucceeded, StatusFailed, StatusCancelled}"]
    by (simp add: terminalTaskStatus_def)
  have upd: "update_tasks ?p (resume_row (lv_now v)) (l_db l) = Inr (d, 1)" and n: "n"
    using res one by (auto simp: ResumeTask_def rbind_eq_Inr update_tasks_Inr)
  note eff = update_at_revision [OF good plain_resume _ upd]
  have t: "get_task i d = Some (resume_row (lv_now v) s)" "schema_ok d" using eff(1,5) si(1) by auto
  have rows: "get_task j d = get_task j (l_db l)" if "j \<noteq> i" for j
    by (rule update_other_row [OF upd _ that]) (simp add: resume_row_def)
  have ch: "changes_row i (l_db l) d"
    by (rule changes_rowI [OF t(2) si(1) t(1)]) (simp_all add: resume_row_def rows)
  let ?l = "appendLog v i LogResumed (set_db d l)"
  have log: "schema_ok (l_db ?l)" "\<And>j. get_task j (l_db ?l) = get_task j d"
    using appendLog_tasks [of "set_db d l"] t(2) by simp_all
  then have "changes_row i (l_db l) (l_db ?l)" using ch by (simp add: changes_row_def)
  from changes_row_get [OF this si(1)] log t(1) s(2,3)
  have mv: "moved (l_db l) (l_db ?l) (resume_row (lv_now v) s)"
    by (auto simp: resume_row_def canTransitionTask_def manualTaskTransitions_def terminalTaskStatus_def)
  have "t_role_id s \<noteq> None"
  proof
    assume "t_role_id s = None"
    then have "Resume v i e l = (l, Inl (TaskLifecycleError TaskErrorInvalid SourceNoRole))" by (simp add: Resume_def s(1))
    with False show False by blast
  qed
  then have "Resume v i e l = reread TaskErrorInternal i ?l"
    using s res n by (auto simp: Resume_def sealed_def sourceHasOrNeedsMerge_def)
  then have "(l', r) = (?l, Inr (resume_row (lv_now v) s))" using run t(1) log(2) by simp
  with mv si(1) show ?thesis by (auto simp: resume_row_def)
qed

section \<open>Any sequence of actions\<close>

text \<open>The requests of a client, one after the other; a refused one leaves what it left.\<close>

datatype life_op =
    DoCreate CreateTaskRequest
  | DoTransition int int TaskTransitionRequest
  | DoApprove int int
  | DoRequeue int int TaskTransitionRequest
  | DoCancel int int TaskTransitionRequest
  | DoResume int int

fun life_do :: "life_env \<Rightarrow> life_op \<Rightarrow> life \<Rightarrow> task action" where
  "life_do v (DoCreate q) l = create_task v q l"
| "life_do v (DoTransition i e q) l = Transition v i e q l"
| "life_do v (DoApprove i e) l = Approve v i e l"
| "life_do v (DoRequeue i e q) l = Requeue v i e q l"
| "life_do v (DoCancel i e q) l = Cancel v i e q l"
| "life_do v (DoResume i e) l = Resume v i e l"

fun asks_to_cancel :: "life_op \<Rightarrow> bool" where
  "asks_to_cancel (DoTransition i e q) \<longleftrightarrow> tr_status q = StatusCancelled"
| "asks_to_cancel (DoCancel i e q) \<longleftrightarrow> True"
| "asks_to_cancel _ \<longleftrightarrow> False"

fun life_ops :: "life_env \<Rightarrow> life_op list \<Rightarrow> life \<Rightarrow> life" where
  "life_ops v [] l = l"
| "life_ops v (x # xs) l = life_ops v xs (fst (life_do v x l))"

definition created :: "db \<Rightarrow> db \<Rightarrow> task \<Rightarrow> bool" where
  "created d d' t \<longleftrightarrow> schema_ok d' \<and> get_task (t_id t) d = None \<and> get_task (t_id t) d' = Some t \<and>
     (\<forall>j u. get_task j d = Some u \<longrightarrow> get_task j d' = Some u)"

lemma create_outcome:
  assumes good: "schema_ok (l_db l)" and run: "create_task v q l = (l', r)"
  shows "(case r of Inl _ \<Rightarrow> l' = l | Inr t \<Rightarrow> created (l_db l) (l_db l') t \<and> l_cancelled l' = l_cancelled l)"
proof (cases "\<exists>err. create_task v q l = (l, Inl err)")
  case True
  with run show ?thesis by auto
next
  case False
  then obtain t d i where t: "create_plan v q (l_db l) = Inr t"
      "CreateTaskWithProjectDependency (lv_now v) t (l_db l) = Inr (d, i)"
    by (auto simp: create_task_def split: sum.splits prod.splits)
  from t(2) obtain t' where ins: "insertTask t' (l_db l) = Inr (d, i)"
    by (auto simp: CreateTaskWithProjectDependency_def Let_def result_simps split: if_splits)
  note row = insertTask_row [OF ins]
  let ?t = "(with_defaults t')\<lparr>t_id := i\<rparr>"
  have "(l', r) = (set_db d l, Inr ?t)" using run t row(1) by (simp add: create_task_def)
  moreover have "get_task i (l_db l) = None" using row(3) by (simp add: get_task_None)
  moreover have "\<forall>j u. get_task j (l_db l) = Some u \<longrightarrow> get_task j d = Some u" using row(2) calculation(2) by (metis option.distinct(1))
  ultimately show ?thesis using row(1,4) by (simp add: created_def set_db_def)
qed

lemma taskAtRevision_Inr: "taskAtRevision i e d = Inr s \<Longrightarrow> get_task i d = Some s \<and> get_task (t_id s) d = Some s"
  by (auto simp: taskAtRevision_def split: option.splits if_splits dest: get_task_id)

lemma guarded_outcome:
  assumes run: "guarded i e target act l = (l', r)"
    and act: "\<And>s. get_task (t_id s) (l_db l) = Some s \<Longrightarrow> canTransitionTask (t_status s) target \<Longrightarrow> act s = (l', r) \<Longrightarrow> P r"
    and refused: "\<And>err. l' = l \<Longrightarrow> P (Inl err)"
  shows "P r"
proof (cases "\<exists>err. guarded i e target act l = (l, Inl err)")
  case True
  with run refused show ?thesis by auto
next
  case False
  then obtain s where "taskAtRevision i e (l_db l) = Inr s" "canTransitionTask (t_status s) target"
    by (auto simp: guarded_def split: sum.splits if_splits)
  moreover from this have "act s = (l', r)" using run by (simp add: guarded_def)
  ultimately show ?thesis using act taskAtRevision_Inr by blast
qed

lemma can_target: "canTransitionTask a b \<Longrightarrow> b = StatusSucceeded \<or> b = StatusQueued \<or> b = StatusCancelled"
  by (auto simp: canTransitionTask_def manualTaskTransitions_def split: status.splits)

lemma Transition_guarded:
  "Transition v i e q l =
     guarded i e (tr_status q) (\<lambda>s.
       if tr_status q = StatusSucceeded \<and> length (tr_fields q) \<noteq> 1
       then (l, Inl (TaskLifecycleError TaskErrorInvalid OnlyStatus))
       else if tr_status q = StatusSucceeded then approve v s e l
       else if tr_status q = StatusQueued then requeue v s e q l else cancel v s e q l) l"
proof (cases "taskAtRevision i e (l_db l)")
  case (Inr s)
  show ?thesis
  proof (cases "canTransitionTask (t_status s) (tr_status q)")
    case True
    from can_target [OF this] this show ?thesis using Inr by (auto simp: Transition_def guarded_def Let_def)
  qed (simp add: Transition_def guarded_def Let_def Inr)
qed (simp add: Transition_def guarded_def)

text \<open>One action: refused without a trace, or one task created or moved.\<close>

lemma life_do_outcome:
  assumes good: "schema_ok (l_db l)" and run: "life_do v op l = (l', r)"
  shows "(case r of Inl _ \<Rightarrow> untouched l l' \<and> (asks_to_cancel op \<or> l_cancelled l' = l_cancelled l)
     | Inr t \<Rightarrow> created (l_db l) (l_db l') t \<or> moved (l_db l) (l_db l') t)"
    (is "?P r")
proof (cases op)
  case (DoCreate q)
  with run have "create_task v q l = (l', r)" by simp
  from create_outcome [OF good this] show ?thesis by (auto split: sum.splits)
next
  case (DoTransition i e q)
  from run DoTransition have "guarded i e (tr_status q) (\<lambda>s.
       if tr_status q = StatusSucceeded \<and> length (tr_fields q) \<noteq> 1
       then (l, Inl (TaskLifecycleError TaskErrorInvalid OnlyStatus))
       else if tr_status q = StatusSucceeded then approve v s e l
       else if tr_status q = StatusQueued then requeue v s e q l else cancel v s e q l) l = (l', r)"
    by (simp only: life_do.simps Transition_guarded)
  then show ?thesis
  proof (rule guarded_outcome)
    fix s
    assume s: "get_task (t_id s) (l_db l) = Some s" and can: "canTransitionTask (t_status s) (tr_status q)"
      and act: "(if tr_status q = StatusSucceeded \<and> length (tr_fields q) \<noteq> 1
         then (l, Inl (TaskLifecycleError TaskErrorInvalid OnlyStatus))
         else if tr_status q = StatusSucceeded then approve v s e l
         else if tr_status q = StatusQueued then requeue v s e q l else cancel v s e q l) = (l', r)"
    note target = can_target [OF can]
    show "?P r"
    proof (cases "tr_status q = StatusSucceeded")
      case True
      show ?thesis
      proof (cases "length (tr_fields q) = 1")
        case one: True
        with act True have "approve v s e l = (l', r)" by simp
        from Approve_moved [OF good s _ this] True can show ?thesis by (auto split: sum.splits)
      next
        case False
        with act True have "l' = l" "r = Inl (TaskLifecycleError TaskErrorInvalid OnlyStatus)" by simp_all
        then show ?thesis by simp
      qed
    next
      case no: False
      show ?thesis
      proof (cases "tr_status q = StatusQueued")
        case True
        with act have "requeue v s e q l = (l', r)" by simp
        from requeue_outcome [OF good s _ this] True can show ?thesis by (auto split: sum.splits)
      next
        case False
        with no target have c: "tr_status q = StatusCancelled" by simp
        from act no False have "cancel v s e q l = (l', r)" by simp
        from cancel_outcome [OF good s _ this] c can DoTransition show ?thesis by (auto split: sum.splits)
      qed
    qed
  qed simp
next
  case (DoApprove i e)
  with run have "guarded i e StatusSucceeded (\<lambda>t. approve v t e l) l = (l', r)" by (simp add: Approve_def)
  then show ?thesis
  proof (rule guarded_outcome)
    fix s
    assume "get_task (t_id s) (l_db l) = Some s" and "canTransitionTask (t_status s) StatusSucceeded" and "approve v s e l = (l', r)"
    from Approve_moved [OF good this] show "?P r" by (cases r) simp_all
  qed simp
next
  case (DoRequeue i e q)
  with run have "guarded i e StatusQueued (\<lambda>t. requeue v t e (q\<lparr>tr_status := StatusQueued\<rparr>) l) l = (l', r)"
    by (simp add: Requeue_def)
  then show ?thesis
  proof (rule guarded_outcome)
    fix s
    assume "get_task (t_id s) (l_db l) = Some s" and "canTransitionTask (t_status s) StatusQueued" and "requeue v s e (q\<lparr>tr_status := StatusQueued\<rparr>) l = (l', r)"
    from requeue_outcome [OF good this] show "?P r" by (cases r) simp_all
  qed simp
next
  case (DoCancel i e q)
  with run have "guarded i e StatusCancelled (\<lambda>t. cancel v t e (q\<lparr>tr_status := StatusCancelled\<rparr>) l) l = (l', r)"
    by (simp add: Cancel_def)
  then show ?thesis
  proof (rule guarded_outcome)
    fix s
    assume "get_task (t_id s) (l_db l) = Some s" and "canTransitionTask (t_status s) StatusCancelled" and "cancel v s e (q\<lparr>tr_status := StatusCancelled\<rparr>) l = (l', r)"
    from cancel_outcome [OF good this] show "?P r" using DoCancel by (cases r) simp_all
  qed simp
next
  case (DoResume i e)
  with run have "Resume v i e l = (l', r)" by simp
  from Resume_outcome [OF good this] show ?thesis by (auto split: sum.splits)
qed

lemma life_do_good: "schema_ok (l_db l) \<Longrightarrow> schema_ok (l_db (fst (life_do v op l)))"
proof -
  assume good: "schema_ok (l_db l)"
  obtain l' r where run: "life_do v op l = (l', r)" by (cases "life_do v op l")
  from life_do_outcome [OF good this] good run show ?thesis
    by (cases r) (auto simp: untouched_def created_def moved_def changes_row_def)
qed

text \<open>What one action does to a task that is there before it.\<close>

definition step_of :: "db \<Rightarrow> task \<Rightarrow> task \<Rightarrow> bool" where
  "step_of d u u' \<longleftrightarrow> t_merge_of u' = t_merge_of u \<and>
     (u' = u \<or> canTransitionTask (t_status u) (t_status u') \<and> \<not> sealed d u)"

lemma moved_step:
  assumes "moved d d' t" and "get_task i d = Some u"
  shows "\<exists>u'. get_task i d' = Some u' \<and> step_of d u u'"
proof -
  from assms(1) have t: "get_task (t_id t) d' = Some t" and ch: "changes_row (t_id t) d d'"
    and "\<exists>s. get_task (t_id t) d = Some s \<and> canTransitionTask (t_status s) (t_status t) \<and> \<not> sealed d s"
    by (simp_all add: moved_def)
  then obtain s where s: "get_task (t_id t) d = Some s" "canTransitionTask (t_status s) (t_status t) \<and> \<not> sealed d s"
    by (elim exE conjE) simp
  from ch have "\<exists>u'. get_task i d' = Some u' \<and> t_merge_of u' = t_merge_of u \<and> (i \<noteq> t_id t \<longrightarrow> u' = u)"
    using assms(2) unfolding changes_row_def by simp
  then obtain u' where u': "get_task i d' = Some u'" "t_merge_of u' = t_merge_of u" "i \<noteq> t_id t \<longrightarrow> u' = u"
    by (elim exE conjE) simp
  show ?thesis
  proof (cases "i = t_id t")
    case True
    have "Some u' = Some t" by (simp only: u'(1) [symmetric] t True)
    moreover have "Some u = Some s" by (simp only: assms(2) [symmetric] s(1) True)
    ultimately show ?thesis using s(2) u'(1,2) by (simp add: step_of_def)
  next
    case False
    with u' show ?thesis by (simp add: step_of_def)
  qed
qed

lemma life_do_step:
  assumes good: "schema_ok (l_db l)" and u: "get_task i (l_db l) = Some u"
  shows "\<exists>u'. get_task i (l_db (fst (life_do v op l))) = Some u' \<and> step_of (l_db l) u u'"
proof -
  obtain l' r where run: "life_do v op l = (l', r)" by (cases "life_do v op l")
  from life_do_outcome [OF good this] have out: "case r of Inl _ \<Rightarrow> l_db l' = l_db l
      | Inr t \<Rightarrow> created (l_db l) (l_db l') t \<or> moved (l_db l) (l_db l') t" by (cases r) (simp_all add: untouched_def)
  show ?thesis
  proof (cases r)
    case (Inr t)
    with out moved_step [OF _ u, of "l_db l'" t] u run show ?thesis by (auto simp: created_def step_of_def)
  qed (use out u run in \<open>simp add: step_of_def\<close>)
qed

lemma sealed_kept:
  assumes good: "schema_ok d" and sealed: "sealed d u"
    and step: "\<And>i t. get_task i d = Some t \<Longrightarrow> \<exists>t'. get_task i d' = Some t' \<and> step_of d t t'"
  shows "sealed d' u"
proof (cases "t_merge_of u \<noteq> None \<or> t_worktree_branch u \<noteq> []")
  case False
  with sealed obtain m where m: "m \<in> set (tasks d)" "t_merge_of m = Some (t_id u)"
    by (auto simp: sealed_def HasMergeTaskForSource_def list_ex_iff)
  with good have "get_task (t_id m) d = Some m" by (simp add: get_task_distinct)
  from step [OF this] m(2) obtain m' where "m' \<in> set (tasks d')" "t_merge_of m' = Some (t_id u)"
    by (auto simp: step_of_def dest: get_task_mem)
  with sealed show ?thesis by (auto simp: sealed_def HasMergeTaskForSource_def list_ex_iff)
qed (use sealed in \<open>auto simp: sealed_def\<close>)

lemma life_ops_sealed:
  "schema_ok (l_db l) \<Longrightarrow> get_task i (l_db l) = Some u \<Longrightarrow> sealed (l_db l) u \<Longrightarrow> get_task i (l_db (life_ops v xs l)) = Some u"
proof (induction xs arbitrary: l)
  case (Cons x xs)
  let ?l = "fst (life_do v x l)"
  have "sealed (l_db ?l) u" by (rule sealed_kept [OF Cons.prems(1,3) life_do_step [OF Cons.prems(1)]])
  moreover have "get_task i (l_db ?l) = Some u"
    using life_do_step [OF Cons.prems(1,2), of v x] Cons.prems(3) by (auto simp: step_of_def)
  ultimately show ?case using Cons.IH [OF life_do_good [OF Cons.prems(1)]] by simp
qed simp

definition transition_rel :: "(status \<times> status) set" where
  "transition_rel = {(a, b). canTransitionTask a b}"

lemma life_ops_path:
  "schema_ok (l_db l) \<Longrightarrow> get_task i (l_db l) = Some u \<Longrightarrow>
     \<exists>u'. get_task i (l_db (life_ops v xs l)) = Some u' \<and> t_merge_of u' = t_merge_of u \<and>
       (t_status u, t_status u') \<in> transition_rel\<^sup>*"
proof (induction xs arbitrary: l u)
  case (Cons x xs)
  from life_do_step [OF Cons.prems, of v x] obtain u1 where
    u1: "get_task i (l_db (fst (life_do v x l))) = Some u1" "step_of (l_db l) u u1" by blast
  from Cons.IH [OF life_do_good [OF Cons.prems(1)] u1(1)] u1(2) show ?case
    by (auto simp: step_of_def transition_rel_def intro: converse_rtrancl_into_rtrancl)
qed auto


text \<open>
  C26. Whatever clients request, in any order, a task only moves along the table of manual
  transitions and keeps the source it merges, and delivered code is final: a succeeded task that
  is a merge task, has a branch or has a merge task stays exactly as it is.
\<close>

theorem delivered_code_final:
  assumes "schema_ok (l_db l)" and "get_task i (l_db l) = Some u"
  shows "\<exists>u'. get_task i (l_db (life_ops v xs l)) = Some u' \<and> t_merge_of u' = t_merge_of u \<and>
    (t_status u, t_status u') \<in> transition_rel\<^sup>* \<and> (sealed (l_db l) u \<longrightarrow> u' = u)"
  using life_ops_path [OF assms, of v xs] life_ops_sealed [OF assms, of v xs] by auto

section \<open>A review, twice\<close>

definition demo_life_env :: life_env where
  "demo_life_env = \<lparr>lv_session = demo_session_env, lv_rng = (\<lambda>xs. xs), lv_fuel = 5, lv_changes = (\<lambda>d t. Some True),
     lv_cleanup = (\<lambda>t. True), lv_interactive = (\<lambda>r. r = ''pi''), lv_sprint = (\<lambda>a. ''?''), lv_clock = ''now'',
     lv_say = (\<lambda>x. ''said'')\<rparr>"

definition demo_reviewed :: task where
  "demo_reviewed = (demo_in 1 1 1 StatusAwaitingReview)\<lparr>t_perm := PermReview, t_project_dir := ''/p'',
     t_worktree_branch := ''task-1'', t_body := ''old'', t_review_rounds := 1\<rparr>"

definition life_of :: "task list \<Rightarrow> life" where
  "life_of ts = \<lparr>l_man = \<lparr>m_db = demo_project_db ts, m_ex = no_slots, m_procs = []\<rparr>,
     l_cancelled = [], l_cleaned = [], l_reset = []\<rparr>"

definition to_status :: "status \<Rightarrow> fields \<Rightarrow> TaskTransitionRequest" where
  "to_status st fs = \<lparr>tr_status = st, tr_fields = fs, tr_dependency_changed = map_of fs ColDependencyMode \<noteq> None\<rparr>"

definition no_branch_env :: life_env where
  "no_branch_env = demo_life_env\<lparr>lv_session := no_snapshot_env\<rparr>"


text \<open>Approved with a merge task, then every way to run the source again is refused.\<close>

definition demo_requests :: "life_op list" where
  "demo_requests = [DoTransition 1 2 (to_status StatusQueued []), DoResume 1 2, DoRequeue 1 2 (to_status StatusQueued []),
     DoCancel 1 2 (to_status StatusCancelled [])]"

definition demo_approved :: life where
  "demo_approved = fst (life_do demo_life_env (DoApprove 1 1) (life_of [demo_reviewed]))"

theorem delivered_code_final_witness:
  "map t_status (tasks (l_db demo_approved)) = [StatusSucceeded, StatusQueued] \<and>
   (\<exists>u. get_task 1 (l_db demo_approved) = Some u \<and> get_task 1 (l_db (life_ops demo_life_env demo_requests demo_approved)) = Some u)"
proof -
  have ok: "schema_ok (l_db demo_approved)" by code_simp
  have st: "map t_status (tasks (l_db demo_approved)) = [StatusSucceeded, StatusQueued]" by code_simp
  have "case get_task 1 (l_db demo_approved) of None \<Rightarrow> False
      | Some u \<Rightarrow> t_status u = StatusSucceeded \<and> t_worktree_branch u \<noteq> []" by code_simp
  then obtain u where u: "get_task 1 (l_db demo_approved) = Some u" "t_status u = StatusSucceeded" "t_worktree_branch u \<noteq> []"
    by (auto split: option.splits)
  then have "sealed (l_db demo_approved) u" by (simp add: sealed_def)
  with delivered_code_final [OF ok u(1), of demo_life_env demo_requests] st u(1) show ?thesis by auto
qed

section \<open>Where the requests go wrong\<close>

text \<open>
  Cancelling stops the execution before the edit is accepted: a request that also names a
  dependency the store refuses ends the process, while the task stays as it was.
\<close>

lemma cancel_kills_before_refusal:
  "case life_do demo_life_env (DoTransition 1 1 (to_status StatusCancelled
       [(ColDependencyMode, AStr ''weak'')])) (life_of [demo_task 1 StatusRunning]) of
     (l, r) \<Rightarrow> l_cancelled l = [1] \<and> map t_status (tasks (l_db l)) = [StatusRunning] \<and>
       r = Inl (TaskLifecycleError TaskErrorInvalid (FromStore (ErrDependencyUpdate MsgWeakNeedsProject)))"
  by code_simp

text \<open>
  A rejection that edits the body and leaves a note stores the old body with the note: the edit
  is lost although the request succeeds.
\<close>

lemma rejection_drops_edited_body:
  "case life_do demo_life_env (DoTransition 1 1 (to_status StatusQueued [(ColBody, AStr ''new''), (ColReviewNote, AStr ''note'')]))
       (life_of [demo_reviewed]) of
     (l, r) \<Rightarrow> (case r of Inr t \<Rightarrow> take 3 (t_body t) = ''old'' | Inl _ \<Rightarrow> False)"
  by code_simp

text \<open>A task under review without a project can be created and run, but never approved.\<close>

lemma review_without_project_stuck:
  assumes "get_task i (l_db l) = Some t" and "t_project_dir t = []"
  shows "\<exists>err. Approve v i e l = (l, Inl err)"
proof -
  have "trim_space [] = []" by code_simp
  then have "\<exists>err. approve v t e l = (l, Inl err)" using assms(2) by (simp add: approve_def)
  then show ?thesis using assms(1) by (auto simp: Approve_def guarded_def taskAtRevision_def)
qed

end
