(* ===== verification/Lifecycle_Effects.thy ===== *)
theory Lifecycle_Effects
  imports Lifecycle_Laws
begin

text \<open>
  What a deletion of a task does to its tree, and what the tasks look like that clients create.
\<close>

section \<open>The tree of a deletion\<close>

lemma deletion_children_ids: "t_id ` set (listTaskDeletionChildren db i) = set (delete_children db i)"
  by (auto simp: listTaskDeletionChildren_def delete_children_def)

text \<open>The list holds everything it visited, and with a task its whole family.\<close>

lemma deletion_visit_closed:
  "deletion_visit n db seen out tk = Some (seen', out') \<Longrightarrow>
     set seen \<subseteq> set seen' \<and> t_id tk \<in> set seen' \<and> t_id ` set out' = t_id ` set out \<union> (set seen' - set seen) \<and>
     (\<forall>y\<in>set seen' - set seen. set (delete_children db y) \<subseteq> set seen')"
  "deletion_visits n db seen out cs = Some (seen', out') \<Longrightarrow>
     set seen \<subseteq> set seen' \<and> t_id ` set cs \<subseteq> set seen' \<and> t_id ` set out' = t_id ` set out \<union> (set seen' - set seen) \<and>
     (\<forall>y\<in>set seen' - set seen. set (delete_children db y) \<subseteq> set seen')"
proof (induction n db seen out tk and n db seen out cs arbitrary: seen' out' and seen' out'
    rule: deletion_visit_deletion_visits.induct)
  case (2 n db seen out tk)
  show ?case
  proof (cases "t_id tk \<in> set seen")
    case False
    with 2(2) obtain out1 where v: "deletion_visits n db (t_id tk # seen) out (listTaskDeletionChildren db (t_id tk)) = Some (seen', out1)"
      and out': "out' = out1 @ [tk]" by (auto split: option.splits prod.splits)
    from 2(1) [OF False v] have IH: "set (t_id tk # seen) \<subseteq> set seen'" "set (delete_children db (t_id tk)) \<subseteq> set seen'"
      "t_id ` set out1 = t_id ` set out \<union> (set seen' - set (t_id tk # seen))"
      "\<forall>y\<in>set seen' - set (t_id tk # seen). set (delete_children db y) \<subseteq> set seen'"
      unfolding deletion_children_ids by blast+
    have "t_id ` set out' = t_id ` set out \<union> (set seen' - set seen)" using IH(1,3) False by (auto simp: out')
    with IH show ?thesis by auto
  qed (use 2(2) in auto)
next
  case (4 n db seen out c cs)
  from 4(3) obtain s1 o1 where v: "deletion_visit n db seen out c = Some (s1, o1)" "deletion_visits n db s1 o1 cs = Some (seen', out')"
    by (auto split: option.splits prod.splits)
  from 4(1) [OF v(1)] have A: "set seen \<subseteq> set s1" "t_id c \<in> set s1" "t_id ` set o1 = t_id ` set out \<union> (set s1 - set seen)"
    "\<forall>y\<in>set s1 - set seen. set (delete_children db y) \<subseteq> set s1" by simp_all
  from 4(2) [OF v(1) refl v(2)] have B: "set s1 \<subseteq> set seen'" "t_id ` set cs \<subseteq> set seen'"
    "t_id ` set out' = t_id ` set o1 \<union> (set seen' - set s1)"
    "\<forall>y\<in>set seen' - set s1. set (delete_children db y) \<subseteq> set seen'" by simp_all
  have "t_id ` set out' = t_id ` set out \<union> (set seen' - set seen)"
    unfolding B(3) A(3) using A(1) B(1) by auto
  moreover have "set (delete_children db y) \<subseteq> set seen'" if "y \<in> set seen' - set seen" for y
    using that A(4) B(1,4) by (cases "y \<in> set s1") auto
  ultimately show ?case using A(1,2) B(1,2) by auto
qed auto

lemma deletion_visit_reach:
  "deletion_visit n db seen out tk = Some (seen', out') \<Longrightarrow> y \<in> set seen' - set seen \<Longrightarrow> (t_id tk, y) \<in> (family_rel db)\<^sup>*"
  "deletion_visits n db seen out cs = Some (seen', out') \<Longrightarrow> y \<in> set seen' - set seen \<Longrightarrow>
     \<exists>c\<in>set cs. (t_id c, y) \<in> (family_rel db)\<^sup>*"
proof (induction n db seen out tk and n db seen out cs arbitrary: seen' out' y and seen' out' y
    rule: deletion_visit_deletion_visits.induct)
  case (2 n db seen out tk)
  show ?case
  proof (cases "t_id tk \<in> set seen \<or> y = t_id tk")
    case False
    with 2(2) obtain out1 where "deletion_visits n db (t_id tk # seen) out (listTaskDeletionChildren db (t_id tk)) = Some (seen', out1)"
      by (auto split: option.splits prod.splits)
    from 2(1) [OF _ this] 2(3) False obtain c where "c \<in> set (listTaskDeletionChildren db (t_id tk))"
      "(t_id c, y) \<in> (family_rel db)\<^sup>*" by auto
    moreover from this have "(t_id tk, t_id c) \<in> family_rel db"
      using deletion_children_ids [of db "t_id tk"] by (auto simp: family_rel_def)
    ultimately show ?thesis by (meson converse_rtrancl_into_rtrancl)
  qed (use 2 in auto)
next
  case (4 n db seen out c cs)
  from 4(3) obtain s1 o1 where v: "deletion_visit n db seen out c = Some (s1, o1)" "deletion_visits n db s1 o1 cs = Some (seen', out')"
    by (auto split: option.splits prod.splits)
  show ?case
  proof (cases "y \<in> set s1")
    case True
    with 4(1) [OF v(1)] 4(4) show ?thesis by auto
  next
    case False
    with 4(2) [OF v(1) refl v(2)] 4(4) show ?thesis by auto
  qed
qed auto

lemma deletion_order_closed:
  assumes "ListTaskDeletionOrder n i db = Some tree" and "get_task i db = Some t"
  shows "i \<in> t_id ` set tree" and "family_rel db `` (t_id ` set tree) \<subseteq> t_id ` set tree"
    and "\<forall>x\<in>t_id ` set tree. (i, x) \<in> (family_rel db)\<^sup>*" and "t_id ` set tree \<subseteq> task_ids db"
proof -
  from assms obtain seen where v: "deletion_visit n db [] [] t = Some (seen, tree)" by (auto simp: ListTaskDeletionOrder_def)
  from deletion_visit_closed(1) [OF v] have "t_id t \<in> set seen" "t_id ` set tree = set seen"
    "\<forall>y\<in>set seen. set (delete_children db y) \<subseteq> set seen" by simp_all
  with assms(2) show "i \<in> t_id ` set tree" "family_rel db `` (t_id ` set tree) \<subseteq> t_id ` set tree"
    by (auto simp: family_rel_def dest: get_task_id)
  show "\<forall>x\<in>t_id ` set tree. (i, x) \<in> (family_rel db)\<^sup>*"
    using deletion_visit_reach(1) [OF v] deletion_visit_closed(1) [OF v] get_task_id [OF assms(2)] by simp
  moreover have "i \<in> task_ids db" using assms(2) by (force simp: task_ids_def dest: get_task_mem)
  moreover have "x = i \<or> x \<in> task_ids db" if "(i, x) \<in> (family_rel db)\<^sup>*" for x
    using that by (cases rule: rtranclE) (auto simp: family_rel_def delete_children_mem task_ids_def)
  ultimately have "x \<in> task_ids db" if "x \<in> t_id ` set tree" for x
    using that by blast
  then show "t_id ` set tree \<subseteq> task_ids db" by blast
qed

text \<open>Rows outside a closed set survive.\<close>

lemma delete_tree_inside:
  "deleteTaskTree n i db = Some (Inr db') \<Longrightarrow> schema_ok db \<Longrightarrow> family_rel db \<subseteq> R \<Longrightarrow> R `` S \<subseteq> S \<Longrightarrow> i \<in> S \<Longrightarrow>
     schema_ok db' \<and> family_rel db' \<subseteq> R \<and> task_ids db - task_ids db' \<subseteq> S"
  "delete_trees n cs db = Some (Inr db') \<Longrightarrow> schema_ok db \<Longrightarrow> family_rel db \<subseteq> R \<Longrightarrow> R `` S \<subseteq> S \<Longrightarrow> set cs \<subseteq> S \<Longrightarrow>
     schema_ok db' \<and> family_rel db' \<subseteq> R \<and> task_ids db - task_ids db' \<subseteq> S"
proof (induction n i db and n cs db arbitrary: db' and db' rule: deleteTaskTree_delete_trees.induct)
  case (2 n i db)
  from 2(2) obtain db1 k where c: "delete_trees n (delete_children db i) db = Some (Inr db1)"
    and d: "delete_task_row i db1 = Inr (db', k)"
    by (auto simp: rbind_eq_Inr split: option.splits sum.splits if_splits prod.splits)
  have "set (delete_children db i) \<subseteq> S" using 2(4-6) by (auto simp: family_rel_def)
  from 2(1) [OF c 2(3-5) this] have IH: "schema_ok db1" "family_rel db1 \<subseteq> R" "task_ids db - task_ids db1 \<subseteq> S" by blast+
  from delete_task_row_effect [OF IH(1) d] have e: "schema_ok db'" "task_ids db' = task_ids db1 - {i}" by blast+
  have "family_rel db' \<subseteq> R" using family_rel_kin [OF delete_task_row_kin [OF d]] IH(2) by blast
  with e IH(3) 2(6) show ?case by blast
next
  case (4 n c cs db)
  from 4(3) obtain db1 where c: "deleteTaskTree n c db = Some (Inr db1)" "delete_trees n cs db1 = Some (Inr db')"
    by (auto split: option.splits sum.splits)
  from 4(1) [OF c(1) 4(4-6)] 4(7) have A: "schema_ok db1" "family_rel db1 \<subseteq> R" "task_ids db - task_ids db1 \<subseteq> S" by auto
  from 4(2) [OF c(1) refl c(2) A(1,2) 4(6)] 4(7)
  have "schema_ok db'" "family_rel db' \<subseteq> R" "task_ids db1 - task_ids db' \<subseteq> S" by auto
  with A(3) show ?case by blast
qed auto

text \<open>The marks a deletion writes on a row.\<close>

definition deletion_row :: "life_env \<Rightarrow> string \<Rightarrow> task \<Rightarrow> task" where
  "deletion_row v msg t = t\<lparr>t_status := StatusCancelled, t_finished_at := Some (lv_now v), t_error := msg,
     t_updated_at := lv_now v, t_revision := t_revision t + 1\<rparr>"

lemma deletion_edit: "edit_task (deletion_fields v msg) (lv_now v) t = Some (deletion_row v msg t)"
  by (simp add: edit_task_def deletion_fields_def set_task_col_def str_col_def null_str_col_def deletion_row_def)

lemma deletion_row_sel [simp]:
  "kin (deletion_row v m t) = kin t" "t_id (deletion_row v m t) = t_id t" "t_depends_on (deletion_row v m t) = t_depends_on t"
  "t_dependency_mode (deletion_row v m t) = t_dependency_mode t" "t_status (deletion_row v m t) = StatusCancelled"
  by (simp_all add: deletion_row_def kin_def)

text \<open>Rows keep their family and their dependency.\<close>

definition same_rows :: "db \<Rightarrow> db \<Rightarrow> bool" where
  "same_rows d d' \<longleftrightarrow> map kin (tasks d') = map kin (tasks d) \<and>
     map t_depends_on (tasks d') = map t_depends_on (tasks d) \<and> map t_dependency_mode (tasks d') = map t_dependency_mode (tasks d)"

lemma same_rows_trans: "same_rows a b \<Longrightarrow> same_rows b c \<Longrightarrow> same_rows a c"
  by (simp add: same_rows_def)

lemma same_rows_refl [simp]: "same_rows a a"
  by (simp add: same_rows_def)

lemma same_rows_ids: "same_rows d d' \<Longrightarrow> task_ids d' = task_ids d"
proof -
  assume "same_rows d d'"
  then have "map fst (map kin (tasks d')) = map fst (map kin (tasks d))" by (simp add: same_rows_def)
  then have "map t_id (tasks d') = map t_id (tasks d)" by (simp add: kin_def comp_def)
  then show ?thesis by (metis list.set_map task_ids_def)
qed

lemma same_rows_family: "same_rows d d' \<Longrightarrow> family_rel d' = family_rel d"
  using family_rel_kin [of d' d] family_rel_kin [of d d'] by (simp add: same_rows_def)

lemma marked_rows:
  assumes "edit_rows p (edit_task (deletion_fields v m) (lv_now v)) (tasks d) = Some ts"
  shows "ts = upd_where p (deletion_row v m) (tasks d)" and "same_rows d (d\<lparr>tasks := ts\<rparr>)"
proof -
  show ts: "ts = upd_where p (deletion_row v m) (tasks d)"
    using assms by (auto simp: edit_rows_def deletion_edit split: if_splits)
  show "same_rows d (d\<lparr>tasks := ts\<rparr>)"
    by (simp add: same_rows_def ts map_upd_where)
qed

lemma UpdateTask_marks:
  assumes "UpdateTask i (deletion_fields v m) (lv_now v) d = Inr d'"
  shows "schema_ok d' \<and> same_rows d d'"
proof -
  have "updateOne i (deletion_fields v m) (lv_now v) d = Inr d'"
    using assms by (simp add: UpdateTask_def deletion_fields_def)
  then obtain ts where "edit_rows (\<lambda>t. t_id t = i) (edit_task (deletion_fields v m) (lv_now v)) (tasks d) = Some ts"
    "exec_stmt (d\<lparr>tasks := ts\<rparr>) = Inr d'"
    by (auto simp: updateOne_def deletion_fields_def split: option.splits)
  with marked_rows(2) show ?thesis by (auto simp: exec_stmt_Inr)
qed

lemma UpdateAtRevision_marks:
  assumes "UpdateAtRevision ResTask i e (deletion_fields v m) (lv_now v) d = Inr d'"
  shows "schema_ok d' \<and> same_rows d d'"
proof -
  let ?p = "\<lambda>t. t_id t = i \<and> t_revision t = e"
  from assms obtain ts where "edit_rows ?p (edit_task (deletion_fields v m) (lv_now v)) (tasks d) = Some ts"
    "exec_stmt (d\<lparr>tasks := ts\<rparr>) = Inr d'"
    by (auto simp: UpdateAtRevision_def Let_def rbind_eq_Inr exec_stmt_Inr split: if_splits option.splits)
  with marked_rows(2) show ?thesis by (auto simp: exec_stmt_Inr)
qed

section \<open>The steps of a deletion\<close>

lemma cancel_rest_effect:
  "cancel_rest v i ts l = (l', r) \<Longrightarrow> schema_ok (l_db l) \<Longrightarrow>
     schema_ok (l_db l') \<and> same_rows (l_db l) (l_db l') \<and> l_cleaned l' = l_cleaned l"
proof (induction ts arbitrary: l)
  case (Cons t ts)
  show ?case
  proof (cases "t_id t = i")
    case False
    show ?thesis
    proof (cases "UpdateTask (t_id t) (deletion_fields v parent_deleted_text) (lv_now v) (l_db l)")
      case (Inr d)
      from UpdateTask_marks [OF Inr] have d: "schema_ok d" "same_rows (l_db l) d" by simp_all
      have "cancel_rest v i ts (set_db d l) = (l', r)" using Cons.prems(1) False Inr by simp
      from Cons.IH [OF this] d same_rows_trans [OF d(2)] show ?thesis by (simp add: set_db_def)
    qed (use Cons.prems False in auto)
  qed (use Cons in auto)
qed simp

lemma cleanup_tree_effect:
  "cleanup_tree v ts l = (l', r) \<Longrightarrow>
     l_man l' = l_man l \<and> set (l_cleaned l) \<subseteq> set (l_cleaned l') \<and> (r = Inr () \<longrightarrow> t_id ` set ts \<subseteq> set (l_cleaned l'))"
proof (induction ts arbitrary: l)
  case (Cons t ts)
  show ?case
  proof (cases "lv_cleanup v t")
    case True
    let ?l = "(CancelTask (t_id t) l)\<lparr>l_cleaned := l_cleaned (CancelTask (t_id t) l) @ [t_id t]\<rparr>"
    have "cleanup_tree v ts ?l = (l', r)" using Cons.prems True by (simp add: CleanupTaskResources_def Let_def)
    from Cons.IH [OF this] show ?thesis by (auto simp: CancelTask_def)
  qed (use Cons.prems in \<open>auto simp: CleanupTaskResources_def CancelTask_def Let_def\<close>)
qed simp

lemma store_update_ids:
  assumes "store_update v i fs m = (m', r)" and "map_of fs ColProjectId = None" and "fs \<noteq> []" and "schema_ok (m_db m)"
  shows "schema_ok (m_db m') \<and> task_ids (m_db m') = task_ids (m_db m)"
proof (cases "updateOne i fs (sv_now v) (m_db m)")
  case (Inr d)
  note rows = updateOne_rows [OF Inr assms(3,4)]
  have "get_task j d = None \<longleftrightarrow> get_task j (m_db m) = None" for j
  proof -
    have "get_task j d = (if j = i then map_option (\<lambda>t. the (edit_task fs (sv_now v) t)) (get_task j (m_db m)) else get_task j (m_db m))"
      using conjunct2 [OF conjunct2 [OF conjunct2 [OF rows]]] by (rule spec)
    then show ?thesis by (cases "j = i") simp_all
  qed
  then have "task_ids d = task_ids (m_db m)" unfolding get_task_None by auto
  moreover have "m' = m\<lparr>m_db := d\<rparr>" using assms(1,2) Inr by (simp add: store_update_def no_project_UpdateTask)
  ultimately show ?thesis using conjunct1 [OF rows] by simp
next
  case (Inl e)
  then have "m' = m" using assms(1,2) by (simp add: store_update_def no_project_UpdateTask)
  then show ?thesis using assms(4) by simp
qed

lemma session_Delete_ids:
  assumes run: "Session_Manager.Delete v s m = (m', r)" and good: "schema_ok (m_db m)"
  shows "schema_ok (m_db m') \<and> task_ids (m_db m') = task_ids (m_db m)"
proof -
  let ?fs = "[(ColStatus, AStr ''deleted''), (ColUpdatedAt, AStr (sv_now v))]"
  consider "m_db m' = m_db m" | a where "store_update v s ?fs (release_role a (stopChannel s m)) = (m', r)"
    using run by (auto simp: Delete_def split: option.splits prod.splits if_splits)
  then show ?thesis
  proof cases
    case (2 a)
    from store_update_ids [OF this] good show ?thesis by simp
  qed (use good in simp)
qed

lemma delete_sessions_effect:
  "delete_sessions v ss l = (l', r) \<Longrightarrow> schema_ok (l_db l) \<Longrightarrow>
     schema_ok (l_db l') \<and> task_ids (l_db l') = task_ids (l_db l) \<and> l_cleaned l' = l_cleaned l"
proof (induction ss arbitrary: l)
  case (Cons s ss)
  obtain m x where m: "Session_Manager.Delete (lv_session v) s (l_man l) = (m, x)" by fastforce
  from session_Delete_ids [OF m Cons.prems(2)] have ids: "schema_ok (m_db m)" "task_ids (m_db m) = task_ids (l_db l)" by simp_all
  show ?case
  proof (cases x)
    case (Inr u)
    have "delete_sessions v ss (l\<lparr>l_man := m\<rparr>) = (l', r)" using Cons.prems(1) m Inr by simp
    from Cons.IH [OF this] ids show ?thesis by simp
  next
    case (Inl e)
    have "l' = l\<lparr>l_man := m\<rparr>" using Cons.prems(1) m Inl by simp
    with ids show ?thesis by simp
  qed
qed simp

lemma unlinked_family:
  assumes "unlinkTaskDependencies rng ds now d = Inr d1" and "unlinkTaskSessionReferences rng ds now d1 = Inr d2"
  shows "family_rel d2 = family_rel d"
proof -
  have "map kin (tasks d2) = map kin (tasks d)"
    using unlink_sources_kin unlink_sessions_kin assms
    unfolding unlinkTaskDependencies_def unlinkTaskSessionReferences_def by metis
  with family_rel_kin [of d d2] family_rel_kin [of d2 d] show ?thesis by simp
qed

lemma DeleteTask_inside:
  assumes good: "schema_ok d" and rng: "\<forall>xs. set (rng xs) = set xs" and run: "DeleteTask n rng i now d = Some (Inr d')"
    and closed: "family_rel d `` S \<subseteq> S" and i: "i \<in> S" and reach: "\<forall>x\<in>S. (i, x) \<in> (family_rel d)\<^sup>*"
    and S: "S \<subseteq> task_ids d"
  shows "schema_ok d' \<and> i \<notin> task_ids d' \<and> task_ids d - task_ids d' = S"
proof -
  from run obtain deleting where tree: "collectTaskTreeIDs n d [] i = Some deleting"
    by (auto simp: DeleteTask_def split: option.splits)
  with run obtain d1 d2 where u: "unlink_sources deleting now (rng deleting) d = Inr d1"
    and v: "unlink_sessions now (rng deleting) d1 = Inr d2" and w: "deleteTaskTree n i d2 = Some (Inr d')"
    by (auto simp: DeleteTask_def unlinkTaskDependencies_def unlinkTaskSessionReferences_def
        rbind_eq_Inr rbind_def split: if_splits sum.splits)
  have U: "unlinked d deleting (set deleting) d1"
    using unlink_sources_effect [OF u good unlinked_start [OF good]] rng by simp
  then have ok1: "schema_ok d1" and ids1: "task_ids d1 = task_ids d" by (simp_all add: unlinked_def)
  note V = unlink_sessions_effect [OF v ok1]
  have fam: "family_rel d2 = family_rel d"
    by (rule unlinked_family [of rng deleting now d d1 d2]) (simp_all add: unlinkTaskDependencies_def unlinkTaskSessionReferences_def u v)
  have ok2: "schema_ok d2" and ids2: "task_ids d2 = task_ids d" using V ids1 by simp_all
  from delete_tree_inside(1) [OF w ok2 _ closed i] fam have sub: "task_ids d2 - task_ids d' \<subseteq> S" by simp
  from delete_tree_effect(1) [OF w ok2] have eff: "schema_ok d'" "i \<notin> task_ids d'"
    and kids: "\<And>j. j \<in> task_ids d2 - task_ids d' \<Longrightarrow> set (delete_children d2 j) \<inter> task_ids d' = {}" by simp_all
  have "x \<in> S \<and> x \<notin> task_ids d'" if "(i, x) \<in> (family_rel d)\<^sup>*" for x
    using that
  proof induction
    case base
    then show ?case using i eff(2) by simp
  next
    case (step y z)
    then have "y \<in> task_ids d2 - task_ids d'" using S ids2 by auto
    moreover have "z \<in> set (delete_children d2 y)" using step(2) fam by (auto simp: family_rel_def)
    ultimately have "z \<notin> task_ids d'" using kids by blast
    moreover have "z \<in> S" using step closed by blast
    ultimately show ?case by simp
  qed
  with reach S sub ids2 eff show ?thesis by auto
qed

lemma strong_dependent_None:
  "strong_dependent ds ts d = None \<Longrightarrow> t \<in> set ts \<Longrightarrow> u \<in> set (tasks d) \<Longrightarrow> t_depends_on u = Some (t_id t) \<Longrightarrow>
     t_id u \<notin> set ds \<Longrightarrow> t_dependency_mode u \<noteq> DependencyStrong"
proof (induction ts)
  case (Cons x xs)
  then show ?case by (auto simp: ListTaskDependents_def find_None_iff split: option.splits)
qed simp

text \<open>What a deletion that passed its checks leaves.\<close>

definition torn_down :: "int \<Rightarrow> life \<Rightarrow> life \<Rightarrow> bool \<Rightarrow> bool" where
  "torn_down i l l' ok \<longleftrightarrow> schema_ok (l_db l') \<and>
     task_ids (l_db l) - task_ids (l_db l') \<subseteq> set (l_cleaned l') \<and> (ok \<longrightarrow> i \<notin> task_ids (l_db l'))"

lemma torn_down_same: "schema_ok (l_db l') \<Longrightarrow> task_ids (l_db l') = task_ids (l_db l) \<Longrightarrow> torn_down i l l' False"
  by (simp add: torn_down_def)

lemma delete_checked_effect:
  assumes good: "schema_ok (l_db l)" and rng: "\<forall>xs. set (lv_rng v xs) = set xs"
    and t: "get_task i (l_db l) = Some t" and tree: "ListTaskDeletionOrder n i (l_db l) = Some tree"
    and run: "delete_checked v i e tree l = Some (l', r)"
  shows "torn_down i l l' (r = Inr ()) \<and> task_ids (l_db l) - task_ids (l_db l') \<in> {{}, t_id ` set tree}"
proof (cases "UpdateAtRevision ResTask i e (deletion_fields v deleted_text) (lv_now v) (l_db l)")
  case (Inl err)
  with run good show ?thesis by (auto simp: delete_checked_def torn_down_def)
next
  case upd: (Inr d)
  from UpdateAtRevision_marks [OF upd] have d: "schema_ok d" "same_rows (l_db l) d" by simp_all
  obtain l1 r1 where c: "cancel_rest v i tree (set_db d l) = (l1, r1)" by fastforce
  from cancel_rest_effect [OF c] d same_rows_trans [OF d(2)]
  have l1: "schema_ok (l_db l1)" "same_rows (l_db l) (l_db l1)" by simp_all
  note ids1 = same_rows_ids [OF l1(2)]
  show ?thesis
  proof (cases r1)
    case (Inl err)
    then have "l' = l1" "r \<noteq> Inr ()" using run upd c by (auto simp: delete_checked_def)
    with l1(1) ids1 show ?thesis by (simp add: torn_down_def)
  next
    case r1: (Inr u)
    obtain l2 r2 where k: "cleanup_tree v tree l1 = (l2, r2)" by fastforce
    note clean = cleanup_tree_effect [OF k]
    have l2: "l_db l2 = l_db l1" using clean by simp
    show ?thesis
    proof (cases r2)
      case (Inl err)
      then have "l' = l2" "r \<noteq> Inr ()" using run upd c r1 k by (auto simp: delete_checked_def)
      with l1(1) l2 ids1 show ?thesis by (simp add: torn_down_def)
    next
      case r2: (Inr u)
      let ?del = "DeleteTask (lv_fuel v) (lv_rng v) i (lv_now v) (l_db l2)"
      have ne: "?del \<noteq> None" using run upd c r1 k r2 by (auto simp: delete_checked_def Let_def split: option.splits)
      show ?thesis
      proof (cases "\<exists>err. ?del = Some (Inl err)")
        case True
        then have "l' = l2" "r \<noteq> Inr ()" using run upd c r1 k r2 by (auto simp: delete_checked_def Let_def)
        with l1(1) l2 ids1 show ?thesis by (simp add: torn_down_def)
      next
        case False
        with ne obtain d2 where del: "?del = Some (Inr d2)" by (metis not_None_eq sum.exhaust)
        have s: "delete_sessions v (ListSessionsForTask i (l_db l2)) (set_db d2 l2) = (l', r)"
          using run upd c r1 k r2 del by (simp add: delete_checked_def Let_def)
        note order = deletion_order_closed [OF tree t]
        have "family_rel (l_db l2) `` (t_id ` set tree) \<subseteq> t_id ` set tree"
          using order(2) same_rows_family [OF l1(2)] l2 by simp
        moreover have "\<forall>x\<in>t_id ` set tree. (i, x) \<in> (family_rel (l_db l2))\<^sup>*"
          using order(3) same_rows_family [OF l1(2)] l2 by simp
        moreover have "t_id ` set tree \<subseteq> task_ids (l_db l2)" using order(4) ids1 l2 by simp
        ultimately have "schema_ok d2 \<and> i \<notin> task_ids d2 \<and> task_ids (l_db l2) - task_ids d2 = t_id ` set tree"
          using DeleteTask_inside [OF _ rng del _ order(1)] l1(1) l2 by simp
        then have d2: "schema_ok d2" "i \<notin> task_ids d2" "task_ids (l_db l2) - task_ids d2 = t_id ` set tree" by simp_all
        from delete_sessions_effect [OF s] d2(1) have l': "schema_ok (l_db l')" "task_ids (l_db l') = task_ids d2"
          "l_cleaned l' = l_cleaned l2" by (simp_all add: set_db_def)
        have sub: "task_ids (l_db l) - task_ids (l_db l') = t_id ` set tree" using d2(3) l2 ids1 l'(2) by simp
        with clean r2 l' d2(2) show ?thesis by (auto simp: torn_down_def)
      qed
    qed
  qed
qed

lemma removed_iff: "j \<in> task_ids d \<longleftrightarrow> get_task j d \<noteq> None"
  by (simp add: get_task_None)

text \<open>
  C27. Deleting a task through the API: a request with a stale revision or for a merge task
  changes nothing and stops nothing; the tree of a task is removed as a whole or not at all, and
  no row before the resources of its task were cleaned up; a task that survives never strongly
  depended on a removed one; and when the deletion succeeds the task is gone. All this also
  holds when the deletion fails half way.
\<close>

theorem delete_task_guarded:
  assumes good: "schema_ok (l_db l)" and rng: "\<forall>xs. set (lv_rng v xs) = set xs"
    and run: "delete_task v i e l = Some (l', r)"
    and gone: "gone = task_ids (l_db l) - task_ids (l_db l')"
  shows "(l' = l \<or> (\<exists>t. get_task i (l_db l) = Some t \<and> t_revision t = e \<and> t_merge_of t = None)) \<and>
    (gone = {} \<or> (\<exists>tree. ListTaskDeletionOrder (lv_fuel v) i (l_db l) = Some tree \<and> gone = t_id ` set tree)) \<and>
    gone \<subseteq> set (l_cleaned l') \<and>
    (\<forall>u\<in>set (tasks (l_db l)). \<forall>s\<in>gone. t_depends_on u = Some s \<longrightarrow> t_id u \<notin> gone \<longrightarrow> t_dependency_mode u \<noteq> DependencyStrong) \<and>
    (r = Inr () \<longrightarrow> i \<notin> task_ids (l_db l'))"
proof (cases "l' = l \<and> r \<noteq> Inr ()")
  case True
  then show ?thesis using gone by simp
next
  case False
  obtain t where t: "get_task i (l_db l) = Some t" "t_revision t = e" "t_merge_of t = None"
    using run False by (auto simp: delete_task_def taskAtRevision_def split: option.splits if_splits)
  obtain tree where tree: "ListTaskDeletionOrder (lv_fuel v) i (l_db l) = Some tree"
    using run t by (auto simp: delete_task_def taskAtRevision_def split: option.splits)
  have none: "strong_dependent (map t_id tree) tree (l_db l) = None" and run': "delete_checked v i e tree l = Some (l', r)"
    using run t tree False by (auto simp: delete_task_def taskAtRevision_def split: option.splits)
  note eff = delete_checked_effect [OF good rng t(1) tree run']
  have strong: "t_dependency_mode u \<noteq> DependencyStrong"
    if u: "u \<in> set (tasks (l_db l))" "s \<in> gone" "t_depends_on u = Some s" "t_id u \<notin> gone" for u s
  proof -
    have "gone = t_id ` set tree" using eff u(2) gone by auto
    with u obtain x where "x \<in> set tree" "t_depends_on u = Some (t_id x)" "t_id u \<notin> set (map t_id tree)" by auto
    with strong_dependent_None [OF none] u(1) show ?thesis by blast
  qed
  have "gone = {} \<or> gone = t_id ` set tree" "gone \<subseteq> set (l_cleaned l')" "r = Inr () \<longrightarrow> i \<notin> task_ids (l_db l')"
    using eff gone by (simp_all add: torn_down_def)
  with t tree strong show ?thesis by blast
qed

text \<open>A task with a child, and a follower that depends weakly on it.\<close>

definition demo_tree :: life where
  "demo_tree = life_of [demo_in 1 1 1 StatusFailed, (demo_in 1 2 2 StatusFailed)\<lparr>t_parent_id := Some 1\<rparr>,
     (demo_in 1 3 3 StatusQueued)\<lparr>t_dependency_mode := DependencyWeak, t_depends_on := Some 1\<rparr>]"

theorem delete_task_guarded_witness:
  "\<exists>l'. delete_task demo_life_env 1 1 demo_tree = Some (l', Inr ()) \<and> 1 \<notin> task_ids (l_db l') \<and>
     task_ids (l_db demo_tree) - task_ids (l_db l') \<subseteq> set (l_cleaned l')"
proof -
  have ok: "schema_ok (l_db demo_tree)" by code_simp
  have rng: "\<forall>xs. set (lv_rng demo_life_env xs) = set xs" by (simp add: demo_life_env_def)
  have "case delete_task demo_life_env 1 1 demo_tree of None \<Rightarrow> False | Some (l', r) \<Rightarrow> r = Inr ()" by code_simp
  then obtain l' where run: "delete_task demo_life_env 1 1 demo_tree = Some (l', Inr ())"
    by (auto split: option.splits prod.splits)
  from delete_task_guarded [OF ok rng run refl] run show ?thesis by blast
qed

section \<open>Deleting a session as a task\<close>

text \<open>
  The API of tasks deletes sessions, too. It removes the row of an active session without the
  session manager: its channel stays open, its slot stays taken, and when the channel ends
  nobody releases it, because the row is gone.
\<close>

definition demo_session_life :: life where
  "demo_session_life = (life_of [])\<lparr>l_man := fst (session_ops (map (Pair demo_session_env) [OpCreate (Some 1) 1 ''full'', OpStart 1])
     demo_manager)\<rparr>"

lemma deleted_session_keeps_slot:
  "map t_status (tasks (l_db demo_session_life)) = [SessionStatusActive] \<and>
   (case delete_task demo_life_env 1 3 demo_session_life of
      None \<Rightarrow> False
    | Some (l, r) \<Rightarrow> r = Inr () \<and> tasks (l_db l) = [] \<and> m_procs (l_man l) = [1] \<and> held (active (m_ex (l_man l))) 1 = 1 \<and>
        held (active (m_ex (fst (handleExit demo_session_env 1 (l_man l))))) 1 = 1)"
  by code_simp

section \<open>What clients create\<close>

definition well_formed :: "task \<Rightarrow> bool" where
  "well_formed t \<longleftrightarrow> t_type t = TaskTypeTask \<and> t_title t \<noteq> [] \<and> t_status t = StatusQueued \<and> t_revision t = 1 \<and>
     t_perm t \<in> {PermFull, PermReview} \<and> t_run_mode t \<in> {RunModeBatch, RunModeInteractive} \<and>
     (t_run_mode t = RunModeInteractive \<longrightarrow> t_role_id t \<noteq> None) \<and>
     (t_cron t \<noteq> [] \<longrightarrow> t_run_mode t = RunModeBatch \<and> t_dependency_mode t = DependencyNone) \<and>
     (case t_dependency_mode t of
        DependencyNone \<Rightarrow> t_depends_on t = None
      | DependencyWeak \<Rightarrow> t_project_id t \<noteq> None
      | DependencyStrong \<Rightarrow> t_project_id t \<noteq> None \<and> t_depends_on t \<noteq> None
      | DependencyOther s \<Rightarrow> False)"

lemma normalizeDependency_Inr:
  assumes "normalizeDependency t = Inr u"
  shows "\<exists>m x. u = t\<lparr>t_dependency_mode := m, t_depends_on := x\<rparr> \<and>
    (case m of DependencyNone \<Rightarrow> x = None | DependencyWeak \<Rightarrow> t_project_id t \<noteq> None \<and> x = None
     | DependencyStrong \<Rightarrow> t_project_id t \<noteq> None \<and> x \<noteq> None | DependencyOther s \<Rightarrow> False)"
proof -
  let ?m = "if t_dependency_mode t = DependencyOther [] then (if t_project_id t = None then DependencyNone else DependencyWeak)
    else t_dependency_mode t"
  have "u = t\<lparr>t_dependency_mode := ?m, t_depends_on := t_depends_on u\<rparr> \<and>
    (case ?m of DependencyNone \<Rightarrow> t_depends_on u = None | DependencyWeak \<Rightarrow> t_project_id t \<noteq> None \<and> t_depends_on u = None
     | DependencyStrong \<Rightarrow> t_project_id t \<noteq> None \<and> t_depends_on u \<noteq> None | DependencyOther s \<Rightarrow> False)"
    using assms by (cases "t_dependency_mode t") (auto simp: normalizeDependency_def Let_def split: if_splits option.splits)
  then show ?thesis by blast
qed

lemma prepare_fields:
  "t_title (prepareTaskForInsert now t) = t_title t" "t_perm (prepareTaskForInsert now t) = t_perm t"
  "t_role_id (prepareTaskForInsert now t) = t_role_id t" "t_body (prepareTaskForInsert now t) = t_body t"
  "t_parent_session_id (prepareTaskForInsert now t) = t_parent_session_id t"
  "t_parent_task_id (prepareTaskForInsert now t) = t_parent_task_id t"
  "t_type t = TaskTypeOther [] \<Longrightarrow> t_type (prepareTaskForInsert now t) = TaskTypeTask"
  "t_run_mode t \<in> {RunModeBatch, RunModeInteractive} \<Longrightarrow>
     t_run_mode (prepareTaskForInsert now t) = (if t_cron t = [] then t_run_mode t else RunModeBatch)"
  "t_dependency_mode t \<noteq> DependencyOther [] \<Longrightarrow>
     t_dependency_mode (prepareTaskForInsert now t) = (if t_cron t = [] then t_dependency_mode t else DependencyNone)"
  by (auto simp: prepareTaskForInsert_def normalizeDependencyMode_def Let_def)

lemma assign_fields:
  "t_body (assignNextTaskSortOrder d t) = t_body t" "t_parent_session_id (assignNextTaskSortOrder d t) = t_parent_session_id t"
  "t_parent_task_id (assignNextTaskSortOrder d t) = t_parent_task_id t"
  "t_title (assignNextTaskSortOrder d t) = t_title t" "t_perm (assignNextTaskSortOrder d t) = t_perm t"
  "t_role_id (assignNextTaskSortOrder d t) = t_role_id t" "t_type (assignNextTaskSortOrder d t) = t_type t"
  "t_run_mode (assignNextTaskSortOrder d t) = t_run_mode t" "t_status (assignNextTaskSortOrder d t) = t_status t"
  by (simp_all add: assignNextTaskSortOrder_def split: option.split)

text \<open>The mode of a task that is not a merge task survives; only the target may be chosen.\<close>

lemma resolve_fields:
  assumes "resolveNewTaskDependency d t = Inr u" and "t_merge_of t = None" and "t_dependency_mode t \<noteq> DependencyOther []"
  shows "\<exists>x. u = t\<lparr>t_depends_on := x\<rparr> \<and>
    (case t_dependency_mode t of DependencyNone \<Rightarrow> x = None | DependencyWeak \<Rightarrow> t_project_id t \<noteq> None
     | DependencyStrong \<Rightarrow> t_project_id t \<noteq> None \<and> x \<noteq> None | DependencyOther s \<Rightarrow> False)"
proof -
  have n: "normalizeDependencyMode t = t" using assms(3) by (simp add: normalizeDependencyMode_def)
  show ?thesis
  proof (cases "t_project_id t")
    case None
    with assms n have "t_dependency_mode t = DependencyNone \<and> t_depends_on t = None \<and> u = t"
      by (auto simp: resolveNewTaskDependency_def Let_def split: if_splits)
    then show ?thesis by (auto intro!: exI [of _ None])
  next
    case (Some pid)
    with assms n have "u = t\<lparr>t_depends_on := t_depends_on u\<rparr> \<and>
      (case t_dependency_mode t of DependencyNone \<Rightarrow> t_depends_on u = None | DependencyWeak \<Rightarrow> True
       | DependencyStrong \<Rightarrow> t_depends_on u \<noteq> None | DependencyOther s \<Rightarrow> False)"
      by (cases "t_dependency_mode t")
        (auto simp: resolveNewTaskDependency_def Let_def rbind_eq_Inr validDependencyMode_def split: if_splits option.splits)
    with Some show ?thesis by (intro exI [of _ "t_depends_on u"]) (auto split: dependency_mode.splits)
  qed
qed

lemma create_plan_Inr:
  assumes "create_plan v q d = Inr t"
  shows "\<exists>p rm dir m x. t = (requested_task q p rm dir)\<lparr>t_dependency_mode := m, t_depends_on := x\<rparr> \<and>
    trim_space (c_title q) \<noteq> [] \<and> p \<in> {PermFull, PermReview} \<and> rm \<in> {RunModeBatch, RunModeInteractive} \<and>
    create_role_ok v q rm d = Inr () \<and> m \<noteq> DependencyOther [] \<and>
    (\<forall>pid. c_project_id q = Some pid \<longrightarrow> (\<exists>pr. get_project pid d = Some pr \<and> dir = p_project_dir pr)) \<and>
    p = session_perm (c_perm q) \<and> rm = run_mode_of (if c_run_mode q = [] then ''batch'' else c_run_mode q)"
proof -
  let ?p = "session_perm (c_perm q)" and ?rm = "run_mode_of (if c_run_mode q = [] then ''batch'' else c_run_mode q)"
  from assms have chk: "trim_space (c_title q) \<noteq> []" "?p \<in> {PermFull, PermReview}" "?rm \<in> {RunModeBatch, RunModeInteractive}"
    by (auto simp: create_plan_def Let_def split: if_splits)
  with assms obtain dir where dir: "(case c_project_id q of
               None \<Rightarrow> Inr []
             | Some pid \<Rightarrow> (case get_project pid d of
                   None \<Rightarrow> Inl (TaskLifecycleError TaskErrorInvalid NoSuchProject)
                 | Some pr \<Rightarrow> Inr (p_project_dir pr))) = Inr dir"
    and role: "create_role_ok v q ?rm d = Inr ()" and norm: "normalizeDependency (requested_task q ?p ?rm dir) = Inr t"
    by (auto simp: create_plan_def Let_def rbind_eq_Inr split: if_splits)
  from normalizeDependency_Inr [OF norm] obtain m x where
    t: "t = (requested_task q ?p ?rm dir)\<lparr>t_dependency_mode := m, t_depends_on := x\<rparr>"
    and m: "case m of DependencyNone \<Rightarrow> x = None | DependencyWeak \<Rightarrow> t_project_id (requested_task q ?p ?rm dir) \<noteq> None \<and> x = None
     | DependencyStrong \<Rightarrow> t_project_id (requested_task q ?p ?rm dir) \<noteq> None \<and> x \<noteq> None | DependencyOther s \<Rightarrow> False"
    by (elim exE conjE)
  from m have "m \<noteq> DependencyOther []" by (cases m) simp_all
  moreover have "\<forall>pid. c_project_id q = Some pid \<longrightarrow> (\<exists>pr. get_project pid d = Some pr \<and> dir = p_project_dir pr)"
    using dir by (auto split: option.splits)
  ultimately show ?thesis using chk role t by (intro exI [of _ ?p] exI [of _ ?rm] exI [of _ dir] exI [of _ m] exI [of _ x] conjI) (assumption | rule refl)+
qed

lemma create_task_row:
  assumes "create_task v q l = (l', Inr t)"
  shows "\<exists>plan t0 x. create_plan v q (l_db l) = Inr plan \<and> t0 = assignNextTaskSortOrder (l_db l) (prepareTaskForInsert (lv_now v) plan) \<and>
    resolveNewTaskDependency (l_db l) t0 = Inr x \<and> insertTask x (l_db l) = Inr (l_db l', t_id t) \<and>
    t = (with_defaults x)\<lparr>t_id := t_id t\<rparr>"
proof -
  from assms obtain plan d i where plan: "create_plan v q (l_db l) = Inr plan"
    and cr: "CreateTaskWithProjectDependency (lv_now v) plan (l_db l) = Inr (d, i)"
    and re: "reread TaskErrorInvalid i (set_db d l) = (l', Inr t)"
    by (auto simp: create_task_def split: sum.splits prod.splits)
  from create_plan_Inr [OF plan] have "t_dependency_mode plan \<noteq> DependencyOther []" by auto
  with cr obtain x where x: "resolveNewTaskDependency (l_db l) (assignNextTaskSortOrder (l_db l) (prepareTaskForInsert (lv_now v) plan)) = Inr x"
    "insertTask x (l_db l) = Inr (d, i)"
    by (auto simp: CreateTaskWithProjectDependency_def Let_def rbind_eq_Inr)
  from re reread_Inr [OF re] insertTask_row(1) [OF x(2)] have "l_db l' = d" "t = (with_defaults x)\<lparr>t_id := i\<rparr>" by simp_all
  with plan x show ?thesis by auto
qed

lemma created_task_fields:
  assumes good: "schema_ok (l_db l)" and run: "create_task v q l = (l', Inr t)"
  shows "well_formed t \<and> target_ok (l_db l) t \<and> t_role_id t = c_role_id q \<and> t_project_id t = c_project_id q \<and>
    (\<forall>r. t_role_id t = Some r \<longrightarrow> (\<exists>a. get_role_row r (l_db l) = Some a \<and> a_enabled a)) \<and>
    (\<forall>p. t_project_id t = Some p \<longrightarrow> (\<exists>pr. get_project p (l_db l) = Some pr \<and> t_project_dir t = p_project_dir pr))"
    and "t_title t = trim_space (c_title q)" and "t_body t = c_body q" and "t_perm t = session_perm (c_perm q)"
    and "t_run_mode t = RunModeBatch \<or> t_run_mode t = run_mode_of (if c_run_mode q = [] then ''batch'' else c_run_mode q)"
    and "t_parent_session_id t = c_parent_session_id q" and "t_parent_task_id t = c_parent_task_id q"
proof -
  let ?d = "l_db l"
  from create_task_row [OF run] obtain plan x where plan: "create_plan v q ?d = Inr plan"
    and res: "resolveNewTaskDependency ?d (assignNextTaskSortOrder ?d (prepareTaskForInsert (lv_now v) plan)) = Inr x"
    and t: "t = (with_defaults x)\<lparr>t_id := t_id t\<rparr>" by blast
  let ?t0 = "assignNextTaskSortOrder ?d (prepareTaskForInsert (lv_now v) plan)"
  from create_plan_Inr [OF plan] obtain p rm dir m y where
    p: "plan = (requested_task q p rm dir)\<lparr>t_dependency_mode := m, t_depends_on := y\<rparr>" "trim_space (c_title q) \<noteq> []"
      "p \<in> {PermFull, PermReview}" "rm \<in> {RunModeBatch, RunModeInteractive}" "create_role_ok v q rm ?d = Inr ()"
      "m \<noteq> DependencyOther []" "\<forall>pid. c_project_id q = Some pid \<longrightarrow> (\<exists>pr. get_project pid ?d = Some pr \<and> dir = p_project_dir pr)"
      "p = session_perm (c_perm q)" "rm = run_mode_of (if c_run_mode q = [] then ''batch'' else c_run_mode q)"
    by (elim exE conjE)
  have plan_fields: "t_title plan = trim_space (c_title q)" "t_perm plan = p" "t_run_mode plan = rm" "t_type plan = TaskTypeOther []"
    "t_role_id plan = c_role_id q" "t_project_id plan = c_project_id q" "t_cron plan = c_cron q" "t_merge_of plan = None"
    "t_dependency_mode plan = m" "t_status plan = StatusQueued" "t_project_dir plan = dir"
    by (simp_all add: p(1) requested_task_def zero_task_def)
  have t0: "t_title ?t0 = trim_space (c_title q)" "t_perm ?t0 = p" "t_type ?t0 = TaskTypeTask" "t_role_id ?t0 = c_role_id q"
    "t_project_id ?t0 = c_project_id q" "t_merge_of ?t0 = None" "t_status ?t0 = StatusQueued" "t_cron ?t0 = c_cron q"
    "t_run_mode ?t0 = (if c_cron q = [] then rm else RunModeBatch)"
    "t_dependency_mode ?t0 = (if c_cron q = [] then m else DependencyNone)"
    using p(4,6) by (simp_all add: assign_fields prepare_fields plan_fields)
  have dir: "t_project_dir ?t0 = dir"
    by (simp add: assignNextTaskSortOrder_def prepareTaskForInsert_def normalizeDependencyMode_def Let_def plan_fields split: option.split)
  have mode: "t_dependency_mode ?t0 \<noteq> DependencyOther []" using t0(10) p(6) by simp
  from resolve_fields [OF res t0(6) mode] obtain z where z: "x = ?t0\<lparr>t_depends_on := z\<rparr>"
    "case t_dependency_mode ?t0 of DependencyNone \<Rightarrow> z = None | DependencyWeak \<Rightarrow> t_project_id ?t0 \<noteq> None
     | DependencyStrong \<Rightarrow> t_project_id ?t0 \<noteq> None \<and> z \<noteq> None | DependencyOther s \<Rightarrow> False" by blast
  have ft: "t_title t = t_title x" "t_perm t = t_perm x" "t_type t = t_type x" "t_role_id t = t_role_id x" "t_project_id t = t_project_id x"
    "t_status t = t_status x" "t_cron t = t_cron x" "t_run_mode t = t_run_mode x" "t_dependency_mode t = t_dependency_mode x"
    "t_depends_on t = t_depends_on x" "t_project_dir t = t_project_dir x" "t_revision t = 1"
    by (subst t, simp add: with_defaults_def)+
  have fx: "t_title x = t_title ?t0" "t_perm x = t_perm ?t0" "t_type x = t_type ?t0" "t_role_id x = t_role_id ?t0"
    "t_project_id x = t_project_id ?t0" "t_status x = t_status ?t0" "t_cron x = t_cron ?t0" "t_run_mode x = t_run_mode ?t0"
    "t_dependency_mode x = t_dependency_mode ?t0" "t_depends_on x = z" "t_project_dir x = t_project_dir ?t0"
    by (simp_all add: z(1))
  have role: "rm = RunModeInteractive \<longrightarrow> c_role_id q \<noteq> None"
    "\<forall>r. c_role_id q = Some r \<longrightarrow> (\<exists>a. get_role_row r ?d = Some a \<and> a_enabled a)"
    using p(5) by (auto simp: create_role_ok_def rguard_def split: option.splits if_splits)
  note row = ft [unfolded fx, unfolded t0]
  note target = z(2) [unfolded t0]
  have dep: "case t_dependency_mode t of DependencyNone \<Rightarrow> t_depends_on t = None | DependencyWeak \<Rightarrow> t_project_id t \<noteq> None
     | DependencyStrong \<Rightarrow> t_project_id t \<noteq> None \<and> t_depends_on t \<noteq> None | DependencyOther s \<Rightarrow> False"
    using target unfolding row by (auto split: if_splits dependency_mode.splits)
  have "well_formed t"
    unfolding well_formed_def using dep p(2-4) role(1) by (simp only: row) auto
  moreover have "target_ok ?d t"
    using conjunct1 [OF resolve_target_ok [OF good res]] unfolding target_ok_def ft .
  moreover have "t_role_id t = c_role_id q" "t_project_id t = c_project_id q" "t_project_dir t = dir" using dir by (simp_all only: row)
  ultimately show "well_formed t \<and> target_ok ?d t \<and> t_role_id t = c_role_id q \<and> t_project_id t = c_project_id q \<and>
    (\<forall>r. t_role_id t = Some r \<longrightarrow> (\<exists>a. get_role_row r ?d = Some a \<and> a_enabled a)) \<and>
    (\<forall>p. t_project_id t = Some p \<longrightarrow> (\<exists>pr. get_project p ?d = Some pr \<and> t_project_dir t = p_project_dir pr))"
    using role(2) p(7) by simp
  show "t_title t = trim_space (c_title q)" by (simp only: row)
  show "t_perm t = session_perm (c_perm q)" using p(8) by (simp only: row)
  show "t_run_mode t = RunModeBatch \<or> t_run_mode t = run_mode_of (if c_run_mode q = [] then ''batch'' else c_run_mode q)"
    using p(9) by (simp add: row)
  have "t_body plan = c_body q" "t_parent_session_id plan = c_parent_session_id q" "t_parent_task_id plan = c_parent_task_id q"
    by (simp_all add: p(1) requested_task_def)
  then have "t_body x = c_body q" "t_parent_session_id x = c_parent_session_id q" "t_parent_task_id x = c_parent_task_id q"
    by (simp_all add: z(1) assign_fields prepare_fields(4-6))
  moreover have "t_body t = t_body x" "t_parent_session_id t = t_parent_session_id x" "t_parent_task_id t = t_parent_task_id x"
    by (subst t, simp add: with_defaults_def)+
  ultimately show "t_body t = c_body q" "t_parent_session_id t = c_parent_session_id q" "t_parent_task_id t = c_parent_task_id q"
    by (simp_all only:)
qed


definition demo_request :: CreateTaskRequest where
  "demo_request = \<lparr>c_title = '' fix it '', c_body = ''body'', c_role_id = Some 1, c_project_id = Some 1, c_external_key = [],
     c_perm = [], c_run_mode = ''interactive'', c_concurrent = False, c_dependency_mode = [], c_depends_on = None,
     c_block_on_failure = False, c_parent_id = None, c_resume_of = None, c_parent_session_id = None, c_parent_task_id = None,
     c_cron = [], c_enabled = True\<rparr>"


end
