(* ===== verification/Path_Text.thy ===== *)
theory Path_Text
  imports Paihuo_Prelude
begin

text \<open>
  The functions on paths and texts of Go's library that the sources use: \<^verbatim>\<open>strings.Split\<close>
  by one byte, \<^verbatim>\<open>strings.Join\<close>, and \<^verbatim>\<open>filepath.Clean\<close> and \<^verbatim>\<open>filepath.Join\<close>
  on Unix, where \<^verbatim>\<open>ToSlash\<close> and \<^verbatim>\<open>FromSlash\<close> are the identity.
\<close>

section \<open>Splitting and joining\<close>

fun split_on :: "char \<Rightarrow> string \<Rightarrow> string list" where
  "split_on c [] = [[]]"
| "split_on c (x # xs) =
     (if x = c then [] # split_on c xs
      else (case split_on c xs of [] \<Rightarrow> [[x]] | y # ys \<Rightarrow> (x # y) # ys))"

fun join_with :: "char \<Rightarrow> string list \<Rightarrow> string" where
  "join_with c [] = []"
| "join_with c [x] = x"
| "join_with c (x # y # ys) = x @ [c] @ join_with c (y # ys)"

lemma split_on_nonempty [simp]: "split_on c s \<noteq> []"
  by (cases s) (auto split: list.splits)

lemma split_on_parts: "p \<in> set (split_on c s) \<Longrightarrow> c \<notin> set p"
proof (induction s arbitrary: p)
  case (Cons x xs)
  obtain y ys where s: "split_on c xs = y # ys" using split_on_nonempty by (metis neq_Nil_conv)
  with Cons show ?case by (auto split: if_splits)
qed simp

lemma join_split [simp]: "join_with c (split_on c s) = s"
proof (induction s)
  case (Cons x xs)
  obtain y ys where s: "split_on c xs = y # ys" using split_on_nonempty by (metis neq_Nil_conv)
  with Cons show ?case by (cases ys) auto
qed simp

lemma split_on_plain: "c \<notin> set s \<Longrightarrow> split_on c s = [s]"
  by (induction s) auto

lemma split_on_append: "c \<notin> set x \<Longrightarrow> split_on c (x @ c # s) = x # split_on c s"
  by (induction x) auto

lemma split_join: "ps \<noteq> [] \<Longrightarrow> \<forall>p\<in>set ps. c \<notin> set p \<Longrightarrow> split_on c (join_with c ps) = ps"
proof (induction c ps rule: join_with.induct)
  case (2 c x)
  then show ?case by (simp add: split_on_plain)
next
  case (3 c x y ys)
  then show ?case by (simp add: split_on_append del: join_with.simps(2))
qed simp

lemma split_snoc_sep: "split_on c (s @ c # t) = split_on c s @ split_on c t"
proof (induction s)
  case (Cons x xs)
  obtain y ys where "split_on c xs = y # ys" using split_on_nonempty by (metis neq_Nil_conv)
  with Cons show ?case by (cases "x = c") auto
qed simp

section \<open>Cleaning a path\<close>

definition slash :: char where "slash = CHR ''/''"

definition rooted :: "string \<Rightarrow> bool" where
  "rooted s \<longleftrightarrow> (case s of [] \<Rightarrow> False | c # cs \<Rightarrow> c = slash)"

definition plain_part :: "string \<Rightarrow> bool" where
  "plain_part p \<longleftrightarrow> p \<noteq> [] \<and> p \<noteq> ''.'' \<and> p \<noteq> ''..'' \<and> slash \<notin> set p"

text \<open>The elements kept so far, the last one first.\<close>

fun walk :: "bool \<Rightarrow> string list \<Rightarrow> string list \<Rightarrow> string list" where
  "walk r st [] = st"
| "walk r st (p # ps) =
     (if p = [] \<or> p = ''.'' then walk r st ps
      else if p = ''..'' then
        (case st of
           q # st' \<Rightarrow> if q = ''..'' then walk r (p # st) ps else walk r st' ps
         | [] \<Rightarrow> if r then walk r [] ps else walk r [p] ps)
      else walk r (p # st) ps)"

definition elements :: "string \<Rightarrow> string list" where
  "elements s = rev (walk (rooted s) [] (split_on slash s))"

definition Clean :: "string \<Rightarrow> string" where
  "Clean s =
     (let body = join_with slash (elements s) in
      if rooted s then slash # body else if body = [] then ''.'' else body)"

definition Join :: "string \<Rightarrow> string \<Rightarrow> string" where
  "Join a b =
     (if a = [] \<and> b = [] then [] else if a = [] then Clean b else if b = [] then Clean a else Clean (a @ slash # b))"

section \<open>What cleaning leaves\<close>

lemma walk_plain: "\<forall>p\<in>set ps. plain_part p \<Longrightarrow> walk r st ps = rev ps @ st"
  by (induction ps arbitrary: st) (auto simp: plain_part_def)

lemma walk_append: "walk r st (ps @ qs) = walk r (walk r st ps) qs"
proof (induction ps arbitrary: st)
  case (Cons p ps)
  then show ?case by (cases st; cases r) simp_all
qed simp

lemma rooted_append [simp]: "s \<noteq> [] \<Longrightarrow> rooted (s @ t) = rooted s"
  by (cases s) (simp_all add: rooted_def)

text \<open>Plain elements below a root are appended to its elements.\<close>

lemma elements_below:
  assumes "root \<noteq> []" and "ps \<noteq> []" and plain: "\<forall>p\<in>set ps. plain_part p"
  shows "elements (root @ slash # join_with slash ps) = elements root @ ps"
proof -
  have "split_on slash (join_with slash ps) = ps"
    using assms(2) plain by (intro split_join) (auto simp: plain_part_def)
  then show ?thesis
    using assms(1) plain by (simp add: elements_def split_snoc_sep walk_append walk_plain)
qed

lemma join_append: "xs \<noteq> [] \<Longrightarrow> ys \<noteq> [] \<Longrightarrow> join_with c (xs @ ys) = join_with c xs @ c # join_with c ys"
proof (induction c xs rule: join_with.induct)
  case (2 c x)
  then show ?case by (cases ys) auto
qed auto

lemma Join_below:
  assumes clean: "Clean root = root" and "rooted root" and "root \<noteq> [slash]" and "ps \<noteq> []" and plain: "\<forall>p\<in>set ps. plain_part p"
  shows "Join root (join_with slash ps) = root @ slash # join_with slash ps"
proof -
  have ne: "root \<noteq> []" using assms(2) by (auto simp: rooted_def)
  have body: "root = slash # join_with slash (elements root)" using clean assms(2) by (simp add: Clean_def Let_def)
  then have els: "elements root \<noteq> []" using assms(3) by auto
  have "join_with slash ps \<noteq> []"
    using assms(4) plain by (cases "(slash, ps)" rule: join_with.cases) (auto simp: plain_part_def)
  then have "Join root (join_with slash ps) = Clean (root @ slash # join_with slash ps)" using ne by (simp add: Join_def)
  also have "\<dots> = slash # join_with slash (elements root @ ps)"
    using assms(2) ne elements_below [OF ne assms(4) plain] by (simp add: Clean_def Let_def)
  also have "\<dots> = root @ slash # join_with slash ps"
    using body join_append [OF els assms(4), of slash] by simp
  finally show ?thesis .
qed

end
