(* ===== verification/Artifact_Store.thy ===== *)
theory Artifact_Store
  imports Path_Text Revision_Laws
begin

text \<open>
  Artifacts: the content-addressed files (\<^verbatim>\<open>internal/artifact\<close>), the table of their
  metadata (store/artifacts.go) and the handlers of the API (server/artifact_handlers.go).
  The hash is a parameter that returns 64 hexadecimal digits; the file system holds contents
  by path below the managed root. Failures of the disk are left out.
\<close>

section \<open>Files (artifact.go)\<close>

record artifact_object =
  ob_hash :: string
  ob_size :: int
  ob_locator :: string

type_synonym files = "string \<rightharpoonup> string"

definition hex_digit :: "char \<Rightarrow> bool" where
  "hex_digit c \<longleftrightarrow> (CHR ''0'' \<le> c \<and> c \<le> CHR ''9'') \<or> (CHR ''a'' \<le> c \<and> c \<le> CHR ''f'') \<or> (CHR ''A'' \<le> c \<and> c \<le> CHR ''F'')"

definition is_digest :: "string \<Rightarrow> bool" where
  "is_digest h \<longleftrightarrow> length h = 64 \<and> list_all hex_digit h"

definition locator_of :: "string \<Rightarrow> string" where
  "locator_of digest = Join (Join ''sha256'' (take 2 digest)) digest"

text \<open>\<^verbatim>\<open>LocalStore.path\<close>: the locator is cleaned and must have the shape of one.\<close>

definition path :: "string \<Rightarrow> string \<Rightarrow> string option" where
  "path root locator =
     (let clean = Clean locator in
      case split_on slash clean of
        [a, b, h] \<Rightarrow>
          if a \<noteq> ''sha256'' \<or> length b \<noteq> 2 \<or> length h \<noteq> 64 \<or> b \<noteq> take 2 h then None
          else if \<not> list_all hex_digit h then None else Some (Join root clean)
      | _ \<Rightarrow> None)"

definition Put :: "string \<Rightarrow> (string \<Rightarrow> string) \<Rightarrow> string \<Rightarrow> files \<Rightarrow> files \<times> artifact_object" where
  "Put root sha content fs =
     (let digest = sha content; locator = locator_of digest; target = Join root locator in
      (if fs target \<noteq> None then fs else fs(target \<mapsto> content),
       \<lparr>ob_hash = digest, ob_size = int (length content), ob_locator = locator\<rparr>))"

definition Open :: "string \<Rightarrow> string \<Rightarrow> files \<Rightarrow> string option" where
  "Open root locator fs = (case path root locator of None \<Rightarrow> None | Some p \<Rightarrow> fs p)"

definition Remove :: "string \<Rightarrow> string \<Rightarrow> files \<Rightarrow> files" where
  "Remove root locator fs = (case path root locator of None \<Rightarrow> fs | Some p \<Rightarrow> fs(p := None))"

section \<open>Locators stay below the root\<close>

lemma hex_plain: "is_digest h \<Longrightarrow> plain_part h"
proof -
  assume h: "is_digest h"
  have "\<not> hex_digit slash" "\<not> hex_digit (CHR ''.'')" by (simp_all add: hex_digit_def slash_def less_eq_char_def)
  moreover have "\<forall>c\<in>set h. hex_digit c" using h by (simp add: is_digest_def list_all_iff)
  moreover have "h \<noteq> []" using h by (auto simp: is_digest_def)
  ultimately show ?thesis by (auto simp: plain_part_def)
qed

lemma take_hex_plain:
  assumes h: "is_digest h"
  shows "plain_part (take 2 h)"
proof -
  have "\<not> hex_digit slash" "\<not> hex_digit (CHR ''.'')" by (simp_all add: hex_digit_def slash_def less_eq_char_def)
  moreover have "\<forall>c\<in>set (take 2 h). hex_digit c" using h by (auto simp: is_digest_def list_all_iff dest: in_set_takeD)
  moreover have "take 2 h \<noteq> []" using h by (auto simp: is_digest_def)
  ultimately show ?thesis by (auto simp: plain_part_def)
qed

lemma sha256_plain: "plain_part ''sha256''"
  by (simp add: plain_part_def slash_def)

lemma elements_plain:
  assumes "ps \<noteq> []" and "\<forall>p\<in>set ps. plain_part p"
  shows "elements (join_with slash ps) = ps" and "Clean (join_with slash ps) = join_with slash ps"
proof -
  have s: "split_on slash (join_with slash ps) = ps"
    using assms by (intro split_join) (auto simp: plain_part_def)
  obtain p qs where ps: "ps = p # qs" using assms(1) by (cases ps) auto
  then have "\<not> rooted (join_with slash ps)" using assms(2)
    by (cases qs; cases p) (auto simp: rooted_def plain_part_def)
  moreover from this show e: "elements (join_with slash ps) = ps" using assms(2) by (simp add: elements_def s walk_plain)
  moreover have "join_with slash ps \<noteq> []" using ps assms(2) by (cases qs) (auto simp: plain_part_def)
  ultimately show "Clean (join_with slash ps) = join_with slash ps" by (simp add: Clean_def)
qed

lemma locator_shape: "is_digest h \<Longrightarrow> locator_of h = join_with slash [''sha256'', take 2 h, h]"
proof -
  assume h: "is_digest h"
  note plain = sha256_plain take_hex_plain [OF h] hex_plain [OF h]
  have ne: "take 2 h \<noteq> []" "h \<noteq> []" using plain by (auto simp: plain_part_def)
  have "Join ''sha256'' (take 2 h) = Clean (join_with slash [''sha256'', take 2 h])" using ne by (simp add: Join_def)
  also have "\<dots> = join_with slash [''sha256'', take 2 h]" by (rule elements_plain(2)) (use plain in auto)
  finally have a: "Join ''sha256'' (take 2 h) = join_with slash [''sha256'', take 2 h]" .
  have "Join (join_with slash [''sha256'', take 2 h]) h = Clean (join_with slash [''sha256'', take 2 h, h])"
    using ne by (simp add: Join_def)
  also have "\<dots> = join_with slash [''sha256'', take 2 h, h]" by (rule elements_plain(2)) (use plain in auto)
  finally show ?thesis by (simp add: locator_of_def a)
qed

text \<open>The path of a digest below a root.\<close>

definition below :: "string \<Rightarrow> string \<Rightarrow> string" where
  "below root h = root @ slash # join_with slash [''sha256'', take 2 h, h]"

definition good_root :: "string \<Rightarrow> bool" where
  "good_root root \<longleftrightarrow> rooted root \<and> Clean root = root \<and> root \<noteq> [slash]"

lemma Join_digest: "good_root root \<Longrightarrow> is_digest h \<Longrightarrow> Join root (join_with slash [''sha256'', take 2 h, h]) = below root h"
  unfolding below_def good_root_def
  by (rule Join_below) (use sha256_plain take_hex_plain hex_plain in auto)

lemma path_locator: "good_root root \<Longrightarrow> is_digest h \<Longrightarrow> path root (locator_of h) = Some (below root h)"
proof -
  assume root: "good_root root" and h: "is_digest h"
  let ?ps = "[''sha256'', take 2 h, h]"
  have plain: "\<forall>p\<in>set ?ps. plain_part p" using sha256_plain take_hex_plain [OF h] hex_plain [OF h] by simp
  have c: "Clean (join_with slash ?ps) = join_with slash ?ps" by (rule elements_plain(2)) (use plain in auto)
  have s: "split_on slash (join_with slash ?ps) = ?ps" using plain by (intro split_join) (auto simp: plain_part_def)
  have "length (take 2 h) = 2" "length h = 64" "list_all hex_digit h" using h by (simp_all add: is_digest_def)
  then show ?thesis
    using Join_digest [OF root h] by (simp only: path_def Let_def locator_shape [OF h] c s) simp
qed

text \<open>
  C29. No locator, whatever its bytes, leads outside the managed root: an accepted one names the
  file of a digest of 64 hexadecimal digits below it, and cleans to the locator of that digest.
\<close>

theorem artifact_path_confined:
  assumes "good_root root" and "path root locator = Some p"
  shows "\<exists>h. is_digest h \<and> p = below root h \<and> Clean locator = locator_of h"
proof -
  from assms(2) obtain h where s: "split_on slash (Clean locator) = [''sha256'', take 2 h, h]" and h: "is_digest h"
    and p: "p = Join root (Clean locator)"
    by (auto simp: path_def Let_def is_digest_def split: list.splits if_splits)
  have "Clean locator = join_with slash [''sha256'', take 2 h, h]" using s join_split [of slash "Clean locator"] by simp
  then show ?thesis using h p Join_digest [OF assms(1) h] locator_shape [OF h] by metis
qed

definition demo_digest :: string where
  "demo_digest = replicate 64 (CHR ''a'')"

theorem artifact_path_confined_witness:
  "path ''/data/a'' (''./x/../'' @ locator_of demo_digest) = Some (below ''/data/a'' demo_digest) \<and>
   path ''/data/a'' ''../../etc/passwd'' = None \<and> (\<exists>h. is_digest h \<and> below ''/data/a'' demo_digest = below ''/data/a'' h)"
proof -
  have root: "good_root ''/data/a''" by code_simp
  have p: "path ''/data/a'' (''./x/../'' @ locator_of demo_digest) = Some (below ''/data/a'' demo_digest)" by code_simp
  have n: "path ''/data/a'' ''../../etc/passwd'' = None" by code_simp
  from artifact_path_confined [OF root p] p n show ?thesis by blast
qed

section \<open>Metadata (store/artifacts.go)\<close>

record Metadata =
  md_id :: int
  md_task_id :: "int option"
  md_run_id :: "int option"
  md_name :: string
  md_media_type :: string
  md_content_hash :: string
  md_size :: int
  md_locator :: string
  md_created_by :: string
  md_retention :: string
  md_created_at :: string

record artifacts =
  ar_rows :: "Metadata list"
  ar_seq :: int
  ar_files :: files

text \<open>The constraints of a row: one owner, which exists, and a size that is not negative.\<close>

definition metadata_ok :: "db \<Rightarrow> Metadata \<Rightarrow> bool" where
  "metadata_ok d m \<longleftrightarrow> fk (task_ids d) (md_task_id m) \<and> fk (run_ids d) (md_run_id m) \<and>
     ((md_task_id m \<noteq> None) \<noteq> (md_run_id m \<noteq> None)) \<and> 0 \<le> md_size m"

definition GetArtifact :: "int \<Rightarrow> artifacts \<Rightarrow> Metadata option" where
  "GetArtifact i a = sel md_id i (ar_rows a)"

definition CreateArtifact :: "string \<Rightarrow> db \<Rightarrow> Metadata \<Rightarrow> artifacts \<Rightarrow> store_error + (artifacts \<times> Metadata)" where
  "CreateArtifact now d item a =
     (let i = next_id (ar_seq a) (map md_id (ar_rows a));
          row = item\<lparr>md_id := i, md_retention := (if md_retention item = [] then ''default'' else md_retention item),
            md_created_at := now\<rparr> in
      if \<not> metadata_ok d row then Inl ErrConstraint
      else let a' = a\<lparr>ar_rows := ar_rows a @ [row], ar_seq := i\<rparr> in
        case GetArtifact i a' of None \<Rightarrow> Inl ErrNoRows | Some m \<Rightarrow> Inr (a', m))"

definition ListArtifacts :: "int option \<Rightarrow> int option \<Rightarrow> artifacts \<Rightarrow> Metadata list" where
  "ListArtifacts taskID runID a =
     take 500 (rev (sort_key md_id (filter (\<lambda>m. (taskID \<noteq> None \<longrightarrow> md_task_id m = taskID) \<and>
       (runID \<noteq> None \<longrightarrow> md_run_id m = runID)) (ar_rows a))))"

definition DeleteArtifact :: "int \<Rightarrow> artifacts \<Rightarrow> store_error + artifacts" where
  "DeleteArtifact i a =
     (if affected (\<lambda>m. md_id m = i) (ar_rows a) = 0 then Inl ErrNoRows
      else Inr (a\<lparr>ar_rows := del_where (\<lambda>m. md_id m = i) (ar_rows a)\<rparr>))"

definition CountArtifactsByLocator :: "string \<Rightarrow> artifacts \<Rightarrow> nat" where
  "CountArtifactsByLocator loc a = length (filter (\<lambda>m. md_locator m = loc) (ar_rows a))"

text \<open>\<^verbatim>\<open>ON DELETE CASCADE\<close>: the rows of tasks and runs that are gone go with them.\<close>

definition cascade :: "db \<Rightarrow> artifacts \<Rightarrow> artifacts" where
  "cascade d a = a\<lparr>ar_rows := filter (\<lambda>m. fk (task_ids d) (md_task_id m) \<and> fk (run_ids d) (md_run_id m)) (ar_rows a)\<rparr>"

section \<open>The handlers (artifact_handlers.go)\<close>

record artifact_input =
  in_task_id :: "int option"
  in_run_id :: "int option"
  in_name :: string
  in_media_type :: string
  in_content :: string
  in_created_by :: string
  in_retention :: string

record artifact_env =
  av_root :: string
  av_sha :: "string \<Rightarrow> string"
  av_now :: string

text \<open>The steps of a request: the checks, storing the content, inserting the row.\<close>

definition check_input :: "artifact_input \<Rightarrow> int option" where
  "check_input q =
     (if (in_task_id q = None) = (in_run_id q = None) then Some 400
      else if trim_space (in_name q) = [] \<or> in_content q = [] then Some 400 else None)"

definition put_content :: "artifact_env \<Rightarrow> artifact_input \<Rightarrow> artifacts \<Rightarrow> artifacts \<times> artifact_object" where
  "put_content v q a =
     (case Put (av_root v) (av_sha v) (in_content q) (ar_files a) of (fs, ob) \<Rightarrow> (a\<lparr>ar_files := fs\<rparr>, ob))"

definition sweep :: "artifact_env \<Rightarrow> string \<Rightarrow> artifacts \<Rightarrow> artifacts" where
  "sweep v loc a = (if CountArtifactsByLocator loc a = 0 then a\<lparr>ar_files := Remove (av_root v) loc (ar_files a)\<rparr> else a)"

definition insert_row :: "artifact_env \<Rightarrow> db \<Rightarrow> artifact_input \<Rightarrow> artifact_object \<Rightarrow> artifacts \<Rightarrow> artifacts \<times> (int + Metadata)" where
  "insert_row v d q ob a =
     (case CreateArtifact (av_now v) d \<lparr>md_id = 0, md_task_id = in_task_id q, md_run_id = in_run_id q,
            md_name = trim_space (in_name q),
            md_media_type = (if in_media_type q = [] then ''application/octet-stream'' else in_media_type q),
            md_content_hash = ob_hash ob, md_size = ob_size ob, md_locator = ob_locator ob,
            md_created_by = (if in_created_by q = [] then ''operator'' else in_created_by q),
            md_retention = in_retention q, md_created_at = []\<rparr> a of
        Inl e \<Rightarrow> (sweep v (ob_locator ob) a, Inl 400)
      | Inr (a', m) \<Rightarrow> (a', Inr m))"

definition createArtifact :: "artifact_env \<Rightarrow> db \<Rightarrow> artifact_input \<Rightarrow> artifacts \<Rightarrow> artifacts \<times> (int + Metadata)" where
  "createArtifact v d q a =
     (case check_input q of
        Some status \<Rightarrow> (a, Inl status)
      | None \<Rightarrow> (case put_content v q a of (a1, ob) \<Rightarrow> insert_row v d q ob a1))"

definition getArtifactContent :: "artifact_env \<Rightarrow> int \<Rightarrow> artifacts \<Rightarrow> int + (Metadata \<times> string)" where
  "getArtifactContent v i a =
     (case GetArtifact i a of
        None \<Rightarrow> Inl 404
      | Some m \<Rightarrow> (case Open (av_root v) (md_locator m) (ar_files a) of None \<Rightarrow> Inl 404 | Some c \<Rightarrow> Inr (m, c)))"

definition delete_row :: "int \<Rightarrow> artifacts \<Rightarrow> artifacts" where
  "delete_row i a = (case DeleteArtifact i a of Inl e \<Rightarrow> a | Inr a' \<Rightarrow> a')"

definition deleteArtifact :: "artifact_env \<Rightarrow> int \<Rightarrow> artifacts \<Rightarrow> artifacts \<times> int" where
  "deleteArtifact v i a =
     (case GetArtifact i a of
        None \<Rightarrow> (a, 404)
      | Some m \<Rightarrow> (sweep v (md_locator m) (delete_row i a), 204))"

section \<open>Requests, one after the other\<close>

datatype artifact_op =
    CreateA db artifact_input  \<comment> \<open>with the tasks and runs that exist at the time\<close>
  | DeleteA int
  | CascadeA db                \<comment> \<open>tasks or runs were deleted\<close>

fun artifact_do :: "artifact_env \<Rightarrow> artifact_op \<Rightarrow> artifacts \<Rightarrow> artifacts" where
  "artifact_do v (CreateA d q) a = fst (createArtifact v d q a)"
| "artifact_do v (DeleteA i) a = fst (deleteArtifact v i a)"
| "artifact_do v (CascadeA d) a = cascade d a"

definition no_artifacts :: artifacts where
  "no_artifacts = \<lparr>ar_rows = [], ar_seq = 0, ar_files = Map.empty\<rparr>"

text \<open>Every file is stored under its digest; every row has its file.\<close>

definition addressed :: "artifact_env \<Rightarrow> files \<Rightarrow> bool" where
  "addressed v fs \<longleftrightarrow> (\<forall>p c. fs p = Some c \<longrightarrow> p = below (av_root v) (av_sha v c))"

definition row_backed :: "artifact_env \<Rightarrow> files \<Rightarrow> Metadata \<Rightarrow> bool" where
  "row_backed v fs m \<longleftrightarrow> is_digest (md_content_hash m) \<and> md_locator m = locator_of (md_content_hash m) \<and>
     (\<exists>c. fs (below (av_root v) (md_content_hash m)) = Some c)"

definition backed :: "artifact_env \<Rightarrow> artifacts \<Rightarrow> bool" where
  "backed v a \<longleftrightarrow> addressed v (ar_files a) \<and> (\<forall>m\<in>set (ar_rows a). row_backed v (ar_files a) m)"

definition good_env :: "artifact_env \<Rightarrow> bool" where
  "good_env v \<longleftrightarrow> good_root (av_root v) \<and> (\<forall>c. is_digest (av_sha v c))"

lemma below_inj: "is_digest h \<Longrightarrow> is_digest g \<Longrightarrow> below root h = below root g \<longleftrightarrow> h = g"
  by (auto simp: below_def is_digest_def)

lemma locator_inj: "is_digest h \<Longrightarrow> is_digest g \<Longrightarrow> locator_of h = locator_of g \<longleftrightarrow> h = g"
  by (auto simp: locator_shape is_digest_def)

lemma addressed_hash:
  "addressed v fs \<Longrightarrow> good_env v \<Longrightarrow> is_digest h \<Longrightarrow> fs (below (av_root v) h) = Some c \<Longrightarrow> av_sha v c = h"
  by (metis addressed_def below_inj good_env_def)

section \<open>Every listed artifact can be read\<close>

lemma Put_addressed:
  assumes env: "good_env v" and a: "addressed v fs" and put: "Put (av_root v) (av_sha v) c fs = (fs', ob)"
  shows "addressed v fs'" and "\<exists>c'. fs' (below (av_root v) (av_sha v c)) = Some c'"
    and "fs p = Some x \<Longrightarrow> fs' p = Some x" and "ob_hash ob = av_sha v c" and "ob_locator ob = locator_of (av_sha v c)"
    and "ob_size ob = int (length c)"
proof -
  let ?t = "below (av_root v) (av_sha v c)"
  have t: "Join (av_root v) (locator_of (av_sha v c)) = ?t"
    using env Join_digest locator_shape by (simp add: good_env_def)
  have fs': "fs' = (if fs ?t \<noteq> None then fs else fs(?t \<mapsto> c))" and ob: "ob = \<lparr>ob_hash = av_sha v c, ob_size = int (length c), ob_locator = locator_of (av_sha v c)\<rparr>"
    using put by (auto simp: Put_def Let_def t)
  show "addressed v fs'" using a unfolding fs' addressed_def by auto
  show "\<exists>c'. fs' ?t = Some c'" by (auto simp: fs')
  show "fs p = Some x \<Longrightarrow> fs' p = Some x" by (auto simp: fs')
  show "ob_hash ob = av_sha v c" "ob_locator ob = locator_of (av_sha v c)" "ob_size ob = int (length c)" by (simp_all add: ob)
qed

lemma sweep_backed:
  assumes env: "good_env v" and b: "backed v a" and h: "is_digest h"
  shows "backed v (sweep v (locator_of h) a) \<and> ar_rows (sweep v (locator_of h) a) = ar_rows a \<and> ar_seq (sweep v (locator_of h) a) = ar_seq a"
proof (cases "CountArtifactsByLocator (locator_of h) a = 0")
  case True
  then have none: "\<forall>m\<in>set (ar_rows a). md_locator m \<noteq> locator_of h" by (simp add: CountArtifactsByLocator_def filter_empty_conv)
  have rem: "Remove (av_root v) (locator_of h) (ar_files a) = (ar_files a)(below (av_root v) h := None)"
    using env h path_locator by (simp add: Remove_def good_env_def)
  have "row_backed v ((ar_files a)(below (av_root v) h := None)) m" if m: "m \<in> set (ar_rows a)" for m
  proof -
    have r: "row_backed v (ar_files a) m" using b m by (simp add: backed_def)
    have "md_content_hash m \<noteq> h" using none m r by (auto simp: row_backed_def)
    then have "below (av_root v) (md_content_hash m) \<noteq> below (av_root v) h" using r h below_inj by (simp add: row_backed_def)
    with r show ?thesis by (simp add: row_backed_def)
  qed
  moreover have "addressed v ((ar_files a)(below (av_root v) h := None))" using b by (auto simp: backed_def addressed_def)
  ultimately show ?thesis by (simp add: sweep_def True rem backed_def)
qed (use b in \<open>simp add: sweep_def\<close>)

definition numbered_rows :: "artifacts \<Rightarrow> bool" where
  "numbered_rows a \<longleftrightarrow> distinct (map md_id (ar_rows a))"

definition kept_well :: "artifact_env \<Rightarrow> artifacts \<Rightarrow> bool" where
  "kept_well v a \<longleftrightarrow> backed v a \<and> numbered_rows a"

lemma row_backed_mono: "row_backed v fs m \<Longrightarrow> (\<And>p x. fs p = Some x \<Longrightarrow> fs' p = Some x) \<Longrightarrow> row_backed v fs' m"
  by (auto simp: row_backed_def)

lemma CreateArtifact_Inr:
  assumes "CreateArtifact now d item a = Inr (a', m)"
  shows "ar_rows a' = ar_rows a @ [m] \<and> ar_files a' = ar_files a \<and> md_id m = next_id (ar_seq a) (map md_id (ar_rows a)) \<and>
    md_content_hash m = md_content_hash item \<and> md_locator m = md_locator item"
proof -
  let ?i = "next_id (ar_seq a) (map md_id (ar_rows a))"
  let ?row = "item\<lparr>md_id := ?i, md_retention := (if md_retention item = [] then ''default'' else md_retention item), md_created_at := now\<rparr>"
  have "?i \<notin> md_id ` set (ar_rows a)" using next_id_fresh by (metis list.set_map)
  then have "sel md_id ?i (ar_rows a @ [?row]) = Some ?row" by (simp add: sel_append sel_not_mem)
  then have "a' = a\<lparr>ar_rows := ar_rows a @ [?row], ar_seq := ?i\<rparr> \<and> m = ?row"
    using assms by (auto simp: CreateArtifact_def Let_def GetArtifact_def split: if_splits)
  then show ?thesis by simp
qed

lemma create_kept:
  assumes env: "good_env v" and k: "kept_well v a"
  shows "kept_well v (fst (createArtifact v d q a))"
proof (cases "check_input q")
  case None
  obtain a1 ob where p: "put_content v q a = (a1, ob)" by fastforce
  then have put: "Put (av_root v) (av_sha v) (in_content q) (ar_files a) = (ar_files a1, ob)" and a1: "ar_rows a1 = ar_rows a" "ar_seq a1 = ar_seq a"
    by (auto simp: put_content_def split: prod.splits)
  let ?h = "av_sha v (in_content q)"
  have h: "is_digest ?h" using env by (simp add: good_env_def)
  have "addressed v (ar_files a)" using k by (simp add: kept_well_def backed_def)
  note P = Put_addressed [OF env this put]
  have b1: "backed v a1" using k P(1,3) row_backed_mono a1 by (auto simp: kept_well_def backed_def)
  have n1: "numbered_rows a1" using k a1 by (simp add: kept_well_def numbered_rows_def)
  have create: "createArtifact v d q a = insert_row v d q ob a1" by (simp add: createArtifact_def None p)
  show ?thesis
  proof (cases "snd (insert_row v d q ob a1)")
    case (Inl e)
    then have "fst (insert_row v d q ob a1) = sweep v (locator_of ?h) a1"
      by (auto simp: insert_row_def P(5) split: sum.splits prod.splits)
    with sweep_backed [OF env b1 h] n1 show ?thesis by (simp add: create kept_well_def numbered_rows_def)
  next
    case (Inr m)
    let ?i = "next_id (ar_seq a1) (map md_id (ar_rows a1))"
    let ?item = "\<lparr>md_id = 0, md_task_id = in_task_id q, md_run_id = in_run_id q, md_name = trim_space (in_name q),
            md_media_type = (if in_media_type q = [] then ''application/octet-stream'' else in_media_type q),
            md_content_hash = ob_hash ob, md_size = ob_size ob, md_locator = ob_locator ob,
            md_created_by = (if in_created_by q = [] then ''operator'' else in_created_by q),
            md_retention = in_retention q, md_created_at = []\<rparr>"
    obtain a2 where cr: "CreateArtifact (av_now v) d ?item a1 = Inr (a2, m)"
    proof (cases "CreateArtifact (av_now v) d ?item a1")
      case (Inl e)
      with Inr show ?thesis by (simp add: insert_row_def)
    next
      case new: (Inr y)
      with Inr that show ?thesis by (cases y) (simp add: insert_row_def)
    qed
    note row = CreateArtifact_Inr [OF cr]
    have ins: "fst (insert_row v d q ob a1) = a2" by (simp add: insert_row_def cr)
    have "row_backed v (ar_files a1) m" using P(2,4,5) row h by (simp add: row_backed_def)
    moreover have "numbered_rows a2"
      using n1 row next_id_fresh [of "ar_seq a1" "map md_id (ar_rows a1)"] by (simp add: numbered_rows_def)
    ultimately show ?thesis using b1 row by (auto simp: create ins kept_well_def backed_def)
  qed
qed (use k in \<open>simp add: createArtifact_def\<close>)

lemma delete_kept:
  assumes env: "good_env v" and k: "kept_well v a"
  shows "kept_well v (fst (deleteArtifact v i a))"
proof (cases "GetArtifact i a")
  case (Some m)
  then have m: "m \<in> set (ar_rows a)" by (auto simp: GetArtifact_def)
  then have r: "row_backed v (ar_files a) m" using k by (simp add: kept_well_def backed_def)
  have d: "set (ar_rows (delete_row i a)) \<subseteq> set (ar_rows a)" "ar_files (delete_row i a) = ar_files a" "numbered_rows (delete_row i a)"
    using k by (auto simp: delete_row_def DeleteArtifact_def kept_well_def numbered_rows_def del_where_def distinct_map_filter)
  then have "backed v (delete_row i a)" using k by (auto simp: kept_well_def backed_def)
  from sweep_backed [OF env this] r d(3) show ?thesis
    by (auto simp: deleteArtifact_def Some row_backed_def kept_well_def numbered_rows_def)
qed (use k in \<open>simp add: deleteArtifact_def\<close>)

lemma artifact_do_kept: "good_env v \<Longrightarrow> kept_well v a \<Longrightarrow> kept_well v (artifact_do v x a)"
proof (cases x)
  case (CascadeA d)
  assume "kept_well v a"
  then show ?thesis
    by (auto simp: CascadeA cascade_def kept_well_def backed_def numbered_rows_def distinct_map_filter)
qed (simp_all add: create_kept delete_kept)

lemma artifact_ops_kept: "good_env v \<Longrightarrow> kept_well v a \<Longrightarrow> kept_well v (fold (artifact_do v) ops a)"
  by (induction ops arbitrary: a) (simp_all add: artifact_do_kept)

text \<open>
  C30. Whatever uploads, deletions and cascades happen one after the other, every artifact that
  is listed can be read, and its bytes have the recorded hash: no deletion of another artifact
  with the same content takes the shared file away.
\<close>

theorem artifacts_readable:
  assumes env: "good_env v" and a: "a = fold (artifact_do v) ops no_artifacts" and m: "m \<in> set (ar_rows a)"
  shows "\<exists>c. getArtifactContent v (md_id m) a = Inr (m, c) \<and> av_sha v c = md_content_hash m"
proof -
  have "kept_well v no_artifacts" by (simp add: kept_well_def backed_def addressed_def numbered_rows_def no_artifacts_def)
  from artifact_ops_kept [OF env this, of ops] have k: "kept_well v a" by (simp add: a)
  have g: "GetArtifact (md_id m) a = Some m"
    using k m by (simp add: GetArtifact_def kept_well_def numbered_rows_def sel_distinct)
  have r: "row_backed v (ar_files a) m" using k m by (simp add: kept_well_def backed_def)
  then obtain c where c: "ar_files a (below (av_root v) (md_content_hash m)) = Some c" by (auto simp: row_backed_def)
  have "Open (av_root v) (md_locator m) (ar_files a) = Some c"
    using env r c path_locator by (simp add: Open_def row_backed_def good_env_def)
  moreover have "av_sha v c = md_content_hash m"
    using addressed_hash [where v = v and fs = "ar_files a" and h = "md_content_hash m" and c = c] env c r k by (simp add: row_backed_def kept_well_def backed_def)
  ultimately show ?thesis using g by (auto simp: getArtifactContent_def)
qed

text \<open>Two uploads of one content and a third one; the first is deleted, its file stays.\<close>

definition demo_sha :: "string \<Rightarrow> string" where
  "demo_sha c = replicate 64 (if c = ''x'' then CHR ''a'' else CHR ''b'')"

definition demo_artifact_env :: artifact_env where
  "demo_artifact_env = \<lparr>av_root = ''/data'', av_sha = demo_sha, av_now = ''t''\<rparr>"

definition upload :: "string \<Rightarrow> artifact_input" where
  "upload c = \<lparr>in_task_id = Some 1, in_run_id = None, in_name = ''log'', in_media_type = [], in_content = c, in_created_by = [], in_retention = []\<rparr>"

definition one_task :: db where
  "one_task = demo_tasks [demo_task 1 StatusSucceeded]"

definition demo_uploads :: "artifact_op list" where
  "demo_uploads = [CreateA one_task (upload ''x''), CreateA one_task (upload ''x''), CreateA one_task (upload ''y''), DeleteA 1]"

lemma demo_env_good: "good_env demo_artifact_env"
proof -
  have "good_root ''/data''" by code_simp
  moreover have "is_digest (demo_sha c)" for c
    by (auto simp: demo_sha_def is_digest_def hex_digit_def less_eq_char_def list_all_iff)
  ultimately show ?thesis by (simp add: good_env_def demo_artifact_env_def)
qed

lemma demo_uploads_rows:
  "map md_id (ar_rows (fold (artifact_do demo_artifact_env) demo_uploads no_artifacts)) = [2, 3]"
  by code_simp

theorem artifacts_readable_witness:
  "\<exists>m c. getArtifactContent demo_artifact_env 2 (fold (artifact_do demo_artifact_env) demo_uploads no_artifacts) = Inr (m, c) \<and>
     demo_sha c = md_content_hash m"
proof -
  let ?a = "fold (artifact_do demo_artifact_env) demo_uploads no_artifacts"
  have "2 \<in> set (map md_id (ar_rows ?a))" by (simp only: demo_uploads_rows) simp
  then obtain m where m: "m \<in> set (ar_rows ?a)" "md_id m = 2" by auto
  from artifacts_readable [OF demo_env_good refl m(1)] m(2) show ?thesis by (auto simp: demo_artifact_env_def)
qed

section \<open>Where it goes wrong\<close>

text \<open>
  Uploading and deleting are not one step: a deletion that sweeps the file between the moment an
  upload of the same content found it and the moment that upload inserts its row leaves an
  artifact without its file.
\<close>

lemma upload_races_deletion:
  "let v = demo_artifact_env; q = upload ''x'';
       a = fst (createArtifact v one_task q no_artifacts);
       (a1, ob) = put_content v q a;
       a2 = fst (deleteArtifact v 1 a1);
       (a3, r) = insert_row v one_task q ob a2
   in map md_id (ar_rows a3) = [2] \<and> getArtifactContent v 2 a3 = Inl 404"
  by code_simp

text \<open>The rows of a deleted task go with it, the files they named stay for ever.\<close>

lemma cascade_keeps_files:
  "let v = demo_artifact_env; a = cascade empty_db (fst (createArtifact v one_task (upload ''x'') no_artifacts))
   in ar_rows a = [] \<and> ar_files a (below ''/data'' (demo_sha ''x'')) = Some ''x''"
  by code_simp

end
