(* ===== verification/Token_Text.thy ===== *)
theory Token_Text
  imports Decimal_Text
begin

text \<open>
  The encoding of bytes the session tokens use: \<^verbatim>\<open>base64.RawURLEncoding\<close>, that is the URL
  alphabet without padding, whose decoder skips line breaks and ignores the unused bits of the
  last character, and the cut of a text at its last separator.
\<close>

section \<open>Groups of six bits\<close>

fun six_bits :: "nat list \<Rightarrow> nat list" where
  "six_bits [] = []"
| "six_bits [a] = [a div 4, (a mod 4) * 16]"
| "six_bits [a, b] = [a div 4, (a mod 4) * 16 + b div 16, (b mod 16) * 4]"
| "six_bits (a # b # c # xs) =
     [a div 4, (a mod 4) * 16 + b div 16, (b mod 16) * 4 + c div 64, c mod 64] @ six_bits xs"

fun eight_bits :: "nat list \<Rightarrow> nat list option" where
  "eight_bits [] = Some []"
| "eight_bits [a] = None"
| "eight_bits [a, b] = Some [a * 4 + b div 16]"
| "eight_bits [a, b, c] = Some [a * 4 + b div 16, (b mod 16) * 16 + c div 4]"
| "eight_bits (a # b # c # d # xs) =
     map_option (\<lambda>ys. [a * 4 + b div 16, (b mod 16) * 16 + c div 4, (c mod 4) * 64 + d] @ ys) (eight_bits xs)"

lemma glue: "(r::nat) < k \<Longrightarrow> (q * k + r) div k = q \<and> (q * k + r) mod k = r"
  by simp

lemma eight_six_bits: "\<forall>x\<in>set xs. x < 256 \<Longrightarrow> eight_bits (six_bits xs) = Some xs"
proof (induction xs rule: six_bits.induct)
  case (3 a b)
  have "b div 16 < 16" by (rule less_mult_imp_div_less) (use 3 in simp)
  with glue [OF this, of "a mod 4"] show ?case by simp
next
  case (4 a b c xs)
  have "b div 16 < 16" "c div 64 < 4" by (rule less_mult_imp_div_less, use 4(2) in simp)+
  note glue [OF this(1), of "a mod 4"] glue [OF this(2), of "b mod 16"]
  with 4 show ?case by simp
qed simp_all

lemma six_bits_bound: "\<forall>x\<in>set xs. x < 256 \<Longrightarrow> y \<in> set (six_bits xs) \<Longrightarrow> y < 64"
  by (induction xs rule: six_bits.induct) auto

section \<open>The alphabet\<close>

definition url_alphabet :: string where
  "url_alphabet = ''ABCDEFGHIJKLMNOPQRSTUVWXYZabcdefghijklmnopqrstuvwxyz0123456789-_''"

definition b64_char :: "nat \<Rightarrow> char" where
  "b64_char n = url_alphabet ! n"

definition b64_value :: "char \<Rightarrow> nat option" where
  "b64_value c = map_of (zip url_alphabet [0..<64]) c"

fun values_of :: "string \<Rightarrow> nat list option" where
  "values_of [] = Some []"
| "values_of (c # cs) =
     (if c = CHR 0x0A \<or> c = CHR 0x0D then values_of cs
      else (case b64_value c of None \<Rightarrow> None | Some n \<Rightarrow> map_option (\<lambda>ns. n # ns) (values_of cs)))"

definition EncodeToString :: "string \<Rightarrow> string" where
  "EncodeToString bs = map b64_char (six_bits (map of_char bs))"

definition DecodeString :: "string \<Rightarrow> string option" where
  "DecodeString s =
     (case values_of s of None \<Rightarrow> None | Some ns \<Rightarrow> map_option (map char_of) (eight_bits ns))"

lemma url_alphabet_length: "length url_alphabet = 64"
  by (simp add: url_alphabet_def)

lemma url_alphabet_distinct: "distinct url_alphabet"
  by (simp add: url_alphabet_def)

lemma b64_value_char: "n < 64 \<Longrightarrow> b64_value (b64_char n) = Some n"
proof -
  assume n: "n < 64"
  have "map_of (zip url_alphabet [0..<64]) (url_alphabet ! n) = Some ([0..<64] ! n)"
    by (rule map_of_zip_nth) (use n in \<open>simp_all add: url_alphabet_length url_alphabet_distinct\<close>)
  with n show ?thesis by (simp add: b64_value_def b64_char_def)
qed

lemma alphabet_marks: "c \<in> set url_alphabet \<Longrightarrow> c \<noteq> CHR 0x0A \<and> c \<noteq> CHR 0x0D \<and> c \<noteq> CHR ''.''"
  by (auto simp: url_alphabet_def)

lemma b64_char_mem: "n < 64 \<Longrightarrow> b64_char n \<in> set url_alphabet"
  by (simp add: b64_char_def url_alphabet_length)

lemma values_of_chars: "\<forall>n\<in>set ns. n < 64 \<Longrightarrow> values_of (map b64_char ns) = Some ns"
  by (induction ns) (use alphabet_marks b64_char_mem in \<open>auto simp: b64_value_char\<close>)

lemma bytes_small: "\<forall>x\<in>set (map of_char bs). (x :: nat) < 256"
proof
  fix x :: nat assume "x \<in> set (map of_char bs)"
  then obtain c where "x = of_char c" by auto
  then have "x = x mod 256" by (metis of_char_mod_256)
  then show "x < 256" by (metis mod_less_divisor zero_less_numeral)
qed

lemma Decode_Encode: "DecodeString (EncodeToString bs) = Some bs"
proof -
  have "\<forall>n\<in>set (six_bits (map of_char bs)). n < 64" using six_bits_bound [OF bytes_small] by blast
  then show ?thesis
    using eight_six_bits [OF bytes_small [of bs]]
    by (simp add: DecodeString_def EncodeToString_def values_of_chars comp_def)
qed

lemma Encode_no_dot: "CHR ''.'' \<notin> set (EncodeToString bs)"
  using six_bits_bound [OF bytes_small] b64_char_mem alphabet_marks by (fastforce simp: EncodeToString_def)

section \<open>The last separator\<close>

text \<open>The texts before and after the last \<open>c\<close>, what \<^verbatim>\<open>strings.LastIndexByte\<close> is used for.\<close>

definition cut_last :: "char \<Rightarrow> string \<Rightarrow> (string \<times> string) option" where
  "cut_last c s =
     (let tail = rev (takeWhile (\<lambda>x. x \<noteq> c) (rev s)) in
      if c \<notin> set s then None else Some (take (length s - length tail - 1) s, tail))"

lemma cut_last_append:
  assumes "c \<notin> set b"
  shows "cut_last c (a @ c # b) = Some (a, b)"
proof -
  have "takeWhile (\<lambda>x. x \<noteq> c) (rev b @ c # rev a) = rev b" using assms by (subst takeWhile_append2) auto
  then show ?thesis by (simp add: cut_last_def)
qed

lemma cut_last_Some:
  assumes "cut_last c s = Some (a, b)"
  shows "s = a @ c # b"
proof -
  have "c \<in> set s" using assms by (simp add: cut_last_def Let_def split: if_splits)
  then obtain a' b' where s: "s = a' @ c # b'" "c \<notin> set b'" using split_list_last by metis
  with cut_last_append [of c b' a'] assms show ?thesis by simp
qed

section \<open>Tokens (orchestrator.go)\<close>

text \<open>\<open>mac\<close> is HMAC-SHA256 under a key; the payload names the session.\<close>

definition TokenPrefix :: string where "TokenPrefix = ''ph_''"

definition token_payload :: "int \<Rightarrow> string" where
  "token_payload sessionID = ''session:'' @ FormatInt sessionID"

definition SignToken :: "(string \<Rightarrow> string \<Rightarrow> string) \<Rightarrow> string \<Rightarrow> int \<Rightarrow> string" where
  "SignToken mac secret sessionID =
     TokenPrefix @ FormatInt sessionID @ ''.'' @ EncodeToString (mac secret (token_payload sessionID))"

definition VerifyToken :: "(string \<Rightarrow> string \<Rightarrow> string) \<Rightarrow> string \<Rightarrow> string \<Rightarrow> int option" where
  "VerifyToken mac secret token =
     (if \<not> has_prefix token TokenPrefix then None
      else case cut_last (CHR ''.'') (drop (length TokenPrefix) token) of
        None \<Rightarrow> None
      | Some (before_dot, after_dot) \<Rightarrow>
          if before_dot = [] then None
          else (case ParseInt before_dot of
              None \<Rightarrow> None
            | Some i \<Rightarrow>
                if i < 1 then None
                else (case DecodeString after_dot of
                    None \<Rightarrow> None
                  | Some sig \<Rightarrow>
                      let want = mac secret (token_payload i) in
                      if length sig \<noteq> length want \<or> sig \<noteq> want then None else Some i)))"

text \<open>
  C31. The token signed for a session is accepted and names that session; and a token is only
  accepted for a session when it carries the MAC of exactly that session's payload under the
  secret of the server, for any MAC function and any bytes presented.
\<close>

theorem token_authentic:
  "(1 \<le> i \<and> i \<le> max_int64 \<longrightarrow> VerifyToken mac secret (SignToken mac secret i) = Some i) \<and>
   (VerifyToken mac secret token = Some j \<longrightarrow> 1 \<le> j \<and>
      (\<exists>n sig. token = TokenPrefix @ n @ ''.'' @ sig \<and> ParseInt n = Some j \<and>
         DecodeString sig = Some (mac secret (token_payload j))))"
proof (intro conjI impI)
  assume i: "1 \<le> i \<and> i \<le> max_int64"
  let ?sig = "EncodeToString (mac secret (token_payload i))"
  have "cut_last (CHR ''.'') (FormatInt i @ CHR ''.'' # ?sig) = Some (FormatInt i, ?sig)"
    by (rule cut_last_append) (rule Encode_no_dot)
  moreover have "ParseInt (FormatInt i) = Some i" by (rule ParseInt_FormatInt) (use i in \<open>simp_all add: max_int64_def\<close>)
  ultimately show "VerifyToken mac secret (SignToken mac secret i) = Some i"
    using i by (simp add: VerifyToken_def SignToken_def has_prefix_def Decode_Encode Let_def)
next
  assume "VerifyToken mac secret token = Some j"
  then obtain a b sig where pre: "has_prefix token TokenPrefix"
    and cut: "cut_last (CHR ''.'') (drop (length TokenPrefix) token) = Some (a, b)"
    and v: "ParseInt a = Some j" "1 \<le> j" "DecodeString b = Some sig" "sig = mac secret (token_payload j)"
    by (auto simp: VerifyToken_def Let_def split: if_splits option.splits prod.splits)
  then show "1 \<le> j" by simp
  have "token = TokenPrefix @ drop (length TokenPrefix) token"
    using pre by (metis append_take_drop_id has_prefix_def)
  also have "drop (length TokenPrefix) token = a @ ''.'' @ b" using cut_last_Some [OF cut] by simp
  finally show "\<exists>n sig. token = TokenPrefix @ n @ ''.'' @ sig \<and> ParseInt n = Some j \<and>
      DecodeString sig = Some (mac secret (token_payload j))" using v by blast
qed

theorem token_authentic_witness:
  "VerifyToken (\<lambda>k p. k @ p) ''key'' (SignToken (\<lambda>k p. k @ p) ''key'' 7) = Some 7 \<and>
   VerifyToken (\<lambda>k p. k @ p) ''other'' (SignToken (\<lambda>k p. k @ p) ''key'' 7) = None"
proof -
  have "VerifyToken (\<lambda>k p. k @ p) ''other'' (SignToken (\<lambda>k p. k @ p) ''key'' 7) = None" by code_simp
  with token_authentic [of 7 "\<lambda>k p. k @ p" "''key''"] show ?thesis by (simp add: max_int64_def)
qed

end
