(* ===== verification/Orchestrator.thy ===== *)
theory Orchestrator
  imports Lifecycle_Effects Artifact_Store Token_Text
begin

text \<open>
  \<^verbatim>\<open>internal/orchestrator/orchestrator.go\<close>: the tools with which the agent of a session
  creates tasks and follows them. Reads take the database and the table of artifacts; the rounds
  of \<open>Await\<close> see the states the rest of the server produces, each round one state.
  Errors are named; a nil pointer that is followed is \<open>NilRole\<close>.
\<close>

datatype orch_error =
    SessionGone | NotASession | SessionIdle status | NilRole | RoleGone | NoDelegation
  | TitleEmpty | BodyEmpty | RoleIdMissing | ChildRoleGone | ChildRoleDisabled string
  | PermUnknown | PermAboveLimit string perm | BatchOnly | ChildProjectGone
  | CreateFailed TaskLifecycleError | StoreFailed store_error
  | NoTaskIds | TaskIdInvalid | TaskIdTwice int | TaskForeign int | ContextDone
  | OtherTree | ArtifactGone | ArtifactForeign | RunArtifact | ArtifactUnreadable

section \<open>Results of tasks\<close>

record ArtifactMeta =
  am_id :: int
  am_task_id :: "int option"
  am_name :: string
  am_media_type :: string
  am_size :: int

record TaskResult =
  rs_task_id :: int
  rs_type :: task_type
  rs_title :: string
  rs_status :: status
  rs_perm :: perm
  rs_role_id :: "int option"
  rs_role_name :: string
  rs_project_id :: "int option"
  rs_project_name :: string
  rs_exit_code :: "int option"
  rs_error :: string
  rs_review_note :: string
  rs_review_rounds :: int
  rs_started_at :: "string option"
  rs_finished_at :: "string option"
  rs_updated_at :: string
  rs_delivery_terminal :: bool
  rs_delivery_succeeded :: bool
  rs_artifacts :: "ArtifactMeta list"

text \<open>The names a row is read with: \<^verbatim>\<open>COALESCE(a.name, '')\<close> of a left join.\<close>

definition role_name :: "db \<Rightarrow> int option \<Rightarrow> string" where
  "role_name d r = (case r of None \<Rightarrow> [] | Some i \<Rightarrow> (case get_role_row i d of None \<Rightarrow> [] | Some a \<Rightarrow> a_name a))"

definition project_name :: "db \<Rightarrow> int option \<Rightarrow> string" where
  "project_name d r = (case r of None \<Rightarrow> [] | Some i \<Rightarrow> (case get_project i d of None \<Rightarrow> [] | Some p \<Rightarrow> p_name p))"

definition listArtifactsForTask :: "artifacts \<Rightarrow> int \<Rightarrow> ArtifactMeta list" where
  "listArtifactsForTask a taskID =
     map (\<lambda>m. \<lparr>am_id = md_id m, am_task_id = md_task_id m, am_name = md_name m,
         am_media_type = md_media_type m, am_size = md_size m\<rparr>) (ListArtifacts (Some taskID) None a)"

definition resultOf :: "db \<Rightarrow> artifacts \<Rightarrow> task \<Rightarrow> orch_error + TaskResult" where
  "resultOf d a tk =
     (case TaskDeliveryResult (t_id tk) d of
        Inl e \<Rightarrow> Inl (StoreFailed e)
      | Inr (terminal, succeeded) \<Rightarrow>
          Inr \<lparr>rs_task_id = t_id tk, rs_type = t_type tk, rs_title = t_title tk, rs_status = t_status tk,
            rs_perm = t_perm tk, rs_role_id = t_role_id tk, rs_role_name = role_name d (t_role_id tk),
            rs_project_id = t_project_id tk, rs_project_name = project_name d (t_project_id tk),
            rs_exit_code = t_exit_code tk, rs_error = t_error tk, rs_review_note = t_review_note tk,
            rs_review_rounds = t_review_rounds tk, rs_started_at = t_started_at tk,
            rs_finished_at = t_finished_at tk, rs_updated_at = t_updated_at tk,
            rs_delivery_terminal = terminal, rs_delivery_succeeded = succeeded,
            rs_artifacts = listArtifactsForTask a (t_id tk)\<rparr>)"

fun result_list :: "db \<Rightarrow> artifacts \<Rightarrow> task list \<Rightarrow> orch_error + TaskResult list" where
  "result_list d a [] = Inr []"
| "result_list d a (t # ts) = rbind (resultOf d a t) (\<lambda>r. rbind (result_list d a ts) (\<lambda>rs. Inr (r # rs)))"

section \<open>Who may call\<close>

definition DelegationPermAllowed :: "role \<Rightarrow> perm \<Rightarrow> bool" where
  "DelegationPermAllowed a p =
     (if \<not> a_delegation_enabled a then False
      else let m = (if a_delegation_max_perm a = PermOther [] then PermReview else a_delegation_max_perm a) in
        if p = PermFull then m = PermFull else p = PermReview)"

definition sessionContext :: "db \<Rightarrow> int \<Rightarrow> orch_error + SessionTask" where
  "sessionContext d sessionID =
     (case GetSessionTask sessionID d of
        None \<Rightarrow> Inl SessionGone
      | Some tk \<Rightarrow>
          (case AsSession tk of
             None \<Rightarrow> Inl NotASession
           | Some ss \<Rightarrow>
               if ss_status ss \<noteq> SessionStatusActive then Inl (SessionIdle (ss_status ss))
               else (case ss_role_id ss of
                   None \<Rightarrow> Inl NilRole
                 | Some r \<Rightarrow>
                     (case get_role_row r d of
                        None \<Rightarrow> Inl RoleGone
                      | Some agent \<Rightarrow>
                          if \<not> a_delegation_enabled agent then Inl NoDelegation else Inr ss))))"

definition inSessionSubtree :: "db \<Rightarrow> int \<Rightarrow> int \<Rightarrow> orch_error + bool" where
  "inSessionSubtree d sessionID taskID =
     (case get_task taskID d of
        None \<Rightarrow> Inl (StoreFailed ErrNoRows)
      | Some tk \<Rightarrow> Inr (t_parent_session_id tk = Some sessionID))"

section \<open>spawn_task\<close>

record spawnArgs =
  sp_project_id :: "int option"
  sp_role_id :: int
  sp_title :: string
  sp_body :: string
  sp_perm :: string
  sp_run_mode :: string
  sp_concurrent :: bool
  sp_dependency_mode :: string
  sp_depends_on :: "int option"
  sp_block_on_failure :: bool
  sp_sync :: bool
  sp_sync_timeout :: int

record spawnReceipt =
  sr_task_id :: int
  sr_title :: string
  sr_status :: status
  sr_perm :: perm
  sr_role_id :: "int option"
  sr_role_name :: string
  sr_project_id :: "int option"
  sr_project_name :: string
  sr_parent_session_id :: int
  sr_parent_task_id :: int
  sr_created_at :: string

definition child_perm :: "role \<Rightarrow> spawnArgs \<Rightarrow> string" where
  "child_perm agent args =
     (if sp_perm args = [] then (if DelegationPermAllowed agent PermFull then ''full'' else ''review'') else sp_perm args)"

definition child_project :: "SessionTask \<Rightarrow> spawnArgs \<Rightarrow> int option" where
  "child_project ss args =
     (if sp_project_id args = None \<and> ss_project_id ss \<noteq> None then ss_project_id ss else sp_project_id args)"

text \<open>The checks before the task is created, in the order of the code.\<close>

definition spawn_admit :: "db \<Rightarrow> role \<Rightarrow> SessionTask \<Rightarrow> spawnArgs \<Rightarrow> orch_error + unit" where
  "spawn_admit d agent ss args =
     (if trim_space (sp_title args) = [] then Inl TitleEmpty
      else if trim_space (sp_body args) = [] then Inl BodyEmpty
      else if sp_role_id args < 1 then Inl RoleIdMissing
      else case get_role_row (sp_role_id args) d of
        None \<Rightarrow> Inl ChildRoleGone
      | Some childRole \<Rightarrow>
          let perm = child_perm agent args in
          if \<not> a_enabled childRole then Inl (ChildRoleDisabled (a_name childRole))
          else if perm \<noteq> ''full'' \<and> perm \<noteq> ''review'' then Inl PermUnknown
          else if \<not> DelegationPermAllowed agent (perm_of perm)
          then Inl (PermAboveLimit perm (a_delegation_max_perm agent))
          else if (if sp_run_mode args = [] then ''batch'' else sp_run_mode args) \<noteq> ''batch'' then Inl BatchOnly
          else (case child_project ss args of
              None \<Rightarrow> Inr ()
            | Some p \<Rightarrow> rguard (get_project p d \<noteq> None) ChildProjectGone))"

definition spawn_request :: "int \<Rightarrow> role \<Rightarrow> SessionTask \<Rightarrow> spawnArgs \<Rightarrow> CreateTaskRequest" where
  "spawn_request sessionID agent ss args =
     \<lparr>c_title = trim_space (sp_title args), c_body = trim_space (sp_body args), c_role_id = Some (sp_role_id args),
      c_project_id = child_project ss args, c_external_key = [], c_perm = child_perm agent args,
      c_run_mode = (if sp_run_mode args = [] then ''batch'' else sp_run_mode args), c_concurrent = sp_concurrent args,
      c_dependency_mode = (if sp_dependency_mode args = [] then ''none'' else sp_dependency_mode args),
      c_depends_on = sp_depends_on args, c_block_on_failure = sp_block_on_failure args,
      c_parent_id = None, c_resume_of = None, c_parent_session_id = Some sessionID, c_parent_task_id = Some sessionID,
      c_cron = [], c_enabled = False\<rparr>"

definition receipt_of :: "db \<Rightarrow> int \<Rightarrow> task \<Rightarrow> spawnReceipt" where
  "receipt_of d sessionID tk =
     \<lparr>sr_task_id = t_id tk, sr_title = t_title tk, sr_status = t_status tk, sr_perm = t_perm tk,
      sr_role_id = t_role_id tk, sr_role_name = role_name d (t_role_id tk),
      sr_project_id = t_project_id tk, sr_project_name = project_name d (t_project_id tk),
      sr_parent_session_id = sessionID, sr_parent_task_id = sessionID, sr_created_at = t_created_at tk\<rparr>"

definition spawnCreate :: "life_env \<Rightarrow> int \<Rightarrow> spawnArgs \<Rightarrow> life \<Rightarrow> life \<times> (orch_error + spawnReceipt)" where
  "spawnCreate v sessionID args l =
     (case sessionContext (l_db l) sessionID of
        Inl e \<Rightarrow> (l, Inl e)
      | Inr ss \<Rightarrow>
      case ss_role_id ss of
        None \<Rightarrow> (l, Inl NilRole)
      | Some r \<Rightarrow>
      case get_role_row r (l_db l) of
        None \<Rightarrow> (l, Inl RoleGone)
      | Some agent \<Rightarrow>
      case spawn_admit (l_db l) agent ss args of
        Inl e \<Rightarrow> (l, Inl e)
      | Inr _ \<Rightarrow>
      case create_task v (spawn_request sessionID agent ss args) l of
        (l', Inl e) \<Rightarrow> (l', Inl (CreateFailed e))
      | (l', Inr tk) \<Rightarrow> (l', Inr (receipt_of (l_db l') sessionID tk)))"

definition Spawn :: "life_env \<Rightarrow> int \<Rightarrow> spawnArgs \<Rightarrow> life \<Rightarrow> life \<times> (orch_error + spawnReceipt)" where
  "Spawn v sessionID args l = spawnCreate v sessionID args l"

section \<open>await_tasks\<close>

text \<open>
  A world: the clock at the start, its value when round \<open>k\<close> compares it with the deadline, the
  state that round \<open>k + 1\<close> reads, and whether the caller is gone when round \<open>k\<close> waits.
  Times are nanoseconds.
\<close>

record world =
  w_start :: int
  w_clock :: "nat \<Rightarrow> int"
  w_later :: "nat \<Rightarrow> db \<times> artifacts"
  w_gone :: "nat \<Rightarrow> bool"

definition world_at :: "world \<Rightarrow> db \<Rightarrow> artifacts \<Rightarrow> nat \<Rightarrow> db \<times> artifacts" where
  "world_at w d a k = (case k of 0 \<Rightarrow> (d, a) | Suc j \<Rightarrow> w_later w j)"

record awaitOutcome =
  aw_result :: TaskResult
  aw_pending :: bool

type_synonym outcomes = "(int \<times> awaitOutcome) list"

definition isTerminalStatus :: "status \<Rightarrow> bool" where
  "isTerminalStatus st \<longleftrightarrow> st \<in> {StatusSucceeded, StatusFailed, StatusCancelled}"

text \<open>\<^verbatim>\<open>time.Duration\<close> is an int64: the product of the seconds wraps.\<close>

definition second :: int where "second = 1000000000"
definition defaultAwaitTimeout :: int where "defaultAwaitTimeout = 10 * 60 * second"
definition maxAwaitTimeout :: int where "maxAwaitTimeout = 30 * 60 * second"
definition await_tick :: int where "await_tick = 500000000"

definition await_timeout :: "int \<Rightarrow> int" where
  "await_timeout secs =
     (let t = (if secs > 0 then sint (word_of_int secs * word_of_int second :: 64 word) else defaultAwaitTimeout) in
      if t > maxAwaitTimeout then maxAwaitTimeout else t)"

fun await_check :: "db \<Rightarrow> int \<Rightarrow> int list \<Rightarrow> int list \<Rightarrow> orch_error + unit" where
  "await_check d sessionID seen [] = Inr ()"
| "await_check d sessionID seen (i # ids) =
     (if i < 1 then Inl TaskIdInvalid
      else if i \<in> set seen then Inl (TaskIdTwice i)
      else rbind (inSessionSubtree d sessionID i) (\<lambda>ok.
        if \<not> ok then Inl (TaskForeign i) else await_check d sessionID (i # seen) ids))"

fun await_round :: "db \<Rightarrow> artifacts \<Rightarrow> int list \<Rightarrow> orch_error + outcomes" where
  "await_round d a [] = Inr []"
| "await_round d a (i # ids) =
     (case get_task i d of
        None \<Rightarrow> Inl (StoreFailed ErrNoRows)
      | Some tk \<Rightarrow>
          rbind (resultOf d a tk) (\<lambda>res.
            rbind (await_round d a ids) (\<lambda>rest.
              Inr ((i, \<lparr>aw_result = res,
                aw_pending = \<not> (isTerminalStatus (t_status tk) \<or> t_status tk = StatusAwaitingReview)\<rparr>) # rest))))"

partial_function (option) await_loop ::
  "world \<Rightarrow> db \<Rightarrow> artifacts \<Rightarrow> int list \<Rightarrow> int \<Rightarrow> nat \<Rightarrow> (orch_error + (outcomes \<times> bool)) option" where
  "await_loop w d a ids deadline k =
     (case await_round (fst (world_at w d a k)) (snd (world_at w d a k)) ids of
        Inl e \<Rightarrow> Some (Inl e)
      | Inr results \<Rightarrow>
          if list_all (\<lambda>(i, out). \<not> aw_pending out) results then Some (Inr (results, False))
          else if deadline < w_clock w k then Some (Inr (results, True))
          else if w_gone w k then Some (Inl ContextDone)
          else await_loop w d a ids deadline (Suc k))"

definition Await ::
  "world \<Rightarrow> int \<Rightarrow> int list \<Rightarrow> int \<Rightarrow> db \<Rightarrow> artifacts \<Rightarrow> (orch_error + (outcomes \<times> bool)) option" where
  "Await w sessionID taskIDs secs d a =
     (if taskIDs = [] then Some (Inl NoTaskIds)
      else case await_check d sessionID [] taskIDs of
        Inl e \<Rightarrow> Some (Inl e)
      | Inr _ \<Rightarrow> await_loop w d a taskIDs (w_start w + await_timeout secs) 0)"

definition SpawnSync ::
  "life_env \<Rightarrow> world \<Rightarrow> int \<Rightarrow> spawnArgs \<Rightarrow> artifacts \<Rightarrow> life \<Rightarrow>
   life \<times> (orch_error + (spawnReceipt \<times> TaskResult option \<times> bool)) option" where
  "SpawnSync v w sessionID args a l =
     (case spawnCreate v sessionID args l of
        (l', Inl e) \<Rightarrow> (l', Some (Inl e))
      | (l', Inr receipt) \<Rightarrow>
          let secs = (if sp_sync_timeout args \<le> 0 then 600 else sp_sync_timeout args) in
          (l', map_option (\<lambda>r. rbind r (\<lambda>(outcomes, timedOut).
             Inr (receipt, map_option aw_result (map_of outcomes (sr_task_id receipt)), timedOut)))
             (Await w sessionID [sr_task_id receipt] secs (l_db l') a)))"

section \<open>list_children, get_task_result, fetch_artifact\<close>

record listChildrenArgs =
  lc_session_id :: "int option"
  lc_parent_id :: "int option"

definition ListChildrenTool :: "db \<Rightarrow> artifacts \<Rightarrow> int \<Rightarrow> listChildrenArgs \<Rightarrow> orch_error + TaskResult list" where
  "ListChildrenTool d a sessionID args =
     rbind (sessionContext d sessionID) (\<lambda>_.
       if lc_session_id args \<noteq> None \<and> lc_session_id args \<noteq> Some sessionID then Inl OtherTree
       else case lc_parent_id args of
         Some p \<Rightarrow> result_list d a (filter (\<lambda>tk. t_parent_session_id tk = Some sessionID) (ListChildrenByParentTask p d))
       | None \<Rightarrow> result_list d a (ListChildrenBySession sessionID d))"

definition GetResult :: "db \<Rightarrow> artifacts \<Rightarrow> int \<Rightarrow> int \<Rightarrow> orch_error + TaskResult" where
  "GetResult d a sessionID taskID =
     rbind (sessionContext d sessionID) (\<lambda>_.
     rbind (inSessionSubtree d sessionID taskID) (\<lambda>ok.
       if \<not> ok then Inl (TaskForeign taskID)
       else case get_task taskID d of
         None \<Rightarrow> Inl (StoreFailed ErrNoRows)
       | Some tk \<Rightarrow> resultOf d a tk))"

text \<open>\<^verbatim>\<open>io.LimitReader\<close>: the first \<open>n\<close> bytes, \<open>n\<close> an int64.\<close>

fun first_bytes :: "int \<Rightarrow> string \<Rightarrow> string" where
  "first_bytes n [] = []"
| "first_bytes n (c # cs) = (if n \<le> 0 then [] else c # first_bytes (n - 1) cs)"

definition defaultArtifactMax :: int where "defaultArtifactMax = 262144"
definition maxArtifactMax :: int where "maxArtifactMax = 1048576"

definition artifact_cap :: "int \<Rightarrow> int" where
  "artifact_cap maxBytes =
     (let limit = (if maxBytes \<le> 0 then defaultArtifactMax else maxBytes) in
      if limit > maxArtifactMax then maxArtifactMax else limit)"

text \<open>\<^verbatim>\<open>base64.StdEncoding\<close>: the standard alphabet, padded to groups of four.\<close>

definition std_alphabet :: string where
  "std_alphabet = ''ABCDEFGHIJKLMNOPQRSTUVWXYZabcdefghijklmnopqrstuvwxyz0123456789+/''"

definition StdEncode :: "string \<Rightarrow> string" where
  "StdEncode bs =
     (let ns = six_bits (map of_char bs) in
      map (\<lambda>n. std_alphabet ! n) ns @ replicate ((4 - length ns mod 4) mod 4) (CHR ''=''))"

record fetched =
  fa_meta :: Metadata
  fa_content :: "(bool \<times> string) option"   \<comment> \<open>truncated and the bytes in base64; none without a store\<close>

definition FetchArtifact ::
  "(string \<Rightarrow> string option) option \<Rightarrow> db \<Rightarrow> artifacts \<Rightarrow> int \<Rightarrow> int \<Rightarrow> int \<Rightarrow> orch_error + fetched" where
  "FetchArtifact opener d a sessionID artifactID maxBytes =
     rbind (sessionContext d sessionID) (\<lambda>_.
       case GetArtifact artifactID a of
         None \<Rightarrow> Inl ArtifactGone
       | Some meta \<Rightarrow>
           rbind (case md_task_id meta of
               None \<Rightarrow> Inr ()
             | Some t \<Rightarrow> rbind (inSessionSubtree d sessionID t) (\<lambda>ok. rguard ok ArtifactForeign)) (\<lambda>_.
           if md_task_id meta = None then Inl RunArtifact
           else case opener of
             None \<Rightarrow> Inr \<lparr>fa_meta = meta, fa_content = None\<rparr>
           | Some opn \<Rightarrow>
               (case opn (md_locator meta) of
                  None \<Rightarrow> Inl ArtifactUnreadable
                | Some rc \<Rightarrow>
                    let limit = artifact_cap maxBytes;
                        body = first_bytes (limit + 1) rc;
                        truncated = (int (length body) > limit)
                    in Inr \<lparr>fa_meta = meta, fa_content =
                         Some (truncated, StdEncode (if truncated then first_bytes limit body else body))\<rparr>)))"

end
