(* ===== verification/Orchestrator_Laws.thy ===== *)
theory Orchestrator_Laws
  imports Orchestrator
begin

text \<open>What the tools of a session may create, how long they wait, what they show and how much.\<close>

section \<open>Creation\<close>

text \<open>\<open>delegated d d' sid t\<close>: \<open>t\<close> is a task the session \<open>sid\<close> was allowed to create.\<close>

definition delegated :: "db \<Rightarrow> db \<Rightarrow> int \<Rightarrow> task \<Rightarrow> bool" where
  "delegated d d' sid t \<longleftrightarrow> created d d' t \<and>
     (\<exists>ss r agent. sessionContext d sid = Inr ss \<and> ss_role_id ss = Some r \<and> get_role_row r d = Some agent \<and>
        a_delegation_enabled agent \<and> (t_perm t = PermFull \<longrightarrow> a_delegation_max_perm agent = PermFull)) \<and>
     t_parent_session_id t = Some sid \<and> t_parent_task_id t = Some sid \<and>
     t_perm t \<in> {PermFull, PermReview} \<and> t_status t = StatusQueued \<and> t_run_mode t = RunModeBatch \<and>
     t_title t \<noteq> [] \<and> trim_space (t_body t) \<noteq> [] \<and>
     (\<exists>r a. t_role_id t = Some r \<and> get_role_row r d = Some a \<and> a_enabled a)"

lemma session_perm_names: "p = ''full'' \<or> p = ''review'' \<Longrightarrow> session_perm p = perm_of p"
  by (auto simp: session_perm_def)

lemma allowed_full: "DelegationPermAllowed a PermFull \<Longrightarrow> a_delegation_enabled a \<and> a_delegation_max_perm a = PermFull"
  by (auto simp: DelegationPermAllowed_def Let_def split: if_splits)

lemma spawn_admit_Inr:
  assumes "spawn_admit d agent ss args = Inr u"
  shows "trim_space (sp_title args) \<noteq> []" and "trim_space (sp_body args) \<noteq> []"
    and "child_perm agent args = ''full'' \<or> child_perm agent args = ''review''"
    and "DelegationPermAllowed agent (perm_of (child_perm agent args))"
    and "(if sp_run_mode args = [] then ''batch'' else sp_run_mode args) = ''batch''"
  using assms by (auto simp: spawn_admit_def Let_def split: if_splits option.splits)

lemma spawnCreate_outcome:
  assumes good: "schema_ok (l_db l)" and run: "spawnCreate v sid args l = (l', r)"
  shows "case r of Inl e \<Rightarrow> l' = l
    | Inr rc \<Rightarrow> \<exists>t. delegated (l_db l) (l_db l') sid t \<and> rc = receipt_of (l_db l') sid t \<and> l' = set_db (l_db l') l"
proof (cases "\<exists>e. spawnCreate v sid args l = (l, Inl e)")
  case True
  with run show ?thesis by auto
next
  case False
  then obtain ss ro agent where ctx: "sessionContext (l_db l) sid = Inr ss" "ss_role_id ss = Some ro"
      "get_role_row ro (l_db l) = Some agent" and adm: "spawn_admit (l_db l) agent ss args = Inr ()"
    by (auto simp: spawnCreate_def split: sum.splits option.splits)
  let ?q = "spawn_request sid agent ss args"
  obtain l1 x where cr: "create_task v ?q l = (l1, x)" by fastforce
  note out = create_outcome [OF good cr]
  from run ctx adm cr have res: "l' = l1" "r = (case x of Inl e \<Rightarrow> Inl (CreateFailed e) | Inr t \<Rightarrow> Inr (receipt_of (l_db l1) sid t))"
    by (auto simp: spawnCreate_def split: sum.splits)
  show ?thesis
  proof (cases x)
    case (Inl e)
    with out res show ?thesis by simp
  next
    case (Inr t)
    note a = spawn_admit_Inr [OF adm]
    note f = created_task_fields [OF good cr [unfolded Inr]]
    have en: "a_delegation_enabled agent" using a(4) by (auto simp: DelegationPermAllowed_def split: if_splits)
    have p: "t_perm t = perm_of (child_perm agent args)" using f(4) session_perm_names [OF a(3)] by (simp add: spawn_request_def)
    have "t_perm t \<in> {PermFull, PermReview}" using a(3) p by (auto simp: perm_of_def)
    moreover have "t_perm t = PermFull \<longrightarrow> a_delegation_max_perm agent = PermFull" using a(4) p allowed_full by metis
    moreover have "t_title t \<noteq> []" "trim_space (t_body t) \<noteq> []" using a(1,2) f(2,3) by (simp_all add: spawn_request_def)
    moreover have "t_parent_session_id t = Some sid" "t_parent_task_id t = Some sid" using f(6,7) by (simp_all add: spawn_request_def)
    moreover have "t_run_mode t = RunModeBatch" using f(5) a(5) by (auto simp: spawn_request_def run_mode_of_def)
    moreover have "t_status t = StatusQueued" using f(1) by (simp add: well_formed_def)
    moreover have "\<exists>r a. t_role_id t = Some r \<and> get_role_row r (l_db l) = Some a \<and> a_enabled a"
      using f(1) by (simp add: spawn_request_def)
    moreover have "created (l_db l) (l_db l1) t" using out Inr by simp
    ultimately have "delegated (l_db l) (l_db l1) sid t" using ctx en unfolding delegated_def by blast
    moreover have "l1 = set_db (l_db l1) l"
      using cr Inr by (auto simp: create_task_def reread_def set_db_def split: sum.splits option.splits prod.splits)
    ultimately show ?thesis using res Inr by auto
  qed
qed

section \<open>Waiting\<close>

lemma await_timeout_max: "await_timeout secs \<le> maxAwaitTimeout"
  by (simp add: await_timeout_def Let_def)

lemma await_round_Inr:
  assumes "await_round d a ids = Inr outs"
  shows "map fst outs = ids"
    and "(i, out) \<in> set outs \<Longrightarrow> \<exists>tk. get_task i d = Some tk \<and> resultOf d a tk = Inr (aw_result out) \<and>
      (aw_pending out \<longleftrightarrow> \<not> isTerminalStatus (t_status tk) \<and> t_status tk \<noteq> StatusAwaitingReview)"
proof -
  show "map fst outs = ids"
    using assms by (induction ids arbitrary: outs) (auto simp: rbind_eq_Inr split: option.splits)
  assume "(i, out) \<in> set outs"
  with assms show "\<exists>tk. get_task i d = Some tk \<and> resultOf d a tk = Inr (aw_result out) \<and>
      (aw_pending out \<longleftrightarrow> \<not> isTerminalStatus (t_status tk) \<and> t_status tk \<noteq> StatusAwaitingReview)"
    by (induction ids arbitrary: outs) (auto simp: rbind_eq_Inr split: option.splits)
qed

lemma resultOf_id: "resultOf d a tk = Inr res \<Longrightarrow> rs_task_id res = t_id tk"
  by (auto simp: resultOf_def split: sum.splits)

lemma await_loop_step:
  "await_loop w d a ids deadline k =
     (case await_round (fst (world_at w d a k)) (snd (world_at w d a k)) ids of
        Inl e \<Rightarrow> Some (Inl e)
      | Inr results \<Rightarrow>
          if list_all (\<lambda>(i, out). \<not> aw_pending out) results then Some (Inr (results, False))
          else if deadline < w_clock w k then Some (Inr (results, True))
          else if w_gone w k then Some (Inl ContextDone)
          else await_loop w d a ids deadline (Suc k))"
  by (rule await_loop.simps)

text \<open>A round that ends the loop, and the answer it ends with.\<close>

definition answers :: "world \<Rightarrow> db \<Rightarrow> artifacts \<Rightarrow> int list \<Rightarrow> nat \<Rightarrow> outcomes \<Rightarrow> bool \<Rightarrow> bool" where
  "answers w d a ids k outs late \<longleftrightarrow>
     await_round (fst (world_at w d a k)) (snd (world_at w d a k)) ids = Inr outs \<and>
     (late \<longleftrightarrow> (\<exists>x\<in>set outs. aw_pending (snd x)))"

lemma await_loop_ends:
  assumes "\<not> (\<exists>results. await_round (fst (world_at w d a k)) (snd (world_at w d a k)) ids = Inr results \<and>
     (\<exists>x\<in>set results. aw_pending (snd x)) \<and> \<not> deadline < w_clock w k \<and> \<not> w_gone w k)"
  shows "\<exists>r. await_loop w d a ids deadline k = Some r \<and> (\<forall>outs late. r = Inr (outs, late) \<longrightarrow> answers w d a ids k outs late)"
proof (cases "await_round (fst (world_at w d a k)) (snd (world_at w d a k)) ids")
  case (Inl e)
  then show ?thesis by (subst await_loop_step) simp
next
  case (Inr results)
  have p: "list_all (\<lambda>(i, out). \<not> aw_pending out) results \<longleftrightarrow> \<not> (\<exists>x\<in>set results. aw_pending (snd x))"
    by (auto simp: list_all_iff)
  show ?thesis
  proof (cases "\<exists>x\<in>set results. aw_pending (snd x)")
    case True
    then show ?thesis using assms Inr p by (subst await_loop_step) (auto simp: answers_def)
  next
    case False
    then show ?thesis using Inr p by (subst await_loop_step) (simp add: answers_def)
  qed
qed

lemma await_loop_answers:
  "deadline < w_clock w (k + n) \<Longrightarrow>
   \<exists>r. await_loop w d a ids deadline k = Some r \<and>
     (\<forall>outs late. r = Inr (outs, late) \<longrightarrow> (\<exists>j \<le> k + n. answers w d a ids j outs late))"
proof (induction n arbitrary: k)
  case 0
  then have "deadline < w_clock w k" by simp
  then show ?case using await_loop_ends [of w d a k ids deadline] by auto
next
  case (Suc n)
  show ?case
  proof (cases "\<exists>results. await_round (fst (world_at w d a k)) (snd (world_at w d a k)) ids = Inr results \<and>
     (\<exists>x\<in>set results. aw_pending (snd x)) \<and> \<not> deadline < w_clock w k \<and> \<not> w_gone w k")
    case True
    then have eq: "await_loop w d a ids deadline k = await_loop w d a ids deadline (Suc k)"
      by (subst await_loop_step) (auto simp: list_all_iff)
    have "deadline < w_clock w (Suc k + n)" using Suc.prems by simp
    from Suc.IH [OF this] show ?thesis unfolding eq by simp
  next
    case False
    from await_loop_ends [OF this] show ?thesis by (meson le_add1)
  qed
qed

text \<open>
  C32. Waiting ends: when the ticks of the clock are at least half a second apart, \<open>Await\<close>
  answers after at most 3602 rounds, whatever timeout is asked for and whatever the tasks do. Its
  answer is the state of every requested task in one round, in the order requested, and it says
  that it timed out exactly when one of them has neither ended nor stopped for a review.
\<close>

theorem await_answers:
  assumes clock: "\<forall>k. w_start w + await_tick * int k \<le> w_clock w k"
  shows "\<exists>r. Await w sid ids secs d a = Some r \<and>
    (\<forall>outs late. r = Inr (outs, late) \<longrightarrow> map fst outs = ids \<and>
       (\<exists>k \<le> 3601. await_round (fst (world_at w d a k)) (snd (world_at w d a k)) ids = Inr outs) \<and>
       (late \<longleftrightarrow> (\<exists>x\<in>set outs. aw_pending (snd x))))"
proof -
  let ?dl = "w_start w + await_timeout secs"
  have "w_start w + await_tick * int 3601 \<le> w_clock w (0 + 3601)" using clock by (metis add_0)
  moreover have "?dl < w_start w + await_tick * int 3601"
    using await_timeout_max [of secs] by (simp add: await_tick_def maxAwaitTimeout_def second_def)
  ultimately have "?dl < w_clock w (0 + 3601)" by linarith
  from await_loop_answers [OF this, of d a ids] obtain r where r: "await_loop w d a ids ?dl 0 = Some r"
    and ans: "\<And>outs late. r = Inr (outs, late) \<Longrightarrow> \<exists>j \<le> 3601. answers w d a ids j outs late" by auto
  have good: "map fst outs = ids \<and> (\<exists>k \<le> 3601. await_round (fst (world_at w d a k)) (snd (world_at w d a k)) ids = Inr outs) \<and>
       (late \<longleftrightarrow> (\<exists>x\<in>set outs. aw_pending (snd x)))" if out: "r = Inr (outs, late)" for outs late
  proof -
    from ans [OF out] obtain j where j: "j \<le> 3601" "answers w d a ids j outs late" by blast
    note an = j(2) [unfolded answers_def]
    from await_round_Inr(1) [OF conjunct1 [OF an]] j(1) an show ?thesis by blast
  qed
  show ?thesis
  proof (cases "ids = [] \<or> (\<exists>e. await_check d sid [] ids = Inl e)")
    case True
    then show ?thesis by (auto simp: Await_def)
  next
    case False
    then obtain u where "await_check d sid [] ids = Inr u" "ids \<noteq> []" by (cases "await_check d sid [] ids") auto
    then have "Await w sid ids secs d a = Some r" using r by (simp add: Await_def)
    with good show ?thesis by blast
  qed
qed

text \<open>An agent that sleeps, a child that never ends and one that waits for its review.\<close>

definition demo_agent :: role where
  "demo_agent = demo_role\<lparr>a_delegation_enabled := True, a_delegation_max_perm := PermReview\<rparr>"

definition demo_child :: "int \<Rightarrow> status \<Rightarrow> task" where
  "demo_child i st = (demo_task i st)\<lparr>t_parent_session_id := Some 1, t_parent_task_id := Some 1\<rparr>"

definition demo_boss :: "status \<Rightarrow> task" where
  "demo_boss st = (demo_task 1 st)\<lparr>t_type := TaskTypeSession, t_role_id := Some 1\<rparr>"

definition orch_db :: "status \<Rightarrow> db" where
  "orch_db st = (demo_tasks [demo_boss st, demo_child 2 StatusRunning, demo_child 3 StatusAwaitingReview,
     demo_task 4 StatusRunning])\<lparr>roles := [demo_agent]\<rparr>"

definition still_world :: world where
  "still_world = \<lparr>w_start = 0, w_clock = (\<lambda>k. await_tick * int k),
     w_later = (\<lambda>k. (orch_db SessionStatusActive, no_artifacts)), w_gone = (\<lambda>k. False)\<rparr>"

theorem await_answers_witness:
  "\<exists>outs. Await still_world 1 [3, 2] 1 (orch_db SessionStatusActive) no_artifacts = Some (Inr (outs, True)) \<and>
     map fst outs = [3, 2] \<and> (\<exists>x\<in>set outs. aw_pending (snd x))"
proof -
  have clock: "\<forall>k. w_start still_world + await_tick * int k \<le> w_clock still_world k" by (simp add: still_world_def)
  have "case await_round (orch_db SessionStatusActive) no_artifacts [3, 2] of Inl _ \<Rightarrow> False
    | Inr outs \<Rightarrow> \<not> list_all (\<lambda>(i, out). \<not> aw_pending out) outs" by code_simp
  then obtain outs where R: "await_round (orch_db SessionStatusActive) no_artifacts [3, 2] = Inr outs"
    "\<not> list_all (\<lambda>(i, out). \<not> aw_pending out) outs" by (auto split: sum.splits)
  have c: "await_check (orch_db SessionStatusActive) 1 [] [3, 2] = Inr ()" by code_simp
  have t: "w_start still_world + await_timeout 1 = 1000000000" by code_simp
  have k: "w_clock still_world k = 500000000 * int k" "\<not> w_gone still_world k"
    "world_at still_world (orch_db SessionStatusActive) no_artifacts k = (orch_db SessionStatusActive, no_artifacts)" for k
    by (simp_all add: still_world_def await_tick_def world_at_def split: nat.split)
  have "await_loop still_world (orch_db SessionStatusActive) no_artifacts [3, 2] 1000000000 (Suc (Suc (Suc 0))) = Some (Inr (outs, True))"
    by (subst await_loop_step) (simp add: k R del: await_round.simps)
  then have "await_loop still_world (orch_db SessionStatusActive) no_artifacts [3, 2] 1000000000 0 = Some (Inr (outs, True))"
    by (simp add: await_loop_step [of _ _ _ _ _ 0] await_loop_step [of _ _ _ _ _ "Suc 0"] await_loop_step [of _ _ _ _ _ "Suc (Suc 0)"] k R
      del: await_round.simps)
  then have run: "Await still_world 1 [3, 2] 1 (orch_db SessionStatusActive) no_artifacts = Some (Inr (outs, True))"
    by (simp add: Await_def c t del: await_check.simps)
  from await_answers [OF clock, of 1 "[3, 2]" 1 "orch_db SessionStatusActive" no_artifacts] run show ?thesis by auto
qed

text \<open>
  \<^verbatim>\<open>Await\<close> does not look at the session: one that was suspended, or whose role lost its
  delegation, still reads the results of its tasks, which every other tool refuses it. And the
  seconds are multiplied without a check: a caller that asks for 2^34 seconds is answered at once.
\<close>

lemma suspended_session_awaits:
  "(\<exists>outs. Await still_world 1 [3] 1 (orch_db SessionStatusSuspended) no_artifacts = Some (Inr (outs, False)) \<and> outs \<noteq> []) \<and>
   GetResult (orch_db SessionStatusSuspended) no_artifacts 1 3 = Inl (SessionIdle SessionStatusSuspended)"
proof -
  let ?d = "orch_db SessionStatusSuspended"
  have "case await_round ?d no_artifacts [3] of Inl _ \<Rightarrow> False
    | Inr outs \<Rightarrow> list_all (\<lambda>(i, out). \<not> aw_pending out) outs \<and> outs \<noteq> []" by code_simp
  then obtain outs where R: "await_round ?d no_artifacts [3] = Inr outs"
    "list_all (\<lambda>(i, out). \<not> aw_pending out) outs" "outs \<noteq> []" by (auto split: sum.splits)
  have "await_check ?d 1 [] [3] = Inr ()" by code_simp
  then have "Await still_world 1 [3] 1 ?d no_artifacts = Some (Inr (outs, False))"
    by (simp add: Await_def await_loop_step [of _ _ _ _ _ 0] world_at_def R del: await_round.simps await_check.simps)
  moreover have "GetResult ?d no_artifacts 1 3 = Inl (SessionIdle SessionStatusSuspended)" by code_simp
  ultimately show ?thesis using R(3) by blast
qed

lemma long_wait_wraps: "await_timeout 10000000000 < 0" "await_timeout 9000000000 = maxAwaitTimeout"
  by (code_simp, code_simp)

section \<open>Reading\<close>

text \<open>\<open>owned d sid t\<close>: the task \<open>t\<close> hangs below the session \<open>sid\<close>.\<close>

definition owned :: "db \<Rightarrow> int \<Rightarrow> int \<Rightarrow> bool" where
  "owned d sid t \<longleftrightarrow> (\<exists>tk. get_task t d = Some tk \<and> t_parent_session_id tk = Some sid)"

definition may_call :: "db \<Rightarrow> int \<Rightarrow> bool" where
  "may_call d sid \<longleftrightarrow> (\<exists>tk r agent. get_task sid d = Some tk \<and> t_type tk = TaskTypeSession \<and>
     t_status tk = SessionStatusActive \<and> t_role_id tk = Some r \<and> get_role_row r d = Some agent \<and> a_delegation_enabled agent)"

lemma sessionContext_may: "sessionContext d sid = Inr ss \<Longrightarrow> may_call d sid"
  by (auto simp: sessionContext_def may_call_def GetSessionTask_def AsSession_def split: option.splits if_splits)

lemma inSessionSubtree_owned: "inSessionSubtree d sid t = Inr True \<longleftrightarrow> owned d sid t"
  by (auto simp: inSessionSubtree_def owned_def split: option.splits)

lemma await_check_owned: "await_check d sid seen ids = Inr u \<Longrightarrow> i \<in> set ids \<Longrightarrow> owned d sid i"
  by (induction ids arbitrary: seen)
    (auto simp: rbind_eq_Inr inSessionSubtree_owned [symmetric] split: if_splits)

lemma result_list_ids: "result_list d a ts = Inr rs \<Longrightarrow> map rs_task_id rs = map t_id ts"
  by (induction ts arbitrary: rs) (auto simp: rbind_eq_Inr resultOf_id)

lemma await_round_ids:
  assumes "await_round d a ids = Inr outs"
  shows "map fst outs = ids \<and> (\<forall>x\<in>set outs. rs_task_id (aw_result (snd x)) = fst x)"
  using await_round_Inr [OF assms] resultOf_id get_task_id by (metis prod.collapse)

lemma await_loop_ids:
  "await_loop w d a ids deadline k = Some r \<Longrightarrow>
   \<forall>outs late. r = Inr (outs, late) \<longrightarrow> map fst outs = ids \<and> (\<forall>x\<in>set outs. rs_task_id (aw_result (snd x)) = fst x)"
proof (induction rule: await_loop.raw_induct [rotated, consumes 1, case_names step])
  case (step loop w d a ids deadline k r)
  show ?case
  proof (intro allI impI)
    fix outs late assume r: "r = Inr (outs, late)"
    show "map fst outs = ids \<and> (\<forall>x\<in>set outs. rs_task_id (aw_result (snd x)) = fst x)"
    proof (cases "await_round (fst (world_at w d a k)) (snd (world_at w d a k)) ids")
      case (Inl e)
      with step(2) r show ?thesis by simp
    next
      case (Inr results)
      with step(2) r have "results = outs \<or> loop w d a ids deadline (Suc k) = Some r" by (auto split: if_splits)
      then show ?thesis
      proof
        assume "results = outs"
        with await_round_ids [OF Inr] show ?thesis by simp
      next
        assume "loop w d a ids deadline (Suc k) = Some r"
        from step(1) [OF this, THEN spec, THEN spec, THEN mp, OF r] show ?thesis .
      qed
    qed
  qed
qed

lemma children_owned:
  assumes "schema_ok d" and "result_list d a ts = Inr rs" and "\<forall>t\<in>set ts. t \<in> set (tasks d) \<and> t_parent_session_id t = Some sid"
    and "r \<in> set rs"
  shows "owned d sid (rs_task_id r)"
proof -
  have "rs_task_id r \<in> set (map t_id ts)" using result_list_ids [OF assms(2)] assms(4) by (metis image_eqI list.set_map)
  then obtain t where t: "t \<in> set ts" "rs_task_id r = t_id t" by auto
  with assms(3) have "get_task (t_id t) d = Some t" using get_task_distinct [OF assms(1)] by simp
  with t assms(3) show ?thesis by (auto simp: owned_def)
qed



section \<open>How much\<close>

lemma first_bytes_take: "first_bytes n s = take (nat n) s"
  by (induction n s rule: first_bytes.induct) (auto simp: nat_diff_distrib' take_Cons' nat_diff_distrib)

lemma six_bits_pad: "length (six_bits xs) + (4 - length (six_bits xs) mod 4) mod 4 = 4 * ((length xs + 2) div 3)"
proof (induction xs rule: six_bits.induct)
  case (4 a b c xs)
  have "length (a # b # c # xs) + 2 = (length xs + 2) + 3" by simp
  then have "(length (a # b # c # xs) + 2) div 3 = (length xs + 2) div 3 + 1" by (metis div_add_self2 zero_neq_numeral)
  moreover have "length (six_bits (a # b # c # xs)) = length (six_bits xs) + 4" by simp
  ultimately show ?case using 4 by simp
qed simp_all

lemma StdEncode_length: "length (StdEncode bs) = 4 * ((length bs + 2) div 3)"
  using six_bits_pad [of "map of_char bs"] by (simp add: StdEncode_def Let_def)

lemma artifact_cap_bounds: "0 < artifact_cap n \<and> artifact_cap n \<le> 1048576 \<and> (0 < n \<longrightarrow> artifact_cap n \<le> n)"
  by (simp add: artifact_cap_def defaultArtifactMax_def maxArtifactMax_def Let_def)

text \<open>
  C34. However large an artifact is and whatever is asked for, the tool returns a prefix of at
  most a mebibyte of its content, at most as much as was asked for, in base64 of at most 1398104
  characters, and marks it as truncated exactly when the artifact is longer.
\<close>

theorem fetch_bounded:
  assumes run: "FetchArtifact (Some opn) d a sid i n = Inr f"
  shows "\<exists>content body. opn (md_locator (fa_meta f)) = Some content \<and> body = take (nat (artifact_cap n)) content \<and>
    fa_content f = Some (artifact_cap n < int (length content), StdEncode body) \<and>
    int (length body) \<le> 1048576 \<and> (0 < n \<longrightarrow> int (length body) \<le> n) \<and> int (length (StdEncode body)) \<le> 1398104"
proof -
  let ?c = "artifact_cap n"
  from run obtain content where f: "opn (md_locator (fa_meta f)) = Some content"
    and c: "fa_content f = Some (int (length (first_bytes (?c + 1) content)) > ?c,
      StdEncode (if int (length (first_bytes (?c + 1) content)) > ?c then first_bytes ?c (first_bytes (?c + 1) content) else first_bytes (?c + 1) content))"
    by (auto simp: FetchArtifact_def rbind_eq_Inr Let_def split: if_splits option.splits)
  note cap = artifact_cap_bounds [of n]
  let ?body = "take (nat ?c) content"
  have "int (length (first_bytes (?c + 1) content)) > ?c \<longleftrightarrow> ?c < int (length content)"
    using cap by (auto simp: first_bytes_take)
  moreover have "first_bytes (?c + 1) content = ?body" if "\<not> ?c < int (length content)"
    using that cap by (simp add: first_bytes_take)
  ultimately have "fa_content f = Some (?c < int (length content), StdEncode ?body)"
    unfolding c using cap by (simp add: first_bytes_take min_absorb1)
  moreover have body: "int (length ?body) \<le> ?c" using cap by (simp add: min_def) linarith
  moreover have "int (length (StdEncode ?body)) \<le> 1398104"
  proof -
    have "length ?body \<le> 1048576" using body cap by linarith
    then have "4 * ((length ?body + 2) div 3) \<le> 1398104" by simp
    then show ?thesis unfolding StdEncode_length by linarith
  qed
  ultimately show ?thesis using f cap by force
qed

definition orch_artifacts :: artifacts where
  "orch_artifacts = no_artifacts\<lparr>ar_rows := [\<lparr>md_id = 1, md_task_id = Some 3, md_run_id = None, md_name = ''a'',
     md_media_type = ''text/plain'', md_content_hash = demo_digest, md_size = 5, md_locator = locator_of demo_digest,
     md_created_by = ''operator'', md_retention = ''default'', md_created_at = ''t0''\<rparr>], ar_seq := 1\<rparr>"

theorem fetch_bounded_witness:
  "\<exists>f. FetchArtifact (Some (\<lambda>loc. Some ''hello'')) (orch_db SessionStatusActive) orch_artifacts 1 1 4 = Inr f \<and>
     fa_content f = Some (True, ''aGVsbA=='')"
proof -
  have "case FetchArtifact (Some (\<lambda>loc. Some ''hello'')) (orch_db SessionStatusActive) orch_artifacts 1 1 4 of
    Inl _ \<Rightarrow> False | Inr f \<Rightarrow> True" by code_simp
  then obtain f where run: "FetchArtifact (Some (\<lambda>loc. Some ''hello'')) (orch_db SessionStatusActive) orch_artifacts 1 1 4 = Inr f"
    by (auto split: sum.splits)
  have "StdEncode ''hell'' = ''aGVsbA==''" "artifact_cap 4 = 4" by code_simp+
  with fetch_bounded [OF run] run show ?thesis by simp
qed

end
