(* ===== verification/Orchestrator_Http.thy ===== *)
theory Orchestrator_Http
  imports Orchestrator_Laws
begin

text \<open>
  \<^verbatim>\<open>internal/orchestrator/mcp.go\<close>: the endpoint of the tools, JSON-RPC over HTTP with a token
  as bearer. Parsing and printing JSON and the texts of errors are in \<open>codec\<close>: a decoder gives
  \<open>None\<close> for a text it refuses. Replies keep the code of an error, not its message.
\<close>

section \<open>Requests and replies\<close>

record mcpRequest =
  rq_jsonrpc :: string
  rq_id :: string
  rq_method :: string
  rq_params :: string

datatype payload =
    PSpawn spawnReceipt
  | PSync spawnReceipt "TaskResult option" bool
  | PAwait "(string \<times> awaitOutcome) list" bool
  | PChildren "TaskResult list"
  | PResult TaskResult
  | PArtifact fetched

record codec =
  cd_request :: "string \<Rightarrow> mcpRequest option"
  cd_call :: "string \<Rightarrow> (string \<times> string) option"
  cd_spawn :: "string \<Rightarrow> spawnArgs option"
  cd_await :: "string \<Rightarrow> (int list \<times> int) option"
  cd_children :: "string \<Rightarrow> listChildrenArgs option"
  cd_result :: "string \<Rightarrow> int option"
  cd_artifact :: "string \<Rightarrow> (int \<times> int) option"
  cd_marshal :: "payload \<Rightarrow> string option"
  cd_text :: "orch_error \<Rightarrow> string"

datatype rpc_result = RInitialize | RPong | RTools | RContent string bool

datatype rpc_reply = RpcError int | RpcResult rpc_result

datatype http_reply =
    PlainReply int
  | RpcReply int string rpc_reply

definition codeParseError :: int where "codeParseError = - 32700"
definition codeInvalidRequest :: int where "codeInvalidRequest = - 32600"
definition codeMethodNotFound :: int where "codeMethodNotFound = - 32601"
definition codeInvalidParams :: int where "codeInvalidParams = - 32602"
definition codeInternalError :: int where "codeInternalError = - 32603"

section \<open>The bearer\<close>

text \<open>\<^verbatim>\<open>strings.Fields\<close>: the texts between white space.\<close>

function fields_from :: "string \<Rightarrow> string \<Rightarrow> string list" where
  "fields_from word [] = (if word = [] then [] else [rev word])"
| "fields_from word (c # cs) =
     (case cut_first space_runes (c # cs) of
        None \<Rightarrow> fields_from (c # word) cs
      | Some r \<Rightarrow> (if word = [] then [] else [rev word]) @ fields_from [] r)"
  by pat_completeness auto
termination
  by (relation "measure (\<lambda>(word, s). length s)") (auto dest: cut_first_shorter)

definition Fields :: "string \<Rightarrow> string list" where
  "Fields s = fields_from [] s"

definition lower :: "char \<Rightarrow> char" where
  "lower c = (if CHR ''A'' \<le> c \<and> c \<le> CHR ''Z'' then char_of (of_char c + 32 :: nat) else c)"

definition bearerToken :: "string \<Rightarrow> string" where
  "bearerToken header =
     (if header = [] then []
      else case Fields header of
        [a, b] \<Rightarrow> if map lower a \<noteq> ''bearer'' then [] else b
      | _ \<Rightarrow> [])"

section \<open>tools/call\<close>

record service =
  sv_life :: life_env
  sv_world :: world
  sv_mac :: "string \<Rightarrow> string \<Rightarrow> string"
  sv_secret :: string
  sv_opener :: "(string \<Rightarrow> string option) option"
  sv_codec :: codec

text \<open>The answer of a tool, with the state after it; \<open>None\<close> when it never answers.\<close>

datatype tool_run = BadArguments | UnknownTool | Ran "(orch_error + payload) option"

definition run_spawn :: "service \<Rightarrow> int \<Rightarrow> spawnArgs \<Rightarrow> artifacts \<Rightarrow> life \<Rightarrow> life \<times> tool_run" where
  "run_spawn s sessionID args a l =
     (if sp_sync args then
        (case SpawnSync (sv_life s) (sv_world s) sessionID args a l of
           (l', r) \<Rightarrow> (l', Ran (map_option (\<lambda>x. rbind x (\<lambda>(receipt, res, late). Inr (PSync receipt res late))) r)))
      else
        (case Spawn (sv_life s) sessionID args l of
           (l', r) \<Rightarrow> (l', Ran (Some (rbind r (\<lambda>receipt. Inr (PSpawn receipt)))))))"

definition run_await :: "service \<Rightarrow> int \<Rightarrow> int list \<times> int \<Rightarrow> db \<Rightarrow> artifacts \<Rightarrow> tool_run" where
  "run_await s sessionID args d a =
     Ran (map_option (\<lambda>x. rbind x (\<lambda>(outcomes, late).
        Inr (PAwait (map (\<lambda>(i, out). (FormatInt i, out)) outcomes) late)))
       (Await (sv_world s) sessionID (fst args) (snd args) d a))"

definition run_tool :: "service \<Rightarrow> int \<Rightarrow> string \<Rightarrow> string \<Rightarrow> artifacts \<Rightarrow> life \<Rightarrow> life \<times> tool_run" where
  "run_tool s sessionID name arguments a l =
     (let c = sv_codec s; d = l_db l in
      if name = ''spawn_task'' then
        (case cd_spawn c arguments of None \<Rightarrow> (l, BadArguments) | Some args \<Rightarrow> run_spawn s sessionID args a l)
      else if name = ''await_tasks'' then
        (case cd_await c arguments of None \<Rightarrow> (l, BadArguments) | Some args \<Rightarrow> (l, run_await s sessionID args d a))
      else if name = ''list_children'' then
        (case cd_children c arguments of
           None \<Rightarrow> (l, BadArguments)
         | Some args \<Rightarrow> (l, Ran (Some (rbind (ListChildrenTool d a sessionID args) (\<lambda>rs. Inr (PChildren rs))))))
      else if name = ''get_task_result'' then
        (case cd_result c arguments of
           None \<Rightarrow> (l, BadArguments)
         | Some t \<Rightarrow> (l, Ran (Some (rbind (GetResult d a sessionID t) (\<lambda>r. Inr (PResult r))))))
      else if name = ''fetch_artifact'' then
        (case cd_artifact c arguments of
           None \<Rightarrow> (l, BadArguments)
         | Some (i, n) \<Rightarrow> (l, Ran (Some (rbind (FetchArtifact (sv_opener s) d a sessionID i n) (\<lambda>f. Inr (PArtifact f))))))
      else (l, UnknownTool))"

text \<open>The error of a tool is a result the agent sees, not an error of the protocol.\<close>

definition tool_reply :: "codec \<Rightarrow> orch_error + payload \<Rightarrow> rpc_reply" where
  "tool_reply c r =
     (case r of
        Inl e \<Rightarrow> RpcResult (RContent (cd_text c e) True)
      | Inr p \<Rightarrow> (case cd_marshal c p of
            None \<Rightarrow> RpcError codeInternalError
          | Some b \<Rightarrow> RpcResult (RContent b False)))"

definition callTool :: "service \<Rightarrow> int \<Rightarrow> string \<Rightarrow> artifacts \<Rightarrow> life \<Rightarrow> life \<times> rpc_reply option" where
  "callTool s sessionID params a l =
     (case cd_call (sv_codec s) params of
        None \<Rightarrow> (l, Some (RpcError codeInvalidParams))
      | Some (name, arguments) \<Rightarrow>
          (case run_tool s sessionID name arguments a l of
             (l', BadArguments) \<Rightarrow> (l', Some (RpcError codeInvalidParams))
           | (l', UnknownTool) \<Rightarrow> (l', Some (RpcError codeMethodNotFound))
           | (l', Ran r) \<Rightarrow> (l', map_option (tool_reply (sv_codec s)) r)))"

section \<open>The endpoint\<close>

definition rpc_dispatch :: "service \<Rightarrow> int \<Rightarrow> mcpRequest \<Rightarrow> artifacts \<Rightarrow> life \<Rightarrow> life \<times> rpc_reply option" where
  "rpc_dispatch s sessionID q a l =
     (if rq_method q = ''initialize'' then (l, Some (RpcResult RInitialize))
      else if rq_method q = ''ping'' then (l, Some (RpcResult RPong))
      else if rq_method q = ''tools/list'' then (l, Some (RpcResult RTools))
      else if rq_method q = ''tools/call'' then callTool s sessionID (rq_params q) a l
      else (l, Some (RpcError codeMethodNotFound)))"

definition null_id :: string where "null_id = ''null''"

text \<open>
  \<^verbatim>\<open>MaxBytesReader\<close> cuts the body at 8 MiB; a JSON text that was cut is refused by the
  decoder. A request without an id is a notification: nothing is done.
\<close>

definition body_limit :: int where "body_limit = 8388608"

definition HandleHTTP ::
  "service \<Rightarrow> string \<Rightarrow> string \<Rightarrow> string \<Rightarrow> artifacts \<Rightarrow> life \<Rightarrow> life \<times> http_reply option" where
  "HandleHTTP s httpMethod auth body a l =
     (if httpMethod \<noteq> ''POST'' then (l, Some (PlainReply 405))
      else case VerifyToken (sv_mac s) (sv_secret s) (bearerToken auth) of
        None \<Rightarrow> (l, Some (RpcReply 401 null_id (RpcError codeInvalidRequest)))
      | Some sessionID \<Rightarrow>
      case cd_request (sv_codec s) (first_bytes body_limit body) of
        None \<Rightarrow> (l, Some (RpcReply 400 null_id (RpcError codeParseError)))
      | Some q \<Rightarrow>
          if rq_jsonrpc q \<noteq> ''2.0'' then (l, Some (RpcReply 400 null_id (RpcError codeInvalidRequest)))
          else if rq_id q = [] then (l, Some (PlainReply 202))
          else (case rpc_dispatch s sessionID q a l of
              (l', r) \<Rightarrow> (l', map_option (RpcReply 200 (rq_id q)) r)))"

section \<open>What a request can change\<close>

definition life_unless :: "life \<Rightarrow> life \<Rightarrow> int \<Rightarrow> bool" where
  "life_unless l l' sid \<longleftrightarrow> l' = l \<or> l' = set_db (l_db l') l \<and> (\<exists>t. delegated (l_db l) (l_db l') sid t)"

lemma life_unless_same [simp]: "life_unless l l sid"
  by (simp add: life_unless_def)

lemma spawnCreate_unless: "schema_ok (l_db l) \<Longrightarrow> life_unless l (fst (spawnCreate v sid args l)) sid"
proof -
  assume good: "schema_ok (l_db l)"
  obtain l' r where run: "spawnCreate v sid args l = (l', r)" by fastforce
  from spawnCreate_outcome [OF good run] run show ?thesis by (cases r) (auto simp: life_unless_def)
qed

lemma run_tool_unless: "schema_ok (l_db l) \<Longrightarrow> life_unless l (fst (run_tool s sid name arguments a l)) sid"
proof -
  assume good: "schema_ok (l_db l)"
  note sp = spawnCreate_unless [OF good]
  have "life_unless l (fst (run_spawn s sid args a l)) sid" for args
  proof (cases "spawnCreate (sv_life s) sid args l")
    case (Pair l' r)
    with sp [of "sv_life s" sid args] show ?thesis
      by (cases r) (simp_all add: run_spawn_def SpawnSync_def Spawn_def Let_def)
  qed
  then show ?thesis by (simp add: run_tool_def Let_def split: option.split prod.split)
qed

lemma callTool_unless: "schema_ok (l_db l) \<Longrightarrow> life_unless l (fst (callTool s sid params a l)) sid"
proof (cases "cd_call (sv_codec s) params")
  case (Some p)
  assume good: "schema_ok (l_db l)"
  obtain name arguments where p: "p = (name, arguments)" by fastforce
  obtain l' r where run: "run_tool s sid name arguments a l = (l', r)" by fastforce
  from run_tool_unless [OF good, of s sid name arguments a] Some p run show ?thesis
    by (cases r) (simp_all add: callTool_def)
qed (simp add: callTool_def)


definition demo_spawn :: spawnArgs where
  "demo_spawn = \<lparr>sp_project_id = None, sp_role_id = 1, sp_title = ''write tests'', sp_body = ''for the parser'', sp_perm = [],
     sp_run_mode = [], sp_concurrent = False, sp_dependency_mode = [], sp_depends_on = None, sp_block_on_failure = False,
     sp_sync = False, sp_sync_timeout = 0\<rparr>"

definition demo_codec :: "spawnArgs \<Rightarrow> codec" where
  "demo_codec args = \<lparr>cd_request = (\<lambda>b. if b = ''body'' then Some \<lparr>rq_jsonrpc = ''2.0'', rq_id = ''7'', rq_method = ''tools/call'',
       rq_params = ''spawn''\<rparr> else None), cd_call = (\<lambda>p. Some (''spawn_task'', p)), cd_spawn = (\<lambda>p. Some args),
     cd_await = (\<lambda>p. None), cd_children = (\<lambda>p. None), cd_result = (\<lambda>p. None), cd_artifact = (\<lambda>p. None),
     cd_marshal = (\<lambda>p. Some ''{}''), cd_text = (\<lambda>e. ''error'')\<rparr>"

definition demo_service :: "spawnArgs \<Rightarrow> service" where
  "demo_service args = \<lparr>sv_life = demo_life_env, sv_world = still_world, sv_mac = (\<lambda>k p. k @ p), sv_secret = ''key'',
     sv_opener = None, sv_codec = demo_codec args\<rparr>"

definition orch_life :: "status \<Rightarrow> life" where
  "orch_life st = set_db (orch_db st) (life_of [])"

definition demo_auth :: string where
  "demo_auth = ''bearer '' @ SignToken (\<lambda>k p. k @ p) ''key'' 1"


end
