(* ===== verification/Workflow_Service.thy ===== *)
theory Workflow_Service
  imports Workflow_Laws Store_Update
begin

text \<open>
  \<^verbatim>\<open>internal/application/workflow_service.go\<close>: the use cases of a workflow definition and
  the monitor that ends its runs. The environment \<open>wf_env\<close> holds what the service asks
  others: the capabilities of a runtime, the hash of a definition, the order in which Go ranges over
  a map of nodes, the rendering of intents. Published events and wake-ups leave no trace here.
\<close>

section \<open>Definitions\<close>

datatype wf_error =
    WfInvalid "violation list" | WfCronNeedsProject | WfNoProject | WfProjectInactive | WfProjectRequired
  | WfNotFound | WfNotAdopted | WfUnreadable | WfNotRunnable violation | WfStore store_error

record wf_env =
  we_now :: string
  we_capabilities :: "string \<Rightarrow> string list"
  we_hash :: "spec \<Rightarrow> string"
  we_order :: "spec \<Rightarrow> string list"
  we_render :: "string \<Rightarrow> string \<Rightarrow> string"

definition resolveRole :: "wf_env \<Rightarrow> db \<Rightarrow> int \<Rightarrow> role_capabilities" where
  "resolveRole v d roleID =
     (case get_role_row roleID d of
        None \<Rightarrow> \<lparr>rc_exists = False, rc_enabled = False, rc_capabilities = []\<rparr>
      | Some role \<Rightarrow> \<lparr>rc_exists = True, rc_enabled = a_enabled role,
          rc_capabilities = we_capabilities v (a_runtime_id role)\<rparr>)"

definition service_policy :: "wf_env \<Rightarrow> db \<Rightarrow> policy" where
  "service_policy v d = default_policy (resolveRole v d)"

definition with_default_limits :: "spec \<Rightarrow> spec" where
  "with_default_limits sp =
     (let lim = s_limits sp in
      sp\<lparr>s_version := (if s_version sp = 0 then 1 else s_version sp),
         s_limits := lim\<lparr>l_max_nodes := (if l_max_nodes lim = 0 then 32 else l_max_nodes lim),
           l_max_depth := (if l_max_depth lim = 0 then 8 else l_max_depth lim),
           l_max_concurrency := (if l_max_concurrency lim = 0 then 2 else l_max_concurrency lim)\<rparr>\<rparr>)"

definition prepareSpec :: "wf_env \<Rightarrow> spec \<Rightarrow> string \<Rightarrow> int option \<Rightarrow> db \<Rightarrow> wf_error + spec" where
  "prepareSpec v sp0 cron pid d =
     (let sp = with_default_limits sp0; violations = validate (service_policy v d) sp (we_order v sp) in
      if violations \<noteq> [] then Inl (WfInvalid violations)
      else if cron \<noteq> [] \<and> pid = None then Inl WfCronNeedsProject
      else case pid of
        None \<Rightarrow> Inr sp
      | Some p \<Rightarrow>
          (case get_project p d of
             None \<Rightarrow> Inl WfNoProject
           | Some pr \<Rightarrow> if p_status pr \<noteq> ''active'' then Inl WfProjectInactive else Inr sp))"

definition CreateWorkflow :: "wf_env \<Rightarrow> spec \<Rightarrow> string \<Rightarrow> bool \<Rightarrow> int option \<Rightarrow> db \<Rightarrow> wf_error + (db \<times> task)" where
  "CreateWorkflow v sp0 cron enabled pid d =
     rbind (prepareSpec v sp0 cron pid d) (\<lambda>sp.
       case CreateWorkflowTask (we_now v) sp cron enabled pid (we_hash v sp) d of
         Inl e \<Rightarrow> Inl (WfStore e)
       | Inr (d', i) \<Rightarrow> (case GetWorkflowTask i d' of None \<Rightarrow> Inl (WfStore ErrNoRows) | Some t \<Rightarrow> Inr (d', t)))"

definition workflowAtRevision :: "int \<Rightarrow> int \<Rightarrow> db \<Rightarrow> wf_error + WorkflowTask" where
  "workflowAtRevision i expected d =
     (case GetWorkflowTask i d of
        None \<Rightarrow> Inl WfNotFound
      | Some tk \<Rightarrow>
          (case AsWorkflow tk of
             None \<Rightarrow> Inl WfNotFound
           | Some w \<Rightarrow> if wt_revision w \<noteq> expected then Inl (WfStore ErrRevisionConflict) else Inr w))"

definition UpdateWorkflow ::
  "wf_env \<Rightarrow> int \<Rightarrow> int \<Rightarrow> spec \<Rightarrow> string \<Rightarrow> bool \<Rightarrow> int option \<Rightarrow> db \<Rightarrow> wf_error + (db \<times> task option)" where
  "UpdateWorkflow v i expected sp0 cron enabled pid d =
     rbind (workflowAtRevision i expected d) (\<lambda>_.
     rbind (prepareSpec v sp0 cron pid d) (\<lambda>sp.
       case UpdateWorkflowTask (we_now v) i expected sp cron enabled pid (we_hash v sp) d of
         Inl e \<Rightarrow> Inl (WfStore e) | Inr x \<Rightarrow> Inr x))"

definition DeleteWorkflow :: "wf_env \<Rightarrow> int \<Rightarrow> int \<Rightarrow> db \<Rightarrow> wf_error + db" where
  "DeleteWorkflow v i expected d =
     rbind (workflowAtRevision i expected d) (\<lambda>_.
       case DeleteWorkflowTask (we_now v) i expected d of Inl e \<Rightarrow> Inl (WfStore e) | Inr d' \<Rightarrow> Inr d')"

definition specOf :: "WorkflowTask \<Rightarrow> wf_error + spec" where
  "specOf w = (case wt_spec w of SpecJson sp \<Rightarrow> Inr sp | _ \<Rightarrow> Inl WfUnreadable)"

definition StartPlan :: "wf_env \<Rightarrow> int \<Rightarrow> int \<Rightarrow> int \<Rightarrow> string \<Rightarrow> db \<Rightarrow> wf_error + (db \<times> run)" where
  "StartPlan v i expected projectID custom d =
     (if projectID < 1 then Inl WfProjectRequired
      else rbind (workflowAtRevision i expected d) (\<lambda>w.
        if wt_status w \<noteq> WorkflowStatusAdopted then Inl WfNotAdopted
        else rbind (specOf w) (\<lambda>sp.
          case validate (service_policy v d) sp (we_order v sp) of
            x # xs \<Rightarrow> Inl (WfNotRunnable x)
          | [] \<Rightarrow>
              (case InstantiateWorkflow (we_render v) (we_now v) w projectID custom d of
                 Inl e \<Rightarrow> Inl (WfStore e) | Inr x \<Rightarrow> Inr x))))"

section \<open>The monitor\<close>

text \<open>
  \<^verbatim>\<open>runStatus\<close>: the loop over the ids of the nodes; it carries whether all are settled,
  one has failed, one is blocked, and stops at an error of the store.
\<close>

fun status_loop :: "db \<Rightarrow> int list \<Rightarrow> bool \<Rightarrow> bool \<Rightarrow> bool \<Rightarrow> (bool \<times> bool \<times> bool) option" where
  "status_loop d [] allTerminal failed blocked = Some (allTerminal, failed, blocked)"
| "status_loop d (i # ids) allTerminal failed blocked =
     (case get_task i d of
        None \<Rightarrow> status_loop d ids allTerminal True blocked
      | Some task \<Rightarrow>
          (case TaskDeliveryResult i d of
             Inl e \<Rightarrow> None
           | Inr (terminal, succeeded) \<Rightarrow>
               if \<not> terminal then
                 status_loop d ids False failed
                   (blocked \<or> t_status task = StatusQueued \<and>
                      (case CheckTaskDependency d task of Inl e \<Rightarrow> False | Inr c \<Rightarrow> dc_blocked c))
               else status_loop d ids allTerminal (failed \<or> \<not> succeeded) blocked))"

definition run_ids_of :: "run \<Rightarrow> int list" where
  "run_ids_of r = sort (map snd (r_task_ids r))"

definition runStatus :: "db \<Rightarrow> run \<Rightarrow> run_status option \<times> bool" where
  "runStatus d r =
     (case status_loop d (run_ids_of r) True False False of
        None \<Rightarrow> (None, False)
      | Some (allTerminal, failed, blocked) \<Rightarrow>
          if blocked then (Some RunStatusFailed, True)
          else if \<not> allTerminal then (None, False)
          else if failed then (Some RunStatusFailed, False)
          else (Some RunStatusSucceeded, False))"

text \<open>The text a cancelled node is given, in UTF-8.\<close>

definition predecessor_failed_text :: string where
  "predecessor_failed_text =
     [CHR 0x57, CHR 0x6F, CHR 0x72, CHR 0x6B, CHR 0x66, CHR 0x6C, CHR 0x6F, CHR 0x77, CHR 0x20,
      CHR 0xE5, CHR 0x89, CHR 0x8D, CHR 0xE7, CHR 0xBD, CHR 0xAE, CHR 0xE8, CHR 0x8A, CHR 0x82,
      CHR 0xE7, CHR 0x82, CHR 0xB9, CHR 0xE5, CHR 0xA4, CHR 0xB1, CHR 0xE8, CHR 0xB4, CHR 0xA5]"

definition cancel_fields :: "string \<Rightarrow> fields" where
  "cancel_fields now = [(ColStatus, AStr ''cancelled''), (ColFinishedAt, AStr now), (ColError, AStr predecessor_failed_text)]"

fun cancel_queued :: "string \<Rightarrow> int list \<Rightarrow> db \<Rightarrow> db" where
  "cancel_queued now [] d = d"
| "cancel_queued now (i # ids) d =
     (case get_task i d of
        None \<Rightarrow> cancel_queued now ids d
      | Some task \<Rightarrow>
          if t_status task \<noteq> StatusQueued then cancel_queued now ids d
          else (case UpdateTask i (cancel_fields now) now d of
              Inl e \<Rightarrow> cancel_queued now ids d
            | Inr d' \<Rightarrow> cancel_queued now ids d'))"

definition reconcile_run :: "string \<Rightarrow> run \<Rightarrow> db \<Rightarrow> db" where
  "reconcile_run now r d =
     (case runStatus d r of
        (status, blocked) \<Rightarrow>
          let d1 = (if blocked then cancel_queued now (map snd (r_task_ids r)) d else d) in
          case (if blocked then Some RunStatusFailed else status) of
            None \<Rightarrow> d1
          | Some st \<Rightarrow> (case FinishWorkflowRun (r_id r) (r_revision r) st now d1 of Inl e \<Rightarrow> d1 | Inr d2 \<Rightarrow> d2))"

definition reconcileRuns :: "string \<Rightarrow> db \<Rightarrow> db" where
  "reconcileRuns now d = fold (reconcile_run now) (ListActiveWorkflowRuns d) d"

section \<open>What the status means\<close>

text \<open>A node is settled when it is gone, delivered or has failed; blocked when it never can run.\<close>

definition settled :: "db \<Rightarrow> int \<Rightarrow> bool" where
  "settled d i \<longleftrightarrow> (case get_task i d of None \<Rightarrow> True | Some t \<Rightarrow> delivered d t \<or> delivery_failed d t)"

definition good_end :: "db \<Rightarrow> int \<Rightarrow> bool" where
  "good_end d i \<longleftrightarrow> (\<exists>t. get_task i d = Some t \<and> delivered d t)"

definition node_blocked :: "db \<Rightarrow> int \<Rightarrow> bool" where
  "node_blocked d i \<longleftrightarrow> (\<exists>t c. get_task i d = Some t \<and> \<not> settled d i \<and> t_status t = StatusQueued \<and>
     CheckTaskDependency d t = Inr c \<and> dc_blocked c)"

lemma TaskDelivery_spec:
  assumes "schema_ok d" and "get_task i d = Some t"
  shows "TaskDeliveryResult i d = Inr (settled d i, good_end d i)"
proof -
  have "\<not> (delivered d t \<and> delivery_failed d t)" using delivered_not_failed [OF assms(1)] by blast
  then show ?thesis
    using assms by (auto simp: TaskDeliveryResult_def deliveryState_spec settled_def good_end_def)
qed

lemma status_loop_spec:
  assumes good: "schema_ok d"
  shows "status_loop d ids a f b =
    Some (a \<and> (\<forall>i\<in>set ids. settled d i), f \<or> (\<exists>i\<in>set ids. settled d i \<and> \<not> good_end d i), b \<or> (\<exists>i\<in>set ids. node_blocked d i))"
proof (induction ids arbitrary: a f b)
  case (Cons i ids)
  show ?case
  proof (cases "get_task i d")
    case None
    then have "settled d i" "\<not> good_end d i" "\<not> node_blocked d i" by (simp_all add: settled_def good_end_def node_blocked_def)
    with None Cons show ?thesis by simp
  next
    case (Some t)
    note td = TaskDelivery_spec [OF good Some]
    have nb: "node_blocked d i \<longleftrightarrow> \<not> settled d i \<and> t_status t = StatusQueued \<and>
      (case CheckTaskDependency d t of Inl e \<Rightarrow> False | Inr c \<Rightarrow> dc_blocked c)"
      using Some by (auto simp: node_blocked_def split: sum.splits)
    show ?thesis
    proof (cases "settled d i")
      case True
      with nb Some td Cons show ?thesis by auto
    next
      case False
      with nb Some td Cons show ?thesis by auto
    qed
  qed
qed simp

lemma runStatus_spec:
  assumes "schema_ok d"
  shows "runStatus d r =
    (if \<exists>i\<in>set (map snd (r_task_ids r)). node_blocked d i then (Some RunStatusFailed, True)
     else if \<exists>i\<in>set (map snd (r_task_ids r)). \<not> settled d i then (None, False)
     else if \<forall>i\<in>set (map snd (r_task_ids r)). good_end d i then (Some RunStatusSucceeded, False)
     else (Some RunStatusFailed, False))"
  unfolding runStatus_def status_loop_spec [OF assms] by (auto simp: run_ids_of_def)

end
