(* ===== verification/Workflow_Monitor.thy ===== *)
theory Workflow_Monitor
  imports Workflow_Service
begin

text \<open>How runs end: never too early, with the right result, and never stuck.\<close>

section \<open>The nodes of a run\<close>

definition nodes_of :: "run \<Rightarrow> int set" where
  "nodes_of r = set (map snd (r_task_ids r))"

definition run_edges :: "db \<Rightarrow> run \<Rightarrow> (int \<times> int) set" where
  "run_edges d r = {(j, i). i \<in> nodes_of r \<and> (\<exists>e\<in>set (deps d). d_task_id e = i \<and> d_depends_on e = j)}"

text \<open>
  The shape a started run has: the edges of its nodes stay inside the run and have no cycle, its
  nodes are not merge tasks and have no other dependency.
\<close>

definition run_graph :: "db \<Rightarrow> run \<Rightarrow> bool" where
  "run_graph d r \<longleftrightarrow> acyclic (run_edges d r) \<and> fst ` run_edges d r \<subseteq> nodes_of r \<and>
     (\<forall>i\<in>nodes_of r. \<forall>t. get_task i d = Some t \<longrightarrow> t_merge_of t = None \<and> t_dependency_mode t = DependencyNone)"

definition node_ready :: "db \<Rightarrow> int \<Rightarrow> bool" where
  "node_ready d i \<longleftrightarrow> (\<exists>t c. get_task i d = Some t \<and> t_status t = StatusQueued \<and>
     CheckTaskDependency d t = Inr c \<and> dc_ready c)"

text \<open>A node at work: started, under review or waiting for its merge.\<close>

definition node_working :: "db \<Rightarrow> int \<Rightarrow> bool" where
  "node_working d i \<longleftrightarrow> \<not> settled d i \<and> (\<exists>t. get_task i d = Some t \<and> t_status t \<noteq> StatusQueued)"

lemma check_edges_decides:
  assumes good: "schema_ok d"
  shows "\<forall>e\<in>set es. get_task (d_depends_on e) d \<noteq> None \<and> settled d (d_depends_on e) \<Longrightarrow>
    \<exists>c. check_edges d sk es = Inr c \<and> (dc_ready c \<or> dc_blocked c)"
proof (induction es arbitrary: sk)
  case (Cons e es)
  then obtain s where s: "get_task (d_depends_on e) d = Some s" "delivered d s \<or> delivery_failed d s"
    by (auto simp: settled_def)
  obtain st rs where st: "deliveryStateOf d s = (st, rs)" by fastforce
  then have "st \<noteq> deliveryPending" using s(2) deliveryState_spec [OF good, of s] by (auto split: if_splits)
  with Cons s st show ?case by (cases st) (auto simp: check_def)
qed (simp add: check_def)

lemma settled_decides:
  assumes good: "schema_ok d" and t: "get_task i d = Some t" "t_merge_of t = None" "t_dependency_mode t = DependencyNone"
    and deps: "\<forall>e\<in>set (deps d). d_task_id e = i \<longrightarrow> settled d (d_depends_on e)"
  shows "\<exists>c. CheckTaskDependency d t = Inr c \<and> (dc_ready c \<or> dc_blocked c)"
proof (cases "workflowDependencies (t_id t) d = []")
  case True
  then show ?thesis using t by (auto simp: CheckTaskDependency_def check_def split: option.splits)
next
  case False
  have id: "t_id t = i" using t(1) by blast
  have "\<forall>e\<in>set (workflowDependencies (t_id t) d). get_task (d_depends_on e) d \<noteq> None \<and> settled d (d_depends_on e)"
  proof
    fix e assume "e \<in> set (workflowDependencies (t_id t) d)"
    then have e: "e \<in> set (deps d)" "d_task_id e = i" by (auto simp: workflowDependencies_def id)
    then have "d_depends_on e \<in> task_ids d" using good by (auto simp: schema_ok_def others_ok_def list_all_iff)
    with e deps show "get_task (d_depends_on e) d \<noteq> None \<and> settled d (d_depends_on e)" by (auto simp: get_task_None)
  qed
  from check_edges_decides [OF good this] False t(2) show ?thesis by (simp add: CheckTaskDependency_def)
qed

lemma run_goes_on:
  assumes good: "schema_ok d" and graph: "run_graph d r" and goes_on: "fst (runStatus d r) = None"
  shows "\<exists>i\<in>nodes_of r. node_working d i \<or> node_ready d i"
proof (rule ccontr)
  assume no: "\<not> (\<exists>i\<in>nodes_of r. node_working d i \<or> node_ready d i)"
  let ?P = "{i \<in> nodes_of r. \<not> settled d i}"
  have nb: "\<forall>i\<in>nodes_of r. \<not> node_blocked d i" and ne: "?P \<noteq> {}"
    using goes_on unfolding runStatus_spec [OF good] nodes_of_def by (auto split: if_splits)
  have "run_edges d r \<subseteq> (\<lambda>e. (d_depends_on e, d_task_id e)) ` set (deps d)" by (auto simp: run_edges_def)
  then have "finite (run_edges d r)" by (rule finite_subset) simp
  then have "wf (run_edges d r)" using graph by (simp add: run_graph_def finite_acyclic_wf)
  with ne obtain i where i: "i \<in> ?P" and min: "\<forall>j. (j, i) \<in> run_edges d r \<longrightarrow> j \<notin> ?P"
    by (metis (no_types, lifting) ex_in_conv wfE_min)
  obtain t where t: "get_task i d = Some t" using i by (auto simp: settled_def split: option.splits)
  have q: "t_status t = StatusQueued" using no i t by (auto simp: node_working_def)
  have "\<forall>e\<in>set (deps d). d_task_id e = i \<longrightarrow> settled d (d_depends_on e)"
  proof (intro ballI impI)
    fix e assume "e \<in> set (deps d)" "d_task_id e = i"
    then have "(d_depends_on e, i) \<in> run_edges d r" using i by (auto simp: run_edges_def)
    moreover from this have "d_depends_on e \<in> nodes_of r" using graph by (force simp: run_graph_def)
    ultimately show "settled d (d_depends_on e)" using min by blast
  qed
  moreover have "t_merge_of t = None" "t_dependency_mode t = DependencyNone" using graph i t by (auto simp: run_graph_def)
  ultimately obtain c where c: "CheckTaskDependency d t = Inr c" "dc_ready c \<or> dc_blocked c"
    using settled_decides [OF good t] by blast
  from c(2) show False
  proof
    assume "dc_ready c"
    with c t q no i show False by (auto simp: node_ready_def)
  next
    assume "dc_blocked c"
    with c t q i have "node_blocked d i" by (auto simp: node_blocked_def)
    with nb i show False by blast
  qed
qed

lemma started_run_graph:
  assumes good: "schema_ok d" and sp: "wt_spec tk = SpecJson sp" and dist: "distinct (map n_id (s_nodes sp))"
    and acyc: "acyclic (dep_rel sp)" and inst: "InstantiateWorkflow render now tk pid custom d = Inr (d', r)"
  shows "run_graph d' r"
proof -
  note eff = instantiated_run [OF good sp dist inst]
  let ?ids = "r_task_ids r"
  have keys: "map fst ?ids = sort (map n_id (s_nodes sp))" and dv: "distinct (map snd ?ids)" using eff by blast+
  have dk: "distinct (map fst ?ids)" using dist keys by simp
  define name where "name i = (SOME k. (k, i) \<in> set ?ids)" for i
  have inv: "name i = k" if ki: "(k, i) \<in> set ?ids" for k i
  proof -
    have "(name i, i) \<in> set ?ids" unfolding name_def using ki by (rule someI)
    moreover have "inj_on snd (set ?ids)" using dv by (simp add: distinct_map)
    ultimately have "(name i, i) = (k, i)" using ki inj_onD [of snd "set ?ids" "(name i, i)" "(k, i)"] by simp
    then show ?thesis by simp
  qed
  have node: "\<exists>n\<in>set (s_nodes sp). \<exists>t dir. map_of ?ids (n_id n) = Some i \<and> name i = n_id n \<and> get_task i d' = Some t \<and>
      node_row (\<lambda>s. render s (trim_space custom)) sp pid dir (r_id r) n t \<and>
      (\<forall>j f. \<lparr>d_task_id = i, d_depends_on = j, d_on_failure = f\<rparr> \<in> set (deps d') \<longrightarrow>
        (\<exists>k\<in>set (n_depends_on n). map_of ?ids k = Some j))" if i: "i \<in> nodes_of r" for i
  proof -
    from i obtain k where ki: "(k, i) \<in> set ?ids" by (auto simp: nodes_of_def)
    then have "k \<in> set (map fst ?ids)" by force
    then obtain n where n: "n \<in> set (s_nodes sp)" "n_id n = k" unfolding keys by auto
    have "map_of ?ids k = Some i" using ki dk by simp
    with eff n inv [OF ki] show ?thesis by (metis option.inject)
  qed
  have edge: "j \<in> nodes_of r \<and> (name i, name j) \<in> dep_rel sp" if "(j, i) \<in> run_edges d' r" for i j
  proof -
    from that obtain e where e: "i \<in> nodes_of r" "e \<in> set (deps d')" "d_task_id e = i" "d_depends_on e = j"
      by (auto simp: run_edges_def)
    from node [OF e(1)] obtain n where n: "n \<in> set (s_nodes sp)" "name i = n_id n"
      "\<And>j f. \<lparr>d_task_id = i, d_depends_on = j, d_on_failure = f\<rparr> \<in> set (deps d') \<Longrightarrow>
        \<exists>k\<in>set (n_depends_on n). map_of ?ids k = Some j" by blast
    have "\<lparr>d_task_id = i, d_depends_on = j, d_on_failure = d_on_failure e\<rparr> = e" using e(3,4) by (cases e) simp
    with e(2) n(3) [of j "d_on_failure e"] obtain k where k: "k \<in> set (n_depends_on n)" "map_of ?ids k = Some j" by auto
    then have "(k, j) \<in> set ?ids" by (rule_tac map_of_SomeD)
    with n(1,2) k(1) inv show ?thesis by (force simp: nodes_of_def dep_rel_def)
  qed
  have "(name i, name j) \<in> (dep_rel sp)\<^sup>+" if "(j, i) \<in> (run_edges d' r)\<^sup>+" for i j
    using that
  proof (induction rule: trancl_induct)
    case (base y)
    then show ?case using edge by blast
  next
    case (step y z)
    have "(name z, name y) \<in> dep_rel sp" using edge step(2) by blast
    then show ?case using step(3) by (rule trancl_into_trancl2)
  qed
  then have "acyclic (run_edges d' r)" using acyc by (auto simp: acyclic_def)
  moreover have "fst ` run_edges d' r \<subseteq> nodes_of r" using edge by auto
  moreover have "t_merge_of t = None \<and> t_dependency_mode t = DependencyNone" if "i \<in> nodes_of r" "get_task i d' = Some t" for i t
    using node [OF that(1)] that(2) by (auto simp: node_row_def)
  ultimately show ?thesis by (simp add: run_graph_def)
qed

lemma StartPlan_Inr:
  assumes "StartPlan v i e pid custom d = Inr (d', r)"
  shows "\<exists>w sp. workflowAtRevision i e d = Inr w \<and> wt_spec w = SpecJson sp \<and>
    validate (service_policy v d) sp (we_order v sp) = [] \<and> InstantiateWorkflow (we_render v) (we_now v) w pid custom d = Inr (d', r)"
proof -
  obtain w where w: "workflowAtRevision i e d = Inr w" using assms by (auto simp: StartPlan_def rbind_eq_Inr split: if_splits)
  with assms obtain sp where sp: "specOf w = Inr sp" by (auto simp: StartPlan_def rbind_eq_Inr split: if_splits)
  then have "wt_spec w = SpecJson sp" by (auto simp: specOf_def split: spec_text.splits)
  moreover have val: "validate (service_policy v d) sp (we_order v sp) = []"
    using assms w sp by (cases "validate (service_policy v d) sp (we_order v sp)") (auto simp: StartPlan_def split: if_splits)
  moreover have "InstantiateWorkflow (we_render v) (we_now v) w pid custom d = Inr (d', r)"
    using assms w sp val
    by (cases "InstantiateWorkflow (we_render v) (we_now v) w pid custom d") (auto simp: StartPlan_def split: if_splits)
  ultimately show ?thesis using w by blast
qed

lemma StartPlan_graph:
  assumes good: "schema_ok d" and order: "\<And>sp. set (we_order v sp) = n_id ` set (s_nodes sp)"
    and run: "StartPlan v i e pid custom d = Inr (d', r)"
  shows "run_graph d' r"
proof -
  from StartPlan_Inr [OF run] obtain w sp where w: "wt_spec w = SpecJson sp" "validate (service_policy v d) sp (we_order v sp) = []"
    "InstantiateWorkflow (we_render v) (we_now v) w pid custom d = Inr (d', r)" by blast
  then have "spec_accepted (service_policy v d) sp" using validate_contract [OF order] by blast
  then show ?thesis using started_run_graph [OF good w(1) _ _ w(3)] by (simp add: spec_accepted_def)
qed


section \<open>Cancelling what cannot run\<close>

definition cancelled_row :: "string \<Rightarrow> task \<Rightarrow> task" where
  "cancelled_row now t = t\<lparr>t_status := StatusCancelled, t_finished_at := Some now, t_error := predecessor_failed_text,
     t_updated_at := now, t_revision := t_revision t + 1\<rparr>"

lemma cancel_edit: "edit_task (cancel_fields now) now t = Some (cancelled_row now t)"
  by (simp add: edit_task_def cancel_fields_def cancelled_row_def set_task_col_def col_defs status_of_def status_names_def)

lemma plain_cancelled: "plain_update (cancelled_row now)"
  by (rule plain_updateI) (simp_all add: cancelled_row_def shape_ok_def task_refs_ok_def)

lemma cancel_UpdateTask:
  assumes "schema_ok d"
  shows "UpdateTask i (cancel_fields now) now d = Inr (d\<lparr>tasks := upd_where (\<lambda>t. t_id t = i) (cancelled_row now) (tasks d)\<rparr>)"
proof -
  have "edit_rows (\<lambda>t. t_id t = i) (edit_task (cancel_fields now) now) (tasks d) =
      Some (upd_where (\<lambda>t. t_id t = i) (cancelled_row now) (tasks d))"
    by (simp add: edit_rows_def cancel_edit list_all_iff)
  moreover have "map_of (cancel_fields now) ColProjectId = None" "cancel_fields now \<noteq> []" by (simp_all add: cancel_fields_def)
  ultimately show ?thesis using schema_ok_plain [OF assms plain_cancelled] by (simp add: UpdateTask_def updateOne_def)
qed

lemma cancel_queued_effect:
  "schema_ok d \<Longrightarrow>
     schema_ok (cancel_queued now ids d) \<and> runs (cancel_queued now ids d) = runs d \<and> deps (cancel_queued now ids d) = deps d \<and>
     (\<forall>j. get_task j (cancel_queued now ids d) = map_option (\<lambda>t. if j \<in> set ids \<and> t_status t = StatusQueued
        then cancelled_row now t else t) (get_task j d))"
proof (induction ids arbitrary: d)
  case (Cons i ids)
  show ?case
  proof (cases "\<exists>t. get_task i d = Some t \<and> t_status t = StatusQueued")
    case False
    then have "cancel_queued now (i # ids) d = cancel_queued now ids d" by (auto split: option.split)
    moreover have "map_option (\<lambda>t. if j \<in> set ids \<and> t_status t = StatusQueued then cancelled_row now t else t) (get_task j d) =
       map_option (\<lambda>t. if j \<in> set (i # ids) \<and> t_status t = StatusQueued then cancelled_row now t else t) (get_task j d)" for j
      using False by (cases "j = i"; cases "get_task j d") auto
    ultimately show ?thesis using Cons by simp
  next
    case True
    then obtain t where t: "get_task i d = Some t" "t_status t = StatusQueued" by blast
    let ?d = "d\<lparr>tasks := upd_where (\<lambda>t. t_id t = i) (cancelled_row now) (tasks d)\<rparr>"
    have ok: "schema_ok ?d" by (rule schema_ok_plain [OF Cons.prems plain_cancelled])
    have eq: "cancel_queued now (i # ids) d = cancel_queued now ids ?d"
      using t cancel_UpdateTask [OF Cons.prems] by simp
    have get: "get_task j ?d = map_option (\<lambda>t. if j = i then cancelled_row now t else t) (get_task j d)" for j
    proof -
      have "get_task j ?d = map_option (\<lambda>t. if t_id t = i then cancelled_row now t else t) (get_task j d)"
        by (rule get_task_upd) (simp add: cancelled_row_def)
      then show ?thesis by (cases "get_task j d") auto
    qed
    have "map_option (\<lambda>t. if j \<in> set ids \<and> t_status t = StatusQueued then cancelled_row now t else t) (get_task j ?d) =
       map_option (\<lambda>t. if j \<in> set (i # ids) \<and> t_status t = StatusQueued then cancelled_row now t else t) (get_task j d)" for j
      using t by (cases "j = i"; cases "get_task j d") (auto simp: get cancelled_row_def)
    with Cons.IH [OF ok] show ?thesis unfolding eq by simp
  qed
qed (simp add: option.map_ident_strong)

section \<open>A round of the monitor\<close>

lemma FinishWorkflowRun_succeeds:
  assumes good: "schema_ok d" and r: "get_run i d = Some r" "r_status r = RunStatusRunning"
    and st: "st \<in> {RunStatusSucceeded, RunStatusFailed, RunStatusCancelled}"
  shows "\<exists>d'. FinishWorkflowRun i (r_revision r) st now d = Inr d'"
proof -
  let ?p = "\<lambda>x. r_id x = i \<and> r_revision x = r_revision r \<and> r_status x = RunStatusRunning"
  have "affected ?p (runs d) = 1"
    using r unfolding affected_key [OF schema_ok_distinct_runs [OF good]] by (simp add: get_run_def)
  moreover have "schema_ok (d\<lparr>runs := upd_where ?p (finish_run_row st now) (runs d)\<rparr>)"
    by (rule schema_ok_run_cols [OF good]) simp_all
  ultimately show ?thesis using st by (simp add: FinishWorkflowRun_def Let_def)
qed

lemma ended_not_queued:
  assumes good: "schema_ok d" and graph: "run_graph d r" and i: "i \<in> nodes_of r" and t: "get_task i d = Some t"
    and s: "settled d i"
  shows "t_status t \<noteq> StatusQueued"
proof -
  have "t_merge_of t = None" using graph i t by (auto simp: run_graph_def)
  then show ?thesis using s t by (auto simp: settled_def delivered_def delivery_failed_def)
qed

text \<open>
  A round of the monitor settles a run exactly when its nodes do: it leaves a run that can
  go on, and everything else, as it is; otherwise it ends the run, as succeeded exactly when
  every node was delivered, and then no node of the run is left in the queue. The only tasks
  it changes are the queued nodes of a run with a blocked one, which are cancelled.
\<close>

theorem reconcile_run_effect:
  assumes good: "schema_ok d" and r: "get_run (r_id r) d = Some r" "r_status r = RunStatusRunning"
    and graph: "run_graph d r" and d': "d' = reconcile_run now r d"
  shows "schema_ok d' \<and> (fst (runStatus d r) = None \<longrightarrow> d' = d) \<and>
    (\<forall>st. fst (runStatus d r) = Some st \<longrightarrow> get_run (r_id r) d' = Some (finish_run_row st now r) \<and>
       (st = RunStatusSucceeded \<longleftrightarrow> (\<forall>i\<in>nodes_of r. good_end d i)) \<and>
       (\<forall>i\<in>nodes_of r. \<forall>t. get_task i d' = Some t \<longrightarrow> t_status t \<noteq> StatusQueued)) \<and>
    (\<forall>j. get_task j d' = map_option (\<lambda>t. if snd (runStatus d r) \<and> j \<in> nodes_of r \<and> t_status t = StatusQueued
       then cancelled_row now t else t) (get_task j d)) \<and>
    (\<forall>k. k \<noteq> r_id r \<longrightarrow> get_run k d' = get_run k d)"
proof -
  let ?ids = "map snd (r_task_ids r)"
  obtain st b where rs: "runStatus d r = (st, b)" by fastforce
  note spec = runStatus_spec [OF good, of r, folded nodes_of_def, unfolded rs]
  let ?d1 = "if b then cancel_queued now ?ids d else d"
  note eff = cancel_queued_effect [OF good, of now ?ids]
  have d1: "schema_ok ?d1" "runs ?d1 = runs d"
    "\<And>j. get_task j ?d1 = map_option (\<lambda>t. if b \<and> j \<in> nodes_of r \<and> t_status t = StatusQueued then cancelled_row now t else t) (get_task j d)"
    using eff good by (simp_all add: nodes_of_def option.map_ident_strong)
  have bst: "b \<Longrightarrow> st = Some RunStatusFailed" using spec by (auto split: if_splits)
  show ?thesis
  proof (cases st)
    case None
    then have "\<not> b" using bst by auto
    then have "d' = d" using None by (simp add: d' reconcile_run_def rs)
    with None \<open>\<not> b\<close> good show ?thesis by (simp add: rs option.map_ident_strong)
  next
    case (Some x)
    have x: "x \<in> {RunStatusSucceeded, RunStatusFailed, RunStatusCancelled}" using spec Some by (auto split: if_splits)
    have "get_run (r_id r) ?d1 = Some r" using r(1) d1(2) by (simp add: get_run_def)
    from FinishWorkflowRun_succeeds [OF d1(1) this r(2) x] obtain d2 where
      d2: "FinishWorkflowRun (r_id r) (r_revision r) x now ?d1 = Inr d2" by blast
    have "(if b then Some RunStatusFailed else Some x) = Some x" using bst Some by simp
    then have eq: "d' = d2" using Some d2 by (simp add: d' reconcile_run_def rs Let_def split: if_splits)
    note fin = FinishWorkflowRun_cases [OF d1(1) d2]
    have run: "get_run (r_id r) d2 = Some (finish_run_row x now r)" "schema_ok d2" "tasks d2 = tasks ?d1"
      "\<And>k. k \<noteq> r_id r \<Longrightarrow> get_run k d2 = get_run k d"
      using fin r(1) d1(2) by (auto simp: get_run_def)
    have task: "get_task j d2 = map_option (\<lambda>t. if b \<and> j \<in> nodes_of r \<and> t_status t = StatusQueued then cancelled_row now t else t)
        (get_task j d)" for j
      using d1(3) [of j] run(3) by (simp add: get_task_def)
    have good_iff: "x = RunStatusSucceeded \<longleftrightarrow> (\<forall>i\<in>nodes_of r. good_end d i)"
    proof -
      have "settled d i \<and> \<not> node_blocked d i" if "good_end d i" for i
        using that by (auto simp: good_end_def settled_def node_blocked_def)
      then show ?thesis using spec Some by (auto split: if_splits)
    qed
    have not_queued: "t_status t \<noteq> StatusQueued" if i: "i \<in> nodes_of r" "get_task i d2 = Some t" for i t
    proof (cases b)
      case True
      with i task [of i] obtain u where "t = (if t_status u = StatusQueued then cancelled_row now u else u)"
        by (cases "get_task i d") auto
      then show ?thesis by (simp add: cancelled_row_def split: if_splits)
    next
      case False
      then have "get_task i d = Some t" using i(2) task [of i] by (simp add: option.map_ident_strong)
      moreover have "settled d i" using spec False Some i(1) by (auto split: if_splits)
      ultimately show ?thesis by (rule ended_not_queued [OF good graph i(1)])
    qed
    have "\<forall>x'. Some x = Some x' \<longrightarrow> get_run (r_id r) d2 = Some (finish_run_row x' now r) \<and>
       (x' = RunStatusSucceeded \<longleftrightarrow> (\<forall>i\<in>nodes_of r. good_end d i)) \<and>
       (\<forall>i\<in>nodes_of r. \<forall>t. get_task i d2 = Some t \<longrightarrow> t_status t \<noteq> StatusQueued)"
      using run(1) good_iff not_queued by (simp only: option.inject) blast
    moreover have "\<forall>j. get_task j d2 = map_option (\<lambda>t. if b \<and> j \<in> nodes_of r \<and> t_status t = StatusQueued
        then cancelled_row now t else t) (get_task j d)" using task by (rule allI)
    moreover have "\<forall>k. k \<noteq> r_id r \<longrightarrow> get_run k d2 = get_run k d" using run(4) by blast
    moreover have "Some x = None \<longrightarrow> d2 = d" by simp
    ultimately show ?thesis using run(2) unfolding eq rs fst_conv snd_conv Some by (intro conjI)
  qed
qed

section \<open>A run with a failed node\<close>

definition demo_failed :: db where
  "demo_failed = (case demo_start of Inl e \<Rightarrow> demo_flow_db
     | Inr (d, r) \<Rightarrow> d\<lparr>tasks := upd_where (\<lambda>t. t_title t = ''do buildx'') (\<lambda>t. t\<lparr>t_status := StatusFailed\<rparr>) (tasks d)\<rparr>)"

definition demo_started_run :: run where
  "demo_started_run = (case demo_start of Inl e \<Rightarrow> hd (runs demo_run_db) | Inr (d, r) \<Rightarrow> r)"

lemma demo_start_graph:
  "\<exists>d r. demo_start = Inr (d, r) \<and> demo_started_run = r \<and> run_graph d r \<and> demo_failed = d\<lparr>tasks := upd_where (\<lambda>t. t_title t = ''do buildx'')
     (\<lambda>t. t\<lparr>t_status := StatusFailed\<rparr>) (tasks d)\<rparr>"
proof -
  have "case demo_start of Inl _ \<Rightarrow> False | Inr x \<Rightarrow> True" by code_simp
  then obtain d r where dr: "demo_start = Inr (d, r)" by (auto split: sum.splits)
  have "distinct (map n_id (s_nodes demo_flow))" by (simp add: demo_flow_def demo_step_def)
  moreover have "acyclic (dep_rel demo_flow)" using demo_flow_accepted by (simp add: spec_accepted_def)
  ultimately have "run_graph d r"
    using started_run_graph [OF demo_flow_ok demo_tk(1) _ _ dr [unfolded demo_start_def]] by blast
  moreover have "demo_started_run = r" by (simp add: demo_started_run_def dr)
  moreover have "demo_failed = d\<lparr>tasks := upd_where (\<lambda>t. t_title t = ''do buildx'') (\<lambda>t. t\<lparr>t_status := StatusFailed\<rparr>) (tasks d)\<rparr>"
    by (simp add: demo_failed_def dr)
  ultimately show ?thesis using dr by blast
qed

lemma demo_failed_graph: "run_graph demo_failed demo_started_run"
proof -
  from demo_start_graph obtain d r where d: "demo_started_run = r" "run_graph d r"
    "demo_failed = d\<lparr>tasks := upd_where (\<lambda>t. t_title t = ''do buildx'') (\<lambda>t. t\<lparr>t_status := StatusFailed\<rparr>) (tasks d)\<rparr>" by blast
  have "get_task i demo_failed = map_option (\<lambda>t. if t_title t = ''do buildx'' then t\<lparr>t_status := StatusFailed\<rparr> else t) (get_task i d)" for i
    unfolding d(3) by (rule get_task_upd) simp
  moreover have "run_edges demo_failed r = run_edges d r" by (simp add: run_edges_def d(3))
  ultimately show ?thesis using d(2) by (auto simp: run_graph_def d(1) split: if_splits)
qed

text \<open>The first node failed: the other one is cancelled and the run has failed.\<close>

theorem reconcile_run_effect_witness:
  "map t_status (tasks (reconcile_run ''t2'' demo_started_run demo_failed)) = [WorkflowStatusAdopted, StatusFailed, StatusCancelled] \<and>
   map_option r_status (get_run 1 (reconcile_run ''t2'' demo_started_run demo_failed)) = Some RunStatusFailed"
proof -
  have ok: "schema_ok demo_failed" by code_simp
  have run: "get_run 1 demo_failed = Some demo_started_run" "r_id demo_started_run = 1" "r_status demo_started_run = RunStatusRunning"
    by code_simp+
  have st: "fst (runStatus demo_failed demo_started_run) = Some RunStatusFailed" by code_simp
  from reconcile_run_effect [OF ok _ run(3) demo_failed_graph refl, of "''t2''"] run st
  have "get_run 1 (reconcile_run ''t2'' demo_started_run demo_failed) = Some (finish_run_row RunStatusFailed ''t2'' demo_started_run)"
    by simp
  moreover have "map t_status (tasks (reconcile_run ''t2'' demo_started_run demo_failed)) = [WorkflowStatusAdopted, StatusFailed, StatusCancelled]"
    by code_simp
  ultimately show ?thesis by simp
qed


end
