(* ===== verification/Scheduler.thy ===== *)
theory Scheduler
  imports Workflow_Monitor Lifecycle_Effects
begin

text \<open>
  \<^verbatim>\<open>internal/sched/scheduler.go\<close>: definitions with a cron expression create tasks, sessions
  and workflow runs. When a job fires is the cron library's; a job holds the row read at the last
  reload. \<open>sc_template\<close> is \<^verbatim>\<open>text/template\<close>, which may refuse a text, and
  \<open>sc_valid\<close> the parser of expressions. A nil pointer that is followed is \<open>Panicked\<close>: the
  library runs a job in a goroutine of its own and recovers nothing unless told to.
\<close>

section \<open>Jobs\<close>

record sched_env =
  sc_now :: string
  sc_session :: session_env
  sc_workflow :: wf_env
  sc_template :: "string \<Rightarrow> string \<Rightarrow> string option"
  sc_valid :: "string \<Rightarrow> bool"

text \<open>\<^verbatim>\<open>Reload\<close>: one job per enabled definition whose expression parses.\<close>

definition Reload :: "sched_env \<Rightarrow> db \<Rightarrow> task list" where
  "Reload v d = filter (\<lambda>tk. t_enabled tk \<and> sc_valid v (t_cron tk)) (ListScheduledTasks d)"

text \<open>\<^verbatim>\<open>renderTemplate\<close>; on an error the text is empty.\<close>

definition renderTemplate :: "sched_env \<Rightarrow> string \<Rightarrow> string \<Rightarrow> string \<times> bool" where
  "renderTemplate v src name =
     (if \<not> contains_sub src ''{{'' then (src, True)
      else case sc_template v src name of None \<Rightarrow> ([], False) | Some out \<Rightarrow> (out, True))"

definition or_source :: "string \<times> bool \<Rightarrow> string \<Rightarrow> string" where
  "or_source r src = (if snd r then fst r else src)"

datatype fired = Panicked | Fired bool

definition perm_name :: "perm \<Rightarrow> string" where
  "perm_name p = (case p of PermFull \<Rightarrow> ''full'' | PermReview \<Rightarrow> ''review'' | PermOther s \<Rightarrow> s)"

section \<open>The three kinds of definitions\<close>

definition instance_task :: "sched_env \<Rightarrow> task \<Rightarrow> int \<Rightarrow> task" where
  "instance_task v tk roleID =
     Session_Manager.zero_task\<lparr>t_title := or_source (renderTemplate v (t_title tk) (t_title tk)) (t_title tk),
       t_body := or_source (renderTemplate v (t_body tk) (t_title tk)) (t_body tk), t_status := StatusQueued,
       t_perm := t_perm tk, t_run_mode := RunModeBatch, t_role_id := Some roleID, t_project_id := t_project_id tk,
       t_dependency_mode := DependencyNone, t_block_on_failure := t_block_on_failure tk, t_schedule_id := Some (t_id tk),
       t_created_at := sc_now v, t_updated_at := sc_now v\<rparr>"

definition dispatchTask :: "sched_env \<Rightarrow> task \<Rightarrow> manager \<Rightarrow> manager \<times> fired" where
  "dispatchTask v tk m =
     (case t_role_id tk of
        None \<Rightarrow> (m, Panicked)
      | Some r \<Rightarrow>
      case get_role_row r (m_db m) of
        None \<Rightarrow> (m, Fired False)
      | Some agent \<Rightarrow>
      let inst = instance_task v tk (a_id agent);
          planned = (case t_project_id tk of
              None \<Rightarrow> Some inst
            | Some p \<Rightarrow> (case get_project p (m_db m) of
                None \<Rightarrow> None
              | Some pr \<Rightarrow> Some (inst\<lparr>t_project_dir := p_project_dir pr, t_dependency_mode := DependencyWeak\<rparr>))) in
      case planned of
        None \<Rightarrow> (m, Fired False)
      | Some t \<Rightarrow>
          (case CreateTaskWithProjectDependency (sc_now v) t (m_db m) of
             Inl e \<Rightarrow> (m, Fired False)
           | Inr (d, i) \<Rightarrow> (m\<lparr>m_db := d\<rparr>, Fired True)))"

definition dispatchSession :: "sched_env \<Rightarrow> SessionTask \<Rightarrow> manager \<Rightarrow> manager \<times> fired" where
  "dispatchSession v tk m =
     (if ss_project_id tk = None then (m, Fired False)
      else let title = fst (renderTemplate v (ss_title tk) (ss_title tk));
               seed = fst (renderTemplate v (ss_body tk) (ss_title tk)) in
      case ss_role_id tk of
        None \<Rightarrow> (m, Panicked)
      | Some r \<Rightarrow>
      case Session_Manager.Create (sc_session v) (ss_project_id tk) r (perm_name (ss_perm tk)) m of
        (m1, Inl e) \<Rightarrow> (m1, Fired False)
      | (m1, Inr ss) \<Rightarrow>
      case store_update (sc_session v) (t_id ss) ([(ColTitle, AStr title), (ColScheduleId, AInt (ss_id tk)),
          (ColUpdatedAt, AStr (sc_now v))] @ (if seed \<noteq> [] then [(ColBody, AStr seed)] else [])) m1 of
        (m2, Inl e) \<Rightarrow> (m2, Fired False)
      | (m2, Inr _) \<Rightarrow>
      case Session_Manager.Start (sc_session v) (t_id ss) m2 of
        (m3, Inl e) \<Rightarrow> (m3, Fired False)
      | (m3, Inr _) \<Rightarrow> (if seed \<noteq> [] then fst (Session_Manager.Prompt (sc_session v) (t_id ss) m3) else m3, Fired True))"

definition dispatchWorkflow :: "sched_env \<Rightarrow> WorkflowTask \<Rightarrow> manager \<Rightarrow> manager \<times> fired" where
  "dispatchWorkflow v tk m =
     (if wt_status tk \<noteq> WorkflowStatusAdopted then (m, Fired False)
      else case wt_project_id tk of
        None \<Rightarrow> (m, Fired False)
      | Some p \<Rightarrow>
          (case StartPlan (sc_workflow v) (wt_id tk) (wt_revision tk) p (fst (renderTemplate v (wt_title tk) (wt_title tk))) (m_db m) of
             Inl e \<Rightarrow> (m, Fired False)
           | Inr (d, run) \<Rightarrow> (m\<lparr>m_db := d\<rparr>, Fired True)))"

text \<open>\<^verbatim>\<open>scheduleJob.Run\<close>.\<close>

definition run_job :: "sched_env \<Rightarrow> task \<Rightarrow> manager \<Rightarrow> manager \<times> fired" where
  "run_job v tk m =
     (let r = (case t_type tk of
          TaskTypeTask \<Rightarrow> dispatchTask v tk m
        | TaskTypeSession \<Rightarrow> (case AsSession tk of None \<Rightarrow> (m, Fired False) | Some ss \<Rightarrow> dispatchSession v ss m)
        | TaskTypeWorkflow \<Rightarrow> (case AsWorkflow tk of None \<Rightarrow> (m, Fired False) | Some w \<Rightarrow> dispatchWorkflow v w m)
        | TaskTypeOther _ \<Rightarrow> (m, Fired False)) in
      case r of
        (m1, Fired True) \<Rightarrow>
          (fst (store_update (sc_session v) (t_id tk) [(ColLastRunAt, AStr (sc_now v))] m1), Fired True)
      | r \<Rightarrow> r)"

section \<open>Where it goes wrong\<close>

definition demo_sched_env :: sched_env where
  "demo_sched_env = \<lparr>sc_now = ''t9'', sc_session = demo_session_env,
     sc_workflow = \<lparr>we_now = ''t9'', we_capabilities = (\<lambda>r. [''batch'']), we_hash = (\<lambda>s. ''h''),
       we_order = (\<lambda>sp. map n_id (s_nodes sp)), we_render = (\<lambda>i t. i)\<rparr>,
     sc_template = (\<lambda>src name. None), sc_valid = (\<lambda>c. True)\<rparr>"

definition manager_of :: "task list \<Rightarrow> manager" where
  "manager_of ts = \<lparr>m_db = demo_project_db ts, m_ex = no_slots, m_procs = []\<rparr>"

definition demo_schedule :: task where
  "demo_schedule = (demo_in 1 1 1 StatusQueued)\<lparr>t_cron := ''@daily'', t_enabled := True, t_body := replicate 401 (CHR ''x''),
     t_role_id := Some 1\<rparr>"

text \<open>
  The jobs hold brief rows, so a scheduled task runs with the first 400 characters of its body.
\<close>

lemma scheduled_body_truncated:
  "case Reload demo_sched_env (m_db (manager_of [demo_schedule])) of [] \<Rightarrow> False | tk # _ \<Rightarrow>
     (case run_job demo_sched_env tk (manager_of [demo_schedule]) of (m, r) \<Rightarrow>
        r = Fired True \<and> map (\<lambda>t. length (t_body t)) (tasks (m_db m)) = [401, 400])"
  by code_simp

text \<open>
  A schedule without a role is accepted like any task without one; when it fires, the nil role
  is followed.
\<close>

lemma roleless_schedule_panics:
  "case create_task demo_life_env (demo_request\<lparr>c_role_id := None, c_run_mode := [], c_cron := ''@daily''\<rparr>) (life_of []) of
     (l, r) \<Rightarrow> (case r of Inl _ \<Rightarrow> False | Inr t \<Rightarrow>
       (case Reload demo_sched_env (l_db l) of [] \<Rightarrow> False | tk # _ \<Rightarrow>
          t_id tk = t_id t \<and> snd (run_job demo_sched_env tk (l_man l)) = Panicked))"
  by code_simp

end
