(* ===== verification/Scheduler_Laws.thy ===== *)
theory Scheduler_Laws
  imports Scheduler
begin

text \<open>
  A scheduled task fires without disturbing what is there: one new task at the end of its
  project, and a mark on its definition.
\<close>

text \<open>The task a definition asks for; it is no definition itself.\<close>

definition spawned :: "sched_env \<Rightarrow> db \<Rightarrow> task \<Rightarrow> task \<Rightarrow> bool" where
  "spawned v d tk t \<longleftrightarrow>
     t_type t = TaskTypeTask \<and> t_status t = StatusQueued \<and> t_run_mode t = RunModeBatch \<and> t_cron t = [] \<and>
     t_merge_of t = None \<and> t_schedule_id t = Some (t_id tk) \<and> t_role_id t = t_role_id tk \<and> t_role_id tk \<noteq> None \<and>
     t_project_id t = t_project_id tk \<and> t_perm t = t_perm tk \<and> t_block_on_failure t = t_block_on_failure tk \<and>
     t_title t = or_source (renderTemplate v (t_title tk) (t_title tk)) (t_title tk) \<and>
     t_body t = or_source (renderTemplate v (t_body tk) (t_title tk)) (t_body tk) \<and>
     t_depends_on t = (case t_project_id tk of None \<Rightarrow> None | Some p \<Rightarrow> last_project_task p d) \<and>
     t_dependency_mode t = (if t_project_id tk = None then DependencyNone else DependencyWeak)"

definition only_new :: "db \<Rightarrow> db \<Rightarrow> task \<Rightarrow> bool" where
  "only_new d d' t \<longleftrightarrow> schema_ok d' \<and> get_task (t_id t) d = None \<and> get_task (t_id t) d' = Some t \<and> task_seq d < t_id t \<and>
     (\<forall>j. j \<noteq> t_id t \<longrightarrow> get_task j d' = get_task j d)"

lemma depends_none_id: "t_depends_on t = None \<Longrightarrow> t\<lparr>t_depends_on := None\<rparr> = (t :: task)"
  by (cases t) simp

lemma scheduled_creation:
  assumes run: "CreateTaskWithProjectDependency now t d = Inr (d', i)"
    and t: "t_merge_of t = None" "t_cron t = []" "t_type t = TaskTypeOther []" "t_run_mode t = RunModeBatch" "t_depends_on t = None"
      "t_dependency_mode t = (if t_project_id t = None then DependencyNone else DependencyWeak)"
  shows "\<exists>u. only_new d d' u \<and> t_type u = TaskTypeTask \<and> t_status u = t_status t \<and> t_run_mode u = RunModeBatch \<and> t_cron u = [] \<and>
     t_merge_of u = None \<and> t_schedule_id u = t_schedule_id t \<and> t_role_id u = t_role_id t \<and> t_project_id u = t_project_id t \<and>
     t_title u = t_title t \<and> t_body u = t_body t \<and> t_perm u = t_perm t \<and> t_block_on_failure u = t_block_on_failure t \<and> t_dependency_mode u = t_dependency_mode t \<and>
     t_depends_on u = (case t_project_id t of None \<Rightarrow> None | Some p \<Rightarrow> last_project_task p d)"
proof -
  let ?t0 = "assignNextTaskSortOrder d (prepareTaskForInsert now t)"
  have same: "t_merge_of ?t0 = None" "t_cron ?t0 = []" "t_type ?t0 = TaskTypeTask" "t_run_mode ?t0 = RunModeBatch" "t_depends_on ?t0 = None"
    "t_dependency_mode ?t0 = t_dependency_mode t" "t_project_id ?t0 = t_project_id t" "t_status ?t0 = t_status t"
    "t_title ?t0 = t_title t" "t_body ?t0 = t_body t" "t_schedule_id ?t0 = t_schedule_id t" "t_role_id ?t0 = t_role_id t" "t_perm ?t0 = t_perm t" "t_block_on_failure ?t0 = t_block_on_failure t"
    using t by (simp_all add: assignNextTaskSortOrder_def prepareTaskForInsert_def normalizeDependencyMode_def Let_def split: option.splits)
  have "t_dependency_mode t \<noteq> DependencyOther []" using t(6) by simp
  with run obtain x where res: "resolveNewTaskDependency d ?t0 = Inr x" and ins: "insertTask x d = Inr (d', i)"
    by (auto simp: CreateTaskWithProjectDependency_def Let_def rbind_eq_Inr)
  have x: "x = ?t0\<lparr>t_depends_on := (case t_project_id t of None \<Rightarrow> None | Some p \<Rightarrow> last_project_task p d)\<rparr>"
  proof (cases "t_project_id t")
    case None
    with res same t(6) have "x = ?t0"
      by (simp add: resolveNewTaskDependency_def normalizeDependencyMode_def validDependencyMode_def Let_def)
    with None same(5) show ?thesis by (simp add: depends_none_id)
  next
    case (Some p)
    with res same t(6) show ?thesis
      by (simp add: resolveNewTaskDependency_def normalizeDependencyMode_def validDependencyMode_def Let_def)
  qed
  note row = insertTask_row [OF ins]
  let ?u = "(with_defaults x)\<lparr>t_id := i\<rparr>"
  have "task_seq d < i" using ins next_id_seq [of "task_seq d"] by (auto simp: insertTask_def insert_task_row_Inr)
  then have "only_new d d' ?u" using row(1-4) by (simp add: only_new_def get_task_None)
  then show ?thesis using same unfolding x by (intro exI [of _ ?u]) (simp add: x with_defaults_def)
qed

lemma dispatchTask_outcome:
  assumes run: "dispatchTask v tk m = (m', r)"
  shows "if r = Fired True then m_ex m' = m_ex m \<and> m_procs m' = m_procs m \<and>
      (\<exists>t. only_new (m_db m) (m_db m') t \<and> spawned v (m_db m) tk t) else m' = m"
proof (cases "m' = m \<and> r \<noteq> Fired True")
  case True
  then show ?thesis by simp
next
  case False
  from run False obtain rid a where role: "t_role_id tk = Some rid" "get_role_row rid (m_db m) = Some a"
    by (auto simp: dispatchTask_def split: option.splits)
  from role(2) have a: "a_id a = rid" by (auto simp: get_role_row_def)
  obtain t where tt: "t = instance_task v tk rid \<and> t_project_id tk = None \<or>
      (\<exists>dir. t = (instance_task v tk rid)\<lparr>t_project_dir := dir, t_dependency_mode := DependencyWeak\<rparr>) \<and> t_project_id tk \<noteq> None"
    and body: "dispatchTask v tk m = (case CreateTaskWithProjectDependency (sc_now v) t (m_db m) of
       Inl e \<Rightarrow> (m, Fired False) | Inr (d, i) \<Rightarrow> (m\<lparr>m_db := d\<rparr>, Fired True))"
  proof (cases "t_project_id tk")
    case None
    then show thesis by (intro that [of "instance_task v tk rid"]) (simp_all add: dispatchTask_def role a Let_def)
  next
    case (Some p)
    show thesis
    proof (cases "get_project p (m_db m)")
      case None
      then have "dispatchTask v tk m = (m, Fired False)" using Some by (simp add: dispatchTask_def role Let_def)
      with run False show thesis by simp
    next
      case (Some pr)
      let ?t = "(instance_task v tk rid)\<lparr>t_project_dir := p_project_dir pr, t_dependency_mode := DependencyWeak\<rparr>"
      show thesis
        by (intro that [of ?t]) (use Some \<open>t_project_id tk = Some p\<close> in \<open>auto simp: dispatchTask_def role a Let_def\<close>)
    qed
  qed
  obtain d i where t: "CreateTaskWithProjectDependency (sc_now v) t (m_db m) = Inr (d, i)" "m' = m\<lparr>m_db := d\<rparr>" "r = Fired True"
    using run False unfolding body by (cases "CreateTaskWithProjectDependency (sc_now v) t (m_db m)") auto
  have f: "t_merge_of t = None" "t_cron t = []" "t_type t = TaskTypeOther []" "t_run_mode t = RunModeBatch" "t_depends_on t = None"
    "t_project_id t = t_project_id tk" "t_status t = StatusQueued" "t_schedule_id t = Some (t_id tk)" "t_role_id t = Some rid"
    "t_perm t = t_perm tk" "t_block_on_failure t = t_block_on_failure tk"
    "t_title t = or_source (renderTemplate v (t_title tk) (t_title tk)) (t_title tk)"
    "t_body t = or_source (renderTemplate v (t_body tk) (t_title tk)) (t_body tk)"
    "t_dependency_mode t = (if t_project_id t = None then DependencyNone else DependencyWeak)"
    using tt by (auto simp: instance_task_def Session_Manager.zero_task_def)
  from scheduled_creation [OF t(1) f(1-5,14)] obtain u where "only_new (m_db m) d u" "spawned v (m_db m) tk u"
    using f role(1) by (auto simp: spawned_def)
  with t(2,3) show ?thesis by auto
qed

lemma last_run_write:
  assumes run: "store_update v i [(ColLastRunAt, AStr s)] m = (m', r)" and good: "schema_ok (m_db m)"
  shows "m_ex m' = m_ex m \<and> m_procs m' = m_procs m \<and> (\<forall>j. j \<noteq> i \<longrightarrow> get_task j (m_db m') = get_task j (m_db m)) \<and>
    (\<forall>u. get_task i (m_db m) = Some u \<longrightarrow> get_task i (m_db m') = Some u \<or>
       get_task i (m_db m') = Some (u\<lparr>t_last_run_at := Some s, t_updated_at := sv_now v, t_revision := t_revision u + 1\<rparr>))"
proof (cases "updateOne i [(ColLastRunAt, AStr s)] (sv_now v) (m_db m)")
  case (Inl e)
  then have "m' = m" using run by (simp add: store_update_def no_project_UpdateTask)
  then show ?thesis by simp
next
  case (Inr d)
  then have m': "m' = m\<lparr>m_db := d\<rparr>" using run by (simp add: store_update_def no_project_UpdateTask)
  note rows = updateOne_rows [OF Inr _ good]
  have get: "get_task j d = (if j = i then map_option (\<lambda>t. the (edit_task [(ColLastRunAt, AStr s)] (sv_now v) t)) (get_task j (m_db m))
      else get_task j (m_db m))" for j
    using rows by simp
  show ?thesis by (simp add: m' get edit_task_def set_task_col_def null_str_col_def)
qed



text \<open>
  The comment of \<^verbatim>\<open>renderTemplate\<close> says that a text that is no template is used as it
  is. Only tasks do so: a session gets an empty title and no instruction.
\<close>

definition demo_scheduled_session :: task where
  "demo_scheduled_session = demo_schedule\<lparr>t_type := TaskTypeSession, t_title := ''{{bad'', t_body := ''{{bad''\<rparr>"

lemma invalid_template_lost:
  "case AsSession demo_scheduled_session of None \<Rightarrow> False | Some tk \<Rightarrow>
     (case dispatchSession demo_sched_env tk (manager_of [demo_scheduled_session]) of
        (m, r) \<Rightarrow> r = Fired True \<and> map t_title (tasks (m_db m)) = [''{{bad'', []] \<and>
          t_title (instance_task demo_sched_env demo_scheduled_session 1) = ''{{bad'')"
  by code_simp

end
