(* ===== verification/History_Cleanup.thy ===== *)
theory History_Cleanup
  imports Lifecycle_Laws Artifact_Store
begin

text \<open>
  The cleanup of the history: store/cleanup.go and its handler in server/settings_handlers.go.
  Rows of finished tasks go in one statement, with their logs, edges and artifacts; afterwards the
  resources of the removed tasks and the files nobody refers to are removed. SQLite refuses
  \<^verbatim>\<open>ON DELETE RESTRICT\<close> when it reaches the row, not at the end of the statement, so the
  order in which it scans the rows matters: it is \<open>scan\<close>. Sessions of runtimes that belong to no
  task and failures of the disk are left out.
\<close>

section \<open>The store (cleanup.go)\<close>

record TaskCleanupResult =
  cu_deleted :: nat
  cu_locators :: "string list"
  cu_tasks :: "task list"

definition cleanup_where :: "int option \<Rightarrow> string \<Rightarrow> db \<Rightarrow> task \<Rightarrow> bool" where
  "cleanup_where roleID until d t \<longleftrightarrow>
     t_status t \<in> {StatusSucceeded, StatusFailed, StatusCancelled} \<and>
     \<not> list_ex (\<lambda>u. t_depends_on u = Some (t_id t)) (tasks d) \<and>
     (roleID \<noteq> None \<longrightarrow> t_role_id t = roleID) \<and> (until \<noteq> [] \<longrightarrow> t_created_at t < until)"

text \<open>The edges of runs while the rows are deleted one by one.\<close>

fun restrict_scan :: "int list \<Rightarrow> dep list \<Rightarrow> dep list option" where
  "restrict_scan [] es = Some es"
| "restrict_scan (i # is) es =
     (if list_ex (\<lambda>e. d_depends_on e = i) es then None
      else restrict_scan is (del_where (\<lambda>e. d_task_id e = i) es))"

definition delete_where :: "(int list \<Rightarrow> int list) \<Rightarrow> (task \<Rightarrow> bool) \<Rightarrow> db \<Rightarrow> store_error + (db \<times> nat)" where
  "delete_where scan p d =
     (let ids = map t_id (filter p (tasks d)) in
      case restrict_scan (scan ids) (deps d) of
        None \<Rightarrow> Inl ErrConstraint
      | Some es \<Rightarrow>
          rbind (exec_stmt (d\<lparr>tasks := del_where p (tasks d), deps := es,
              logs := del_where (\<lambda>g. g_task_id g \<in> set ids) (logs d)\<rparr>)) (\<lambda>d'.
            Inr (d', affected p (tasks d))))"

definition selected_locators :: "(task \<Rightarrow> bool) \<Rightarrow> db \<Rightarrow> artifacts \<Rightarrow> string list" where
  "selected_locators p d a =
     remdups (map md_locator (filter (\<lambda>m. list_ex (\<lambda>t. p t \<and> md_task_id m = Some (t_id t)) (tasks d)) (ar_rows a)))"

definition CleanupTasks ::
  "(int list \<Rightarrow> int list) \<Rightarrow> int option \<Rightarrow> string \<Rightarrow> db \<Rightarrow> artifacts \<Rightarrow> store_error + (db \<times> artifacts \<times> TaskCleanupResult)" where
  "CleanupTasks scan roleID until d a =
     (let p = cleanup_where roleID until d;
          selected = map brief (sort_key (\<lambda>t. (t_created_at t, t_id t)) (filter p (tasks d))) in
      rbind (delete_where scan p d) (\<lambda>(d', n).
        Inr (d', cascade d' a, \<lparr>cu_deleted = n, cu_locators = selected_locators p d a, cu_tasks = selected\<rparr>)))"

definition ListTasksForCleanup :: "db \<Rightarrow> task list" where
  "ListTasksForCleanup d = map brief (tasks d)"

section \<open>The handler (settings_handlers.go)\<close>

text \<open>Errors of the cleanup of resources are reported and do not stop it.\<close>

definition clean_resources :: "life_env \<Rightarrow> task list \<Rightarrow> life \<Rightarrow> life" where
  "clean_resources v ts l = fold (\<lambda>t l. fst (CleanupTaskResources v t l)) ts l"

definition cleanupTasks ::
  "life_env \<Rightarrow> artifact_env \<Rightarrow> (int list \<Rightarrow> int list) \<Rightarrow> int option \<Rightarrow> string \<Rightarrow> life \<Rightarrow> artifacts \<Rightarrow> life \<times> artifacts \<times> (int + nat)" where
  "cleanupTasks v av scan roleID until l a =
     (case CleanupTasks scan roleID until (l_db l) a of
        Inl e \<Rightarrow> (l, a, Inl 500)
      | Inr (d, a1, result) \<Rightarrow>
          (clean_resources v (cu_tasks result) (set_db d l), fold (sweep av) (cu_locators result) a1,
           Inr (cu_deleted result)))"

section \<open>What is removed\<close>

lemma CleanupTasks_Inr:
  assumes "CleanupTasks scan roleID until d a = Inr (d', a', res)"
  shows "schema_ok d' \<and> tasks d' = del_where (cleanup_where roleID until d) (tasks d) \<and> roles d' = roles d \<and>
    projects d' = projects d \<and> runs d' = runs d \<and> a' = cascade d' a \<and>
    cu_deleted res = length (filter (cleanup_where roleID until d) (tasks d)) \<and>
    mset (map t_id (cu_tasks res)) = mset (map t_id (filter (cleanup_where roleID until d) (tasks d))) \<and>
    cu_locators res = selected_locators (cleanup_where roleID until d) d a"
proof -
  let ?p = "cleanup_where roleID until d"
  let ?sel = "sort_key (\<lambda>t. (t_created_at t, t_id t)) (filter ?p (tasks d))"
  from assms obtain n where del: "delete_where scan ?p d = Inr (d', n)" and r: "a' = cascade d' a"
    "res = \<lparr>cu_deleted = n, cu_locators = selected_locators ?p d a, cu_tasks = map brief ?sel\<rparr>"
    by (auto simp: CleanupTasks_def Let_def rbind_eq_Inr)
  from del obtain es where d': "exec_stmt (d\<lparr>tasks := del_where ?p (tasks d), deps := es,
      logs := del_where (\<lambda>g. g_task_id g \<in> set (map t_id (filter ?p (tasks d)))) (logs d)\<rparr>) = Inr d'"
      "n = affected ?p (tasks d)"
    by (auto simp: delete_where_def Let_def rbind_eq_Inr split: option.splits)
  have "mset (map t_id (map brief ?sel)) = mset (map t_id (filter ?p (tasks d)))"
    by (simp add: brief_def comp_def)
  with d' r show ?thesis by (auto simp: exec_stmt_Inr affected_def)
qed

lemma clean_resources_effect:
  "l_man (clean_resources v ts l) = l_man l \<and> set (l_cancelled l) \<union> t_id ` set ts \<subseteq> set (l_cancelled (clean_resources v ts l)) \<and>
     set (l_cleaned l) \<union> t_id ` {t \<in> set ts. lv_cleanup v t} \<subseteq> set (l_cleaned (clean_resources v ts l))"
  unfolding clean_resources_def
proof (induction ts arbitrary: l)
  case (Cons t ts)
  let ?l = "fst (CleanupTaskResources v t l)"
  have one: "l_man ?l = l_man l" "l_cancelled ?l = l_cancelled l @ [t_id t]"
    "l_cleaned ?l = l_cleaned l @ (if lv_cleanup v t then [t_id t] else [])"
    by (simp_all add: CleanupTaskResources_def CancelTask_def Let_def)
  from Cons.IH [of ?l] show ?case unfolding one by auto
qed simp

lemma sweep_shrinks: "ar_files (sweep v loc a) p \<noteq> None \<Longrightarrow> ar_files (sweep v loc a) p = ar_files a p"
  by (auto simp: sweep_def Remove_def split: option.splits if_splits)

lemma sweeps_effect:
  assumes env: "good_env v" and b: "backed v a" and locs: "\<And>loc. loc \<in> set locs \<Longrightarrow> \<exists>h. is_digest h \<and> loc = locator_of h"
  shows "backed v (fold (sweep v) locs a) \<and> ar_rows (fold (sweep v) locs a) = ar_rows a \<and>
    (\<forall>p. ar_files (fold (sweep v) locs a) p \<noteq> None \<longrightarrow> ar_files (fold (sweep v) locs a) p = ar_files a p) \<and>
    (\<forall>loc\<in>set locs. CountArtifactsByLocator loc a = 0 \<longrightarrow> Open (av_root v) loc (ar_files (fold (sweep v) locs a)) = None)"
  using b locs
proof (induction locs arbitrary: a)
  case (Cons loc locs)
  from Cons.prems(2) [of loc] obtain h where h: "is_digest h" "loc = locator_of h" by auto
  let ?a = "sweep v loc a"
  note one = sweep_backed [OF env Cons.prems(1) h(1), folded h(2)]
  have IH: "backed v (fold (sweep v) locs ?a)" "ar_rows (fold (sweep v) locs ?a) = ar_rows ?a"
    "\<forall>p. ar_files (fold (sweep v) locs ?a) p \<noteq> None \<longrightarrow> ar_files (fold (sweep v) locs ?a) p = ar_files ?a p"
    "\<forall>x\<in>set locs. CountArtifactsByLocator x ?a = 0 \<longrightarrow> Open (av_root v) x (ar_files (fold (sweep v) locs ?a)) = None"
    using Cons.IH [of ?a] one Cons.prems(2) by simp_all
  have same: "CountArtifactsByLocator x ?a = CountArtifactsByLocator x a" for x
    using one by (simp add: CountArtifactsByLocator_def)
  have "Open (av_root v) loc (ar_files (fold (sweep v) locs ?a)) = None" if "CountArtifactsByLocator loc a = 0"
  proof (cases "path (av_root v) loc")
    case (Some p)
    have "ar_files ?a p = None" by (simp add: sweep_def that Remove_def Some)
    then show ?thesis using IH(3) by (auto simp: Open_def Some)
  qed (simp add: Open_def)
  moreover have "\<forall>p. ar_files (fold (sweep v) locs ?a) p \<noteq> None \<longrightarrow> ar_files (fold (sweep v) locs ?a) p = ar_files a p"
    using IH(3) sweep_shrinks by metis
  ultimately show ?case using IH one by (simp add: same)
qed simp

lemma selected_locators_mem:
  "loc \<in> set (selected_locators p d a) \<longleftrightarrow>
     (\<exists>m\<in>set (ar_rows a). md_locator m = loc \<and> (\<exists>t\<in>set (tasks d). p t \<and> md_task_id m = Some (t_id t)))"
  by (auto simp: selected_locators_def list_ex_iff)


section \<open>A finished task and a queued one\<close>

definition demo_history :: life where
  "demo_history = life_of [demo_in 1 1 1 StatusSucceeded, demo_in 1 2 2 StatusQueued]"

definition demo_files :: artifacts where
  "demo_files = fold (artifact_do demo_artifact_env)
     [CreateA (l_db demo_history) (upload ''x''), CreateA (l_db demo_history) ((upload ''y'')\<lparr>in_task_id := Some 2\<rparr>)] no_artifacts"


section \<open>Where it goes wrong\<close>

text \<open>
  The comment promises that rows others still refer to are kept. Only the target of a dependency
  is: a finished source whose merge task has not finished makes the statement fail for all tasks.
\<close>

lemma unfinished_merge_blocks_cleanup:
  "let d = demo_project_db [demo_in 1 1 1 StatusSucceeded, demo_in 1 2 2 StatusFailed,
         (demo_in 1 0 3 StatusQueued)\<lparr>t_merge_of := Some 1, t_parent_id := Some 1\<rparr>]
   in schema_ok d \<and> (case CleanupTasks (\<lambda>ids. ids) None [] d no_artifacts of Inl e \<Rightarrow> e = ErrConstraint | Inr _ \<Rightarrow> False)"
  by code_simp

text \<open>
  Two finished nodes of a run: the edge between them restricts the deletion of the first as long
  as the second is there, although both are to go.
\<close>

lemma finished_run_blocks_cleanup:
  "let d = (demo_project_db [demo_in 1 1 1 StatusSucceeded, demo_in 1 2 2 StatusSucceeded, demo_in 1 3 3 StatusFailed])
         \<lparr>deps := [\<lparr>d_task_id = 2, d_depends_on = 1, d_on_failure = ''block''\<rparr>]\<rparr>
   in schema_ok d \<and> (case CleanupTasks (\<lambda>ids. ids) None [] d no_artifacts of Inl e \<Rightarrow> e = ErrConstraint | Inr _ \<Rightarrow> False) \<and>
     (case CleanupTasks rev None [] d no_artifacts of Inl e \<Rightarrow> False | Inr (d', x) \<Rightarrow> tasks d' = [])"
  by code_simp

end
