(* ===== verification/Task_Patch.thy ===== *)
theory Task_Patch
  imports Complex_Main Lifecycle_Effects
begin

text \<open>
  \<^verbatim>\<open>PATCH /tasks/{id}\<close>: server/task_patch.go and task_patch_authorize.go, with the
  parsing of \<^verbatim>\<open>If-Match\<close> (workflow_handlers.go) and of the fields (server.go). An error is
  the status code of the response with its reason. A JSON number is a \<^verbatim>\<open>float64\<close>, which is
  a rational. What the SQL driver stores for a number, boolean, array or object in a column of
  text is \<open>pv_bind\<close>. Waking the executor and reloading the schedules leave no trace in the state.
\<close>

section \<open>Requests\<close>

datatype json = JNull | JBool bool | JNum rat | JStr string | JArr "json list" | JObj "(string \<times> json) list"

datatype patch_msg =
    PatchNoRevision | PatchNotJson | PatchFieldNotAllowed string | PatchBadField string
  | PatchBadMode | PatchBadTarget | PatchBadCron | PatchBadEnabled | PatchBadPerm | PatchBadConcurrent
  | PatchBadBlock | PatchBadParent | PatchBadProject | PatchNoTask | PatchStale | PatchMergeFixed
  | PatchMergeNotQueued | PatchMergeNeedsRole | PatchNoRole | PatchNotInteractive string | PatchNeedsRole
  | PatchHasDependency | PatchHasDependent int | PatchLife TaskLifecycleError | PatchStore store_error

type_synonym 'a reply = "(int \<times> patch_msg) + 'a"

text \<open>\<^verbatim>\<open>int64(v)\<close>: towards zero; what does not fit is the least value on amd64.\<close>

definition int64_of :: "rat \<Rightarrow> int" where
  "int64_of r =
     (let n = (if r < 0 then - \<lfloor>- r\<rfloor> else \<lfloor>r\<rfloor>) in
      if - (max_int64 + 1) \<le> n \<and> n \<le> max_int64 then n else - (max_int64 + 1))"

definition trim_quotes :: "string \<Rightarrow> string" where
  "trim_quotes s =
     List.rev (dropWhile (\<lambda>c. c = CHR 0x22) (List.rev (dropWhile (\<lambda>c. c = CHR 0x22) s)))"

definition requiredRevision :: "string \<Rightarrow> int reply" where
  "requiredRevision header =
     (let raw = trim_space header;
          raw = (if take 2 raw = ''W/'' then drop 2 raw else raw) in
      case ParseInt (trim_quotes raw) of
        None \<Rightarrow> Inl (428, PatchNoRevision)
      | Some n \<Rightarrow> if n < 1 then Inl (428, PatchNoRevision) else Inr n)"

definition patch_column :: "string \<Rightarrow> column option" where
  "patch_column = map_of
     [(''title'', ColTitle), (''body'', ColBody), (''role_id'', ColRoleId), (''perm'', ColPerm), (''status'', ColStatus),
      (''review_note'', ColReviewNote), (''parent_id'', ColParentId), (''project_id'', ColProjectId),
      (''concurrent'', ColConcurrent), (''block_on_failure'', ColBlockOnFailure), (''dependency_mode'', ColDependencyMode),
      (''depends_on'', ColDependsOn), (''cron'', ColCron), (''enabled'', ColEnabled)]"

type_synonym json_fields = "(column \<times> json) list"

text \<open>
  \<^verbatim>\<open>patchMap\<close>: the members in the order Go enumerates them, of which only the allowed
  ones are accepted; a value that does not decode, such as a number beyond float64, is \<open>None\<close>.
\<close>

fun patch_members :: "(string \<Rightarrow> column option) \<Rightarrow> (string \<times> json option) list \<Rightarrow> json_fields reply" where
  "patch_members allow [] = Inr []"
| "patch_members allow ((k, v) # xs) =
     (case allow k of
        None \<Rightarrow> Inl (400, PatchFieldNotAllowed k)
      | Some c \<Rightarrow>
          (case v of
             None \<Rightarrow> Inl (400, PatchBadField k)
           | Some j \<Rightarrow> rbind (patch_members allow xs) (\<lambda>r. Inr ((c, j) # r))))"

definition patchMap :: "(string \<Rightarrow> column option) \<Rightarrow> (string \<times> json option) list option \<Rightarrow> json_fields reply" where
  "patchMap allow raw = (case raw of None \<Rightarrow> Inl (400, PatchNotJson) | Some xs \<Rightarrow> patch_members allow xs)"

record taskPatch =
  tp_set :: json_fields
  tp_dependency_changed :: bool
  tp_schedule_changed :: bool

definition optionalTaskID :: "json \<Rightarrow> int option option" where
  "optionalTaskID j =
     (case j of
        JNull \<Rightarrow> Some None
      | JNum n \<Rightarrow> if n < 1 \<or> of_int \<lfloor>n\<rfloor> \<noteq> n \<or> n > 9007199254740991 then None else Some (Some (int64_of n))
      | _ \<Rightarrow> None)"

fun is_bool :: "json \<Rightarrow> bool" where
  "is_bool (JBool b) = True" | "is_bool _ = False"

fun is_str :: "json \<Rightarrow> bool" where
  "is_str (JStr s) = True" | "is_str _ = False"

definition field_ok :: "json_fields \<Rightarrow> column \<Rightarrow> (json \<Rightarrow> bool) \<Rightarrow> int \<times> patch_msg \<Rightarrow> unit reply" where
  "field_ok fs c p e = rguard (case map_of fs c of None \<Rightarrow> True | Some j \<Rightarrow> p j) e"

definition valid_mode :: "json \<Rightarrow> bool" where
  "valid_mode j = (case j of JStr m \<Rightarrow> m \<in> {''none'', ''weak'', ''strong''} | _ \<Rightarrow> False)"

definition validateTaskPatch :: "json_fields \<Rightarrow> taskPatch reply" where
  "validateTaskPatch fs =
     rbind (field_ok fs ColDependencyMode valid_mode (400, PatchBadMode)) (\<lambda>_.
     rbind (field_ok fs ColDependsOn (\<lambda>j. optionalTaskID j \<noteq> None) (400, PatchBadTarget)) (\<lambda>_.
     rbind (field_ok fs ColCron is_str (400, PatchBadCron)) (\<lambda>_.
     rbind (field_ok fs ColEnabled is_bool (400, PatchBadEnabled)) (\<lambda>_.
       Inr \<lparr>tp_set = fs,
         tp_dependency_changed = (map_of fs ColDependencyMode \<noteq> None \<or> map_of fs ColDependsOn \<noteq> None),
         tp_schedule_changed = (map_of fs ColCron \<noteq> None \<or> map_of fs ColEnabled \<noteq> None)\<rparr>))))"

section \<open>Authorisation\<close>

record patch_env =
  pv_life :: life_env
  pv_bind :: "json \<Rightarrow> any"

text \<open>A merge task belongs to the system.\<close>

definition positive_number :: "json \<Rightarrow> bool" where
  "positive_number j = (case j of JNum n \<Rightarrow> int64_of n > 0 | _ \<Rightarrow> False)"

definition authorize_merge :: "task \<Rightarrow> json_fields \<Rightarrow> unit reply" where
  "authorize_merge cur fs =
     (if t_merge_of cur = None then Inr ()
      else rbind (rguard (list_all (\<lambda>(c, j). c \<in> {ColStatus, ColRoleId}) fs) (409, PatchMergeFixed)) (\<lambda>_.
        case map_of fs ColRoleId of
          None \<Rightarrow> Inr ()
        | Some j \<Rightarrow>
            rbind (rguard (t_status cur = StatusQueued) (409, PatchMergeNotQueued)) (\<lambda>_.
              rguard (positive_number j) (409, PatchMergeNeedsRole))))"

definition authorize_role :: "patch_env \<Rightarrow> db \<Rightarrow> task \<Rightarrow> json_fields \<Rightarrow> unit reply" where
  "authorize_role v d cur fs =
     (let unassigned = rguard (t_run_mode cur \<noteq> RunModeInteractive) (400, PatchNeedsRole) in
      case map_of fs ColRoleId of
        None \<Rightarrow> Inr ()
      | Some (JNum n) \<Rightarrow>
          if n > 0 then
            (case get_role_row (int64_of n) d of
               None \<Rightarrow> Inl (400, PatchNoRole)
             | Some a \<Rightarrow>
                 rguard (\<not> (t_run_mode cur = RunModeInteractive \<and> \<not> lv_interactive (pv_life v) (a_runtime_id a)))
                   (400, PatchNotInteractive (a_runtime_id a)))
          else unassigned
      | Some _ \<Rightarrow> unassigned)"

definition valid_perm :: "json \<Rightarrow> bool" where
  "valid_perm j = (case j of JStr p \<Rightarrow> p \<in> {''full'', ''review''} | _ \<Rightarrow> False)"

text \<open>The move to another project; the result is the directory to store with it.\<close>

definition authorize_project :: "db \<Rightarrow> int \<Rightarrow> task \<Rightarrow> json_fields \<Rightarrow> string option reply" where
  "authorize_project d i cur fs =
     (case map_of fs ColProjectId of
        None \<Rightarrow> Inr None
      | Some j \<Rightarrow>
          if t_dependency_mode cur \<noteq> DependencyNone \<or> t_depends_on cur \<noteq> None then Inl (409, PatchHasDependency)
          else case FirstTaskDependent i d of
            Some u \<Rightarrow> Inl (409, PatchHasDependent (t_id u))
          | None \<Rightarrow>
              (case j of
                 JNull \<Rightarrow> Inr (Some [])
               | JNum n \<Rightarrow>
                   if n > 0 then
                     (case get_project (int64_of n) d of
                        None \<Rightarrow> Inl (400, PatchBadProject)
                      | Some pr \<Rightarrow> Inr (Some (p_project_dir pr)))
                   else Inl (400, PatchBadProject)
               | _ \<Rightarrow> Inl (400, PatchBadProject)))"

fun null_or_number :: "json \<Rightarrow> bool" where
  "null_or_number JNull = True" | "null_or_number (JNum n) = True" | "null_or_number _ = False"

text \<open>What is stored for a field after the checks.\<close>

definition patch_value :: "patch_env \<Rightarrow> column \<Rightarrow> json \<Rightarrow> any" where
  "patch_value v c j =
     (if c \<in> {ColRoleId, ColProjectId, ColParentId, ColDependsOn} then
        (case j of JNum n \<Rightarrow> if c = ColRoleId \<and> \<not> n > 0 then ANil else AInt (int64_of n) | _ \<Rightarrow> ANil)
      else case j of JNull \<Rightarrow> ANil | JStr s \<Rightarrow> AStr s | JBool b \<Rightarrow>
        if c \<in> {ColConcurrent, ColBlockOnFailure, ColEnabled} then ABool b else pv_bind v j
      | _ \<Rightarrow> pv_bind v j)"

definition authorizeTaskPatch :: "patch_env \<Rightarrow> db \<Rightarrow> int \<Rightarrow> task \<Rightarrow> json_fields \<Rightarrow> fields reply" where
  "authorizeTaskPatch v d i cur fs =
     rbind (authorize_merge cur fs) (\<lambda>_.
     rbind (authorize_role v d cur fs) (\<lambda>_.
     rbind (field_ok fs ColPerm valid_perm (400, PatchBadPerm)) (\<lambda>_.
     rbind (field_ok fs ColConcurrent is_bool (400, PatchBadConcurrent)) (\<lambda>_.
     rbind (field_ok fs ColBlockOnFailure is_bool (400, PatchBadBlock)) (\<lambda>_.
     rbind (authorize_project d i cur fs) (\<lambda>dir.
     rbind (field_ok fs ColParentId null_or_number (400, PatchBadParent)) (\<lambda>_.
       Inr (map (\<lambda>(c, j). (c, patch_value v c j)) fs
         @ (case dir of None \<Rightarrow> [] | Some s \<Rightarrow> [(ColProjectDir, AStr s)])))))))))"

section \<open>The edit\<close>

definition requested_status :: "json_fields \<Rightarrow> status" where
  "requested_status fs = status_of (case map_of fs ColStatus of Some (JStr s) \<Rightarrow> s | _ \<Rightarrow> [])"

definition life_reply :: "'a action \<Rightarrow> life \<times> 'a reply" where
  "life_reply x = (case x of (l, Inl e) \<Rightarrow> (l, Inl (writeTaskLifecycleError e, PatchLife e)) | (l, Inr a) \<Rightarrow> (l, Inr a))"

definition update_status_code :: "store_error \<Rightarrow> int" where
  "update_status_code e = (case e of ErrRevisionConflict \<Rightarrow> 409 | ErrDependencyUpdate _ \<Rightarrow> 400 | _ \<Rightarrow> 500)"

definition applyTaskPatch :: "patch_env \<Rightarrow> int \<Rightarrow> int \<Rightarrow> taskPatch \<Rightarrow> fields \<Rightarrow> life \<Rightarrow> life \<times> task reply" where
  "applyTaskPatch v i revision p fs l =
     (if map_of (tp_set p) ColStatus \<noteq> None then
        life_reply (Transition (pv_life v) i revision
          \<lparr>tr_status = requested_status (tp_set p), tr_fields = fs, tr_dependency_changed = tp_dependency_changed p\<rparr> l)
      else case (if tp_dependency_changed p
                 then UpdateTaskAtRevision (lv_rng (pv_life v)) i revision fs (lv_now (pv_life v)) (l_db l)
                 else UpdateAtRevision ResTask i revision fs (lv_now (pv_life v)) (l_db l)) of
          Inl e \<Rightarrow> (l, Inl (update_status_code e, PatchStore e))
        | Inr d \<Rightarrow>
            (case get_task i d of
               None \<Rightarrow> (set_db d l, Inl (500, PatchStore ErrNoRows))
             | Some t \<Rightarrow> (set_db d l, Inr t)))"

text \<open>What is checked against the state before the edit.\<close>

definition patch_admit :: "patch_env \<Rightarrow> int \<Rightarrow> int \<Rightarrow> json_fields \<Rightarrow> db \<Rightarrow> fields reply" where
  "patch_admit v i revision fs d =
     (case get_task i d of
        None \<Rightarrow> Inl (404, PatchNoTask)
      | Some cur \<Rightarrow>
          rbind (rguard (t_revision cur = revision) (409, PatchStale)) (\<lambda>_.
          rbind (if map_of fs ColStatus = None then Inr ()
                 else case ValidateTransition i revision (requested_status fs) d of
                     Inl e \<Rightarrow> Inl (writeTaskLifecycleError e, PatchLife e) | Inr _ \<Rightarrow> Inr ()) (\<lambda>_.
            authorizeTaskPatch v d i cur fs)))"

definition patchTask :: "patch_env \<Rightarrow> int \<Rightarrow> string \<Rightarrow> (string \<times> json option) list option \<Rightarrow> life \<Rightarrow> life \<times> task reply" where
  "patchTask v i header raw l =
     (case rbind (requiredRevision header) (\<lambda>revision.
           rbind (patchMap patch_column raw) (\<lambda>fs.
           rbind (validateTaskPatch fs) (\<lambda>p.
           rbind (patch_admit v i revision fs (l_db l)) (\<lambda>cols. Inr (revision, p, cols))))) of
        Inl e \<Rightarrow> (l, Inl e)
      | Inr (revision, p, cols) \<Rightarrow> applyTaskPatch v i revision p cols l)"

end
