(* ===== verification/Task_Patch_Laws.thy ===== *)
theory Task_Patch_Laws
  imports Task_Patch Update_Laws
begin

text \<open>
  What a PATCH keeps: the graph of dependencies stays acyclic and inside the projects, whichever
  fields a request combines. The authorisation of a move and the tests of the store for a
  dependency edit are two halves of one argument; neither is enough alone.
\<close>

section \<open>The graph of dependencies\<close>

definition graph_good :: "db \<Rightarrow> bool" where
  "graph_good d \<longleftrightarrow> schema_ok d \<and> (\<forall>i\<in>task_ids d \<union> project_ids d. 0 < i) \<and> acyclic (depends_rel d) \<and>
     project_local d \<and> (\<forall>t\<in>set (tasks d). validDependencyMode (t_dependency_mode t))"

lemma graph_goodD:
  assumes "graph_good d"
  shows "schema_ok d" "\<forall>i\<in>task_ids d \<union> project_ids d. 0 < i" "acyclic (depends_rel d)" "project_local d"
    "\<forall>t\<in>set (tasks d). validDependencyMode (t_dependency_mode t)"
  using assms by (simp_all add: graph_good_def)

text \<open>A row that keeps its edge and either its project or has no edge at either end.\<close>

definition keeps_edges :: "db \<Rightarrow> task \<Rightarrow> task \<Rightarrow> bool" where
  "keeps_edges d t t' \<longleftrightarrow> t_depends_on t' = t_depends_on t \<and> t_merge_of t' = t_merge_of t \<and>
     validDependencyMode (t_dependency_mode t') \<and>
     (t_project_id t' = t_project_id t \<or> t_depends_on t = None \<and> (\<forall>x. (x, t_id t) \<notin> depends_rel d))"

definition no_edge :: "int \<Rightarrow> task \<Rightarrow> bool" where
  "no_edge j t \<longleftrightarrow> 0 < j \<and> t_depends_on t = None \<and> validDependencyMode (t_dependency_mode t)"

lemma keeps_edges_refl: "graph_good d \<Longrightarrow> get_task j d = Some t \<Longrightarrow> keeps_edges d t t"
  by (auto simp: keeps_edges_def dest!: get_task_mem graph_goodD(5))

lemma graph_step:
  assumes good: "graph_good d" and ok': "schema_ok d'" and ps: "projects d' = projects d"
    and new: "\<And>j t'. get_task j d' = Some t' \<Longrightarrow>
      (case get_task j d of None \<Rightarrow> no_edge j t' | Some t \<Rightarrow> keeps_edges d t t')"
    and old: "\<And>j. get_task j d \<noteq> None \<Longrightarrow> get_task j d' \<noteq> None"
  shows "graph_good d'"
proof -
  note g = graph_goodD [OF good]
  have origin: "\<exists>t. get_task j d = Some t \<and> keeps_edges d t t'" if "get_task j d' = Some t'" "t_depends_on t' \<noteq> None" for j t'
    using new [OF that(1)] that(2) by (auto simp: no_edge_def split: option.splits)
  have rel: "depends_rel d' = depends_rel d"
  proof (rule set_eqI)
    fix e :: "int \<times> int"
    obtain x y where e: "e = (x, y)" by (cases e)
    have "(\<exists>t. get_task x d' = Some t \<and> t_depends_on t = Some y) \<longleftrightarrow> (\<exists>t. get_task x d = Some t \<and> t_depends_on t = Some y)"
    proof
      assume "\<exists>t. get_task x d' = Some t \<and> t_depends_on t = Some y"
      then obtain t' where t': "get_task x d' = Some t'" "t_depends_on t' = Some y" by blast
      with origin [of x t'] show "\<exists>t. get_task x d = Some t \<and> t_depends_on t = Some y" by (auto simp: keeps_edges_def)
    next
      assume "\<exists>t. get_task x d = Some t \<and> t_depends_on t = Some y"
      then obtain t where t: "get_task x d = Some t" "t_depends_on t = Some y" by blast
      with old [of x] obtain t' where "get_task x d' = Some t'" by auto
      with new [of x t'] t show "\<exists>t. get_task x d' = Some t \<and> t_depends_on t = Some y" by (auto simp: keeps_edges_def)
    qed
    then show "e \<in> depends_rel d' \<longleftrightarrow> e \<in> depends_rel d"
      by (simp add: e depends_rel_iff [OF ok'] depends_rel_iff [OF g(1)])
  qed
  have loc: "project_local d'"
    unfolding project_local_def rel
  proof (intro allI impI)
    fix x y assume r: "(x, y) \<in> depends_rel d"
    with g(4) obtain t u p where tu: "get_task x d = Some t" "get_task y d = Some u" "t_merge_of t = None" "t_merge_of u = None"
      "t_project_id t = Some p" "t_project_id u = Some p"
      unfolding project_local_def by blast
    from old [of x] old [of y] tu obtain t' u' where tu': "get_task x d' = Some t'" "get_task y d' = Some u'" by auto
    have k: "keeps_edges d t t'" "keeps_edges d u u'" using new [OF tu'(1)] new [OF tu'(2)] tu by simp_all
    have dep: "t_depends_on t = Some y" using r tu(1) by (simp add: depends_rel_iff [OF g(1)])
    have "t_id u = y" using tu(2) by auto
    then have "t_project_id t' = Some p" "t_project_id u' = Some p"
      using k tu dep r by (auto simp: keeps_edges_def)
    with k tu tu' show "\<exists>a b p. get_task x d' = Some a \<and> get_task y d' = Some b \<and> t_merge_of a = None \<and>
        t_merge_of b = None \<and> t_project_id a = Some p \<and> t_project_id b = Some p"
      by (auto simp: keeps_edges_def)
  qed
  have pos: "0 < i" if "i \<in> task_ids d'" for i
  proof -
    from that obtain t' where t': "get_task i d' = Some t'" using get_task_None [of i d'] by auto
    show ?thesis
    proof (cases "get_task i d")
      case None
      with new [OF t'] show ?thesis by (simp add: no_edge_def)
    next
      case (Some t)
      then have "i \<in> task_ids d" using get_task_None [of i d] by auto
      with g(2) show ?thesis by blast
    qed
  qed
  have pp: "project_ids d' = project_ids d" using ps by (simp add: project_ids_def)
  have mode: "validDependencyMode (t_dependency_mode t')" if "t' \<in> set (tasks d')" for t'
    using new [OF get_task_distinct [OF ok' that]] by (auto simp: no_edge_def keeps_edges_def split: option.splits)
  show ?thesis using ok' g(2,3) rel loc pos pp mode by (auto simp: graph_good_def)
qed

section \<open>One edit\<close>

lemma set_task_col_mode: "set_task_col c v t = Some t' \<Longrightarrow> c \<noteq> ColDependencyMode \<Longrightarrow> t_dependency_mode t' = t_dependency_mode t"
  unfolding set_task_col_def col_defs by (cases c) (auto split: any.splits)

lemma edit_task_mode:
  "edit_task fs now t = Some t' \<Longrightarrow> map_of fs ColDependencyMode = None \<Longrightarrow> t_dependency_mode t' = t_dependency_mode t"
  using set_cols_keep [of ColDependencyMode t_dependency_mode, OF set_task_col_mode] by (auto simp: edit_task_def)

lemma UpdateAtRevision_projects: "UpdateAtRevision ResTask i e fs now d = Inr d' \<Longrightarrow> projects d' = projects d"
  by (auto simp: UpdateAtRevision_def Let_def result_simps split: if_splits option.splits)

lemma UpdateTaskAtRevision_projects: "UpdateTaskAtRevision rng i e fs now d = Inr d' \<Longrightarrow> projects d' = projects d"
  by (auto simp: UpdateTaskAtRevision_def store_dependency_edit_def Let_def result_simps
      split: if_splits option.splits dest: UpdateAtRevision_projects)

text \<open>The move to another project is only asked for a task without edges.\<close>

definition may_move :: "db \<Rightarrow> int \<Rightarrow> fields \<Rightarrow> bool" where
  "may_move d i fs \<longleftrightarrow> distinct (map fst fs) \<and> (map_of fs ColProjectId \<noteq> None \<longrightarrow>
     (\<forall>t. get_task i d = Some t \<longrightarrow> t_depends_on t = None) \<and> (\<forall>x. (x, i) \<notin> depends_rel d))"

lemma plain_edit_keeps_graph:
  assumes good: "graph_good d" and mv: "may_move d i fs"
    and none: "map_of fs ColDependencyMode = None" "map_of fs ColDependsOn = None"
    and run: "UpdateAtRevision ResTask i e fs now d = Inr d'"
  shows "graph_good d'"
proof -
  from UpdateAtRevision_row [OF graph_goodD(1) [OF good] run] obtain t t' where
    t: "get_task i d = Some t" "edit_task fs now t = Some t'" "get_task i d' = Some t'" "changes_row i d d'" by blast
  obtain ts where ts: "d' = d\<lparr>tasks := ts\<rparr>"
      "edit_rows (\<lambda>t. t_id t = i \<and> t_revision t = e) (edit_task fs now) (tasks d) = Some ts"
    using run by (auto simp: UpdateAtRevision_def Let_def result_simps split: if_splits option.splits)
  have f: "\<And>r r'. edit_task fs now r = Some r' \<Longrightarrow> t_id r' = t_id r" by (auto dest: edit_task_frame)
  have rows: "get_task j d' = get_task j d" if "j \<noteq> i" for j
    using edit_rows_sel(1) [where key = t_id and i = j, OF ts(2) f] that
    by (cases "get_task j d") (auto simp: get_task_def ts(1) dest: sel_Some_mem)
  have "validDependencyMode (t_dependency_mode t)" using graph_goodD(5) [OF good] get_task_mem [OF t(1)] by blast
  then have k: "keeps_edges d t t'"
    using edit_task_depends [OF t(2) none(2)] edit_task_mode [OF t(2) none(1)] edit_task_frame [OF t(2)]
      edit_task_project [OF t(2)] mv t(1) by (auto simp: keeps_edges_def may_move_def)
  show ?thesis
  proof (rule graph_step [OF good _ UpdateAtRevision_projects [OF run]])
    show "schema_ok d'" using t(4) by (simp add: changes_row_def)
    fix j u' assume u': "get_task j d' = Some u'"
    show "case get_task j d of None \<Rightarrow> no_edge j u' | Some u \<Rightarrow> keeps_edges d u u'"
      using u' rows [of j] t(1,3) k keeps_edges_refl [OF good, of j] by (cases "j = i") auto
  next
    fix j assume "get_task j d \<noteq> None"
    then show "get_task j d' \<noteq> None" using rows [of j] t(3) by (cases "j = i") auto
  qed
qed

lemma dependency_edit_keeps_graph:
  assumes good: "graph_good d" and mv: "may_move d i fs" and rng: "\<forall>xs. set (rng xs) = set xs"
    and dep: "map_of fs ColDependencyMode \<noteq> None \<or> map_of fs ColDependsOn \<noteq> None"
    and run: "UpdateTaskAtRevision rng i e fs now d = Inr d'"
  shows "graph_good d'"
proof -
  note g = graph_goodD [OF good]
  from mv have move: "map_of fs ColProjectId \<noteq> None \<longrightarrow> (\<forall>x. (x, i) \<notin> depends_rel d)" and keys: "distinct (map fst fs)"
    by (simp_all add: may_move_def)
  from UpdateTaskAtRevision_cases [OF g(1) run dep] obtain t t' mode target where
    t: "get_task i d = Some t" "patched_mode fs t = Inr mode" "edit_with_dependency fs now mode target t = Some t'"
      "get_task i d' = Some t'" "\<forall>j. j \<noteq> i \<longrightarrow> get_task j d' = get_task j d"
    by blast
  have same: "get_task j d' = None \<longleftrightarrow> get_task j d = None" for j using t(1,4,5) by (cases "j = i") auto
  have ids: "task_ids d' = task_ids d"
    using same by (auto simp flip: get_task_None) (metis get_task_None)+
  have pids: "project_ids d' = project_ids d" using UpdateTaskAtRevision_projects [OF run] by (simp add: project_ids_def)
  have new: "schema_ok d' \<and> acyclic (depends_rel d') \<and> project_local d'"
    by (rule dependency_edit_keeps [OF g rng keys dep move run])
  have "validDependencyMode (t_dependency_mode t)" using g(5) get_task_mem [OF t(1)] by blast
  with t(2) have vm: "validDependencyMode mode" by (rule patched_mode_valid)
  have modes: "validDependencyMode (t_dependency_mode u)" if "u \<in> set (tasks d')" for u
  proof -
    have u: "get_task (t_id u) d' = Some u" using new that by (simp add: get_task_distinct)
    show ?thesis
    proof (cases "t_id u = i")
      case True
      with u t(4) have "u = t'" by simp
      with edit_with_dependency_frame(4) [OF t(3)] vm show ?thesis by simp
    next
      case False
      with u t(5) have "get_task (t_id u) d = Some u" by simp
      with g(5) show ?thesis by (blast dest: get_task_mem)
    qed
  qed
  show ?thesis using new g(2) ids pids modes by (simp add: graph_good_def)
qed

lemma write_keeps_graph:
  assumes "graph_good d" and "may_move d i fs" and "\<forall>xs. set (rng xs) = set xs"
    and "dep \<longleftrightarrow> map_of fs ColDependencyMode \<noteq> None \<or> map_of fs ColDependsOn \<noteq> None"
    and "(if dep then UpdateTaskAtRevision rng i e fs now d else UpdateAtRevision ResTask i e fs now d) = Inr d'"
  shows "graph_good d'"
proof (cases dep)
  case True
  with assms show ?thesis by (auto intro: dependency_edit_keeps_graph [OF assms(1-3)])
next
  case False
  with assms show ?thesis by (auto intro: plain_edit_keeps_graph [OF assms(1,2)])
qed

section \<open>One transition\<close>

lemma map_of_put_field: "c \<noteq> k \<Longrightarrow> map_of (put_field k a fs) c = map_of fs c"
  using map_of_filter_keys [of "\<lambda>x. x \<noteq> k" c fs] by (simp add: put_field_def map_add_def split: option.splits)

lemma map_of_drop_field: "c \<noteq> k \<Longrightarrow> map_of (drop_field k fs) c = map_of fs c"
  using map_of_filter_keys [of "\<lambda>x. x \<noteq> k" c fs] by (simp add: drop_field_def)

lemma distinct_put_field: "distinct (map fst fs) \<Longrightarrow> distinct (map fst (put_field k a fs))"
  by (auto simp: put_field_def distinct_map_filter)

lemma distinct_drop_field: "distinct (map fst fs) \<Longrightarrow> distinct (map fst (drop_field k fs))"
  by (simp add: drop_field_def distinct_map_filter)

definition graph_columns :: "column set" where
  "graph_columns = {ColProjectId, ColDependencyMode, ColDependsOn}"

lemma requeue_fields_columns:
  "c \<in> graph_columns \<Longrightarrow> map_of (requeue_fields v t fs) c = map_of fs c"
  by (auto simp: requeue_fields_def Let_def graph_columns_def map_of_put_field map_of_drop_field split: option.splits)

lemma requeue_fields_distinct: "distinct (map fst fs) \<Longrightarrow> distinct (map fst (requeue_fields v t fs))"
  by (simp add: requeue_fields_def Let_def distinct_put_field distinct_drop_field split: option.splits)

lemma may_move_columns:
  "may_move d i fs \<Longrightarrow> distinct (map fst fs') \<Longrightarrow> map_of fs' ColProjectId = map_of fs ColProjectId \<Longrightarrow> may_move d i fs'"
  by (simp add: may_move_def)

text \<open>A request whose flag says whether it names a dependency column.\<close>

definition flagged :: "TaskTransitionRequest \<Rightarrow> bool" where
  "flagged q \<longleftrightarrow> (tr_dependency_changed q \<longleftrightarrow>
     map_of (tr_fields q) ColDependencyMode \<noteq> None \<or> map_of (tr_fields q) ColDependsOn \<noteq> None)"

lemma updateTransition_keeps_graph:
  assumes good: "graph_good (l_db l)" and mv: "may_move (l_db l) i (tr_fields q)" and fl: "flagged q"
    and rng: "\<forall>xs. set (lv_rng v xs) = set xs" and run: "updateTransition v i e q l = (l', r)"
  shows "graph_good (l_db l')"
proof (cases "if tr_dependency_changed q then UpdateTaskAtRevision (lv_rng v) i e (tr_fields q) (lv_now v) (l_db l)
    else UpdateAtRevision ResTask i e (tr_fields q) (lv_now v) (l_db l)")
  case (Inl err)
  with run good show ?thesis by (auto simp: updateTransition_def)
next
  case (Inr d)
  from write_keeps_graph [OF good mv rng fl [unfolded flagged_def] Inr] run Inr show ?thesis
    by (auto simp: updateTransition_def reread_def split: option.splits)
qed

section \<open>Approval\<close>

lemma row_update_keeps_graph:
  assumes good: "graph_good d" and upd: "update_tasks p f d = Inr (d', n)"
    and f: "\<And>t. t_id (f t) = t_id t \<and> t_depends_on (f t) = t_depends_on t \<and> t_dependency_mode (f t) = t_dependency_mode t \<and>
      t_project_id (f t) = t_project_id t \<and> t_merge_of (f t) = t_merge_of t"
  shows "graph_good d'"
proof (rule graph_step [OF good])
  from upd have d': "d' = d\<lparr>tasks := upd_where p f (tasks d)\<rparr>" "schema_ok d'" by (auto simp: update_tasks_Inr)
  then show "schema_ok d'" "projects d' = projects d" by simp_all
  have row: "get_task j d' = map_option (\<lambda>t. if p t then f t else t) (get_task j d)" for j
    using f by (simp add: d'(1) get_task_upd)
  show "\<And>j. get_task j d \<noteq> None \<Longrightarrow> get_task j d' \<noteq> None" by (simp add: row)
  fix j t' assume "get_task j d' = Some t'"
  then obtain t where t: "get_task j d = Some t" "t' = (if p t then f t else t)" using row [of j] by auto
  from keeps_edges_refl [OF good t(1)] f [of t] t show "case get_task j d of None \<Rightarrow> no_edge j t' | Some t \<Rightarrow> keeps_edges d t t'"
    by (auto simp: keeps_edges_def)
qed

lemma insert_keeps_graph:
  assumes good: "graph_good d" and ins: "insert_task_row m d = Inr (d', i)" and m: "no_edge 1 m" and some: "x \<in> set (tasks d)"
  shows "graph_good d'"
proof (rule graph_step [OF good])
  show "schema_ok d'" "projects d' = projects d" using ins by (auto simp: insert_task_row_Inr)
  note row = get_task_insert [OF ins]
  have "get_task i d = None"
    using ins next_id_fresh [of "task_seq d" "map t_id (tasks d)"] by (auto simp: insert_task_row_Inr get_task_None task_ids_def)
  then show "\<And>j. get_task j d \<noteq> None \<Longrightarrow> get_task j d' \<noteq> None" by (simp add: row)
  have "t_id x \<in> task_ids d" using some by (simp add: task_ids_def)
  then have "0 < t_id x" using graph_goodD(2) [OF good] by blast
  moreover have "t_id x < i" using ins next_id_gt [of "t_id x" "map t_id (tasks d)" "task_seq d"] some
    by (simp add: insert_task_row_Inr)
  ultimately have i: "0 < i" by simp
  fix j t' assume t': "get_task j d' = Some t'"
  show "case get_task j d of None \<Rightarrow> no_edge j t' | Some t \<Rightarrow> keeps_edges d t t'"
  proof (cases "j = i")
    case True
    with t' row [of i] m i \<open>get_task i d = None\<close> show ?thesis by (auto simp: no_edge_def)
  next
    case False
    with t' row [of j] have "get_task j d = Some t'" by simp
    with keeps_edges_refl [OF good this] show ?thesis by simp
  qed
qed

lemma finish_with_merge_keeps_graph:
  assumes good: "graph_good d"
    and f: "\<And>t. t_id (f t) = t_id t \<and> t_depends_on (f t) = t_depends_on t \<and> t_dependency_mode (f t) = t_dependency_mode t \<and>
      t_project_id (f t) = t_project_id t \<and> t_merge_of (f t) = t_merge_of t"
    and run: "finish_with_merge p f msg sid (prepareMergeTask now sid m) d = Inr (d', mid)"
  shows "graph_good d'"
proof -
  from run obtain d1 n s where one: "update_tasks p f d = Inr (d1, n)" "get_task sid d1 = Some s"
      "insertMergeTask d1 ((prepareMergeTask now sid m)\<lparr>t_block_on_failure := t_block_on_failure s\<rparr>) = Inr (d', mid)"
    by (auto simp: finish_with_merge_def inheritMergeFailurePolicy_def rbind_eq_Inr split: if_splits option.splits)
  have "no_edge 1 (merge_row ((prepareMergeTask now sid m)\<lparr>t_block_on_failure := t_block_on_failure s\<rparr>))"
    by (simp add: no_edge_def merge_row_def prepareMergeTask_def Let_def validDependencyMode_def)
  from insert_keeps_graph [OF row_update_keeps_graph [OF good one(1) f] one(3) [unfolded insertMergeTask_def] this get_task_mem [OF one(2)]]
  show ?thesis .
qed

lemma graph_good_log: "graph_good (l_db l) \<Longrightarrow> graph_good (l_db (appendLog v i c l))"
proof (cases "AppendLog (lv_now v) \<lparr>g_id = 0, g_task_id = i, g_seq = 0, g_stream = ''sys'',
    g_content = lv_say v c, g_created_at = []\<rparr> (l_db l)")
  case (Inr x)
  then obtain d g where x: "x = (d, g)" by (cases x)
  assume good: "graph_good (l_db l)"
  have eq: "tasks d = tasks (l_db l)" "projects d = projects (l_db l)" "schema_ok d"
    using Inr x by (auto simp: AppendLog_def insert_log_def Let_def result_simps)
  have "graph_good d"
    by (rule graph_step [OF good eq(3,2)]) (auto simp: get_task_def eq(1) intro: keeps_edges_refl [OF good, unfolded get_task_def])
  with Inr x show ?thesis by (simp add: appendLog_def)
qed (simp add: appendLog_def)

lemma approve_keeps_graph:
  assumes good: "graph_good (l_db l)" and run: "approve v s e l = (l', r)"
  shows "graph_good (l_db l')"
proof -
  let ?m = "NewMergeTask (sv_merge_text (lv_session v)) s"
  have skip: "graph_good d" if "ApproveTaskDeliver (lv_now v) (t_id s) e (l_db l) = Inr d" for d
  proof -
    from that obtain n where "update_tasks (\<lambda>t. t_id t = t_id s \<and> t_revision t = e \<and> t_status t = StatusAwaitingReview)
        (\<lambda>t. (approve_row (lv_now v) t)\<lparr>t_merge_skipped := True\<rparr>) (l_db l) = Inr (d, n)"
      by (auto simp: ApproveTaskDeliver_def rbind_eq_Inr split: if_splits)
    from row_update_keeps_graph [OF good this] show ?thesis by (simp add: approve_row_def)
  qed
  have merge: "graph_good d" if "ApproveTaskAndCreateMerge (lv_now v) (t_id s) e ?m (l_db l) = Inr (d, mid)" for d mid
    using finish_with_merge_keeps_graph [OF good _ that [unfolded ApproveTaskAndCreateMerge_def]] by (simp add: approve_row_def)
  show ?thesis
    using run good skip merge
    by (auto simp: approve_def reread_def split: if_splits sum.splits option.splits intro!: graph_good_log)
qed

section \<open>The request\<close>

lemma transition_keeps_graph:
  assumes good: "graph_good (l_db l)" and mv: "may_move (l_db l) i (tr_fields q)" and fl: "flagged q"
    and rng: "\<forall>xs. set (lv_rng v xs) = set xs" and run: "Transition v i e q l = (l', r)"
  shows "graph_good (l_db l')"
proof (cases "\<exists>err. Transition v i e q l = (l, Inl err)")
  case True
  with run good show ?thesis by auto
next
  case False
  then obtain s where at: "taskAtRevision i e (l_db l) = Inr s"
    by (cases "taskAtRevision i e (l_db l)") (simp_all add: Transition_def)
  have "canTransitionTask (t_status s) (tr_status q)"
  proof (rule ccontr)
    assume "\<not> canTransitionTask (t_status s) (tr_status q)"
    with at False show False by (simp add: Transition_def Let_def)
  qed
  note s = at this
  have i: "t_id s = i" using taskAtRevision_Inr [OF s(1)] by (auto dest: get_task_id)
  from can_target [OF s(2)] consider "tr_status q = StatusSucceeded" | "tr_status q = StatusQueued" | "tr_status q = StatusCancelled"
    by blast
  then show ?thesis
  proof cases
    case 1
    with False s have "Transition v i e q l = approve v s e l" by (auto simp: Transition_def split: if_splits)
    with run approve_keeps_graph [OF good] show ?thesis by simp
  next
    case 2
    with s have eq: "Transition v i e q l = requeue v s e q l" by (simp add: Transition_def)
    let ?q = "q\<lparr>tr_fields := requeue_fields v s (tr_fields q)\<rparr>"
    define l0 where "l0 = (if t_status s = StatusAwaitingReview then ResetTaskSession (t_id s) l else l)"
    have l0: "l_man l0 = l_man l" by (simp add: l0_def ResetTaskSession_def)
    show ?thesis
    proof (cases "validateRequeue s (l_db l)")
      case (Inl err)
      with run eq good show ?thesis by (simp add: requeue_def)
    next
      case (Inr u)
      then have upd: "updateTransition v i e ?q l0 = (l', r)" using run eq by (simp add: requeue_def l0_def i)
      have "may_move (l_db l0) i (tr_fields ?q)"
        using mv by (auto simp: l0 requeue_fields_columns graph_columns_def requeue_fields_distinct may_move_def)
      moreover have "flagged ?q" using fl by (simp add: flagged_def requeue_fields_columns graph_columns_def)
      ultimately show ?thesis using updateTransition_keeps_graph [OF _ _ _ rng upd] good l0 by simp
    qed
  next
    case 3
    with s have eq: "Transition v i e q l = cancel v s e q l" by (simp add: Transition_def)
    let ?q = "q\<lparr>tr_fields := put_field ColStatus (AStr ''cancelled'') (tr_fields q)\<rparr>"
    have upd: "updateTransition v i e ?q (CancelTask i l) = (l', r)" using run eq by (simp add: cancel_def i)
    have "may_move (l_db (CancelTask i l)) i (tr_fields ?q)"
      using mv by (auto simp: may_move_def map_of_put_field distinct_put_field)
    moreover have "flagged ?q" using fl by (simp add: flagged_def map_of_put_field)
    ultimately show ?thesis using updateTransition_keeps_graph [OF _ _ _ rng upd] good by simp
  qed
qed

text \<open>What the parser and the authorisation deliver.\<close>

lemma patch_column_inj: "patch_column k = Some c \<Longrightarrow> patch_column k' = Some c \<Longrightarrow> k = k'"
  by (auto simp: patch_column_def split: if_splits)

lemma patch_members_keys:
  "patch_members allow xs = Inr fs \<Longrightarrow> map (Some \<circ> fst) fs = map (allow \<circ> fst) xs"
  by (induction xs arbitrary: fs) (auto simp: result_simps split: option.splits)

lemma patch_members_distinct:
  assumes inj: "\<And>k k' c. allow k = Some c \<Longrightarrow> allow k' = Some c \<Longrightarrow> k = k'"
    and run: "patch_members allow xs = Inr fs" and keys: "distinct (map fst xs)"
  shows "distinct (map fst fs)"
proof -
  note k = patch_members_keys [OF run]
  have "inj_on allow (set (map fst xs))"
  proof (rule inj_onI)
    fix a b assume ab: "a \<in> set (map fst xs)" "b \<in> set (map fst xs)" "allow a = allow b"
    have "allow a \<in> set (map (Some \<circ> fst) fs)" using ab(1) unfolding k by auto
    then obtain c where "allow a = Some c" by auto
    with ab(3) inj show "a = b" by metis
  qed
  with keys have "distinct (map (allow \<circ> fst) xs)" by (metis distinct_map map_map)
  then have "distinct (map (Some \<circ> fst) fs)" by (simp only: k)
  then show "distinct (map fst fs)" by (metis distinct_map map_map)
qed

lemma patch_members_allowed:
  assumes "patch_members allow xs = Inr fs" and "c \<in> fst ` set fs"
  shows "\<exists>k. allow k = Some c"
proof -
  have "Some c \<in> set (map (Some \<circ> fst) fs)" using assms(2) by auto
  then show ?thesis unfolding patch_members_keys [OF assms(1)] by auto
qed

lemma no_project_dir: "patch_members patch_column xs = Inr fs \<Longrightarrow> ColProjectDir \<notin> fst ` set fs"
  by (auto dest!: patch_members_allowed [where c = ColProjectDir] simp: patch_column_def split: if_splits)

lemma authorize_columns:
  assumes auth: "authorizeTaskPatch v d i cur fs = Inr cols"
  shows "\<exists>extra. cols = map (\<lambda>(c, j). (c, patch_value v c j)) fs @ extra \<and>
      (extra = [] \<or> (\<exists>s. extra = [(ColProjectDir, AStr s)])) \<and>
      (map_of fs ColProjectId \<noteq> None \<longrightarrow> t_dependency_mode cur = DependencyNone \<and> t_depends_on cur = None \<and> FirstTaskDependent i d = None)"
proof -
  from auth obtain dir where dir: "authorize_project d i cur fs = Inr dir"
      "cols = map (\<lambda>(c, j). (c, patch_value v c j)) fs @ (case dir of None \<Rightarrow> [] | Some s \<Rightarrow> [(ColProjectDir, AStr s)])"
    by (auto simp: authorizeTaskPatch_def rbind_eq_Inr)
  have "map_of fs ColProjectId \<noteq> None \<longrightarrow> t_dependency_mode cur = DependencyNone \<and> t_depends_on cur = None \<and> FirstTaskDependent i d = None"
    using dir(1) by (auto simp: authorize_project_def split: option.splits if_splits)
  with dir(2) show ?thesis by (cases dir) auto
qed

lemma map_of_patch_values:
  "c \<noteq> ColProjectDir \<Longrightarrow> extra = [] \<or> (\<exists>s. extra = [(ColProjectDir, AStr s)]) \<Longrightarrow>
     map_of (map (\<lambda>(c, j). (c, patch_value v c j)) fs @ extra) c = map_option (patch_value v c) (map_of fs c)"
proof (induction fs)
  case (Cons x fs)
  then show ?case by (cases x) auto
qed auto

lemma no_dependent: "FirstTaskDependent i d = None \<Longrightarrow> (x, i) \<notin> depends_rel d"
proof
  assume none: "FirstTaskDependent i d = None" and "(x, i) \<in> depends_rel d"
  then obtain t where "t \<in> set (tasks d)" "t_depends_on t = Some i" by (auto simp: depends_rel_def)
  then have "filter (\<lambda>t. t_depends_on t = Some i) (tasks d) \<noteq> []" by (auto simp: filter_empty_conv)
  then have "sort_key (\<lambda>t. (t_created_at t, t_id t)) (filter (\<lambda>t. t_depends_on t = Some i) (tasks d)) \<noteq> []"
    by (metis length_0_conv length_sort)
  with none show False by (auto simp: FirstTaskDependent_def split: list.splits)
qed

lemma admitted_may_move:
  assumes xs: "patch_members patch_column xs = Inr fs" "distinct (map fst xs)" and cur: "get_task i d = Some cur"
    and auth: "authorizeTaskPatch v d i cur fs = Inr cols"
  shows "may_move d i cols" and "\<And>c. c \<in> graph_columns \<Longrightarrow> (map_of cols c = None \<longleftrightarrow> map_of fs c = None)"
proof -
  from authorize_columns [OF auth] obtain extra where
    cols: "cols = map (\<lambda>(c, j). (c, patch_value v c j)) fs @ extra" "extra = [] \<or> (\<exists>s. extra = [(ColProjectDir, AStr s)])"
    and mv: "map_of fs ColProjectId \<noteq> None \<longrightarrow> t_dependency_mode cur = DependencyNone \<and> t_depends_on cur = None \<and> FirstTaskDependent i d = None"
    by blast
  have m: "map_of cols c = map_option (patch_value v c) (map_of fs c)" if "c \<noteq> ColProjectDir" for c
    unfolding cols(1) by (rule map_of_patch_values [OF that cols(2)])
  show "map_of cols c = None \<longleftrightarrow> map_of fs c = None" if "c \<in> graph_columns" for c
    using that m [of c] by (auto simp: graph_columns_def)
  have "map fst (map (\<lambda>(c, j). (c, patch_value v c j)) fs) = map fst fs" by (induction fs) auto
  then have "map fst cols = map fst fs @ map fst extra" by (simp add: cols(1))
  moreover have "ColProjectDir \<notin> set (map fst fs)" using no_project_dir [OF xs(1)] by simp
  moreover have "map fst extra = [] \<or> map fst extra = [ColProjectDir]" using cols(2) by (elim disjE exE) simp_all
  ultimately have "distinct (map fst cols)"
    using patch_members_distinct [OF patch_column_inj xs] by (simp only: distinct_append) (elim disjE; simp)
  then show "may_move d i cols"
    using mv cur no_dependent [of i d] m [of ColProjectId] by (auto simp: may_move_def)
qed


section \<open>A chain of two\<close>

definition demo_patch_env :: patch_env where
  "demo_patch_env = \<lparr>pv_life = demo_life_env, pv_bind = (\<lambda>j. ANil)\<rparr>"

definition life_at :: "db \<Rightarrow> life" where
  "life_at d = \<lparr>l_man = \<lparr>m_db = d, m_ex = no_slots, m_procs = []\<rparr>, l_cancelled = [], l_cleaned = [], l_reset = []\<rparr>"

definition edges :: "db \<Rightarrow> (int \<times> int option) list" where
  "edges d = map (\<lambda>t. (t_id t, t_depends_on t)) (tasks d)"

lemma demo_chain_good: "graph_good demo_chain"
  unfolding graph_good_def
proof (intro conjI)
  show "acyclic (depends_rel demo_chain)"
    unfolding demo_chain_rel by (simp only: acyclic_insert) (simp add: acyclic_def)
  show "project_local demo_chain"
    unfolding project_local_def demo_chain_rel by (simp add: demo_chain_defs get_task_def)
  show "\<forall>t\<in>set (tasks demo_chain). validDependencyMode (t_dependency_mode t)"
    by (simp add: validDependencyMode_def demo_chain_defs)
qed (rule demo_chain_ok demo_chain_pos)+

text \<open>The first task cannot wait for the second, which depends on it; the second can stop waiting.\<close>

lemma demo_patch_cycle:
  "snd (patchTask demo_patch_env 1 ''1'' (Some [(''dependency_mode'', Some (JStr ''strong'')), (''depends_on'', Some (JNum 2))])
     (life_at demo_chain)) = Inl (400, PatchStore (ErrDependencyUpdate MsgCycle))"
  by code_simp


section \<open>Where the requests go wrong\<close>

text \<open>Any number is accepted as the parent, the task's own id too.\<close>

lemma patch_accepts_itself_as_parent:
  "case patchTask demo_patch_env 1 ''1'' (Some [(''parent_id'', Some (JNum 1))]) (life_of [demo_in 1 1 1 StatusQueued]) of
     (l, r) \<Rightarrow> (case r of Inl e \<Rightarrow> False | Inr t \<Rightarrow> t_id t = 1 \<and> t_parent_id t = Some 1)"
  by code_simp

text \<open>
  Whether a task has dependents is read before the statement and is not part of its condition: a
  dependent created in between is left with a target in another project.
\<close>

lemma moved_under_new_dependent:
  "case patch_admit demo_patch_env 1 1 [(ColProjectId, JNum 2)] (demo_project_db [demo_in 1 1 1 StatusQueued]) of
     Inl e \<Rightarrow> False
   | Inr cols \<Rightarrow>
       (case CreateTaskWithProjectDependency ''t1'' ((demo_in 1 0 0 StatusQueued)\<lparr>t_dependency_mode := DependencyStrong, t_depends_on := Some 1\<rparr>)
               (demo_project_db [demo_in 1 1 1 StatusQueued]) of
          Inl e \<Rightarrow> False
        | Inr (d, i) \<Rightarrow>
            (case applyTaskPatch demo_patch_env 1 1 \<lparr>tp_set = [(ColProjectId, JNum 2)], tp_dependency_changed = False, tp_schedule_changed = False\<rparr>
                    cols (life_at d) of
               (l, r) \<Rightarrow> edges (l_db l) = [(1, None), (2, Some 1)] \<and> map t_project_id (tasks (l_db l)) = [Some 2, Some 1]))"
  by code_simp

text \<open>
  A task others wait for becomes a scheduled definition, which is never run itself. Creating a
  dependency on a definition is refused, turning a target into one is not: the dependent waits for ever.
\<close>

lemma target_becomes_definition:
  "case patchTask demo_patch_env 1 ''1'' (Some [(''cron'', Some (JStr ''@daily''))])
       (life_at (demo_project_db [demo_in 1 1 1 StatusQueued,
          (demo_in 1 2 2 StatusQueued)\<lparr>t_dependency_mode := DependencyStrong, t_depends_on := Some 1\<rparr>])) of
     (l, r) \<Rightarrow> map t_id (ListQueuedTasks (l_db l)) = [2] \<and>
       validateDependencyTarget (l_db l) 1 1 = Inl (Err MsgTargetScheduled) \<and>
       list_all (\<lambda>t. case CheckTaskDependency (l_db l) t of Inl e \<Rightarrow> False | Inr c \<Rightarrow> \<not> dc_ready c \<and> \<not> dc_blocked c)
         (ListQueuedTasks (l_db l))"
  by code_simp

end
