(* ===== verification/Catalog.thy ===== *)
theory Catalog
  imports History_Cleanup Task_Patch_Laws Reorder_Laws
begin

text \<open>
  Roles and projects: store/roles.go, store/projects.go and their handlers
  (server/role_handlers.go, server/project_handlers.go). What the runtimes and Git know is in
  \<open>catalog_env\<close>, as is the text \<^verbatim>\<open>fmt.Sprint\<close> makes of a JSON value, the
  configuration that is read back from JSON and what the driver stores for a value of another kind.
  Templates, the directories of skills and the flag \<^verbatim>\<open>is_git\<close> of a listing are left out.
\<close>

section \<open>Roles in the store (roles.go)\<close>

definition ConcurrencyLimit :: "role \<Rightarrow> int" where
  "ConcurrencyLimit a = (if a_max_concurrency a < 1 then 1 else a_max_concurrency a)"

definition scanRole :: "role \<Rightarrow> role" where
  "scanRole a = a\<lparr>a_delegation_max_perm := (if a_delegation_max_perm a = PermOther [] then PermReview else a_delegation_max_perm a),
     a_max_concurrency := ConcurrencyLimit a\<rparr>"

definition ListRoles :: "db \<Rightarrow> role list" where
  "ListRoles d = map scanRole (sort_key a_id (roles d))"

definition GetRole :: "int \<Rightarrow> db \<Rightarrow> role option" where
  "GetRole i d = map_option scanRole (get_role_row i d)"

definition CreateRole :: "string \<Rightarrow> role \<Rightarrow> db \<Rightarrow> store_error + (db \<times> int)" where
  "CreateRole now a d =
     (let i = next_id (role_seq d) (map a_id (roles d));
          created_at = (if a_created_at a = [] then now else a_created_at a);
          row = a\<lparr>a_id := i, a_max_concurrency := ConcurrencyLimit a, a_revision := 1, a_created_at := created_at,
            a_updated_at := (if a_updated_at a = [] then created_at else a_updated_at a)\<rparr> in
      rbind (exec_stmt (d\<lparr>roles := roles d @ [row], role_seq := i\<rparr>)) (\<lambda>d'. Inr (d', i)))"

definition role_busy :: "int \<Rightarrow> db \<Rightarrow> bool" where
  "role_busy i d \<longleftrightarrow> list_ex (\<lambda>t. t_role_id t = Some i \<and>
     t_status t \<in> {StatusQueued, StatusClaimed, StatusRunning, StatusAwaitingReview}) (tasks d)"

definition DeleteRole :: "(int list \<Rightarrow> int list) \<Rightarrow> string \<Rightarrow> int \<Rightarrow> db \<Rightarrow> store_error + db" where
  "DeleteRole scan now i d =
     (if role_busy i d then Inl (Err MsgRoleBusy)
      else rbind (update_tasks (\<lambda>t. t_role_id t = Some i \<and> t_cron t = [])
          (\<lambda>t. t\<lparr>t_role_id := None, t_updated_at := now, t_revision := t_revision t + 1\<rparr>) d) (\<lambda>(d1, _).
        rbind (delete_where scan (\<lambda>t. t_role_id t = Some i \<and> t_cron t \<noteq> []) d1) (\<lambda>(d2, _).
          exec_stmt (d2\<lparr>roles := del_where (\<lambda>a. a_id a = i) (roles d2)\<rparr>))))"

section \<open>Projects in the store (projects.go)\<close>

definition ListProjects :: "db \<Rightarrow> project list" where
  "ListProjects d = sort_key p_id (projects d)"

definition CreateProject :: "string \<Rightarrow> project \<Rightarrow> db \<Rightarrow> store_error + (db \<times> int)" where
  "CreateProject now p d =
     (let i = next_id (project_seq d) (map p_id (projects d));
          created_at = (if p_created_at p = [] then now else p_created_at p);
          row = p\<lparr>p_id := i, p_status := (if p_status p = [] then ''active'' else p_status p), p_revision := 1,
            p_created_at := created_at, p_updated_at := (if p_updated_at p = [] then created_at else p_updated_at p)\<rparr> in
      rbind (exec_stmt (d\<lparr>projects := projects d @ [row], project_seq := i\<rparr>)) (\<lambda>d'. Inr (d', i)))"

text \<open>Two statements without a transaction: the state is returned in any case.\<close>

definition DeleteProject :: "string \<Rightarrow> int \<Rightarrow> db \<Rightarrow> db \<times> (store_error + unit)" where
  "DeleteProject now i d =
     (case update_tasks (\<lambda>t. t_project_id t = Some i)
         (\<lambda>t. t\<lparr>t_project_id := None, t_updated_at := now, t_revision := t_revision t + 1\<rparr>) d of
        Inl e \<Rightarrow> (d, Inl e)
      | Inr (d1, _) \<Rightarrow>
          (case exec_stmt (d1\<lparr>projects := del_where (\<lambda>p. p_id p = i) (projects d1)\<rparr>) of
             Inl e \<Rightarrow> (d1, Inl e)
           | Inr d2 \<Rightarrow> (d2, Inr ())))"

section \<open>Requests about roles (role_handlers.go)\<close>

record catalog_env =
  ct_now :: string
  ct_scan :: "int list \<Rightarrow> int list"
  ct_rng :: "int list \<Rightarrow> int list"
  ct_has :: "string \<Rightarrow> bool"
  ct_remote :: "string \<Rightarrow> string"
  ct_sprint :: "json \<Rightarrow> string"
  ct_config :: "json \<Rightarrow> role_config"
  ct_bind :: "json \<Rightarrow> any"

datatype catalog_msg =
    CatPatch patch_msg | CatNoRoleName | CatUnknownRuntime string | CatBadConcurrency | CatBadDelegation
  | CatBadDelegationFlag | CatNoProjectName | CatNoProject | CatBadStatus string | CatBadGithubRole | CatNotBool column
  | CatStore store_error

type_synonym 'a answer = "(int \<times> catalog_msg) + 'a"

definition of_reply :: "'a reply \<Rightarrow> 'a answer" where
  "of_reply r = (case r of Inl (code, m) \<Rightarrow> Inl (code, CatPatch m) | Inr a \<Rightarrow> Inr a)"

record roleIn =
  ri_name :: string
  ri_description :: string
  ri_runtime_id :: string
  ri_role_config :: role_config
  ri_max_concurrency :: int
  ri_delegation_enabled :: "bool option"
  ri_delegation_max_perm :: string
  ri_enabled :: "bool option"

definition normalizeDelegationMaxPerm :: "string \<Rightarrow> perm" where
  "normalizeDelegationMaxPerm p = (if p = ''full'' then PermFull else PermReview)"

definition validateRole :: "catalog_env \<Rightarrow> roleIn \<Rightarrow> roleIn answer" where
  "validateRole v q =
     (if ri_name q = [] then Inl (400, CatNoRoleName)
      else if \<not> ct_has v (ri_runtime_id q) then Inl (400, CatUnknownRuntime (ri_runtime_id q))
      else let q = (if ri_max_concurrency q = 0 then q\<lparr>ri_max_concurrency := 1\<rparr> else q) in
        if ri_max_concurrency q < 1 then Inl (400, CatBadConcurrency) else Inr q)"

definition role_of_input :: "roleIn \<Rightarrow> role" where
  "role_of_input q =
     \<lparr>a_id = 0, a_name = ri_name q, a_description = ri_description q, a_runtime_id = ri_runtime_id q,
      a_role_config = ri_role_config q, a_max_concurrency = ri_max_concurrency q,
      a_delegation_enabled = (ri_delegation_enabled q = Some True),
      a_delegation_max_perm = normalizeDelegationMaxPerm (ri_delegation_max_perm q),
      a_enabled = (ri_enabled q \<noteq> Some False), a_revision = 0, a_created_at = [], a_updated_at = []\<rparr>"

definition createRole :: "catalog_env \<Rightarrow> roleIn \<Rightarrow> db \<Rightarrow> db \<times> role answer" where
  "createRole v q0 d =
     (case validateRole v q0 of
        Inl e \<Rightarrow> (d, Inl e)
      | Inr q \<Rightarrow>
          (case CreateRole (ct_now v) (role_of_input q) d of
             Inl e \<Rightarrow> (d, Inl (500, CatStore e))
           | Inr (d', i) \<Rightarrow> (case GetRole i d' of None \<Rightarrow> (d', Inl (500, CatStore ErrNoRows)) | Some a \<Rightarrow> (d', Inr a))))"

definition role_column :: "string \<Rightarrow> column option" where
  "role_column = map_of
     [(''name'', ColName), (''description'', ColDescription), (''runtime_id'', ColRuntimeId), (''role_config'', ColRoleConfig),
      (''max_concurrency'', ColMaxConcurrency), (''enabled'', ColEnabled), (''delegation_enabled'', ColDelegationEnabled),
      (''delegation_max_perm'', ColDelegationMaxPerm)]"

text \<open>\<^verbatim>\<open>v.(string)\<close> with the zero value for another kind.\<close>

definition string_or_empty :: "json \<Rightarrow> string" where
  "string_or_empty j = (case j of JStr s \<Rightarrow> s | _ \<Rightarrow> [])"

definition positiveInt :: "json \<Rightarrow> int option" where
  "positiveInt j =
     (case j of
        JNum n \<Rightarrow> if n < 1 \<or> of_int \<lfloor>n\<rfloor> \<noteq> n \<or> n > 9223372036854775808 then None else Some (int64_of n)
      | _ \<Rightarrow> None)"

definition check_role_fields :: "catalog_env \<Rightarrow> json_fields \<Rightarrow> unit answer" where
  "check_role_fields v fs =
     rbind (rguard (case map_of fs ColName of None \<Rightarrow> True | Some j \<Rightarrow> string_or_empty j \<noteq> []) (400, CatNoRoleName)) (\<lambda>_.
     rbind (case map_of fs ColRuntimeId of None \<Rightarrow> Inr ()
            | Some j \<Rightarrow> rguard (string_or_empty j = [] \<or> ct_has v (string_or_empty j)) (400, CatUnknownRuntime (string_or_empty j))) (\<lambda>_.
     rbind (rguard (case map_of fs ColMaxConcurrency of None \<Rightarrow> True | Some j \<Rightarrow> positiveInt j \<noteq> None) (400, CatBadConcurrency)) (\<lambda>_.
     rbind (rguard (case map_of fs ColDelegationMaxPerm of None \<Rightarrow> True
            | Some j \<Rightarrow> string_or_empty j \<in> {[], ''full'', ''review''}) (400, CatBadDelegation)) (\<lambda>_.
       rguard (case map_of fs ColDelegationEnabled of None \<Rightarrow> True | Some j \<Rightarrow> is_bool j) (400, CatBadDelegationFlag)))))"

definition role_value :: "catalog_env \<Rightarrow> column \<Rightarrow> json \<Rightarrow> any" where
  "role_value v c j =
     (if c = ColMaxConcurrency then (case positiveInt j of Some n \<Rightarrow> AInt n | None \<Rightarrow> ANil)
      else if c = ColDelegationMaxPerm then AStr (if string_or_empty j = ''full'' then ''full'' else ''review'')
      else if c = ColRoleConfig then AConfig (ct_config v j)
      else case j of
        JNull \<Rightarrow> ANil
      | JStr s \<Rightarrow> AStr s
      | JBool b \<Rightarrow> if c \<in> {ColEnabled, ColDelegationEnabled} then ABool b else ct_bind v j
      | _ \<Rightarrow> ct_bind v j)"

definition update_answer :: "store_error \<Rightarrow> int \<times> catalog_msg" where
  "update_answer e = (if e = ErrRevisionConflict then 409 else 500, CatStore e)"

definition patchRole :: "catalog_env \<Rightarrow> int \<Rightarrow> string \<Rightarrow> (string \<times> json option) list option \<Rightarrow> db \<Rightarrow> db \<times> role answer" where
  "patchRole v i header raw d =
     (case rbind (of_reply (requiredRevision header)) (\<lambda>revision.
           rbind (of_reply (patchMap role_column raw)) (\<lambda>fs.
           rbind (check_role_fields v fs) (\<lambda>_. Inr (revision, map (\<lambda>(c, j). (c, role_value v c j)) fs)))) of
        Inl e \<Rightarrow> (d, Inl e)
      | Inr (revision, fs) \<Rightarrow>
          (case UpdateAtRevision ResRole i revision fs (ct_now v) d of
             Inl e \<Rightarrow> (d, Inl (update_answer e))
           | Inr d' \<Rightarrow> (case GetRole i d' of None \<Rightarrow> (d', Inl (500, CatStore ErrNoRows)) | Some a \<Rightarrow> (d', Inr a))))"

definition deleteRole :: "catalog_env \<Rightarrow> int \<Rightarrow> string \<Rightarrow> db \<Rightarrow> db \<times> unit answer" where
  "deleteRole v i header d =
     (case of_reply (requiredRevision header) of
        Inl e \<Rightarrow> (d, Inl e)
      | Inr revision \<Rightarrow>
      case AssertRevision ResRole i revision d of
        Inl e \<Rightarrow> (d, Inl (409, CatStore e))
      | Inr _ \<Rightarrow>
      case DeleteRole (ct_scan v) (ct_now v) i d of
        Inl e \<Rightarrow> (d, Inl (400, CatStore e))
      | Inr d' \<Rightarrow> (d', Inr ()))"

section \<open>Requests about projects (project_handlers.go)\<close>

definition createProject :: "catalog_env \<Rightarrow> project \<Rightarrow> db \<Rightarrow> db \<times> project answer" where
  "createProject v q0 d =
     (let q = q0\<lparr>p_name := trim_space (p_name q0)\<rparr> in
      if p_name q = [] then (d, Inl (400, CatNoProjectName))
      else let q = (if trim_space (p_github_repo q) = [] \<and> trim_space (p_project_dir q) \<noteq> [] \<and> ct_remote v (p_project_dir q) \<noteq> []
                    then q\<lparr>p_github_repo := ct_remote v (p_project_dir q)\<rparr> else q) in
        case CreateProject (ct_now v) q d of
          Inl e \<Rightarrow> (d, Inl (500, CatStore e))
        | Inr (d', i) \<Rightarrow> (case get_project i d' of None \<Rightarrow> (d', Inl (500, CatStore ErrNoRows)) | Some p \<Rightarrow> (d', Inr p)))"

definition project_column :: "string \<Rightarrow> column option" where
  "project_column = map_of
     [(''name'', ColName), (''description'', ColDescription), (''status'', ColStatus), (''project_dir'', ColProjectDir),
      (''github_repo'', ColGithubRepo), (''github_role_id'', ColGithubRoleId), (''github_auto_issues'', ColGithubAutoIssues),
      (''github_auto_prs'', ColGithubAutoPrs), (''github_auto_security'', ColGithubAutoSecurity)]"

definition sprint_json :: "catalog_env \<Rightarrow> json \<Rightarrow> string" where
  "sprint_json v j = (case j of JStr s \<Rightarrow> s | JNull \<Rightarrow> ''<nil>'' | _ \<Rightarrow> ct_sprint v j)"

text \<open>The repository a patch that names none is given.\<close>

definition detected_repo :: "catalog_env \<Rightarrow> int \<Rightarrow> json_fields \<Rightarrow> db \<Rightarrow> string answer" where
  "detected_repo v i fs d =
     (if map_of fs ColGithubRepo \<noteq> None then Inr []
      else case get_project i d of
        None \<Rightarrow> Inl (404, CatNoProject)
      | Some cur \<Rightarrow>
          let dir = (case map_of fs ColProjectDir of None \<Rightarrow> p_project_dir cur | Some j \<Rightarrow> sprint_json v j) in
          Inr (if p_github_repo cur = [] \<and> dir \<noteq> [] then ct_remote v dir else []))"

definition check_project_fields :: "catalog_env \<Rightarrow> json_fields \<Rightarrow> unit answer" where
  "check_project_fields v fs =
     rbind (case map_of fs ColStatus of None \<Rightarrow> Inr ()
            | Some j \<Rightarrow> rguard (sprint_json v j \<in> {''active'', ''archived''}) (400, CatBadStatus (sprint_json v j))) (\<lambda>_.
     rbind (rguard (case map_of fs ColGithubRoleId of None \<Rightarrow> True | Some JNull \<Rightarrow> True | Some (JNum n) \<Rightarrow> n > 0 | Some _ \<Rightarrow> False)
         (400, CatBadGithubRole)) (\<lambda>_.
     rbind (rguard (case map_of fs ColGithubAutoIssues of None \<Rightarrow> True | Some j \<Rightarrow> is_bool j) (400, CatNotBool ColGithubAutoIssues)) (\<lambda>_.
     rbind (rguard (case map_of fs ColGithubAutoPrs of None \<Rightarrow> True | Some j \<Rightarrow> is_bool j) (400, CatNotBool ColGithubAutoPrs)) (\<lambda>_.
       rguard (case map_of fs ColGithubAutoSecurity of None \<Rightarrow> True | Some j \<Rightarrow> is_bool j) (400, CatNotBool ColGithubAutoSecurity)))))"

definition project_value :: "catalog_env \<Rightarrow> column \<Rightarrow> json \<Rightarrow> any" where
  "project_value v c j =
     (if c = ColGithubRoleId then (case j of JNum n \<Rightarrow> AInt (int64_of n) | _ \<Rightarrow> ANil)
      else case j of
        JNull \<Rightarrow> ANil
      | JStr s \<Rightarrow> AStr s
      | JBool b \<Rightarrow> if c \<in> {ColGithubAutoIssues, ColGithubAutoPrs, ColGithubAutoSecurity} then ABool b else ct_bind v j
      | _ \<Rightarrow> ct_bind v j)"

definition patchProject :: "catalog_env \<Rightarrow> int \<Rightarrow> string \<Rightarrow> (string \<times> json option) list option \<Rightarrow> db \<Rightarrow> db \<times> project answer" where
  "patchProject v i header raw d =
     (case rbind (of_reply (requiredRevision header)) (\<lambda>revision.
           rbind (of_reply (patchMap project_column raw)) (\<lambda>fs.
           rbind (rguard (case map_of fs ColName of None \<Rightarrow> True | Some j \<Rightarrow> trim_space (sprint_json v j) \<noteq> []) (400, CatNoProjectName)) (\<lambda>_.
           rbind (detected_repo v i fs d) (\<lambda>repo.
           rbind (check_project_fields v fs) (\<lambda>_.
             Inr (revision, map (\<lambda>(c, j). (c, project_value v c j)) fs
               @ (if repo = [] then [] else [(ColGithubRepo, AStr repo)]))))))) of
        Inl e \<Rightarrow> (d, Inl e)
      | Inr (revision, fs) \<Rightarrow>
          (case UpdateAtRevision ResProject i revision fs (ct_now v) d of
             Inl e \<Rightarrow> (d, Inl (update_answer e))
           | Inr d' \<Rightarrow> (case get_project i d' of None \<Rightarrow> (d', Inl (500, CatStore ErrNoRows)) | Some p \<Rightarrow> (d', Inr p))))"

text \<open>The errors whose text names the request are conflicts.\<close>

definition reorderProjectTasks :: "catalog_env \<Rightarrow> int \<Rightarrow> int list \<Rightarrow> int list option \<Rightarrow> db \<Rightarrow> db \<times> task list answer" where
  "reorderProjectTasks v i named order d =
     (if get_project i d = None then (d, Inl (404, CatNoProject))
      else let orderedIDs = (if named = [] then (case order of None \<Rightarrow> named | Some xs \<Rightarrow> xs) else named) in
        case ReorderProjectTasks (ct_rng v) i orderedIDs (ct_now v) d of
          Inl e \<Rightarrow> (d, Inl (if e \<in> {Err MsgReorderIncomplete, Err MsgReorderInvalid, Err MsgReorderCycle} then 409 else 400, CatStore e))
        | Inr d' \<Rightarrow> (d', Inr (ListTasksFiltered \<lparr>tf_role_id = None, tf_project_id = Some i, tf_status = [], tf_type = None, tf_scheduled = None, tf_limit = 0\<rparr> d')))"

definition deleteProject :: "catalog_env \<Rightarrow> int \<Rightarrow> string \<Rightarrow> db \<Rightarrow> db \<times> unit answer" where
  "deleteProject v i header d =
     (case of_reply (requiredRevision header) of
        Inl e \<Rightarrow> (d, Inl e)
      | Inr revision \<Rightarrow>
      case AssertRevision ResProject i revision d of
        Inl e \<Rightarrow> (d, Inl (409, CatStore e))
      | Inr _ \<Rightarrow>
      case DeleteProject (ct_now v) i d of
        (d', Inl e) \<Rightarrow> (d', Inl (500, CatStore e))
      | (d', Inr _) \<Rightarrow> (d', Inr ()))"

end
