(* ===== verification/Catalog_Laws.thy ===== *)
theory Catalog_Laws
  imports Catalog
begin

text \<open>
  What requests about roles and projects keep: the roles stay usable and no task that is not
  finished loses its role, its place or its work.
\<close>

section \<open>Any sequence of requests\<close>

datatype catalog_op =
    AddRole roleIn
  | EditRole int string "(string \<times> json option) list option"
  | DropRole int string
  | AddProject project
  | EditProject int string "(string \<times> json option) list option"
  | DropProject int string

fun catalog_do :: "catalog_env \<Rightarrow> catalog_op \<Rightarrow> db \<Rightarrow> db" where
  "catalog_do v (AddRole q) d = fst (createRole v q d)"
| "catalog_do v (EditRole i h raw) d = fst (patchRole v i h raw d)"
| "catalog_do v (DropRole i h) d = fst (deleteRole v i h d)"
| "catalog_do v (AddProject q) d = fst (createProject v q d)"
| "catalog_do v (EditProject i h raw) d = fst (patchProject v i h raw d)"
| "catalog_do v (DropProject i h) d = fst (deleteProject v i h d)"

text \<open>A role that can be chosen and shown, and the tasks that still need theirs.\<close>

definition role_valid :: "role \<Rightarrow> bool" where
  "role_valid a \<longleftrightarrow> a_name a \<noteq> [] \<and> 1 \<le> a_max_concurrency a \<and> a_delegation_max_perm a \<in> {PermFull, PermReview}"

definition unfinished :: "task \<Rightarrow> bool" where
  "unfinished t \<longleftrightarrow> t_status t \<in> {StatusQueued, StatusClaimed, StatusRunning, StatusAwaitingReview}"

definition same_work :: "task \<Rightarrow> task \<Rightarrow> bool" where
  "same_work t t' \<longleftrightarrow> t_id t' = t_id t \<and> t_status t' = t_status t \<and> t_role_id t' = t_role_id t \<and> t_perm t' = t_perm t \<and>
     t_title t' = t_title t \<and> t_body t' = t_body t \<and> t_depends_on t' = t_depends_on t \<and> t_dependency_mode t' = t_dependency_mode t"

definition keeps_work :: "db \<Rightarrow> db \<Rightarrow> bool" where
  "keeps_work d d' \<longleftrightarrow> (\<forall>t\<in>set (tasks d). unfinished t \<longrightarrow> (\<exists>t'\<in>set (tasks d'). same_work t t'))"

lemma keeps_work_refl [simp]: "keeps_work d d"
  by (auto simp: keeps_work_def same_work_def)

lemma keeps_work_same: "tasks d' = tasks d \<Longrightarrow> keeps_work d d'"
  by (auto simp: keeps_work_def same_work_def)

lemma keeps_work_trans: "keeps_work a b \<Longrightarrow> keeps_work b c \<Longrightarrow> keeps_work a c"
proof -
  assume ab: "keeps_work a b" and bc: "keeps_work b c"
  have "\<exists>u\<in>set (tasks c). same_work t u" if t: "t \<in> set (tasks a)" "unfinished t" for t
  proof -
    from ab t obtain t' where t': "t' \<in> set (tasks b)" "same_work t t'" by (auto simp: keeps_work_def)
    then have "unfinished t'" using t(2) by (simp add: same_work_def unfinished_def)
    with bc t'(1) obtain u where "u \<in> set (tasks c)" "same_work t' u" by (auto simp: keeps_work_def)
    with t'(2) show ?thesis by (intro bexI [of _ u]) (simp_all add: same_work_def)
  qed
  then show ?thesis by (simp add: keeps_work_def)
qed

text \<open>One step of the catalog keeps the schema, the roles and the work.\<close>

definition catalog_step :: "db \<Rightarrow> db \<Rightarrow> bool" where
  "catalog_step d d' \<longleftrightarrow> schema_ok d' \<and> (list_all role_valid (roles d) \<longrightarrow> list_all role_valid (roles d')) \<and> keeps_work d d'"

lemma catalog_step_refl: "schema_ok d \<Longrightarrow> catalog_step d d"
  by (simp add: catalog_step_def)

lemma createRole_step: "schema_ok d \<Longrightarrow> catalog_step d (fst (createRole v q d))"
proof -
  assume good: "schema_ok d"
  have new: "catalog_step d d'"
    if "CreateRole (ct_now v) (role_of_input q') d = Inr (d', i)" "validateRole v q = Inr q'" for d' i q'
    using that by (auto simp: CreateRole_def Let_def rbind_eq_Inr exec_stmt_Inr catalog_step_def keeps_work_same role_valid_def
        role_of_input_def ConcurrencyLimit_def normalizeDelegationMaxPerm_def validateRole_def list_all_iff split: if_splits)
  show ?thesis
    using good new by (auto simp: createRole_def catalog_step_refl split: sum.splits option.splits)
qed

text \<open>The fields of a patch that the checks let through.\<close>

definition role_field_ok :: "column \<times> any \<Rightarrow> bool" where
  "role_field_ok x \<longleftrightarrow> (case x of (c, a) \<Rightarrow>
     (c = ColName \<longrightarrow> (\<exists>s. a = AStr s \<and> s \<noteq> [])) \<and>
     (c = ColDelegationMaxPerm \<longrightarrow> a = AStr ''full'' \<or> a = AStr ''review''))"

lemma set_role_col_valid:
  "set_role_col c a r = Some r' \<Longrightarrow> role_field_ok (c, a) \<Longrightarrow> a_name r \<noteq> [] \<and> a_delegation_max_perm r \<in> {PermFull, PermReview} \<Longrightarrow>
     a_name r' \<noteq> [] \<and> a_delegation_max_perm r' \<in> {PermFull, PermReview}"
  unfolding set_role_col_def col_defs role_field_ok_def
  by (cases c) (auto simp: perm_of_def split: any.splits)

lemma set_role_cols_valid:
  "set_cols set_role_col fs r = Some r' \<Longrightarrow> \<forall>x\<in>set fs. role_field_ok x \<Longrightarrow>
     a_name r \<noteq> [] \<and> a_delegation_max_perm r \<in> {PermFull, PermReview} \<Longrightarrow>
     a_name r' \<noteq> [] \<and> a_delegation_max_perm r' \<in> {PermFull, PermReview}"
proof (induction fs arbitrary: r)
  case (Cons x fs)
  obtain c a where x: "x = (c, a)" by (cases x)
  with Cons.prems(1) obtain u where u: "set_role_col c a r = Some u" "set_cols set_role_col fs u = Some r'"
    by (auto split: option.splits)
  have f: "role_field_ok (c, a)" "\<forall>x\<in>set fs. role_field_ok x" using Cons.prems(2) x by simp_all
  show ?case by (rule Cons.IH [OF u(2) f(2) set_role_col_valid [OF u(1) f(1) Cons.prems(3)]])
qed simp

lemma role_column_inj: "role_column k = Some c \<Longrightarrow> role_column k' = Some c \<Longrightarrow> k = k'"
  by (auto simp: role_column_def split: if_splits)

lemma checked_role_fields:
  assumes "check_role_fields v fs = Inr ()" and dist: "distinct (map fst fs)" and x: "(c, j) \<in> set fs"
  shows "role_field_ok (c, role_value v c j)"
proof -
  have m: "map_of fs c = Some j" using dist x by simp
  show ?thesis
    using assms(1) m by (cases "c = ColName"; cases j)
      (auto simp: check_role_fields_def role_field_ok_def role_value_def string_or_empty_def rbind_eq_Inr rguard_eq_Inr)
qed

lemma edit_rows_mem:
  assumes "edit_rows p f table = Some table'" and "r' \<in> set table'"
  shows "r' \<in> set table \<or> (\<exists>r\<in>set table. f r = Some r')"
proof -
  have all: "list_all (\<lambda>r. p r \<longrightarrow> f r \<noteq> None) table" and table': "table' = upd_where p (\<lambda>r. the (f r)) table"
    using assms(1) by (auto simp: edit_rows_def split: if_splits)
  from assms(2) obtain r where r: "r \<in> set table" "r' = (if p r then the (f r) else r)" by (auto simp: table' upd_where_def)
  show ?thesis
  proof (cases "p r")
    case True
    with all r(1) obtain y where "f r = Some y" by (auto simp: list_all_iff)
    with r True show ?thesis by auto
  qed (use r in simp)
qed

lemma UpdateAtRevision_role:
  assumes "UpdateAtRevision ResRole i e fs now d = Inr d'"
  shows "\<exists>as. d' = d\<lparr>roles := as\<rparr> \<and> schema_ok d' \<and>
    (\<forall>a'\<in>set as. a' \<in> set (roles d) \<or> (\<exists>a\<in>set (roles d). edit_role fs now a = Some a'))"
proof -
  from assms obtain as where as: "edit_rows (\<lambda>a. a_id a = i \<and> a_revision a = e) (edit_role fs now) (roles d) = Some as"
    "d' = d\<lparr>roles := as\<rparr>" "schema_ok d'"
    by (auto simp: UpdateAtRevision_def Let_def rbind_eq_Inr exec_stmt_Inr split: if_splits option.splits)
  have "\<forall>a'\<in>set as. a' \<in> set (roles d) \<or> (\<exists>a\<in>set (roles d). edit_role fs now a = Some a')"
    using edit_rows_mem [OF as(1)] by blast
  with as(2,3) show ?thesis by blast
qed

lemma schema_ok_limits: "schema_ok d \<Longrightarrow> a \<in> set (roles d) \<Longrightarrow> 1 \<le> a_max_concurrency a"
  by (auto simp: schema_ok_def others_ok_def list_all_iff)

lemma patchRole_step:
  assumes good: "schema_ok d" and keys: "\<And>xs. raw = Some xs \<Longrightarrow> distinct (map fst xs)"
  shows "catalog_step d (fst (patchRole v i h raw d))"
proof (cases "fst (patchRole v i h raw d) = d")
  case True
  with good show ?thesis by (simp add: catalog_step_refl)
next
  case False
  then obtain e xs fs d' where parse: "raw = Some xs" "patch_members role_column xs = Inr fs" "check_role_fields v fs = Inr ()"
    and upd: "UpdateAtRevision ResRole i e (map (\<lambda>(c, j). (c, role_value v c j)) fs) (ct_now v) d = Inr d'"
    and d': "fst (patchRole v i h raw d) = d'"
    by (auto simp: patchRole_def of_reply_def patchMap_def rbind_def split: sum.splits option.splits if_splits)
  let ?fs = "map (\<lambda>(c, j). (c, role_value v c j)) fs"
  have dist: "distinct (map fst fs)" by (rule patch_members_distinct [OF role_column_inj parse(2) keys [OF parse(1)]])
  have f: "\<forall>x\<in>set ?fs. role_field_ok x" using checked_role_fields [OF parse(3) dist] by auto
  from UpdateAtRevision_role [OF upd] obtain as where as: "d' = d\<lparr>roles := as\<rparr>" "schema_ok d'"
    "\<forall>a'\<in>set as. a' \<in> set (roles d) \<or> (\<exists>a\<in>set (roles d). edit_role ?fs (ct_now v) a = Some a')" by blast
  have "role_valid a'" if all: "list_all role_valid (roles d)" and a': "a' \<in> set (roles d')" for a'
  proof -
    from a' as(1,3) consider "a' \<in> set (roles d)" | a where "a \<in> set (roles d)" "edit_role ?fs (ct_now v) a = Some a'" by auto
    then show ?thesis
    proof cases
      case 1
      with all show ?thesis by (simp add: list_all_iff)
    next
      case 2
      then obtain u where u: "set_cols set_role_col ?fs a = Some u" "a_name a' = a_name u" "a_delegation_max_perm a' = a_delegation_max_perm u"
        by (auto simp: edit_role_def)
      have "role_valid a" using all 2(1) by (simp add: list_all_iff)
      with set_role_cols_valid [OF u(1) f] u(2,3) schema_ok_limits [OF as(2) a'] show ?thesis by (simp add: role_valid_def)
    qed
  qed
  with as(1,2) show ?thesis by (simp add: d' catalog_step_def keeps_work_same list_all_iff)
qed

lemma UpdateAtRevision_project:
  "UpdateAtRevision ResProject i e fs now d = Inr d' \<Longrightarrow> schema_ok d' \<and> roles d' = roles d \<and> tasks d' = tasks d"
  by (auto simp: UpdateAtRevision_def Let_def rbind_eq_Inr exec_stmt_Inr split: if_splits option.splits)

lemma patchProject_step: "schema_ok d \<Longrightarrow> catalog_step d (fst (patchProject v i h raw d))"
proof -
  assume good: "schema_ok d"
  have upd: "catalog_step d d'" if "UpdateAtRevision ResProject i e fs (ct_now v) d = Inr d'" for e fs d'
    using UpdateAtRevision_project [OF that] by (simp add: catalog_step_def keeps_work_same)
  show ?thesis
    using good upd by (auto simp: patchProject_def catalog_step_refl split: sum.splits option.splits)
qed

lemma createProject_step: "schema_ok d \<Longrightarrow> catalog_step d (fst (createProject v q d))"
proof -
  assume good: "schema_ok d"
  have new: "catalog_step d d'" if "CreateProject (ct_now v) p d = Inr (d', i)" for p d' i
    using that by (auto simp: CreateProject_def Let_def rbind_eq_Inr exec_stmt_Inr catalog_step_def keeps_work_same)
  show ?thesis
    using good new by (auto simp: createProject_def Let_def catalog_step_refl split: sum.splits option.splits)
qed

section \<open>Deletions\<close>

lemma update_keeps_work:
  assumes "update_tasks p f d = Inr (d', n)" and "\<And>t. t \<in> set (tasks d) \<Longrightarrow> p t \<Longrightarrow> unfinished t \<Longrightarrow> same_work t (f t)"
  shows "schema_ok d' \<and> roles d' = roles d \<and> runs d' = runs d \<and> keeps_work d d'"
proof -
  have d': "d' = d\<lparr>tasks := upd_where p f (tasks d)\<rparr>" "schema_ok d'" using assms(1) by (auto simp: update_tasks_Inr)
  have "\<exists>t'\<in>set (tasks d'). same_work t t'" if t: "t \<in> set (tasks d)" "unfinished t" for t
  proof (rule bexI [of _ "if p t then f t else t"])
    show "same_work t (if p t then f t else t)" using assms(2) [OF t(1) _ t(2)] by (simp add: same_work_def)
    show "(if p t then f t else t) \<in> set (tasks d')" using t(1) by (auto simp: d'(1) upd_where_def)
  qed
  with d' show ?thesis by (simp add: keeps_work_def)
qed

lemma delete_where_Inr:
  assumes "delete_where scan p d = Inr (d', n)"
  shows "schema_ok d' \<and> roles d' = roles d \<and> projects d' = projects d \<and> tasks d' = filter (\<lambda>t. \<not> p t) (tasks d)"
  using assms by (auto simp: delete_where_def Let_def rbind_eq_Inr exec_stmt_Inr del_where_def split: option.splits)

lemma DeleteRole_Inr:
  assumes good: "schema_ok d" and run: "DeleteRole scan now i d = Inr d'"
  shows "schema_ok d' \<and> roles d' = filter (\<lambda>a. a_id a \<noteq> i) (roles d) \<and> \<not> role_busy i d \<and> keeps_work d d'"
proof -
  from run obtain d1 n1 d2 n2 where free: "\<not> role_busy i d"
    and one: "update_tasks (\<lambda>t. t_role_id t = Some i \<and> t_cron t = [])
        (\<lambda>t. t\<lparr>t_role_id := None, t_updated_at := now, t_revision := t_revision t + 1\<rparr>) d = Inr (d1, n1)"
    and two: "delete_where scan (\<lambda>t. t_role_id t = Some i \<and> t_cron t \<noteq> []) d1 = Inr (d2, n2)"
    and three: "exec_stmt (d2\<lparr>roles := del_where (\<lambda>a. a_id a = i) (roles d2)\<rparr>) = Inr d'"
    by (auto simp: DeleteRole_def rbind_eq_Inr split: if_splits)
  have idle: "t_role_id t \<noteq> Some i" if "t \<in> set (tasks d)" "unfinished t" for t
    using free that by (auto simp: role_busy_def unfinished_def list_ex_iff)
  have k1: "keeps_work d d1" and r1: "roles d1 = roles d" using update_keeps_work [OF one] idle by auto
  have rows: "\<exists>u\<in>set (tasks d2). same_work t u" if t: "t \<in> set (tasks d)" "unfinished t" for t
  proof -
    from k1 t obtain t' where t': "t' \<in> set (tasks d1)" "same_work t t'" by (auto simp: keeps_work_def)
    then have "t_role_id t' \<noteq> Some i" using idle [OF t] by (simp add: same_work_def)
    with t' delete_where_Inr [OF two] show ?thesis by auto
  qed
  have "schema_ok d'" "tasks d' = tasks d2" "roles d' = filter (\<lambda>a. a_id a \<noteq> i) (roles d)"
    using three delete_where_Inr [OF two] r1 by (auto simp: exec_stmt_Inr del_where_def)
  with free rows show ?thesis by (simp add: keeps_work_def)
qed

lemma deleteRole_step: "schema_ok d \<Longrightarrow> catalog_step d (fst (deleteRole v i h d))"
proof -
  assume good: "schema_ok d"
  have del: "catalog_step d d'" if "DeleteRole (ct_scan v) (ct_now v) i d = Inr d'" for d'
    using DeleteRole_Inr [OF good that] by (auto simp: catalog_step_def list_all_iff)
  show ?thesis
    using good del by (auto simp: deleteRole_def catalog_step_refl split: sum.splits)
qed

lemma deleteProject_step: "schema_ok d \<Longrightarrow> catalog_step d (fst (deleteProject v i h d))"
proof -
  assume good: "schema_ok d"
  have del: "catalog_step d (fst (DeleteProject (ct_now v) i d))"
  proof (cases "update_tasks (\<lambda>t. t_project_id t = Some i)
         (\<lambda>t. t\<lparr>t_project_id := None, t_updated_at := ct_now v, t_revision := t_revision t + 1\<rparr>) d")
    case (Inl e)
    with good show ?thesis by (simp add: DeleteProject_def catalog_step_refl)
  next
    case (Inr x)
    then obtain d1 n where one: "update_tasks (\<lambda>t. t_project_id t = Some i)
         (\<lambda>t. t\<lparr>t_project_id := None, t_updated_at := ct_now v, t_revision := t_revision t + 1\<rparr>) d = Inr (d1, n)" by (cases x) simp
    have s1: "catalog_step d d1" using update_keeps_work [OF one] by (simp add: same_work_def catalog_step_def)
    then show ?thesis
      by (auto simp: DeleteProject_def one catalog_step_def exec_stmt_def keeps_work_def)
  qed
  show ?thesis
  proof (cases "fst (deleteProject v i h d) = d")
    case True
    with good show ?thesis by (simp add: catalog_step_refl)
  next
    case False
    then have "fst (deleteProject v i h d) = fst (DeleteProject (ct_now v) i d)"
      by (auto simp: deleteProject_def split: sum.splits prod.splits)
    with del show ?thesis by simp
  qed
qed

section \<open>Any sequence of requests\<close>

fun well_keyed :: "catalog_op \<Rightarrow> bool" where
  "well_keyed (EditRole i h (Some xs)) = distinct (map fst xs)"
| "well_keyed _ = True"

lemma catalog_do_step: "schema_ok d \<Longrightarrow> well_keyed op \<Longrightarrow> catalog_step d (catalog_do v op d)"
  by (cases op) (auto intro: createRole_step patchRole_step deleteRole_step createProject_step patchProject_step deleteProject_step)


section \<open>A busy role\<close>

definition demo_catalog_env :: catalog_env where
  "demo_catalog_env = \<lparr>ct_now = ''t1'', ct_scan = (\<lambda>ids. ids), ct_rng = (\<lambda>xs. xs), ct_has = (\<lambda>r. r \<in> {''pi'', ''dsh''}),
     ct_remote = (\<lambda>d. []), ct_sprint = (\<lambda>j. ''?''), ct_config = (\<lambda>j. demo_config), ct_bind = (\<lambda>j. ANil)\<rparr>"

definition demo_role_input :: roleIn where
  "demo_role_input = \<lparr>ri_name = ''coder'', ri_description = [], ri_runtime_id = ''dsh'', ri_role_config = demo_config,
     ri_max_concurrency = 0, ri_delegation_enabled = None, ri_delegation_max_perm = ''all'', ri_enabled = None\<rparr>"

definition demo_catalog_ops :: "catalog_op list" where
  "demo_catalog_ops = [AddRole demo_role_input, EditRole 2 ''1'' (Some [(''max_concurrency'', Some (JNum 3))]),
     DropRole 1 ''1'', DropRole 2 ''2'', DropProject 1 ''1'']"


section \<open>Where it goes wrong\<close>

text \<open>
  The comment of \<^verbatim>\<open>DeleteRole\<close> says that scheduled definitions are deleted with their role.
  A scheduled task is queued and counts as unfinished: its role cannot be deleted.
\<close>

lemma scheduled_role_undeletable:
  "DeleteRole (\<lambda>ids. ids) ''t1'' 1 (demo_project_db [(demo_in 1 1 1 StatusQueued)\<lparr>t_cron := ''@daily''\<rparr>]) = Inl (Err MsgRoleBusy)"
  by code_simp

text \<open>An active session does not count: it is left without a role.\<close>

lemma active_session_loses_role:
  "case DeleteRole (\<lambda>ids. ids) ''t1'' 1 (demo_project_db [(demo_in 1 0 1 SessionStatusActive)\<lparr>t_type := TaskTypeSession\<rparr>]) of
     Inl e \<Rightarrow> False | Inr d \<Rightarrow> map (\<lambda>t. (t_status t, t_role_id t)) (tasks d) = [(SessionStatusActive, None)] \<and> roles d = []"
  by code_simp

text \<open>
  The two statements of a deletion are no transaction: a project with a run is refused, and its
  tasks have lost it all the same.
\<close>

lemma refused_project_deletion_detaches:
  "case deleteProject demo_catalog_env 1 ''1'' ((demo_project_db [demo_in 1 1 1 StatusQueued, (demo_in 1 0 2 WorkflowStatusAdopted)\<lparr>t_type := TaskTypeWorkflow\<rparr>])
       \<lparr>runs := [\<lparr>r_id = 1, r_workflow_id = 2, r_project_id = 1, r_task = [], r_status = RunStatusSucceeded, r_task_ids = [],
          r_revision = 1, r_created_at = ''t0'', r_started_at = None, r_finished_at = None, r_updated_at = ''t0''\<rparr>], run_seq := 1\<rparr>) of
     (d, r) \<Rightarrow> r = Inl (500, CatStore ErrConstraint) \<and> map t_project_id (tasks d) = [None, None] \<and> map p_id (projects d) = [1, 2]"
  by code_simp

text \<open>Only a runtime that is named is checked: an edit may leave a role without one.\<close>

lemma role_without_runtime:
  "case patchRole demo_catalog_env 1 ''1'' (Some [(''runtime_id'', Some (JStr []))]) (demo_project_db []) of
     (d, r) \<Rightarrow> map a_runtime_id (roles d) = [[]] \<and> \<not> ct_has demo_catalog_env []"
  by code_simp

end
