(* ===== verification/Spec2Isabelle.thy ===== *)
theory Spec2Isabelle
  imports Delete_Laws Reorder_Laws Store_Merge Workflow_Laws Exec_Recovery Exec_Wait Tmux_Shell Store_Logs Server_Events Server_Idempotency Lifecycle_Effects Orchestrator_Http Workflow_Monitor
    Scheduler_Laws Catalog_Laws
begin

text \<open>
  A verification library for paihuo, a server that queues, runs, reviews and merges the work
  of coding agents. The Go sources are under \<^verbatim>\<open>src/internal\<close>.
\<close>

end
